(* ===== verification/Prelude.thy ===== *)
theory Prelude
  imports Main "HOL-Library.Word" "HOL-Library.Sublist"
begin

text \<open>
  Shared material of the development: the machine integers of the program, the result type
  that carries a Rust panic or error return, loops whose body can fail, the little-endian
  byte order of the wire protocols, and decimal and hexadecimal number formatting as
  \<^verbatim>\<open>format!\<close> does it. Nothing here is specific to one component.
\<close>

unbundle bit_operations_syntax

named_theorems res_simps \<open>computation rules for results\<close>

subsection \<open>Machine integers\<close>

text \<open>
  Rust's fixed-width integers are words. \<^verbatim>\<open>i32\<close> and \<^verbatim>\<open>i64\<close> are words too, read with
  \<open>sint\<close>. \<^verbatim>\<open>usize\<close> counts and indices are \<open>nat\<close>: the program only forms them from
  lengths of lists it holds in memory.
\<close>

type_synonym u8 = "8 word"
type_synonym u16 = "16 word"
type_synonym u32 = "32 word"
type_synonym u64 = "64 word"
type_synonym i32 = "32 word"
type_synonym i64 = "64 word"
type_synonym usize = nat

lemma unat_of_nat_small: "n < 2 ^ LENGTH('w) \<Longrightarrow> unat (of_nat n :: 'w::len word) = n"
  by (simp add: unsigned_of_nat take_bit_nat_eq_self)

subsection \<open>Results\<close>

text \<open>
  \<open>Inl e\<close> is a panic or an error return, \<open>Inr x\<close> a normal return. \<open>and_then\<close>
  sequences two steps as statement order, \<^verbatim>\<open>?\<close> and \<^verbatim>\<open>unwrap\<close> do: the first failure ends
  the whole computation.
\<close>

fun and_then :: "'e + 'a \<Rightarrow> ('a \<Rightarrow> 'e + 'b) \<Rightarrow> 'e + 'b" where
  "and_then (Inl e) f = Inl e"
| "and_then (Inr x) f = f x"

lemma and_then_eq_Inr [res_simps]:
  "and_then m f = Inr y \<longleftrightarrow> (\<exists>x. m = Inr x \<and> f x = Inr y)"
  by (cases m) auto

lemma and_then_eq_Inl [res_simps]:
  "and_then m f = Inl e \<longleftrightarrow> m = Inl e \<or> (\<exists>x. m = Inr x \<and> f x = Inl e)"
  by (cases m) auto

lemma and_then_assoc: "and_then (and_then m f) g = and_then m (\<lambda>x. and_then (f x) g)"
  by (cases m) auto

text \<open>A \<^verbatim>\<open>for\<close> loop whose body updates a state and can fail.\<close>

fun for_each_res :: "('a \<Rightarrow> 's \<Rightarrow> 'e + 's) \<Rightarrow> 'a list \<Rightarrow> 's \<Rightarrow> 'e + 's" where
  "for_each_res f [] s = Inr s"
| "for_each_res f (x # xs) s = and_then (f x s) (for_each_res f xs)"

lemma for_each_res_append:
  "for_each_res f (xs @ ys) s = and_then (for_each_res f xs s) (for_each_res f ys)"
proof (induction xs arbitrary: s)
  case Nil
  show ?case by simp
next
  case (Cons x xs)
  then show ?case by (cases "f x s") simp_all
qed

text \<open>An invariant of the body is an invariant of the loop.\<close>

lemma for_each_res_inv:
  assumes "for_each_res f xs s = Inr t" and "P s"
    and "\<And>x s s'. x \<in> set xs \<Longrightarrow> f x s = Inr s' \<Longrightarrow> P s \<Longrightarrow> P s'"
  shows "P t"
  using assms
proof (induction xs arbitrary: s)
  case Nil
  then show ?case by simp
next
  case (Cons x xs)
  from Cons.prems(1) obtain u where u: "f x s = Inr u" "for_each_res f xs u = Inr t"
    by (auto simp: res_simps)
  from u(1) Cons.prems(2,3) have "P u" by (meson list.set_intros(1))
  with u(2) show ?case using Cons.prems(3) by (intro Cons.IH) (auto intro: Cons.prems(3))
qed

text \<open>The loop ends normally when its body does, under an invariant.\<close>

lemma for_each_res_ok:
  assumes "P s"
    and "\<And>x s. x \<in> set xs \<Longrightarrow> P s \<Longrightarrow> \<exists>s'. f x s = Inr s' \<and> P s'"
  shows "\<exists>t. for_each_res f xs s = Inr t \<and> P t"
  using assms
proof (induction xs arbitrary: s)
  case Nil
  then show ?case by simp
next
  case (Cons x xs)
  from Cons.prems obtain u where u: "f x s = Inr u" "P u"
    by (meson list.set_intros(1))
  from u(2) have "\<exists>t. for_each_res f xs u = Inr t \<and> P t"
    by (rule Cons.IH) (auto intro: Cons.prems(2))
  with u(1) show ?case by simp
qed

subsection \<open>Vectors\<close>

text \<open>\<^verbatim>\<open>iter().position(|x| p(x))\<close>: the index of the first element that satisfies \<open>p\<close>.\<close>

fun position :: "('a \<Rightarrow> bool) \<Rightarrow> 'a list \<Rightarrow> usize option" where
  "position p [] = None"
| "position p (x # xs) = (if p x then Some 0 else map_option Suc (position p xs))"

lemma position_Some:
  "position p xs = Some i \<Longrightarrow> i < length xs \<and> p (xs ! i) \<and> (\<forall>j<i. \<not> p (xs ! j))"
proof (induction xs arbitrary: i)
  case Nil
  then show ?case by simp
next
  case (Cons x xs)
  show ?case
  proof (cases "p x")
    case True
    with Cons.prems show ?thesis by simp
  next
    case False
    with Cons.prems obtain k where k: "position p xs = Some k" "i = Suc k" by auto
    from Cons.IH [OF k(1)] k(2) False show ?thesis
      by (auto simp: nth_Cons split: nat.splits)
  qed
qed

lemma position_None: "position p xs = None \<longleftrightarrow> (\<forall>x\<in>set xs. \<not> p x)"
  by (induction xs) auto

text \<open>
  \<^verbatim>\<open>Vec::swap_remove(i)\<close>: the element at \<open>i\<close> is replaced by the last one. Rust panics
  when \<open>i\<close> is out of range; every caller has the index from \<^verbatim>\<open>position\<close>.
\<close>

definition swap_remove :: "usize \<Rightarrow> 'a list \<Rightarrow> 'a list" where
  "swap_remove i xs = butlast (xs[i := last xs])"

lemma swap_remove_split:
  "swap_remove (length ys) (ys @ x # zs) =
     (if zs = [] then ys else ys @ last zs # butlast zs)"
  by (simp add: swap_remove_def butlast_append)

lemma swap_remove_set:
  assumes "distinct xs" and "i < length xs"
  shows "set (swap_remove i xs) = set xs - {xs ! i}" and "distinct (swap_remove i xs)"
proof -
  obtain ys zs where xs: "xs = ys @ xs ! i # zs" and i: "i = length ys"
    using assms(2) by (metis id_take_nth_drop length_take min.absorb4)
  have sr: "swap_remove i xs = (if zs = [] then ys else ys @ last zs # butlast zs)"
    using swap_remove_split [of ys "xs ! i" zs] xs i by metis
  have zs: "set (last zs # butlast zs) = set zs \<and> (distinct zs \<longrightarrow> distinct (last zs # butlast zs))"
    if "zs \<noteq> []"
  proof -
    obtain us u where "zs = us @ [u]" using \<open>zs \<noteq> []\<close> by (cases zs rule: rev_cases) auto
    then show ?thesis by auto
  qed
  have d: "distinct (ys @ xs ! i # zs)" using assms(1) xs by metis
  have s: "set xs = set (ys @ xs ! i # zs)" using xs by metis
  show "set (swap_remove i xs) = set xs - {xs ! i}"
    unfolding sr s using d zs by (cases "zs = []") auto
  show "distinct (swap_remove i xs)"
    unfolding sr using d zs by (cases "zs = []") auto
qed

subsection \<open>Association lists and enumerations\<close>

lemma distinct_snd_unique:
  assumes "distinct (map snd xs)" and "(a, k) \<in> set xs" and "(b, k) \<in> set xs"
  shows "a = b"
proof -
  from assms(1) have "inj_on snd (set xs)" by (simp add: distinct_map)
  from inj_onD [OF this _ assms(2,3)] show ?thesis by simp
qed

text \<open>The indices of the elements an \<^verbatim>\<open>enumerate().filter(..)\<close> keeps ascend.\<close>

lemma sorted_filter_enumerate: "sorted_wrt (<) (map fst (filter P (enumerate n xs)))"
proof -
  have "sorted_wrt (<) (map fst (enumerate n xs))" by simp
  then have "sorted_wrt (\<lambda>x y. fst x < fst y) (enumerate n xs)"
    unfolding sorted_wrt_map .
  then have "sorted_wrt (\<lambda>x y. fst x < fst y) (filter P (enumerate n xs))"
    by (rule sorted_wrt_filter)
  then show ?thesis unfolding sorted_wrt_map .
qed

end
