(* ===== verification/Bytes.thy ===== *)
theory Bytes
  imports Prelude
begin

text \<open>
  Little-endian bytes of 32-bit integers (\<^verbatim>\<open>put_i32_le\<close>, \<^verbatim>\<open>get_i32_le\<close>) and the text form of
  numbers: \<^verbatim>\<open>{}\<close> and \<^verbatim>\<open>{:04x}\<close> of \<^verbatim>\<open>format!\<close>, and \<^verbatim>\<open>from_str_radix\<close> of the standard
  library, with the round trips between them.
\<close>

subsection \<open>Little-endian bytes\<close>

definition put_i32_le :: "i32 \<Rightarrow> u8 list" where
  "put_i32_le x = [ucast x, ucast (drop_bit 8 x), ucast (drop_bit 16 x), ucast (drop_bit 24 x)]"

text \<open>\<^verbatim>\<open>get_i32_le\<close> panics on fewer than four bytes: \<open>None\<close>.\<close>

fun get_i32_le :: "u8 list \<Rightarrow> (i32 \<times> u8 list) option" where
  "get_i32_le (b0 # b1 # b2 # b3 # bs) =
     Some (ucast b0 OR push_bit 8 (ucast b1) OR push_bit 16 (ucast b2) OR push_bit 24 (ucast b3), bs)"
| "get_i32_le _ = None"

lemma length_put_i32_le [simp]: "length (put_i32_le x) = 4"
  by (simp add: put_i32_le_def)

lemma bytes_of_word32:
  fixes x :: "32 word"
  shows "ucast (ucast x :: u8) OR push_bit 8 (ucast (ucast (drop_bit 8 x) :: u8))
           OR push_bit 16 (ucast (ucast (drop_bit 16 x) :: u8))
           OR push_bit 24 (ucast (ucast (drop_bit 24 x) :: u8)) = x"
    (is "?l = x")
proof (rule bit_word_eqI)
  fix n :: nat
  assume "n < LENGTH(32)"
  then have n: "n < 32" by simp
  consider "n < 8" | "8 \<le> n \<and> n < 16" | "16 \<le> n \<and> n < 24" | "24 \<le> n" by linarith
  then show "bit ?l n = bit x n"
    using n by cases (auto simp: bit_or_iff bit_push_bit_iff bit_ucast_iff bit_drop_bit_eq)
qed

lemma get_put_i32_le [simp]: "get_i32_le (put_i32_le x @ bs) = Some (x, bs)"
  by (simp add: put_i32_le_def bytes_of_word32)

lemma get_i32_le_append:
  "get_i32_le bs = Some (x, r) \<Longrightarrow> get_i32_le (bs @ cs) = Some (x, r @ cs)"
  by (induction bs rule: get_i32_le.induct) auto

lemma get_i32_le_Some: "4 \<le> length bs \<Longrightarrow> \<exists>x. get_i32_le bs = Some (x, drop 4 bs)"
  by (induction bs rule: get_i32_le.induct) auto

subsection \<open>Numbers as text\<close>

definition digit_char :: "nat \<Rightarrow> char" where
  "digit_char d = (if d < 10 then char_of (48 + d) else char_of (87 + d))"

text \<open>The digits of \<open>n\<close> in a base, most significant first (lower case above nine).\<close>

fun digits_in :: "nat \<Rightarrow> nat \<Rightarrow> string" where
  "digits_in b n =
     (if b \<le> 1 \<or> n < b then [digit_char n] else digits_in b (n div b) @ [digit_char (n mod b)])"

declare digits_in.simps [simp del]

text \<open>\<^verbatim>\<open>{}\<close> of an unsigned integer.\<close>

definition decimal :: "nat \<Rightarrow> string" where
  "decimal n = digits_in 10 n"

text \<open>\<^verbatim>\<open>{:04x}\<close>: lower-case hexadecimal, padded with zeros to four characters.\<close>

definition hex04 :: "u16 \<Rightarrow> string" where
  "hex04 v = (let s = digits_in 16 (unat v) in replicate (4 - length s) (CHR ''0'') @ s)"

subsection \<open>Numbers from text\<close>

text \<open>\<^verbatim>\<open>char::to_digit\<close>: letters count in either case.\<close>

definition to_digit :: "nat \<Rightarrow> char \<Rightarrow> nat option" where
  "to_digit radix c =
     (let k = (of_char c :: nat);
          d = (if 48 \<le> k \<and> k \<le> 57 then Some (k - 48)
               else if 97 \<le> k \<and> k \<le> 122 then Some (k - 87)
               else if 65 \<le> k \<and> k \<le> 90 then Some (k - 55)
               else None)
      in case d of None \<Rightarrow> None | Some v \<Rightarrow> if v < radix then Some v else None)"

text \<open>
  \<^verbatim>\<open>from_str_radix\<close> of an unsigned type: an empty string is an error, one leading \<^verbatim>\<open>+\<close> is
  allowed when digits follow, every digit must be valid and the value must not overflow at
  any point.
\<close>

fun from_digits :: "nat \<Rightarrow> nat \<Rightarrow> nat \<Rightarrow> string \<Rightarrow> nat option" where
  "from_digits radix bound acc [] = Some acc"
| "from_digits radix bound acc (c # cs) =
     (case to_digit radix c of
        None \<Rightarrow> None
      | Some d \<Rightarrow>
          (if acc * radix + d < bound then from_digits radix bound (acc * radix + d) cs else None))"

definition from_str_radix :: "nat \<Rightarrow> string \<Rightarrow> 'w::len word option" where
  "from_str_radix radix s =
     (let body = (case s of CHR ''+'' # c # cs \<Rightarrow> c # cs | _ \<Rightarrow> s)
      in if body = [] then None
         else map_option of_nat (from_digits radix (2 ^ LENGTH('w)) 0 body))"

subsection \<open>Round trips\<close>

lemma to_digit_digit_char:
  assumes "d < radix" and "radix \<le> 36"
  shows "to_digit radix (digit_char d) = Some d"
proof (cases "d < 10")
  case True
  then have "of_char (digit_char d) = 48 + d" by (simp add: digit_char_def)
  with True assms(1) show ?thesis by (simp add: to_digit_def)
next
  case False
  with assms have "of_char (digit_char d) = 87 + d" by (simp add: digit_char_def)
  with False assms show ?thesis by (simp add: to_digit_def)
qed

lemma digits_in_nonempty [simp]: "digits_in b n \<noteq> []"
  by (subst digits_in.simps) simp

lemma from_digits_append:
  "from_digits r m acc (xs @ ys) =
     (case from_digits r m acc xs of None \<Rightarrow> None | Some a \<Rightarrow> from_digits r m a ys)"
  by (induction xs arbitrary: acc) (auto split: option.splits)

lemma from_digits_digits_in:
  assumes "2 \<le> b" and "b \<le> 36" and "n < m"
  shows "from_digits b m 0 (digits_in b n) = Some n"
  using assms
proof (induction b n rule: digits_in.induct)
  case (1 b n)
  show ?case
  proof (cases "n < b")
    case True
    with "1.prems" show ?thesis
      by (simp add: digits_in.simps [of b n] to_digit_digit_char)
  next
    case False
    have "n div b < m" using "1.prems"(3) div_le_dividend le_less_trans by blast
    with False "1.prems" have ih: "from_digits b m 0 (digits_in b (n div b)) = Some (n div b)"
      by (intro "1.IH") auto
    have "n mod b < b" using "1.prems"(1) by simp
    with False "1.prems" show ?thesis
      by (simp add: digits_in.simps [of b n] from_digits_append ih to_digit_digit_char)
  qed
qed

lemma from_digits_zeros:
  assumes "0 < m" and "0 < r"
  shows "from_digits r m 0 (replicate k (CHR ''0'') @ xs) = from_digits r m 0 xs"
  using assms by (induction k) (auto simp: to_digit_def)

lemma digit_char_not_plus: "d < 16 \<Longrightarrow> digit_char d \<noteq> CHR ''+''"
proof
  assume d: "d < 16" and "digit_char d = CHR ''+''"
  then have "of_char (digit_char d) = (43::nat)" by simp
  with d show False by (auto simp: digit_char_def split: if_splits)
qed

lemma digits_in_set: "2 \<le> b \<Longrightarrow> set (digits_in b n) \<subseteq> digit_char ` {..<b}"
proof (induction b n rule: digits_in.induct)
  case (1 b n)
  show ?case
  proof (cases "n < b")
    case True
    then show ?thesis by (simp add: digits_in.simps [of b n])
  next
    case False
    with "1" have "set (digits_in b (n div b)) \<subseteq> digit_char ` {..<b}" by simp
    moreover have "digit_char (n mod b) \<in> digit_char ` {..<b}" using "1.prems" by simp
    ultimately show ?thesis using "1.prems" False by (simp add: digits_in.simps [of b n])
  qed
qed

lemma from_str_radix_no_plus:
  assumes "s \<noteq> []" and "CHR ''+'' \<notin> set s"
  shows "(from_str_radix r s :: 'w::len word option) =
           map_option of_nat (from_digits r (2 ^ LENGTH('w)) 0 s)"
  using assms by (auto simp: from_str_radix_def Let_def split: list.splits char.splits bool.splits)

lemma length_digits_in: "2 \<le> b \<Longrightarrow> 0 < k \<Longrightarrow> n < b ^ k \<Longrightarrow> length (digits_in b n) \<le> k"
proof (induction b n arbitrary: k rule: digits_in.induct)
  case (1 b n)
  show ?case
  proof (cases "n < b")
    case True
    with "1.prems" show ?thesis by (subst digits_in.simps) simp
  next
    case False
    with "1.prems" obtain k' where k: "k = Suc k'" "0 < k'" by (cases k; cases "k - 1") auto
    with "1.prems" have "n div b < b ^ k'" by (simp add: less_mult_imp_div_less mult.commute)
    with "1.IH" k "1.prems" False have "length (digits_in b (n div b)) \<le> k'" by simp
    with False "1.prems" k show ?thesis by (subst digits_in.simps) simp
  qed
qed

lemma plus_notin_digits: "2 \<le> b \<Longrightarrow> b \<le> 16 \<Longrightarrow> CHR ''+'' \<notin> set (digits_in b n)"
  using digits_in_set [of b n] by (auto dest!: subsetD simp: digit_char_not_plus dest: sym)

lemma from_str_radix_digits_in:
  assumes "2 \<le> b" and "b \<le> 16"
  shows "from_str_radix b (digits_in b (unat (v :: 'w::len word))) = Some v"
proof -
  have "unat v < 2 ^ LENGTH('w)" by (rule unsigned_less)
  with assms have "from_digits b (2 ^ LENGTH('w)) 0 (digits_in b (unat v)) = Some (unat v)"
    by (intro from_digits_digits_in) auto
  with assms show ?thesis by (simp add: from_str_radix_no_plus plus_notin_digits)
qed

lemma hex04_no_plus: "CHR ''+'' \<notin> set (hex04 v)"
  using plus_notin_digits [of 16 "unat v"] by (auto simp: hex04_def Let_def)

lemma hex04_nonempty [simp]: "hex04 v \<noteq> []"
  by (simp add: hex04_def Let_def)

lemma from_str_radix_hex04: "from_str_radix 16 (hex04 v) = Some v"
proof -
  have "unat v < 2 ^ 16" using unsigned_less [of v] by simp
  then have "from_digits 16 (2 ^ 16) 0 (digits_in 16 (unat v)) = Some (unat v)"
    by (intro from_digits_digits_in) auto
  then have "from_digits 16 (2 ^ 16) 0 (hex04 v) = Some (unat v)"
    by (simp add: hex04_def Let_def from_digits_zeros)
  then show ?thesis by (simp add: from_str_radix_no_plus hex04_no_plus)
qed

lemma decimal_inj: "decimal m = decimal n \<longleftrightarrow> m = n"
proof
  assume eq: "decimal m = decimal n"
  obtain k where k: "m < k" "n < k" by (meson less_add_Suc1 less_add_Suc2)
  have "from_digits 10 k 0 (decimal m) = Some m"
    unfolding decimal_def by (rule from_digits_digits_in) (use k in simp_all)
  moreover have "from_digits 10 k 0 (decimal n) = Some n"
    unfolding decimal_def by (rule from_digits_digits_in) (use k in simp_all)
  ultimately have "Some m = Some n" unfolding eq by (rule trans [OF sym])
  then show "m = n" by (rule option.inject [THEN iffD1])
qed (rule arg_cong)

lemma hex04_inj: "hex04 u = hex04 v \<longleftrightarrow> u = v"
  by (metis from_str_radix_hex04 option.inject)

end
