(* ===== verification/Key_Tables.thy ===== *)
theory Key_Tables
  imports Bytes
begin

text \<open>
  The key tables of \<^verbatim>\<open>common/src/hotkeys\<close>: the enumeration \<^verbatim>\<open>Keys\<close> of Windows virtual
  key codes (\<^verbatim>\<open>keys.rs\<close>), the Linux event codes and their translation to it (\<^verbatim>\<open>linux.rs\<close>),
  and the translation of a key to the name QEMU gives it (\<^verbatim>\<open>qcode.rs\<close>). A constructor
  \<open>Key_X\<close> is \<^verbatim>\<open>Key::X\<close>. The Rust \<^verbatim>\<open>match\<close> on event codes is a table of its arms searched in
  order.
\<close>

subsection \<open>Windows virtual keys\<close>

text \<open>
  \<^verbatim>\<open>#[repr(u32)] enum Keys\<close> is its discriminant: a key is a wrapped \<^verbatim>\<open>u32\<close>, the variants are
  the values below, and \<open>key_variants\<close> lists them. Rust admits no other value; \<open>is_key\<close> says so
  of a model value, and the key tables produce nothing else.
\<close>

datatype Key = Key (key_as_u32: u32)

abbreviation (input) Key_Back :: Key where "Key_Back \<equiv> Key 0x08"
abbreviation (input) Key_Tab :: Key where "Key_Tab \<equiv> Key 0x09"
abbreviation (input) Key_Enter :: Key where "Key_Enter \<equiv> Key 0x0D"
abbreviation (input) Key_Pause :: Key where "Key_Pause \<equiv> Key 0x13"
abbreviation (input) Key_CapsLock :: Key where "Key_CapsLock \<equiv> Key 0x14"
abbreviation (input) Key_Escape :: Key where "Key_Escape \<equiv> Key 0x1B"
abbreviation (input) Key_Space :: Key where "Key_Space \<equiv> Key 0x20"
abbreviation (input) Key_PageUp :: Key where "Key_PageUp \<equiv> Key 0x21"
abbreviation (input) Key_PageDown :: Key where "Key_PageDown \<equiv> Key 0x22"
abbreviation (input) Key_End :: Key where "Key_End \<equiv> Key 0x23"
abbreviation (input) Key_Home :: Key where "Key_Home \<equiv> Key 0x24"
abbreviation (input) Key_Left :: Key where "Key_Left \<equiv> Key 0x25"
abbreviation (input) Key_Up :: Key where "Key_Up \<equiv> Key 0x26"
abbreviation (input) Key_Right :: Key where "Key_Right \<equiv> Key 0x27"
abbreviation (input) Key_Down :: Key where "Key_Down \<equiv> Key 0x28"
abbreviation (input) Key_PrintScreen :: Key where "Key_PrintScreen \<equiv> Key 0x2C"
abbreviation (input) Key_Insert :: Key where "Key_Insert \<equiv> Key 0x2D"
abbreviation (input) Key_Delete :: Key where "Key_Delete \<equiv> Key 0x2E"
abbreviation (input) Key_D0 :: Key where "Key_D0 \<equiv> Key 0x30"
abbreviation (input) Key_D1 :: Key where "Key_D1 \<equiv> Key 0x31"
abbreviation (input) Key_D2 :: Key where "Key_D2 \<equiv> Key 0x32"
abbreviation (input) Key_D3 :: Key where "Key_D3 \<equiv> Key 0x33"
abbreviation (input) Key_D4 :: Key where "Key_D4 \<equiv> Key 0x34"
abbreviation (input) Key_D5 :: Key where "Key_D5 \<equiv> Key 0x35"
abbreviation (input) Key_D6 :: Key where "Key_D6 \<equiv> Key 0x36"
abbreviation (input) Key_D7 :: Key where "Key_D7 \<equiv> Key 0x37"
abbreviation (input) Key_D8 :: Key where "Key_D8 \<equiv> Key 0x38"
abbreviation (input) Key_D9 :: Key where "Key_D9 \<equiv> Key 0x39"
abbreviation (input) Key_A :: Key where "Key_A \<equiv> Key 0x41"
abbreviation (input) Key_B :: Key where "Key_B \<equiv> Key 0x42"
abbreviation (input) Key_C :: Key where "Key_C \<equiv> Key 0x43"
abbreviation (input) Key_D :: Key where "Key_D \<equiv> Key 0x44"
abbreviation (input) Key_E :: Key where "Key_E \<equiv> Key 0x45"
abbreviation (input) Key_F :: Key where "Key_F \<equiv> Key 0x46"
abbreviation (input) Key_G :: Key where "Key_G \<equiv> Key 0x47"
abbreviation (input) Key_H :: Key where "Key_H \<equiv> Key 0x48"
abbreviation (input) Key_I :: Key where "Key_I \<equiv> Key 0x49"
abbreviation (input) Key_J :: Key where "Key_J \<equiv> Key 0x4A"
abbreviation (input) Key_K :: Key where "Key_K \<equiv> Key 0x4B"
abbreviation (input) Key_L :: Key where "Key_L \<equiv> Key 0x4C"
abbreviation (input) Key_M :: Key where "Key_M \<equiv> Key 0x4D"
abbreviation (input) Key_N :: Key where "Key_N \<equiv> Key 0x4E"
abbreviation (input) Key_O :: Key where "Key_O \<equiv> Key 0x4F"
abbreviation (input) Key_P :: Key where "Key_P \<equiv> Key 0x50"
abbreviation (input) Key_Q :: Key where "Key_Q \<equiv> Key 0x51"
abbreviation (input) Key_R :: Key where "Key_R \<equiv> Key 0x52"
abbreviation (input) Key_S :: Key where "Key_S \<equiv> Key 0x53"
abbreviation (input) Key_T :: Key where "Key_T \<equiv> Key 0x54"
abbreviation (input) Key_U :: Key where "Key_U \<equiv> Key 0x55"
abbreviation (input) Key_V :: Key where "Key_V \<equiv> Key 0x56"
abbreviation (input) Key_W :: Key where "Key_W \<equiv> Key 0x57"
abbreviation (input) Key_X :: Key where "Key_X \<equiv> Key 0x58"
abbreviation (input) Key_Y :: Key where "Key_Y \<equiv> Key 0x59"
abbreviation (input) Key_Z :: Key where "Key_Z \<equiv> Key 0x5A"
abbreviation (input) Key_LWin :: Key where "Key_LWin \<equiv> Key 0x5B"
abbreviation (input) Key_RWin :: Key where "Key_RWin \<equiv> Key 0x5C"
abbreviation (input) Key_Apps :: Key where "Key_Apps \<equiv> Key 0x5D"
abbreviation (input) Key_NumPad0 :: Key where "Key_NumPad0 \<equiv> Key 0x60"
abbreviation (input) Key_NumPad1 :: Key where "Key_NumPad1 \<equiv> Key 0x61"
abbreviation (input) Key_NumPad2 :: Key where "Key_NumPad2 \<equiv> Key 0x62"
abbreviation (input) Key_NumPad3 :: Key where "Key_NumPad3 \<equiv> Key 0x63"
abbreviation (input) Key_NumPad4 :: Key where "Key_NumPad4 \<equiv> Key 0x64"
abbreviation (input) Key_NumPad5 :: Key where "Key_NumPad5 \<equiv> Key 0x65"
abbreviation (input) Key_NumPad6 :: Key where "Key_NumPad6 \<equiv> Key 0x66"
abbreviation (input) Key_NumPad7 :: Key where "Key_NumPad7 \<equiv> Key 0x67"
abbreviation (input) Key_NumPad8 :: Key where "Key_NumPad8 \<equiv> Key 0x68"
abbreviation (input) Key_NumPad9 :: Key where "Key_NumPad9 \<equiv> Key 0x69"
abbreviation (input) Key_Multiply :: Key where "Key_Multiply \<equiv> Key 0x6A"
abbreviation (input) Key_Add :: Key where "Key_Add \<equiv> Key 0x6B"
abbreviation (input) Key_Separator :: Key where "Key_Separator \<equiv> Key 0x6C"
abbreviation (input) Key_Subtract :: Key where "Key_Subtract \<equiv> Key 0x6D"
abbreviation (input) Key_Decimal :: Key where "Key_Decimal \<equiv> Key 0x6E"
abbreviation (input) Key_Divide :: Key where "Key_Divide \<equiv> Key 0x6F"
abbreviation (input) Key_F1 :: Key where "Key_F1 \<equiv> Key 0x70"
abbreviation (input) Key_F2 :: Key where "Key_F2 \<equiv> Key 0x71"
abbreviation (input) Key_F3 :: Key where "Key_F3 \<equiv> Key 0x72"
abbreviation (input) Key_F4 :: Key where "Key_F4 \<equiv> Key 0x73"
abbreviation (input) Key_F5 :: Key where "Key_F5 \<equiv> Key 0x74"
abbreviation (input) Key_F6 :: Key where "Key_F6 \<equiv> Key 0x75"
abbreviation (input) Key_F7 :: Key where "Key_F7 \<equiv> Key 0x76"
abbreviation (input) Key_F8 :: Key where "Key_F8 \<equiv> Key 0x77"
abbreviation (input) Key_F9 :: Key where "Key_F9 \<equiv> Key 0x78"
abbreviation (input) Key_F10 :: Key where "Key_F10 \<equiv> Key 0x79"
abbreviation (input) Key_F11 :: Key where "Key_F11 \<equiv> Key 0x7A"
abbreviation (input) Key_F12 :: Key where "Key_F12 \<equiv> Key 0x7B"
abbreviation (input) Key_NumLock :: Key where "Key_NumLock \<equiv> Key 0x90"
abbreviation (input) Key_Scroll :: Key where "Key_Scroll \<equiv> Key 0x91"
abbreviation (input) Key_LShiftKey :: Key where "Key_LShiftKey \<equiv> Key 0xA0"
abbreviation (input) Key_RShiftKey :: Key where "Key_RShiftKey \<equiv> Key 0xA1"
abbreviation (input) Key_LControlKey :: Key where "Key_LControlKey \<equiv> Key 0xA2"
abbreviation (input) Key_RControlKey :: Key where "Key_RControlKey \<equiv> Key 0xA3"
abbreviation (input) Key_LMenu :: Key where "Key_LMenu \<equiv> Key 0xA4"
abbreviation (input) Key_RMenu :: Key where "Key_RMenu \<equiv> Key 0xA5"
abbreviation (input) Key_VolumeMute :: Key where "Key_VolumeMute \<equiv> Key 0xAD"
abbreviation (input) Key_VolumeDown :: Key where "Key_VolumeDown \<equiv> Key 0xAE"
abbreviation (input) Key_VolumeUp :: Key where "Key_VolumeUp \<equiv> Key 0xAF"
abbreviation (input) Key_MediaNextTrack :: Key where "Key_MediaNextTrack \<equiv> Key 0xB0"
abbreviation (input) Key_MediaPreviousTrack :: Key where "Key_MediaPreviousTrack \<equiv> Key 0xB1"
abbreviation (input) Key_MediaStop :: Key where "Key_MediaStop \<equiv> Key 0xB2"
abbreviation (input) Key_MediaPlayPause :: Key where "Key_MediaPlayPause \<equiv> Key 0xB3"
abbreviation (input) Key_Oemplus :: Key where "Key_Oemplus \<equiv> Key 0xBB"
abbreviation (input) Key_Oemcomma :: Key where "Key_Oemcomma \<equiv> Key 0xBC"
abbreviation (input) Key_OemMinus :: Key where "Key_OemMinus \<equiv> Key 0xBD"
abbreviation (input) Key_OemPeriod :: Key where "Key_OemPeriod \<equiv> Key 0xBE"
abbreviation (input) Key_Oem1 :: Key where "Key_Oem1 \<equiv> Key 0xBA"
abbreviation (input) Key_Oem102 :: Key where "Key_Oem102 \<equiv> Key 0xE2"
abbreviation (input) Key_Oem2 :: Key where "Key_Oem2 \<equiv> Key 0xBF"
abbreviation (input) Key_Oem3 :: Key where "Key_Oem3 \<equiv> Key 0xC0"
abbreviation (input) Key_Oem4 :: Key where "Key_Oem4 \<equiv> Key 0xDB"
abbreviation (input) Key_Oem5 :: Key where "Key_Oem5 \<equiv> Key 0xDC"
abbreviation (input) Key_Oem6 :: Key where "Key_Oem6 \<equiv> Key 0xDD"
abbreviation (input) Key_Oem7 :: Key where "Key_Oem7 \<equiv> Key 0xDE"

definition key_variants :: "Key list" where
  "key_variants = [
     Key_Back, Key_Tab, Key_Enter, Key_Pause, Key_CapsLock,
     Key_Escape, Key_Space, Key_PageUp, Key_PageDown, Key_End,
     Key_Home, Key_Left, Key_Up, Key_Right, Key_Down,
     Key_PrintScreen, Key_Insert, Key_Delete, Key_D0, Key_D1,
     Key_D2, Key_D3, Key_D4, Key_D5, Key_D6,
     Key_D7, Key_D8, Key_D9, Key_A, Key_B,
     Key_C, Key_D, Key_E, Key_F, Key_G,
     Key_H, Key_I, Key_J, Key_K, Key_L,
     Key_M, Key_N, Key_O, Key_P, Key_Q,
     Key_R, Key_S, Key_T, Key_U, Key_V,
     Key_W, Key_X, Key_Y, Key_Z, Key_LWin,
     Key_RWin, Key_Apps, Key_NumPad0, Key_NumPad1, Key_NumPad2,
     Key_NumPad3, Key_NumPad4, Key_NumPad5, Key_NumPad6, Key_NumPad7,
     Key_NumPad8, Key_NumPad9, Key_Multiply, Key_Add, Key_Separator,
     Key_Subtract, Key_Decimal, Key_Divide, Key_F1, Key_F2,
     Key_F3, Key_F4, Key_F5, Key_F6, Key_F7,
     Key_F8, Key_F9, Key_F10, Key_F11, Key_F12,
     Key_NumLock, Key_Scroll, Key_LShiftKey, Key_RShiftKey, Key_LControlKey,
     Key_RControlKey, Key_LMenu, Key_RMenu, Key_VolumeMute, Key_VolumeDown,
     Key_VolumeUp, Key_MediaNextTrack, Key_MediaPreviousTrack, Key_MediaStop, Key_MediaPlayPause,
     Key_Oemplus, Key_Oemcomma, Key_OemMinus, Key_OemPeriod, Key_Oem1,
     Key_Oem102, Key_Oem2, Key_Oem3, Key_Oem4, Key_Oem5,
     Key_Oem6, Key_Oem7]"

definition is_key :: "Key \<Rightarrow> bool" where
  "is_key k \<longleftrightarrow> k \<in> set key_variants"

subsection \<open>Linux event codes\<close>

abbreviation (input) KEY_ESC :: u32 where "KEY_ESC \<equiv> 1"
abbreviation (input) KEY_1 :: u32 where "KEY_1 \<equiv> 2"
abbreviation (input) KEY_2 :: u32 where "KEY_2 \<equiv> 3"
abbreviation (input) KEY_3 :: u32 where "KEY_3 \<equiv> 4"
abbreviation (input) KEY_4 :: u32 where "KEY_4 \<equiv> 5"
abbreviation (input) KEY_5 :: u32 where "KEY_5 \<equiv> 6"
abbreviation (input) KEY_6 :: u32 where "KEY_6 \<equiv> 7"
abbreviation (input) KEY_7 :: u32 where "KEY_7 \<equiv> 8"
abbreviation (input) KEY_8 :: u32 where "KEY_8 \<equiv> 9"
abbreviation (input) KEY_9 :: u32 where "KEY_9 \<equiv> 10"
abbreviation (input) KEY_0 :: u32 where "KEY_0 \<equiv> 11"
abbreviation (input) KEY_MINUS :: u32 where "KEY_MINUS \<equiv> 12"
abbreviation (input) KEY_EQUAL :: u32 where "KEY_EQUAL \<equiv> 13"
abbreviation (input) KEY_BACKSPACE :: u32 where "KEY_BACKSPACE \<equiv> 14"
abbreviation (input) KEY_TAB :: u32 where "KEY_TAB \<equiv> 15"
abbreviation (input) KEY_Q :: u32 where "KEY_Q \<equiv> 16"
abbreviation (input) KEY_W :: u32 where "KEY_W \<equiv> 17"
abbreviation (input) KEY_E :: u32 where "KEY_E \<equiv> 18"
abbreviation (input) KEY_R :: u32 where "KEY_R \<equiv> 19"
abbreviation (input) KEY_T :: u32 where "KEY_T \<equiv> 20"
abbreviation (input) KEY_Y :: u32 where "KEY_Y \<equiv> 21"
abbreviation (input) KEY_U :: u32 where "KEY_U \<equiv> 22"
abbreviation (input) KEY_I :: u32 where "KEY_I \<equiv> 23"
abbreviation (input) KEY_O :: u32 where "KEY_O \<equiv> 24"
abbreviation (input) KEY_P :: u32 where "KEY_P \<equiv> 25"
abbreviation (input) KEY_LEFTBRACE :: u32 where "KEY_LEFTBRACE \<equiv> 26"
abbreviation (input) KEY_RIGHTBRACE :: u32 where "KEY_RIGHTBRACE \<equiv> 27"
abbreviation (input) KEY_ENTER :: u32 where "KEY_ENTER \<equiv> 28"
abbreviation (input) KEY_LEFTCTRL :: u32 where "KEY_LEFTCTRL \<equiv> 29"
abbreviation (input) KEY_A :: u32 where "KEY_A \<equiv> 30"
abbreviation (input) KEY_S :: u32 where "KEY_S \<equiv> 31"
abbreviation (input) KEY_D :: u32 where "KEY_D \<equiv> 32"
abbreviation (input) KEY_F :: u32 where "KEY_F \<equiv> 33"
abbreviation (input) KEY_G :: u32 where "KEY_G \<equiv> 34"
abbreviation (input) KEY_H :: u32 where "KEY_H \<equiv> 35"
abbreviation (input) KEY_J :: u32 where "KEY_J \<equiv> 36"
abbreviation (input) KEY_K :: u32 where "KEY_K \<equiv> 37"
abbreviation (input) KEY_L :: u32 where "KEY_L \<equiv> 38"
abbreviation (input) KEY_SEMICOLON :: u32 where "KEY_SEMICOLON \<equiv> 39"
abbreviation (input) KEY_APOSTROPHE :: u32 where "KEY_APOSTROPHE \<equiv> 40"
abbreviation (input) KEY_GRAVE :: u32 where "KEY_GRAVE \<equiv> 41"
abbreviation (input) KEY_LEFTSHIFT :: u32 where "KEY_LEFTSHIFT \<equiv> 42"
abbreviation (input) KEY_BACKSLASH :: u32 where "KEY_BACKSLASH \<equiv> 43"
abbreviation (input) KEY_Z :: u32 where "KEY_Z \<equiv> 44"
abbreviation (input) KEY_X :: u32 where "KEY_X \<equiv> 45"
abbreviation (input) KEY_C :: u32 where "KEY_C \<equiv> 46"
abbreviation (input) KEY_V :: u32 where "KEY_V \<equiv> 47"
abbreviation (input) KEY_B :: u32 where "KEY_B \<equiv> 48"
abbreviation (input) KEY_N :: u32 where "KEY_N \<equiv> 49"
abbreviation (input) KEY_M :: u32 where "KEY_M \<equiv> 50"
abbreviation (input) KEY_COMMA :: u32 where "KEY_COMMA \<equiv> 51"
abbreviation (input) KEY_DOT :: u32 where "KEY_DOT \<equiv> 52"
abbreviation (input) KEY_SLASH :: u32 where "KEY_SLASH \<equiv> 53"
abbreviation (input) KEY_RIGHTSHIFT :: u32 where "KEY_RIGHTSHIFT \<equiv> 54"
abbreviation (input) KEY_KPASTERISK :: u32 where "KEY_KPASTERISK \<equiv> 55"
abbreviation (input) KEY_LEFTALT :: u32 where "KEY_LEFTALT \<equiv> 56"
abbreviation (input) KEY_SPACE :: u32 where "KEY_SPACE \<equiv> 57"
abbreviation (input) KEY_CAPSLOCK :: u32 where "KEY_CAPSLOCK \<equiv> 58"
abbreviation (input) KEY_F1 :: u32 where "KEY_F1 \<equiv> 59"
abbreviation (input) KEY_F2 :: u32 where "KEY_F2 \<equiv> 60"
abbreviation (input) KEY_F3 :: u32 where "KEY_F3 \<equiv> 61"
abbreviation (input) KEY_F4 :: u32 where "KEY_F4 \<equiv> 62"
abbreviation (input) KEY_F5 :: u32 where "KEY_F5 \<equiv> 63"
abbreviation (input) KEY_F6 :: u32 where "KEY_F6 \<equiv> 64"
abbreviation (input) KEY_F7 :: u32 where "KEY_F7 \<equiv> 65"
abbreviation (input) KEY_F8 :: u32 where "KEY_F8 \<equiv> 66"
abbreviation (input) KEY_F9 :: u32 where "KEY_F9 \<equiv> 67"
abbreviation (input) KEY_F10 :: u32 where "KEY_F10 \<equiv> 68"
abbreviation (input) KEY_NUMLOCK :: u32 where "KEY_NUMLOCK \<equiv> 69"
abbreviation (input) KEY_SCROLLLOCK :: u32 where "KEY_SCROLLLOCK \<equiv> 70"
abbreviation (input) KEY_KP7 :: u32 where "KEY_KP7 \<equiv> 71"
abbreviation (input) KEY_KP8 :: u32 where "KEY_KP8 \<equiv> 72"
abbreviation (input) KEY_KP9 :: u32 where "KEY_KP9 \<equiv> 73"
abbreviation (input) KEY_KPMINUS :: u32 where "KEY_KPMINUS \<equiv> 74"
abbreviation (input) KEY_KP4 :: u32 where "KEY_KP4 \<equiv> 75"
abbreviation (input) KEY_KP5 :: u32 where "KEY_KP5 \<equiv> 76"
abbreviation (input) KEY_KP6 :: u32 where "KEY_KP6 \<equiv> 77"
abbreviation (input) KEY_KPPLUS :: u32 where "KEY_KPPLUS \<equiv> 78"
abbreviation (input) KEY_KP1 :: u32 where "KEY_KP1 \<equiv> 79"
abbreviation (input) KEY_KP2 :: u32 where "KEY_KP2 \<equiv> 80"
abbreviation (input) KEY_KP3 :: u32 where "KEY_KP3 \<equiv> 81"
abbreviation (input) KEY_KP0 :: u32 where "KEY_KP0 \<equiv> 82"
abbreviation (input) KEY_KPDOT :: u32 where "KEY_KPDOT \<equiv> 83"
abbreviation (input) KEY_102ND :: u32 where "KEY_102ND \<equiv> 86"
abbreviation (input) KEY_F11 :: u32 where "KEY_F11 \<equiv> 87"
abbreviation (input) KEY_F12 :: u32 where "KEY_F12 \<equiv> 88"
abbreviation (input) KEY_KPENTER :: u32 where "KEY_KPENTER \<equiv> 96"
abbreviation (input) KEY_RIGHTCTRL :: u32 where "KEY_RIGHTCTRL \<equiv> 97"
abbreviation (input) KEY_KPSLASH :: u32 where "KEY_KPSLASH \<equiv> 98"
abbreviation (input) KEY_SYSRQ :: u32 where "KEY_SYSRQ \<equiv> 99"
abbreviation (input) KEY_RIGHTALT :: u32 where "KEY_RIGHTALT \<equiv> 100"
abbreviation (input) KEY_HOME :: u32 where "KEY_HOME \<equiv> 102"
abbreviation (input) KEY_UP :: u32 where "KEY_UP \<equiv> 103"
abbreviation (input) KEY_PAGEUP :: u32 where "KEY_PAGEUP \<equiv> 104"
abbreviation (input) KEY_LEFT :: u32 where "KEY_LEFT \<equiv> 105"
abbreviation (input) KEY_RIGHT :: u32 where "KEY_RIGHT \<equiv> 106"
abbreviation (input) KEY_END :: u32 where "KEY_END \<equiv> 107"
abbreviation (input) KEY_DOWN :: u32 where "KEY_DOWN \<equiv> 108"
abbreviation (input) KEY_PAGEDOWN :: u32 where "KEY_PAGEDOWN \<equiv> 109"
abbreviation (input) KEY_INSERT :: u32 where "KEY_INSERT \<equiv> 110"
abbreviation (input) KEY_DELETE :: u32 where "KEY_DELETE \<equiv> 111"
abbreviation (input) KEY_MUTE :: u32 where "KEY_MUTE \<equiv> 113"
abbreviation (input) KEY_VOLUMEDOWN :: u32 where "KEY_VOLUMEDOWN \<equiv> 114"
abbreviation (input) KEY_VOLUMEUP :: u32 where "KEY_VOLUMEUP \<equiv> 115"
abbreviation (input) KEY_PAUSE :: u32 where "KEY_PAUSE \<equiv> 119"
abbreviation (input) KEY_LEFTMETA :: u32 where "KEY_LEFTMETA \<equiv> 125"
abbreviation (input) KEY_RIGHTMETA :: u32 where "KEY_RIGHTMETA \<equiv> 126"
abbreviation (input) KEY_COMPOSE :: u32 where "KEY_COMPOSE \<equiv> 127"
abbreviation (input) KEY_NEXTSONG :: u32 where "KEY_NEXTSONG \<equiv> 163"
abbreviation (input) KEY_PLAYPAUSE :: u32 where "KEY_PLAYPAUSE \<equiv> 164"
abbreviation (input) KEY_PREVIOUSSONG :: u32 where "KEY_PREVIOUSSONG \<equiv> 165"
abbreviation (input) KEY_STOPCD :: u32 where "KEY_STOPCD \<equiv> 166"

definition linux_key_arms :: "(u32 \<times> Key) list" where
  "linux_key_arms = [
     (KEY_LEFTSHIFT, Key_LShiftKey), (KEY_RIGHTSHIFT, Key_RShiftKey), (KEY_LEFTALT, Key_LMenu),
     (KEY_RIGHTALT, Key_RMenu), (KEY_LEFTCTRL, Key_LControlKey), (KEY_RIGHTCTRL, Key_RControlKey),
     (KEY_COMPOSE, Key_Apps), (KEY_ESC, Key_Escape), (KEY_0, Key_D0),
     (KEY_1, Key_D1), (KEY_2, Key_D2), (KEY_3, Key_D3),
     (KEY_4, Key_D4), (KEY_5, Key_D5), (KEY_6, Key_D6),
     (KEY_7, Key_D7), (KEY_8, Key_D8), (KEY_9, Key_D9),
     (KEY_MINUS, Key_OemMinus), (KEY_EQUAL, Key_Oemplus), (KEY_BACKSPACE, Key_Back),
     (KEY_TAB, Key_Tab), (KEY_A, Key_A), (KEY_B, Key_B),
     (KEY_C, Key_C), (KEY_D, Key_D), (KEY_E, Key_E),
     (KEY_F, Key_F), (KEY_G, Key_G), (KEY_H, Key_H),
     (KEY_I, Key_I), (KEY_J, Key_J), (KEY_K, Key_K),
     (KEY_L, Key_L), (KEY_M, Key_M), (KEY_N, Key_N),
     (KEY_O, Key_O), (KEY_P, Key_P), (KEY_Q, Key_Q),
     (KEY_R, Key_R), (KEY_S, Key_S), (KEY_T, Key_T),
     (KEY_U, Key_U), (KEY_V, Key_V), (KEY_W, Key_W),
     (KEY_X, Key_X), (KEY_Y, Key_Y), (KEY_Z, Key_Z),
     (KEY_ENTER, Key_Enter), (KEY_SEMICOLON, Key_Oem1), (KEY_APOSTROPHE, Key_Oem7),
     (KEY_GRAVE, Key_Oem3), (KEY_BACKSLASH, Key_Oem5), (KEY_COMMA, Key_Oemcomma),
     (KEY_DOT, Key_OemPeriod), (KEY_SLASH, Key_Oem2), (KEY_SPACE, Key_Space),
     (KEY_CAPSLOCK, Key_CapsLock), (KEY_F1, Key_F1), (KEY_F2, Key_F2),
     (KEY_F3, Key_F3), (KEY_F4, Key_F4), (KEY_F5, Key_F5),
     (KEY_F6, Key_F6), (KEY_F7, Key_F7), (KEY_F8, Key_F8),
     (KEY_F9, Key_F9), (KEY_F10, Key_F10), (KEY_F11, Key_F11),
     (KEY_F12, Key_F12), (KEY_NUMLOCK, Key_NumLock), (KEY_SCROLLLOCK, Key_Scroll),
     (KEY_KPSLASH, Key_Divide), (KEY_KPASTERISK, Key_Multiply), (KEY_KPMINUS, Key_Subtract),
     (KEY_KPPLUS, Key_Add), (KEY_KPENTER, Key_Separator), (KEY_KPDOT, Key_Decimal),
     (KEY_SYSRQ, Key_PrintScreen), (KEY_KP0, Key_NumPad0), (KEY_KP1, Key_NumPad1),
     (KEY_KP2, Key_NumPad2), (KEY_KP3, Key_NumPad3), (KEY_KP4, Key_NumPad4),
     (KEY_KP5, Key_NumPad5), (KEY_KP6, Key_NumPad6), (KEY_KP7, Key_NumPad7),
     (KEY_KP8, Key_NumPad8), (KEY_KP9, Key_NumPad9), (KEY_102ND, Key_Oem102),
     (KEY_HOME, Key_Home), (KEY_PAGEUP, Key_PageUp), (KEY_PAGEDOWN, Key_PageDown),
     (KEY_END, Key_End), (KEY_LEFT, Key_Left), (KEY_UP, Key_Up),
     (KEY_DOWN, Key_Down), (KEY_RIGHT, Key_Right), (KEY_INSERT, Key_Insert),
     (KEY_DELETE, Key_Delete), (KEY_MUTE, Key_VolumeMute), (KEY_VOLUMEDOWN, Key_VolumeDown),
     (KEY_VOLUMEUP, Key_VolumeUp), (KEY_PAUSE, Key_Pause), (KEY_LEFTMETA, Key_LWin),
     (KEY_RIGHTMETA, Key_RWin), (KEY_LEFTBRACE, Key_Oem4), (KEY_RIGHTBRACE, Key_Oem6),
     (KEY_NEXTSONG, Key_MediaNextTrack), (KEY_PLAYPAUSE, Key_MediaPlayPause), (KEY_PREVIOUSSONG, Key_MediaPreviousTrack),
     (KEY_STOPCD, Key_MediaStop)]"

definition linux_key_convert :: "u32 \<Rightarrow> Key option" where
  "linux_key_convert code = map_of linux_key_arms code"

subsection \<open>QEMU key names\<close>

definition qcode_arms :: "(Key \<times> string option) list" where
  "qcode_arms = [
     (Key_LShiftKey, Some ''shift''), (Key_RShiftKey, Some ''shift_r''), (Key_LMenu, Some ''alt''),
     (Key_RMenu, Some ''alt_r''), (Key_LControlKey, Some ''ctrl''), (Key_RControlKey, Some ''ctrl_r''),
     (Key_Apps, Some ''menu''), (Key_Escape, Some ''esc''), (Key_D0, Some ''0''),
     (Key_D1, Some ''1''), (Key_D2, Some ''2''), (Key_D3, Some ''3''),
     (Key_D4, Some ''4''), (Key_D5, Some ''5''), (Key_D6, Some ''6''),
     (Key_D7, Some ''7''), (Key_D8, Some ''8''), (Key_D9, Some ''9''),
     (Key_OemMinus, Some ''minus''), (Key_Oemplus, Some ''equal''), (Key_Back, Some ''backspace''),
     (Key_Tab, Some ''tab''), (Key_A, Some ''a''), (Key_B, Some ''b''),
     (Key_C, Some ''c''), (Key_D, Some ''d''), (Key_E, Some ''e''),
     (Key_F, Some ''f''), (Key_G, Some ''g''), (Key_H, Some ''h''),
     (Key_I, Some ''i''), (Key_J, Some ''j''), (Key_K, Some ''k''),
     (Key_L, Some ''l''), (Key_M, Some ''m''), (Key_N, Some ''n''),
     (Key_O, Some ''o''), (Key_P, Some ''p''), (Key_Q, Some ''q''),
     (Key_R, Some ''r''), (Key_S, Some ''s''), (Key_T, Some ''t''),
     (Key_U, Some ''u''), (Key_V, Some ''v''), (Key_W, Some ''w''),
     (Key_X, Some ''x''), (Key_Y, Some ''y''), (Key_Z, Some ''z''),
     (Key_Enter, Some ''ret''), (Key_Oem1, Some ''semicolon''), (Key_Oem7, Some ''apostrophe''),
     (Key_Oem3, Some ''grave_accent''), (Key_Oem5, Some ''backslash''), (Key_Oemcomma, Some ''comma''),
     (Key_OemPeriod, Some ''dot''), (Key_Oem2, Some ''slash''), (Key_Space, Some ''spc''),
     (Key_CapsLock, Some ''caps_lock''), (Key_F1, Some ''f1''), (Key_F2, Some ''f2''),
     (Key_F3, Some ''f3''), (Key_F4, Some ''f4''), (Key_F5, Some ''f5''),
     (Key_F6, Some ''f6''), (Key_F7, Some ''f7''), (Key_F8, Some ''f8''),
     (Key_F9, Some ''f9''), (Key_F10, Some ''f10''), (Key_F11, Some ''f11''),
     (Key_F12, Some ''f12''), (Key_NumLock, Some ''num_lock''), (Key_Scroll, Some ''scroll_lock''),
     (Key_Divide, Some ''kp_divide''), (Key_Multiply, Some ''kp_multiply''), (Key_Subtract, Some ''kp_subtract''),
     (Key_Add, Some ''kp_add''), (Key_Separator, Some ''kp_enter''), (Key_Decimal, Some ''kp_decimal''),
     (Key_PrintScreen, Some ''sysrq''), (Key_NumPad0, Some ''kp_0''), (Key_NumPad1, Some ''kp_1''),
     (Key_NumPad2, Some ''kp_2''), (Key_NumPad3, Some ''kp_3''), (Key_NumPad4, Some ''kp_4''),
     (Key_NumPad5, Some ''kp_5''), (Key_NumPad6, Some ''kp_6''), (Key_NumPad7, Some ''kp_7''),
     (Key_NumPad8, Some ''kp_8''), (Key_NumPad9, Some ''kp_9''), (Key_Oem102, Some ''less''),
     (Key_Home, Some ''home''), (Key_PageUp, Some ''pgup''), (Key_PageDown, Some ''pgdn''),
     (Key_End, Some ''end''), (Key_Left, Some ''left''), (Key_Up, Some ''up''),
     (Key_Down, Some ''down''), (Key_Right, Some ''right''), (Key_Insert, Some ''insert''),
     (Key_Delete, Some ''delete''), (Key_VolumeMute, None), (Key_VolumeDown, None),
     (Key_VolumeUp, None), (Key_Pause, Some ''pause''), (Key_LWin, Some ''meta_l''),
     (Key_RWin, Some ''meta_r''), (Key_Oem4, Some ''bracket_left''), (Key_Oem6, Some ''bracket_right''),
     (Key_MediaNextTrack, None), (Key_MediaPreviousTrack, None), (Key_MediaStop, None),
     (Key_MediaPlayPause, None)]"

text \<open>A key without an arm cannot occur (the \<^verbatim>\<open>match\<close> is exhaustive over \<open>key_variants\<close>).\<close>

definition qcode_key_convert :: "Key \<Rightarrow> string option" where
  "qcode_key_convert key = (case map_of qcode_arms key of Some q \<Rightarrow> q | None \<Rightarrow> None)"

subsection \<open>Facts about the tables\<close>

text \<open>
  The arms of both translations cover exactly the variants, each once. The comparisons are
  evaluated on natural numbers: \<open>key_number\<close> is injective.
\<close>

definition key_number :: "Key \<Rightarrow> nat" where
  "key_number k = unat (key_as_u32 k)"

lemma key_number_eq [simp]: "key_number a = key_number b \<longleftrightarrow> a = b"
  by (cases a; cases b) (simp add: key_number_def word_unat_eq_iff)

lemma key_number_Key: "key_number (Key v) = unat v"
  by (simp add: key_number_def)

lemma inj_key_number: "inj key_number"
  by (rule injI) simp

lemma key_set_mono: "set (map key_number ks) \<subseteq> set (map key_number ls) \<Longrightarrow> set ks \<subseteq> set ls"
  by (simp add: inj_image_subset_iff [OF inj_key_number])

lemma distinct_key_numbers: "distinct (map key_number ks) \<Longrightarrow> distinct ks"
  by (simp add: distinct_map)

lemma distinct_key_variants: "distinct key_variants"
  by (rule distinct_key_numbers) (simp add: key_variants_def key_number_Key)

lemma distinct_linux_codes: "distinct (map (\<lambda>a. unat (fst a)) linux_key_arms)"
  by (simp add: linux_key_arms_def)

lemma distinct_linux_keys: "distinct (map snd linux_key_arms)"
  by (rule distinct_key_numbers) (simp add: linux_key_arms_def key_number_Key)

lemma linux_keys_are_variants: "set (map snd linux_key_arms) \<subseteq> set key_variants"
  by (rule key_set_mono) (simp add: linux_key_arms_def key_variants_def key_number_Key)

lemma variants_are_linux_keys: "set key_variants \<subseteq> set (map snd linux_key_arms)"
  by (rule key_set_mono) (simp add: linux_key_arms_def key_variants_def key_number_Key)

lemma distinct_qcode_keys: "distinct (map fst qcode_arms)"
  by (rule distinct_key_numbers) (simp add: qcode_arms_def key_number_Key)

lemma qcode_keys_are_variants: "set (map fst qcode_arms) \<subseteq> set key_variants"
  by (rule key_set_mono) (simp add: qcode_arms_def key_variants_def key_number_Key)

lemma variants_have_qcode_arms: "set key_variants \<subseteq> set (map fst qcode_arms)"
  by (rule key_set_mono) (simp add: qcode_arms_def key_variants_def key_number_Key)

lemma distinct_qcodes: "distinct (map snd (filter (\<lambda>a. snd a \<noteq> None) qcode_arms))"
  by (simp add: qcode_arms_def)

lemma key_variants_small: "\<forall>k\<in>set key_variants. key_number k < 256"
  by (simp add: key_variants_def key_number_Key)

lemma linux_key_convert_Some:
  "linux_key_convert code = Some k \<longleftrightarrow> (code, k) \<in> set linux_key_arms"
proof -
  have "distinct (map fst linux_key_arms)"
    using distinct_linux_codes by (auto simp: distinct_map inj_on_def)
  then show ?thesis by (simp add: linux_key_convert_def)
qed

lemma linux_key_convert_is_key: "linux_key_convert code = Some k \<Longrightarrow> is_key k"
  using linux_keys_are_variants by (force simp: linux_key_convert_Some is_key_def)

lemma linux_key_convert_covers: "is_key k \<Longrightarrow> \<exists>code. linux_key_convert code = Some k"
  using variants_are_linux_keys by (force simp: linux_key_convert_Some is_key_def)

lemma linux_key_convert_inj:
  assumes "linux_key_convert c = Some k" and "linux_key_convert d = Some k"
  shows "c = d"
  using assms distinct_snd_unique [OF distinct_linux_keys, of c k d]
  by (simp add: linux_key_convert_Some)

lemma qcode_key_convert_Some:
  "qcode_key_convert k = Some q \<longleftrightarrow> (k, Some q) \<in> set qcode_arms"
proof -
  have "qcode_key_convert k = Some q \<longleftrightarrow> map_of qcode_arms k = Some (Some q)"
    by (cases "map_of qcode_arms k") (simp_all add: qcode_key_convert_def)
  with distinct_qcode_keys show ?thesis by simp
qed

lemma qcode_key_convert_inj:
  assumes "qcode_key_convert k = Some q" and "qcode_key_convert l = Some q"
  shows "k = l"
  using assms distinct_snd_unique [OF distinct_qcodes, of k "Some q" l]
  by (simp add: qcode_key_convert_Some)

end
