(* ===== verification/Hotkeys.thy ===== *)
theory Hotkeys
  imports Key_Tables
begin

text \<open>
  \<^verbatim>\<open>common/src/hotkeys/mod.rs\<close>: key bindings, and the keyboard state that turns a stream of
  Linux key events into the hotkeys they trigger and the keys to forward. The lemmas show that
  the vector of held modifiers is a set kept without duplicates, and that the reported hotkeys
  are the indices of exactly the matching bindings.
\<close>

subsection \<open>Modifiers and bindings\<close>

datatype Modifier = Mod_Alt | Mod_Ctrl | Mod_Shift | Mod_Win

primrec modifier_as_u32 :: "Modifier \<Rightarrow> u32" where
  "modifier_as_u32 Mod_Alt = 0x0001"
| "modifier_as_u32 Mod_Ctrl = 0x0002"
| "modifier_as_u32 Mod_Shift = 0x0004"
| "modifier_as_u32 Mod_Win = 0x0008"

abbreviation (input) NOREPEAT :: u32 where "NOREPEAT \<equiv> 0x4000"

definition modifier :: "Key \<Rightarrow> Modifier option" where
  "modifier k =
     (if k = Key_LMenu \<or> k = Key_RMenu then Some Mod_Alt
      else if k = Key_LControlKey \<or> k = Key_RControlKey then Some Mod_Ctrl
      else if k = Key_LShiftKey \<or> k = Key_RShiftKey then Some Mod_Shift
      else if k = Key_LWin \<or> k = Key_RWin then Some Mod_Win
      else None)"

record KeyBinding =
  kb_modifiers :: "Modifier list"
  kb_no_repeat :: bool
  kb_key :: Key

definition KeyBinding_new :: "Modifier list \<Rightarrow> Key \<Rightarrow> bool \<Rightarrow> KeyBinding" where
  "KeyBinding_new mods k no_repeat = \<lparr>kb_modifiers = mods, kb_no_repeat = no_repeat, kb_key = k\<rparr>"

definition binding_matches :: "KeyBinding \<Rightarrow> Modifier list \<Rightarrow> Key \<Rightarrow> bool" where
  "binding_matches b mods k \<longleftrightarrow> k = kb_key b \<and> list_all (\<lambda>x. List.member mods x) (kb_modifiers b)"

definition to_windows :: "KeyBinding \<Rightarrow> u32 \<times> u32" where
  "to_windows b =
     (let base = (if kb_no_repeat b then NOREPEAT else 0)
      in (foldl (\<lambda>acc x. acc OR modifier_as_u32 x) base (kb_modifiers b), key_as_u32 (kb_key b)))"

subsection \<open>The keyboard state\<close>

record KeyResolution =
  kr_hotkeys :: "usize list"
  kr_qcode :: "string option"

record KeyboardState =
  ks_modifiers :: "Modifier list"
  ks_bindings :: "KeyBinding list"

definition KeyboardState_new :: "KeyBinding list \<Rightarrow> KeyboardState" where
  "KeyboardState_new bs = \<lparr>ks_modifiers = [], ks_bindings = bs\<rparr>"

text \<open>\<^verbatim>\<open>bindings.iter().enumerate().filter(...).map(|(i, _)| i)\<close>.\<close>

definition matching_bindings :: "KeyBinding list \<Rightarrow> Modifier list \<Rightarrow> Key \<Rightarrow> usize list" where
  "matching_bindings bs mods k =
     map fst (filter (\<lambda>(i, b). binding_matches b mods k) (enumerate 0 bs))"

definition press_modifier :: "Modifier \<Rightarrow> Modifier list \<Rightarrow> Modifier list" where
  "press_modifier m mods = (if List.member mods m then mods else mods @ [m])"

definition release_modifier :: "Modifier \<Rightarrow> Modifier list \<Rightarrow> Modifier list" where
  "release_modifier m mods =
     (case position (\<lambda>x. x = m) mods of Some i \<Rightarrow> swap_remove i mods | None \<Rightarrow> mods)"

definition input_linux ::
    "u32 \<Rightarrow> bool \<Rightarrow> KeyboardState \<Rightarrow> KeyResolution option \<times> KeyboardState" where
  "input_linux code down s =
     (case linux_key_convert code of
        None \<Rightarrow> (None, s)
      | Some k \<Rightarrow>
          (case modifier k of
             Some m \<Rightarrow>
               (Some \<lparr>kr_hotkeys = [], kr_qcode = qcode_key_convert k\<rparr>,
                s\<lparr>ks_modifiers :=
                    (if down then press_modifier m (ks_modifiers s)
                     else release_modifier m (ks_modifiers s))\<rparr>)
           | None \<Rightarrow>
               (Some \<lparr>kr_hotkeys = (if down then matching_bindings (ks_bindings s) (ks_modifiers s) k
                                    else []),
                      kr_qcode = qcode_key_convert k\<rparr>,
                s)))"

text \<open>A stream of events \<open>(code, down)\<close>: the resolutions and the final state.\<close>

fun input_linux_run ::
    "(u32 \<times> bool) list \<Rightarrow> KeyboardState \<Rightarrow> KeyResolution option list \<times> KeyboardState" where
  "input_linux_run [] s = ([], s)"
| "input_linux_run ((code, down) # es) s =
     (let (r, s') = input_linux code down s; (rs, t) = input_linux_run es s' in (r # rs, t))"

subsection \<open>Held modifiers are a set\<close>

definition ks_wf :: "KeyboardState \<Rightarrow> bool" where
  "ks_wf s \<longleftrightarrow> distinct (ks_modifiers s)"

lemma press_modifier_set:
  "set (press_modifier m mods) = insert m (set mods)"
  "distinct mods \<Longrightarrow> distinct (press_modifier m mods)"
  by (auto simp: press_modifier_def)

lemma release_modifier_set:
  assumes "distinct mods"
  shows "set (release_modifier m mods) = set mods - {m}" and "distinct (release_modifier m mods)"
proof -
  have "set (release_modifier m mods) = set mods - {m} \<and> distinct (release_modifier m mods)"
  proof (cases "position (\<lambda>x. x = m) mods")
    case None
    then have "m \<notin> set mods" by (auto simp: position_None)
    with None assms show ?thesis by (simp add: release_modifier_def)
  next
    case (Some i)
    from position_Some [OF this] have i: "i < length mods" "mods ! i = m" by auto
    with Some assms show ?thesis by (simp add: release_modifier_def swap_remove_set)
  qed
  then show "set (release_modifier m mods) = set mods - {m}" "distinct (release_modifier m mods)"
    by auto
qed

lemma input_linux_wf: "ks_wf s \<Longrightarrow> ks_wf (snd (input_linux code down s))"
  by (auto simp: input_linux_def ks_wf_def press_modifier_set release_modifier_set
      split: option.splits)

lemma input_linux_bindings [simp]: "ks_bindings (snd (input_linux code down s)) = ks_bindings s"
  by (auto simp: input_linux_def split: option.splits)

text \<open>The abstract keyboard: the set of modifiers held, changed by modifier keys only.\<close>

fun spec_modifiers :: "(u32 \<times> bool) \<Rightarrow> Modifier set \<Rightarrow> Modifier set" where
  "spec_modifiers (code, down) M =
     (case Option.bind (linux_key_convert code) modifier of
        None \<Rightarrow> M
      | Some m \<Rightarrow> if down then insert m M else M - {m})"

lemma input_linux_spec:
  "ks_wf s \<Longrightarrow>
     set (ks_modifiers (snd (input_linux code down s))) = spec_modifiers (code, down) (set (ks_modifiers s))"
  by (auto simp: input_linux_def ks_wf_def press_modifier_set release_modifier_set
      split: option.splits)

lemma input_linux_run_spec:
  assumes "ks_wf s"
  shows "ks_wf (snd (input_linux_run es s))"
    and "set (ks_modifiers (snd (input_linux_run es s))) = fold spec_modifiers es (set (ks_modifiers s))"
    and "ks_bindings (snd (input_linux_run es s)) = ks_bindings s"
proof -
  have "ks_wf (snd (input_linux_run es s)) \<and>
      set (ks_modifiers (snd (input_linux_run es s))) = fold spec_modifiers es (set (ks_modifiers s)) \<and>
      ks_bindings (snd (input_linux_run es s)) = ks_bindings s"
    using assms
  proof (induction es arbitrary: s)
    case Nil
    then show ?case by simp
  next
    case (Cons e es)
    obtain code down where e: "e = (code, down)" by (cases e)
    let ?s = "snd (input_linux code down s)"
    from input_linux_wf [OF Cons.prems] have "ks_wf ?s" .
    from Cons.IH [OF this] input_linux_spec [OF Cons.prems] show ?case
      by (simp add: e split_def Let_def del: spec_modifiers.simps)
  qed
  then show "ks_wf (snd (input_linux_run es s))"
    and "set (ks_modifiers (snd (input_linux_run es s))) = fold spec_modifiers es (set (ks_modifiers s))"
    and "ks_bindings (snd (input_linux_run es s)) = ks_bindings s"
    by auto
qed

subsection \<open>Reported hotkeys\<close>

lemma set_matching_bindings:
  "i \<in> set (matching_bindings bs mods k) \<longleftrightarrow> i < length bs \<and> binding_matches (bs ! i) mods k"
  by (force simp: matching_bindings_def in_set_enumerate_eq)

lemma sorted_matching_bindings: "sorted_wrt (<) (matching_bindings bs mods k)"
  unfolding matching_bindings_def by (rule sorted_filter_enumerate)

lemma binding_matches_set:
  "binding_matches b mods k \<longleftrightarrow> k = kb_key b \<and> set (kb_modifiers b) \<subseteq> set mods"
  by (auto simp: binding_matches_def list_all_iff)

subsection \<open>The Windows form of a binding\<close>

text \<open>The bit of each modifier flag.\<close>

primrec modifier_bit :: "Modifier \<Rightarrow> nat" where
  "modifier_bit Mod_Alt = 0"
| "modifier_bit Mod_Ctrl = 1"
| "modifier_bit Mod_Shift = 2"
| "modifier_bit Mod_Win = 3"

lemma modifier_as_u32_bit: "modifier_as_u32 m = push_bit (modifier_bit m) 1"
  by (cases m) (simp_all add: push_bit_eq_mult)

lemma bit_push_bit_one: "k < 32 \<Longrightarrow> bit (push_bit k (1 :: u32)) n \<longleftrightarrow> n = k"
  by (auto simp: bit_exp_iff)

lemma bit_modifier_as_u32: "bit (modifier_as_u32 m) n \<longleftrightarrow> n = modifier_bit m"
proof -
  have "modifier_bit m < 32" by (cases m) simp_all
  then show ?thesis unfolding modifier_as_u32_bit by (rule bit_push_bit_one)
qed

lemma bit_fold_modifiers:
  "bit (foldl (\<lambda>acc x. acc OR modifier_as_u32 x) base ms) n \<longleftrightarrow>
     bit base n \<or> n \<in> modifier_bit ` set ms"
  by (induction ms arbitrary: base) (auto simp: bit_or_iff bit_modifier_as_u32)

lemma bit_NOREPEAT: "bit NOREPEAT n \<longleftrightarrow> n = 14"
proof -
  have "NOREPEAT = push_bit 14 (1 :: u32)" by (simp add: push_bit_eq_mult)
  then show ?thesis by (simp only: bit_push_bit_one)
qed

subsection \<open>Properties\<close>

text \<open>
  Refinement: the vector of modifiers is the set of modifiers held, whatever keys go up and
  down, and never holds a modifier twice.
\<close>

lemma modifiers_are_a_set:
  "set (ks_modifiers (snd (input_linux_run es (KeyboardState_new bs)))) = fold spec_modifiers es {} \<and>
   distinct (ks_modifiers (snd (input_linux_run es (KeyboardState_new bs))))"
proof -
  have wf: "ks_wf (KeyboardState_new bs)" by (simp add: ks_wf_def KeyboardState_new_def)
  from input_linux_run_spec [OF wf, of es] show ?thesis
    by (simp add: ks_wf_def KeyboardState_new_def)
qed

text \<open>
  C35: Functional: after any events, pressing a key that is no modifier reports exactly the
  bindings of that key whose modifiers are all held, by ascending index; a release reports none.
\<close>

theorem hotkeys_reported:
  assumes "linux_key_convert code = Some k" and "modifier k = None"
  shows "\<exists>r. fst (input_linux code down (snd (input_linux_run es (KeyboardState_new bs)))) = Some r \<and>
    kr_qcode r = qcode_key_convert k \<and>
    sorted_wrt (<) (kr_hotkeys r) \<and>
    set (kr_hotkeys r) = {i. down \<and> i < length bs \<and> kb_key (bs ! i) = k \<and>
      set (kb_modifiers (bs ! i)) \<subseteq> fold spec_modifiers es {}}"
proof -
  let ?s = "snd (input_linux_run es (KeyboardState_new bs))"
  have wf: "ks_wf (KeyboardState_new bs)" by (simp add: ks_wf_def KeyboardState_new_def)
  from input_linux_run_spec [OF wf, of es]
  have mods: "set (ks_modifiers ?s) = fold spec_modifiers es {}" and bs: "ks_bindings ?s = bs"
    by (simp_all add: KeyboardState_new_def)
  have r: "fst (input_linux code down ?s) =
      Some \<lparr>kr_hotkeys = (if down then matching_bindings bs (ks_modifiers ?s) k else []),
            kr_qcode = qcode_key_convert k\<rparr>"
    using assms by (simp add: input_linux_def bs)
  have "set (matching_bindings bs (ks_modifiers ?s) k) =
      {i. i < length bs \<and> kb_key (bs ! i) = k \<and> set (kb_modifiers (bs ! i)) \<subseteq> fold spec_modifiers es {}}"
    by (auto simp: set_matching_bindings binding_matches_set mods)
  moreover have "sorted_wrt (<) (matching_bindings bs (ks_modifiers ?s) k)"
    by (rule sorted_matching_bindings)
  ultimately show ?thesis by (simp add: r)
qed

theorem hotkeys_reported_witness:
  "\<exists>r. fst (input_linux KEY_INSERT True (snd (input_linux_run [(KEY_LEFTMETA, True)]
       (KeyboardState_new [KeyBinding_new [Mod_Ctrl] Key_Insert True, KeyBinding_new [Mod_Win] Key_Insert True])))) =
     Some r \<and> kr_hotkeys r = [1]"
proof -
  let ?bs = "[KeyBinding_new [Mod_Ctrl] Key_Insert True, KeyBinding_new [Mod_Win] Key_Insert True]"
  let ?M = "fold spec_modifiers [(KEY_LEFTMETA, True)] {}"
  have conv: "linux_key_convert KEY_INSERT = Some Key_Insert" "linux_key_convert KEY_LEFTMETA = Some Key_LWin"
    by (simp_all add: linux_key_convert_def linux_key_arms_def)
  have "modifier Key_Insert = None" "modifier Key_LWin = Some Mod_Win" by (simp_all add: modifier_def)
  with conv have M: "?M = {Mod_Win}" by simp
  from hotkeys_reported [OF conv(1) \<open>modifier Key_Insert = None\<close>, of True "[(KEY_LEFTMETA, True)]" ?bs]
  obtain r where r: "fst (input_linux KEY_INSERT True (snd (input_linux_run [(KEY_LEFTMETA, True)]
        (KeyboardState_new ?bs)))) = Some r"
      "sorted_wrt (<) (kr_hotkeys r)"
      "set (kr_hotkeys r) = {i. True \<and> i < length ?bs \<and> kb_key (?bs ! i) = Key_Insert \<and>
        set (kb_modifiers (?bs ! i)) \<subseteq> ?M}"
    by (elim exE conjE)
  have "i \<in> set (kr_hotkeys r) \<longleftrightarrow> i < Suc (Suc 0) \<and> kb_key (?bs ! i) = Key_Insert \<and>
      set (kb_modifiers (?bs ! i)) \<subseteq> {Mod_Win}" for i
    unfolding r(3) M by simp
  moreover have "\<not> set (kb_modifiers (?bs ! 0)) \<subseteq> {Mod_Win}" "kb_key (?bs ! 1) = Key_Insert"
    "set (kb_modifiers (?bs ! 1)) \<subseteq> {Mod_Win}"
    by (simp_all add: KeyBinding_new_def)
  ultimately have "i \<in> set (kr_hotkeys r) \<longleftrightarrow> i = 1" for i
    by (metis One_nat_def less_Suc0 less_Suc_eq)
  then have "set (kr_hotkeys r) = {1}" by blast
  with r(2) have "kr_hotkeys r = [1]"
    using strict_sorted_equal [of "kr_hotkeys r" "[1]"] by simp
  with r(1) show ?thesis by blast
qed

text \<open>
  Bounds: the flags sent to Windows have a bit for each modifier of the binding and the
  no-repeat bit, and no other bit, so they lose nothing of the binding.
\<close>

lemma to_windows_bits:
  "bit (fst (to_windows b)) n \<longleftrightarrow>
     (n = 14 \<and> kb_no_repeat b) \<or> (\<exists>m\<in>set (kb_modifiers b). n = modifier_bit m)"
proof -
  have z: "bit (0 :: u32) n \<longleftrightarrow> False" by simp
  show ?thesis
    using bit_NOREPEAT [of n]
    by (cases "kb_no_repeat b") (auto simp: to_windows_def bit_fold_modifiers z)
qed

text \<open>
  Bijection: the Linux codes the driver knows and the keys of the enumeration correspond one
  to one, and two keys never share a QEMU name.
\<close>

lemma key_tables_bijective:
  "(\<forall>k. is_key k \<longleftrightarrow> (\<exists>!code. linux_key_convert code = Some k)) \<and>
   (\<forall>k l q. qcode_key_convert k = Some q \<and> qcode_key_convert l = Some q \<longrightarrow> k = l)"
  using linux_key_convert_is_key linux_key_convert_covers linux_key_convert_inj qcode_key_convert_inj
  by metis

lemma key_tables_bijective_witness:
  "Key_A = Key_A \<and> (\<exists>!code. linux_key_convert code = Some Key_A)"
proof -
  have "is_key Key_A" using linux_key_convert_is_key [of KEY_A]
    by (simp add: linux_key_convert_def linux_key_arms_def)
  with key_tables_bijective show ?thesis by blast
qed

text \<open>
  One flag serves the left and the right key of a modifier: with both held, releasing one
  leaves the driver with the modifier up although the guest, which gets both keys, has it down.
\<close>

lemma shared_modifier_released:
  assumes "linux_key_convert c = Some k" and "modifier k = Some m"
    and "linux_key_convert d = Some l" and "modifier l = Some m"
  shows "m \<notin> set (ks_modifiers (snd (input_linux_run
    (es @ [(c, True), (d, True), (d, False)]) (KeyboardState_new bs))))"
proof -
  have "set (ks_modifiers (snd (input_linux_run (es @ [(c, True), (d, True), (d, False)])
      (KeyboardState_new bs)))) = fold spec_modifiers (es @ [(c, True), (d, True), (d, False)]) {}"
    using input_linux_run_spec(2) [of "KeyboardState_new bs"]
    by (simp add: ks_wf_def KeyboardState_new_def del: spec_modifiers.simps)
  with assms show ?thesis by simp
qed

lemma shared_modifier_released_witness:
  "Mod_Ctrl \<notin> set (ks_modifiers (snd (input_linux_run
    ([] @ [(KEY_LEFTCTRL, True), (KEY_RIGHTCTRL, True), (KEY_RIGHTCTRL, False)]) (KeyboardState_new []))))"
  by (rule shared_modifier_released [of _ Key_LControlKey _ _ Key_RControlKey])
    (simp_all add: linux_key_convert_def linux_key_arms_def modifier_def)

end
