(* ===== verification/Config.thy ===== *)
theory Config
  imports Hotkeys
begin

text \<open>
  \<^verbatim>\<open>common/src/config.rs\<close> and \<^verbatim>\<open>common/src/util.rs\<close>: the configuration as read from the YAML
  file, its default values and text forms, and the capacity of a USB host controller. Field names carry
  a prefix for their struct. \<^verbatim>\<open>light_mouse_speed\<close> is an \<^verbatim>\<open>f64\<close> the program only hands on to
  libinput; it is kept as its 64 bits.
\<close>

subsection \<open>Device identifiers\<close>

record PciId =
  pci_vendor :: u16
  pci_device_id :: u16

record UsbId =
  usbid_vendor :: u16
  usbid_product :: u16

record UsbPort =
  usbport_bus :: u16
  usbport_port :: string

datatype UsbBinding = ById UsbId | ByPort UsbPort

text \<open>\<^verbatim>\<open>PartialEq<UsbId> for UsbBinding\<close> and \<^verbatim>\<open>PartialEq<UsbPort> for UsbBinding\<close>.\<close>

fun binding_eq_id :: "UsbBinding \<Rightarrow> UsbId \<Rightarrow> bool" where
  "binding_eq_id (ById i) other \<longleftrightarrow> i = other"
| "binding_eq_id _ other \<longleftrightarrow> False"

fun binding_eq_port :: "UsbBinding \<Rightarrow> UsbPort \<Rightarrow> bool" where
  "binding_eq_port (ByPort p) other \<longleftrightarrow> p = other"
| "binding_eq_port _ other \<longleftrightarrow> False"

definition PciId_display :: "PciId \<Rightarrow> string" where
  "PciId_display i = hex04 (pci_vendor i) @ '':'' @ hex04 (pci_device_id i)"

definition UsbId_display :: "UsbId \<Rightarrow> string" where
  "UsbId_display i = hex04 (usbid_vendor i) @ '':'' @ hex04 (usbid_product i)"

definition UsbPort_display :: "UsbPort \<Rightarrow> string" where
  "UsbPort_display p = decimal (unat (usbport_bus p)) @ ''.'' @ usbport_port p"

subsection \<open>USB devices and their controllers\<close>

datatype UsbBus = Ohci | Uhci | Ehci | Xhci

primrec UsbBus_display :: "UsbBus \<Rightarrow> string" where
  "UsbBus_display Ohci = ''ohci''"
| "UsbBus_display Uhci = ''uhci''"
| "UsbBus_display Ehci = ''ehci''"
| "UsbBus_display Xhci = ''xhci''"

definition UsbBus_default :: UsbBus where
  "UsbBus_default = Xhci"

text \<open>The derived order: the order of declaration.\<close>

primrec UsbBus_rank :: "UsbBus \<Rightarrow> nat" where
  "UsbBus_rank Ohci = 0"
| "UsbBus_rank Uhci = 1"
| "UsbBus_rank Ehci = 2"
| "UsbBus_rank Xhci = 3"

lemma UsbBus_rank_eq [simp]: "UsbBus_rank a = UsbBus_rank b \<longleftrightarrow> a = b"
  by (cases a; cases b) simp_all

instantiation UsbBus :: linorder
begin

definition less_eq_UsbBus :: "UsbBus \<Rightarrow> UsbBus \<Rightarrow> bool" where
  "less_eq_UsbBus a b \<longleftrightarrow> UsbBus_rank a \<le> UsbBus_rank b"

definition less_UsbBus :: "UsbBus \<Rightarrow> UsbBus \<Rightarrow> bool" where
  "less_UsbBus a b \<longleftrightarrow> UsbBus_rank a < UsbBus_rank b"

instance
  by standard (auto simp: less_eq_UsbBus_def less_UsbBus_def)

end

record UsbDevice =
  dev_binding :: UsbBinding
  dev_permanent :: bool
  dev_bus :: UsbBus

definition default_usbdevice_permanent :: bool where
  "default_usbdevice_permanent = False"

definition default_usbdevice_bus :: UsbBus where
  "default_usbdevice_bus = Xhci"

text \<open>\<^verbatim>\<open>util::usable_ports\<close>.\<close>

primrec usable_ports :: "UsbBus \<Rightarrow> usize" where
  "usable_ports Ohci = 15"
| "usable_ports Uhci = 2"
| "usable_ports Ehci = 6"
| "usable_ports Xhci = 15"

lemma usable_ports_pos [simp]: "0 < usable_ports b"
  by (cases b) simp_all

text \<open>
  \<^verbatim>\<open>util::parse_hex\<close>; a string that is not UTF-8 is \<open>None\<close> at the call. The test is for a
  literal \<^verbatim>\<open>0x\<close>.
\<close>

definition parse_hex :: "string option \<Rightarrow> u16 option" where
  "parse_hex s =
     (case s of
        None \<Rightarrow> None
      | Some t \<Rightarrow> if prefix ''0x'' t then from_str_radix 16 (drop 2 t) else from_str_radix 16 t)"

subsection \<open>Hotkeys and hooks\<close>

datatype Action = IoUpgrade | IoEntryForced | IoExit

datatype HotKeyAction = Exec string | HkAction Action

record HotKey =
  hk_key :: KeyBinding
  hk_action :: HotKeyAction

record HooksConfig =
  hook_ready :: "string option"
  hook_attach :: "string option"
  hook_detach :: "string option"
  hook_down :: "string option"

definition HooksConfig_default :: HooksConfig where
  "HooksConfig_default = \<lparr>hook_ready = None, hook_attach = None, hook_detach = None, hook_down = None\<rparr>"

definition machineconfig_hotkeys_default :: "HotKey list" where
  "machineconfig_hotkeys_default =
     [\<lparr>hk_key = KeyBinding_new [Mod_Ctrl, Mod_Alt] Key_Insert True, hk_action = HkAction IoExit\<rparr>,
      \<lparr>hk_key = KeyBinding_new [Mod_Win] Key_Insert True, hk_action = HkAction IoUpgrade\<rparr>]"

subsection \<open>Sound\<close>

record SoundFixedSettings =
  sfs_frequency :: usize
  sfs_format :: string
  sfs_channels :: usize

record SoundSettings =
  ss_voices :: usize
  ss_use_polling :: bool
  ss_fixed :: "SoundFixedSettings option"

definition SoundSettings_default :: SoundSettings where
  "SoundSettings_default = \<lparr>ss_voices = 1, ss_use_polling = True, ss_fixed = None\<rparr>"

datatype AlsaUnit = Frames | MicroSeconds

record AlsaSettings =
  alsa_name :: string
  alsa_unit :: AlsaUnit
  alsa_buffer_size :: usize
  alsa_period_size :: usize

definition AlsaSettings_default :: AlsaSettings where
  "AlsaSettings_default =
     \<lparr>alsa_name = ''default'', alsa_unit = Frames, alsa_buffer_size = 0, alsa_period_size = 0\<rparr>"

datatype SoundBackend =
    NoSound
  | Alsa AlsaSettings AlsaSettings
  | PulseAudio usize "string option" "string option" "string option"

definition SoundBackend_default :: SoundBackend where
  "SoundBackend_default = NoSound"

record SoundConfig =
  sound_timer_period :: usize
  sound_input :: SoundSettings
  sound_output :: SoundSettings
  sound_backend :: SoundBackend

definition SoundConfig_default :: SoundConfig where
  "SoundConfig_default =
     \<lparr>sound_timer_period = 100, sound_input = SoundSettings_default,
      sound_output = SoundSettings_default, sound_backend = SoundBackend_default\<rparr>"

subsection \<open>The machine and the whole configuration\<close>

record SetupConfig =
  setup_cdrom :: "string option"
  setup_floppy :: "string option"
  setup_gui :: bool
  setup_iommu_commanded :: bool
  setup_reboot_commanded :: bool

record StorageDevice =
  sto_path :: string
  sto_cache :: string
  sto_format :: string
  sto_snapshot_file :: "string option"

record VfioDevice =
  vfio_resettable :: bool
  vfio_slot :: string
  vfio_id :: PciId

record NetworkConfig =
  net_bridges :: "string list"

record SambaConfig =
  samba_user :: string
  samba_path :: string

record MachineConfig =
  mc_cpu :: "string option"
  mc_memory :: string
  mc_hugepages :: "bool option"
  mc_cores :: usize
  mc_threads :: "u32 option"
  mc_light_mouse_speed :: u64
  mc_pci_devices :: "VfioDevice list"
  mc_network :: "NetworkConfig option"
  mc_storage :: "StorageDevice list"
  mc_usb_devices :: "UsbDevice list"
  mc_hotkeys :: "HotKey list"

record Config =
  cfg_machine :: MachineConfig
  cfg_sound :: SoundConfig
  cfg_samba :: "SambaConfig option"
  cfg_setup :: "SetupConfig option"
  cfg_additional_qemu_cmdline :: "string option"
  cfg_runtime_directory_override :: "string option"
  cfg_data_directory_override :: "string option"
  cfg_tpm_state_folder :: "string option"
  cfg_hooks :: HooksConfig

subsection \<open>Text forms read back\<close>

lemma prefix_0x_hex04: "\<not> prefix ''0x'' (hex04 v)"
proof
  assume "prefix ''0x'' (hex04 v)"
  then have "CHR ''x'' \<in> set (hex04 v)" by (auto simp: prefix_def)
  then have "CHR ''x'' \<in> set (digits_in 16 (unat v))"
    by (auto simp: hex04_def Let_def)
  then obtain d where "d < 16" and x: "CHR ''x'' = digit_char d"
    using digits_in_set [of 16 "unat v"] by auto
  from x have "(of_char (digit_char d) :: nat) = 120" by (simp flip: x)
  with \<open>d < 16\<close> show False by (auto simp: digit_char_def split: if_splits)
qed

lemma parse_hex_hex04: "parse_hex (Some (hex04 v)) = Some v"
  by (simp add: parse_hex_def prefix_0x_hex04 from_str_radix_hex04)

lemma parse_hex_0x_hex04: "parse_hex (Some (''0x'' @ hex04 v)) = Some v"
  by (simp add: parse_hex_def from_str_radix_hex04)

lemma length_hex04 [simp]: "length (hex04 v) = 4"
proof -
  have "unat v < 16 ^ 4" using unsigned_less [of v] by simp
  then have "length (digits_in 16 (unat v)) \<le> 4" using length_digits_in [of 16 4 "unat v"] by simp
  then show ?thesis by (simp add: hex04_def Let_def)
qed

subsection \<open>Properties\<close>

text \<open>
  Round trip: every 16-bit id is read back from the text that filters udev, with or without a
  \<^verbatim>\<open>0x\<close>; the texts of different PCI or USB ids differ.
\<close>

lemma hex_ids_roundtrip:
  "parse_hex (Some (hex04 v)) = Some v \<and> parse_hex (Some (''0x'' @ hex04 v)) = Some v \<and>
   (PciId_display p = PciId_display q \<longleftrightarrow> p = q) \<and> (UsbId_display i = UsbId_display j \<longleftrightarrow> i = j)"
proof -
  have "x @ '':'' @ y = x' @ '':'' @ y' \<longleftrightarrow> x = x' \<and> y = y'" if "length x = length x'"
    for x y x' y' :: string
    using that by auto
  then show ?thesis
    using parse_hex_hex04 parse_hex_0x_hex04
    by (cases p; cases q; cases i; cases j)
      (simp add: PciId_display_def UsbId_display_def hex04_inj)
qed

end
