(* ===== verification/Udev.thy ===== *)
theory Udev
  imports Config
begin

text \<open>
  Finding the host devices of a USB binding: \<^verbatim>\<open>udev_resolve_binding\<close> of
  \<^verbatim>\<open>driver/src/controller.rs\<close>. libudev itself is a parameter of the model, the record
  \<open>Udev\<close>: whether a context, an enumerator and a filter can be made, and which devices a scan
  with a list of filters returns.
\<close>

text \<open>Every \<^verbatim>\<open>unwrap\<close> and \<^verbatim>\<open>expect\<close> of the driver that can fail is one of these.\<close>

datatype panic =
    Udev_context_failed
  | Udev_enumerator_failed
  | Udev_scan_failed
  | Udev_result_failed
  | Bad_number
  | Missing_attribute
  | Missing_devnode
  | Devnode_not_utf8
  | Libinput_config_failed
  | Channel_closed
  | Spawn_failed
  | Unknown_job
  | Remove_file_failed
  | Unknown_input_name
  | Arithmetic_overflow
  | Bad_signal
  | Inhibit_failed
  | Watch_failed

datatype UdevMatch =
    MatchSubsystem string
  | MatchProperty string string
  | MatchAttribute string string
  | MatchParent string

text \<open>
  A device: its path in sysfs, its device node (\<open>Some None\<close> is a node whose name is not UTF-8),
  and its attributes, without those that have no UTF-8 value.
\<close>

record UdevDevice =
  ud_syspath :: string
  ud_devnode :: "string option option"
  ud_attributes :: "(string \<times> string option) list"

record Udev =
  udev_context_ok :: bool
  udev_enumerator_ok :: bool
  udev_match_ok :: "UdevMatch \<Rightarrow> bool"
  udev_scan :: "UdevMatch list \<Rightarrow> UdevDevice list option"

text \<open>The filters of a binding, in the order the code adds them.\<close>

fun binding_matches_udev :: "UsbBinding \<Rightarrow> UdevMatch list" where
  "binding_matches_udev (ById i) =
     [MatchSubsystem ''usb'', MatchProperty ''DEVTYPE'' ''usb_device'',
      MatchAttribute ''idVendor'' (hex04 (usbid_vendor i)),
      MatchAttribute ''idProduct'' (hex04 (usbid_product i))]"
| "binding_matches_udev (ByPort p) =
     [MatchSubsystem ''usb'', MatchProperty ''DEVTYPE'' ''usb_device'',
      MatchAttribute ''busnum'' (decimal (unat (usbport_bus p))),
      MatchAttribute ''devpath'' (usbport_port p)]"

text \<open>\<^verbatim>\<open>parse_int\<close>, with Rust's integer prefixes.\<close>

definition parse_int :: "string \<Rightarrow> u64 option" where
  "parse_int s =
     (if prefix ''0x'' s then from_str_radix 16 (drop 2 s)
      else if prefix ''0o'' s then from_str_radix 8 (drop 2 s)
      else if prefix ''0b'' s then from_str_radix 2 (drop 2 s)
      else from_str_radix 10 s)"

text \<open>The loop over the attributes; the last \<^verbatim>\<open>busnum\<close> and \<^verbatim>\<open>devnum\<close> win.\<close>

fun read_attributes ::
    "(string \<times> string option) list \<Rightarrow> u64 option \<times> u64 option \<Rightarrow> panic + (u64 option \<times> u64 option)" where
  "read_attributes [] acc = Inr acc"
| "read_attributes ((name, None) # attrs) acc = read_attributes attrs acc"
| "read_attributes ((name, Some val) # attrs) (bus, addr) =
     (if name = ''busnum'' then
        (case parse_int val of
           None \<Rightarrow> Inl Bad_number
         | Some v \<Rightarrow> read_attributes attrs (Some v, addr))
      else if name = ''devnum'' then
        (case parse_int val of
           None \<Rightarrow> Inl Bad_number
         | Some v \<Rightarrow> read_attributes attrs (bus, Some v))
      else read_attributes attrs (bus, addr))"

definition device_address :: "UdevDevice \<Rightarrow> panic + u64 \<times> u64" where
  "device_address dev =
     and_then (read_attributes (ud_attributes dev) (None, None)) (\<lambda>r.
       case r of
         (Some bus, Some addr) \<Rightarrow> Inr (bus, addr)
       | _ \<Rightarrow> Inl Missing_attribute)"

text \<open>
  \<^verbatim>\<open>udev_resolve_binding\<close>. The outer sum is a panic, the inner one the \<^verbatim>\<open>Err\<close> of a filter.
\<close>

definition udev_resolve_binding :: "Udev \<Rightarrow> UsbBinding \<Rightarrow> panic + (unit + (u64 \<times> u64) option)" where
  "udev_resolve_binding u b =
     (if \<not> udev_enumerator_ok u then Inl Udev_enumerator_failed
      else if \<not> list_all (udev_match_ok u) (binding_matches_udev b) then Inr (Inl ())
      else
        (case udev_scan u (binding_matches_udev b) of
           None \<Rightarrow> Inl Udev_scan_failed
         | Some [] \<Rightarrow> Inr (Inr None)
         | Some (dev # _) \<Rightarrow> and_then (device_address dev) (\<lambda>a. Inr (Inr (Some a)))))"

text \<open>\<^verbatim>\<open>resolve_binding\<close> makes a context of its own.\<close>

definition resolve_binding :: "Udev \<Rightarrow> UsbBinding \<Rightarrow> panic + (unit + (u64 \<times> u64) option)" where
  "resolve_binding u b =
     (if \<not> udev_context_ok u then Inl Udev_context_failed else udev_resolve_binding u b)"

text \<open>\<^verbatim>\<open>.expect("Failed to resolve usb binding")\<close> of both callers.\<close>

definition expect_binding :: "panic + (unit + 'a) \<Rightarrow> panic + 'a" where
  "expect_binding r =
     and_then r (\<lambda>x. case x of Inl _ \<Rightarrow> Inl Udev_result_failed | Inr y \<Rightarrow> Inr y)"

subsection \<open>Facts\<close>

text \<open>
  A host on which every lookup returns: what sysfs documents for USB devices, that they have
  a decimal \<^verbatim>\<open>busnum\<close> and \<^verbatim>\<open>devnum\<close>.
\<close>

definition udev_healthy :: "Udev \<Rightarrow> bool" where
  "udev_healthy u \<longleftrightarrow>
     udev_context_ok u \<and> udev_enumerator_ok u \<and> (\<forall>m. udev_match_ok u m) \<and>
     (\<forall>ms. \<exists>ds. udev_scan u ms = Some ds \<and>
        (\<forall>d\<in>set ds. (\<exists>a. device_address d = Inr a) \<and> (\<exists>n. ud_devnode d = Some (Some n))))"

lemma resolve_healthy:
  assumes "udev_healthy u"
  shows "\<exists>r. expect_binding (udev_resolve_binding u b) = Inr r"
proof -
  from assms obtain ds where ds: "udev_scan u (binding_matches_udev b) = Some ds"
      "\<forall>d\<in>set ds. \<exists>a. device_address d = Inr a"
    unfolding udev_healthy_def by metis
  have "udev_enumerator_ok u" "list_all (udev_match_ok u) (binding_matches_udev b)"
    using assms by (auto simp: udev_healthy_def list_all_iff)
  with ds show ?thesis
    by (cases ds) (auto simp: udev_resolve_binding_def expect_binding_def)
qed

lemma decimal_no_letter:
  assumes "58 \<le> (of_char c :: nat)"
  shows "c \<notin> set (decimal n)"
proof
  assume "c \<in> set (decimal n)"
  then obtain d where "d < 10" "c = digit_char d"
    using digits_in_set [of 10 n] by (auto simp: decimal_def)
  then have "(of_char c :: nat) < 58" by (simp add: digit_char_def)
  with assms show False by simp
qed

lemma parse_int_decimal: "parse_int (decimal (unat v)) = Some v"
proof -
  have no: "\<not> prefix (CHR ''0'' # c # []) (decimal (unat v))" if "58 \<le> (of_char c :: nat)" for c
  proof
    assume "prefix [CHR ''0'', c] (decimal (unat v))"
    then obtain t where "decimal (unat v) = [CHR ''0'', c] @ t" by (rule prefixE)
    then have "c \<in> set (decimal (unat v))" by simp
    with decimal_no_letter [OF that] show False by blast
  qed
  have "\<not> prefix ''0x'' (decimal (unat v))" "\<not> prefix ''0o'' (decimal (unat v))"
    "\<not> prefix ''0b'' (decimal (unat v))"
    by (rule no, simp)+
  then show ?thesis
    using from_str_radix_digits_in [of 10 v] by (simp add: parse_int_def decimal_def)
qed

text \<open>A device as sysfs shows it, the other attributes in any order, is found under its address.\<close>

lemma read_attributes_skip:
  assumes "\<forall>(k, v)\<in>set attrs. k \<noteq> ''busnum'' \<and> k \<noteq> ''devnum''"
  shows "read_attributes (attrs @ rest) acc = read_attributes rest acc"
  using assms
proof (induction attrs arbitrary: acc)
  case (Cons a attrs)
  obtain k v where a: "a = (k, v)" by (cases a)
  obtain x y where acc: "acc = (x, y)" by (cases acc)
  show ?case using Cons by (cases v) (simp_all add: a acc)
qed simp

lemma device_address_sysfs:
  assumes "ud_attributes d = as @ (''busnum'', Some (decimal (unat bus))) # bs @
             (''devnum'', Some (decimal (unat addr))) # cs"
    and "\<forall>(k, v)\<in>set as \<union> set bs \<union> set cs. k \<noteq> ''busnum'' \<and> k \<noteq> ''devnum''"
  shows "device_address d = Inr (bus, addr)"
proof -
  have skip: "read_attributes (as @ r) acc = read_attributes r acc"
    "read_attributes (bs @ r) acc = read_attributes r acc"
    "read_attributes cs acc = Inr acc" for r acc
    using assms(2) read_attributes_skip [of as] read_attributes_skip [of bs]
      read_attributes_skip [of cs "[]"] by auto
  show ?thesis by (simp add: device_address_def assms(1) skip parse_int_decimal)
qed

end
