(* ===== verification/Ga_Protocol.thy ===== *)
theory Ga_Protocol
  imports Bytes
begin

text \<open>
  The messages between the driver and the guest agent: \<^verbatim>\<open>clientpipe-proto/src/protocol.proto\<close> and
  the conversions of \<^verbatim>\<open>clientpipe-proto/src/lib.rs\<close>. A field of an enumeration type is the
  \<^verbatim>\<open>i32\<close> that prost keeps; a \<^verbatim>\<open>oneof\<close> is an option, empty when the field was not sent or is
  not known.
\<close>

datatype ClipboardType = CT_Invalid | CT_Text | CT_Image

text \<open>\<^verbatim>\<open>ClipboardType::from_i32\<close> and the conversion back, by the numbers of the \<^verbatim>\<open>enum\<close>.\<close>

definition ClipboardType_from_i32 :: "i32 \<Rightarrow> ClipboardType option" where
  "ClipboardType_from_i32 n =
     (if n = 0 then Some CT_Invalid
      else if n = 1 then Some CT_Text
      else if n = 2 then Some CT_Image
      else None)"

primrec ClipboardType_as_i32 :: "ClipboardType \<Rightarrow> i32" where
  "ClipboardType_as_i32 CT_Invalid = 0"
| "ClipboardType_as_i32 CT_Text = 1"
| "ClipboardType_as_i32 CT_Image = 2"

lemma ClipboardType_from_as [simp]: "ClipboardType_from_i32 (ClipboardType_as_i32 t) = Some t"
  by (cases t) (simp_all add: ClipboardType_from_i32_def)

text \<open>
  \<^verbatim>\<open>ClipboardTypes::types()\<close>: prost's iterator reads an unknown number as the default value,
  \<open>CT_Invalid\<close>.
\<close>

record ClipboardTypes =
  ct_types :: "i32 list"

definition ClipboardTypes_default :: ClipboardTypes where
  "ClipboardTypes_default = \<lparr>ct_types = []\<rparr>"

definition ClipboardTypes_push :: "ClipboardType \<Rightarrow> ClipboardTypes \<Rightarrow> ClipboardTypes" where
  "ClipboardTypes_push t ts = ts\<lparr>ct_types := ct_types ts @ [ClipboardType_as_i32 t]\<rparr>"

definition ClipboardTypes_iter :: "ClipboardTypes \<Rightarrow> ClipboardType list" where
  "ClipboardTypes_iter ts =
     map (\<lambda>n. case ClipboardType_from_i32 n of Some t \<Rightarrow> t | None \<Rightarrow> CT_Invalid) (ct_types ts)"

datatype ClipboardMessage =
    GrabClipboard ClipboardTypes
  | RequestClipboardContents i32
  | ClipboardContents "u8 list"

record RegisterHotKey =
  rhk_id :: u32
  rhk_modifiers :: u32
  rhk_key :: u32

record Point =
  point_x :: i32
  point_y :: i32

datatype GaCmdOut =
    Ga_Ping
  | Ga_ClipboardOut "ClipboardMessage option"
  | Ga_ReleaseModifiers
  | Ga_Suspend
  | Ga_RegisterHotKey RegisterHotKey
  | Ga_SetMousePosition Point
  | Ga_Shutdown
  | Ga_EnableDebugConsole string

datatype GaCmdIn =
    Ga_Pong
  | Ga_ReportBoot
  | Ga_ClipboardIn "ClipboardMessage option"
  | Ga_Suspending
  | Ga_HotKey u32
  | Ga_HotKeyBindingFailed string
  | Ga_MouseEdged Point

text \<open>The \<^verbatim>\<open>From\<close> implementations.\<close>

definition clipboard_to_out :: "ClipboardMessage \<Rightarrow> GaCmdOut" where
  "clipboard_to_out msg = Ga_ClipboardOut (Some msg)"

definition clipboard_to_in :: "ClipboardMessage \<Rightarrow> GaCmdIn" where
  "clipboard_to_in msg = Ga_ClipboardIn (Some msg)"

definition register_to_out :: "RegisterHotKey \<Rightarrow> GaCmdOut" where
  "register_to_out msg = Ga_RegisterHotKey msg"

subsection \<open>Messages the guest agent knows\<close>

text \<open>
  The agent panics on a clipboard message without content, on a grab of an unknown type and on a
  request for one.
\<close>

definition acceptable :: "GaCmdOut \<Rightarrow> bool" where
  "acceptable msg \<longleftrightarrow>
     (case msg of
        Ga_ClipboardOut None \<Rightarrow> False
      | Ga_ClipboardOut (Some (GrabClipboard types)) \<Rightarrow> CT_Invalid \<notin> set (ClipboardTypes_iter types)
      | Ga_ClipboardOut (Some (RequestClipboardContents i)) \<Rightarrow> ClipboardType_from_i32 i \<noteq> None
      | _ \<Rightarrow> True)"

end
