(* ===== verification/Qmp.thy ===== *)
theory Qmp
  imports Prelude
begin

text \<open>
  \<^verbatim>\<open>driver/src/monitor/codec.rs\<close>: the commands the driver queues for QEMU, the input events inside
  them, and the messages and the line framing of the older hand-written QMP codec. The JSON
  reader is a parameter.
\<close>

subsection \<open>Commands\<close>

datatype InputButton =
    Button_Left
  | Button_Middle
  | Button_Right
  | Button_WheelUp
  | Button_WheelDown
  | Button_Side
  | Button_Extra

datatype KeyValue = Qcode string

datatype InputEvent =
    Rel string i64
  | Btn InputButton bool
  | KeyEvent KeyValue bool

text \<open>
  The fields of \<open>DeviceAdd\<close> are driver, id, bus, port, hostbus and hostaddr; an \<open>ack\<close> is the
  number of the \<^verbatim>\<open>oneshot\<close> channel whose sender travels with the command.
\<close>

datatype QmpCommand =
    DeviceAdd string string string usize u64 u64
  | DeviceDel string
  | SystemPowerdown
  | SystemWakeup
  | InputSendEvent "InputEvent list"
  | TakeSnapshot usize string nat
  | CommitSnapshot usize string nat
  | ReleaseAllKeys
  | JobReady string

text \<open>
  \<^verbatim>\<open>Into<qmp::InputButton>\<close> and \<^verbatim>\<open>Into<qmp::InputEvent>\<close>; QAPI's generated enumerations are their
  names. The conversion of a key panics when QAPI has no such \<^verbatim>\<open>QKeyCode\<close>, that of a movement
  when it has no such axis: \<open>axes\<close> and \<open>qkeycodes\<close> are those two enumerations.
\<close>

primrec InputButton_into :: "InputButton \<Rightarrow> string" where
  "InputButton_into Button_Left = ''left''"
| "InputButton_into Button_Right = ''right''"
| "InputButton_into Button_Middle = ''middle''"
| "InputButton_into Button_WheelUp = ''wheel_up''"
| "InputButton_into Button_WheelDown = ''wheel_down''"
| "InputButton_into Button_Side = ''side''"
| "InputButton_into Button_Extra = ''extra''"

datatype QmpInputEvent =
    Qmp_rel string i64
  | Qmp_btn string bool
  | Qmp_key string bool

fun InputEvent_into :: "string set \<Rightarrow> string set \<Rightarrow> InputEvent \<Rightarrow> QmpInputEvent option" where
  "InputEvent_into axes qkeycodes (Rel axis v) = (if axis \<in> axes then Some (Qmp_rel axis v) else None)"
| "InputEvent_into axes qkeycodes (Btn button down) = Some (Qmp_btn (InputButton_into button) down)"
| "InputEvent_into axes qkeycodes (KeyEvent (Qcode s) down) =
     (if s \<in> qkeycodes then Some (Qmp_key s down) else None)"

subsection \<open>Messages\<close>

record Timestamp =
  ts_seconds :: u64
  ts_microseconds :: u32

record DeviceDeleted =
  dd_device :: string
  dd_path :: string

record RtcChange =
  rtc_offset :: i32

datatype Event =
    Powerdown Timestamp
  | Suspend_event Timestamp
  | Wakeup Timestamp
  | Reset Timestamp
  | DeviceDeleted_event Timestamp DeviceDeleted
  | RtcChange_event Timestamp RtcChange

record Version =
  ver_micro :: u32
  ver_minor :: u32
  ver_major :: u32

record QmpVersion =
  qv_qemu :: Version
  qv_package :: string

record Qmp =
  qmp_version :: QmpVersion
  qmp_capabilities :: "string list"

datatype Message = Init Qmp | Return | Event_message Event

text \<open>
  \<^verbatim>\<open>Codec::decode\<close>: the first line, if a newline has arrived. \<open>utf8\<close> is \<^verbatim>\<open>str::from_utf8\<close> and
  \<open>json\<close> is \<^verbatim>\<open>serde_json::from_str\<close> (\<open>None\<close> for their errors; a JSON \<^verbatim>\<open>null\<close> reads as no message).
  The left result is the I/O error for a line that is not UTF-8.
\<close>

definition qmp_decode ::
    "(u8 list \<Rightarrow> string option) \<Rightarrow> (string \<Rightarrow> Message option option) \<Rightarrow> u8 list \<Rightarrow>
      (unit + Message option) \<times> u8 list" where
  "qmp_decode utf8 json buf =
     (case position (\<lambda>b. b = 10) buf of
        None \<Rightarrow> (Inr None, buf)
      | Some i \<Rightarrow>
          (let line = take i buf; buf = drop 1 (drop i buf) in
           case utf8 line of
             None \<Rightarrow> (Inl (), buf)
           | Some s \<Rightarrow>
               (case json s of
                  None \<Rightarrow> (Inr None, buf)
                | Some m \<Rightarrow> (Inr m, buf))))"

lemma qmp_decode_line:
  assumes "10 \<notin> set line"
  shows "qmp_decode utf8 json (line @ 10 # rest) =
    (case utf8 line of
       None \<Rightarrow> (Inl (), rest)
     | Some s \<Rightarrow> (Inr (case json s of None \<Rightarrow> None | Some m \<Rightarrow> m), rest))"
proof -
  have "position (\<lambda>b. b = 10) (line @ 10 # rest) = Some (length line)"
    using assms by (induction line) auto
  then show ?thesis by (simp add: qmp_decode_def split: option.splits)
qed

end
