(* ===== verification/Stream_Decoder.thy ===== *)
theory Stream_Decoder
  imports Prelude
begin

text \<open>
  The contract between a codec and the connection that feeds it. A decoder looks at the bytes
  received so far and either takes one item off the front or answers \<open>None\<close>; the connection calls
  it until it answers \<open>None\<close> and then waits for more bytes. The locale states what a decoder must
  promise for the items to be independent of how the byte stream was cut into chunks.
\<close>

text \<open>\<open>drain\<close>: decode until \<open>None\<close>, at most \<open>n\<close> times.\<close>

fun drain :: "('b list \<Rightarrow> 'i option \<times> 'b list) \<Rightarrow> nat \<Rightarrow> 'b list \<Rightarrow> 'i list \<times> 'b list" where
  "drain d 0 buf = ([], buf)"
| "drain d (Suc n) buf =
     (case d buf of
        (None, r) \<Rightarrow> ([], r)
      | (Some x, r) \<Rightarrow> let (xs, t) = drain d n r in (x # xs, t))"

text \<open>One call more than there are bytes is enough when every item takes a byte.\<close>

definition decode_all :: "('b list \<Rightarrow> 'i option \<times> 'b list) \<Rightarrow> 'b list \<Rightarrow> 'i list \<times> 'b list" where
  "decode_all d buf = drain d (Suc (length buf)) buf"

text \<open>Chunks arriving one after the other.\<close>

fun feed_all :: "('b list \<Rightarrow> 'i option \<times> 'b list) \<Rightarrow> 'b list \<Rightarrow> 'b list list \<Rightarrow> 'i list \<times> 'b list" where
  "feed_all d buf [] = ([], buf)"
| "feed_all d buf (c # cs) =
     (let (xs, r) = decode_all d (buf @ c); (ys, t) = feed_all d r cs in (xs @ ys, t))"

locale stream_decoder =
  fixes decode :: "'b list \<Rightarrow> 'i option \<times> 'b list"
  assumes takes_bytes: "decode buf = (Some x, r) \<Longrightarrow> length r < length buf"
    and stable: "decode buf = (Some x, r) \<Longrightarrow> decode (buf @ more) = (Some x, r @ more)"
    and keeps_bytes: "decode buf = (None, r) \<Longrightarrow> r = buf"
begin

lemma drain_fuel:
  "length buf < n \<Longrightarrow> length buf < m \<Longrightarrow> drain decode n buf = drain decode m buf"
proof (induction n arbitrary: m buf)
  case 0
  then show ?case by simp
next
  case (Suc n)
  from Suc.prems obtain k where k: "m = Suc k" by (cases m) auto
  show ?case
  proof (cases "decode buf")
    case (Pair o' r)
    show ?thesis
    proof (cases o')
      case None
      with Pair k show ?thesis by simp
    next
      case (Some x)
      with Pair have "length r < length buf" by (simp add: takes_bytes)
      with Suc.prems k have "drain decode n r = drain decode k r" by (intro Suc.IH) auto
      with Pair Some k show ?thesis by simp
    qed
  qed
qed

lemma decode_all_None: "decode buf = (None, r) \<Longrightarrow> decode_all decode buf = ([], buf)"
  using keeps_bytes [of buf r] by (simp add: decode_all_def)

lemma decode_all_Some:
  assumes "decode buf = (Some x, r)"
  shows "decode_all decode buf = (x # fst (decode_all decode r), snd (decode_all decode r))"
proof -
  have "drain decode (length buf) r = drain decode (Suc (length r)) r"
    using takes_bytes [OF assms] by (intro drain_fuel) auto
  with assms show ?thesis by (simp add: decode_all_def split_def Let_def)
qed

text \<open>Decoding a longer buffer is decoding the shorter one and going on with the rest.\<close>

lemma decode_all_append:
  "decode_all decode (buf @ more) =
     (fst (decode_all decode buf) @ fst (decode_all decode (snd (decode_all decode buf) @ more)),
      snd (decode_all decode (snd (decode_all decode buf) @ more)))"
proof (induction buf rule: length_induct)
  case (1 buf)
  show ?case
  proof (cases "decode buf")
    case (Pair o' r)
    show ?thesis
    proof (cases o')
      case None
      with Pair show ?thesis by (simp add: decode_all_None)
    next
      case (Some x)
      with Pair have d: "decode buf = (Some x, r)" by simp
      from takes_bytes [OF d] "1" have ih: "decode_all decode (r @ more) =
        (fst (decode_all decode r) @ fst (decode_all decode (snd (decode_all decode r) @ more)),
         snd (decode_all decode (snd (decode_all decode r) @ more)))" by blast
      show ?thesis
        by (simp add: decode_all_Some [OF d] decode_all_Some [OF stable [OF d]] ih)
    qed
  qed
qed

lemma decode_all_rest: "decode_all decode (snd (decode_all decode buf)) = ([], snd (decode_all decode buf))"
proof (induction buf rule: length_induct)
  case (1 buf)
  show ?case
  proof (cases "decode buf")
    case (Pair o' r)
    show ?thesis
    proof (cases o')
      case None
      with Pair show ?thesis by (simp add: decode_all_None)
    next
      case (Some x)
      with Pair have d: "decode buf = (Some x, r)" by simp
      from takes_bytes [OF d] "1" show ?thesis by (simp add: decode_all_Some [OF d])
    qed
  qed
qed

lemma feed_all_eq:
  "decode_all decode buf = ([], buf) \<Longrightarrow> feed_all decode buf cs = decode_all decode (buf @ concat cs)"
proof (induction cs arbitrary: buf)
  case Nil
  then show ?case by simp
next
  case (Cons c cs)
  let ?r = "snd (decode_all decode (buf @ c))"
  have "feed_all decode ?r cs = decode_all decode (?r @ concat cs)"
    by (intro Cons.IH decode_all_rest)
  then show ?case
    using decode_all_append [of "buf @ c" "concat cs"] by (simp add: split_def Let_def)
qed

text \<open>The items and the rest depend on the bytes, not on the chunks.\<close>

lemma chunks_irrelevant:
  assumes "concat cs = concat ds" and "decode_all decode [] = ([], [])"
  shows "feed_all decode [] cs = feed_all decode [] ds"
  using assms by (simp add: feed_all_eq)

text \<open>A stream of encoded items decodes to the items.\<close>

lemma decode_all_items:
  assumes "\<And>x rest. x \<in> set xs \<Longrightarrow> decode (enc x @ rest) = (Some x, rest)"
  shows "decode_all decode (concat (map enc xs) @ rest) =
           (xs @ fst (decode_all decode rest), snd (decode_all decode rest))"
  using assms
proof (induction xs)
  case Nil
  then show ?case by simp
next
  case (Cons x xs)
  have "decode (enc x @ concat (map enc xs) @ rest) = (Some x, concat (map enc xs) @ rest)"
    by (rule Cons.prems) simp
  from decode_all_Some [OF this] show ?case using Cons by simp
qed

end

subsection \<open>Framed items\<close>

text \<open>
  A codec whose decoder may also drop bytes without an item (it skips what it cannot read) keeps a
  weaker contract: it reads a whole encoding back, and leaves every proper prefix of one alone. For
  encodings of good items this is enough.
\<close>

locale framing =
  fixes enc :: "'i \<Rightarrow> 'b list" and decode :: "'b list \<Rightarrow> 'i option \<times> 'b list" and good :: "'i \<Rightarrow> bool"
  assumes whole: "good x \<Longrightarrow> decode (enc x @ rest) = (Some x, rest)"
    and partial: "good x \<Longrightarrow> strict_prefix p (enc x) \<Longrightarrow> decode p = (None, p)"
    and nonempty: "good x \<Longrightarrow> enc x \<noteq> []"
    and empty: "decode [] = (None, [])"
begin

text \<open>What is left in the buffer is the beginning of the next item.\<close>

definition pending :: "'b list \<Rightarrow> 'i list \<Rightarrow> bool" where
  "pending r zs \<longleftrightarrow> (case zs of [] \<Rightarrow> r = [] | z # _ \<Rightarrow> strict_prefix r (enc z))"

lemma drain_items:
  assumes "\<forall>x\<in>set xs. good x" and "buf @ more = concat (map enc xs)" and "length buf < n"
  shows "\<exists>ys zs r. drain decode n buf = (ys, r) \<and> xs = ys @ zs \<and>
    r @ more = concat (map enc zs) \<and> pending r zs"
  using assms
proof (induction xs arbitrary: buf n)
  case Nil
  then obtain k where "n = Suc k" by (cases n) auto
  with Nil show ?case by (intro exI [of _ "[]"]) (simp add: pending_def empty)
next
  case (Cons x xs)
  then obtain k where n: "n = Suc k" by (cases n) auto
  from Cons.prems(1) have "good x" by simp
  show ?case
  proof (cases "length (enc x) \<le> length buf")
    case True
    define b where "b = drop (length (enc x)) buf"
    from Cons.prems(2) True have "take (length (enc x)) buf = enc x"
      by (metis append_eq_conv_conj concat.simps(2) list.simps(9) take_append diff_is_0_eq take0 append_Nil2)
    then have b: "buf = enc x @ b" by (metis append_take_drop_id b_def)
    with Cons.prems(2) have "b @ more = concat (map enc xs)" by simp
    note b = b this
    from \<open>good x\<close> have "0 < length (enc x)" using nonempty by blast
    with b(1) Cons.prems(3) n have "length b < k" by (simp del: length_greater_0_conv)
    with Cons.IH [of b k] Cons.prems b obtain ys zs r where
      "drain decode k b = (ys, r)" "xs = ys @ zs" "r @ more = concat (map enc zs)" "pending r zs"
      by auto
    with b n whole [OF \<open>good x\<close>] show ?thesis
      by (intro exI [of _ "x # ys"] exI [of _ zs] exI [of _ r]) auto
  next
    case False
    moreover have "prefix buf (enc x @ concat (map enc xs))"
      using Cons.prems(2) by (metis concat.simps(2) list.simps(9) prefixI)
    ultimately have "strict_prefix buf (enc x)"
      using prefix_length_prefix [of buf _ "enc x"] by (auto simp: strict_prefix_def)
    with partial [OF \<open>good x\<close>] Cons.prems n show ?thesis
      by (intro exI [of _ "[]"] exI [of _ "x # xs"] exI [of _ buf]) (simp add: pending_def)
  qed
qed

lemma feed_pending:
  assumes "\<forall>x\<in>set xs. good x" and "buf @ concat cs = concat (map enc xs)" and "pending buf xs"
  shows "feed_all decode buf cs = (xs, [])"
  using assms
proof (induction cs arbitrary: buf xs)
  case Nil
  then show ?case by (cases xs) (auto simp: pending_def strict_prefix_def prefix_def)
next
  case (Cons c cs)
  then obtain ys zs r where d: "decode_all decode (buf @ c) = (ys, r)" "xs = ys @ zs"
      "r @ concat cs = concat (map enc zs)" "pending r zs"
    using drain_items [of xs "buf @ c" "concat cs" "Suc (length (buf @ c))"]
    by (auto simp: decode_all_def)
  with Cons.IH [of zs r] Cons.prems(1) show ?case by simp
qed

lemma feed_items:
  assumes "\<forall>x\<in>set xs. good x" and "concat cs = concat (map enc xs)"
  shows "feed_all decode [] cs = (xs, [])"
proof (rule feed_pending)
  show "pending [] xs" using assms(1) nonempty by (cases xs) (fastforce simp: pending_def strict_prefix_def)+
qed (use assms in simp_all)

end

end
