(* ===== verification/Control_Codec.thy ===== *)
theory Control_Codec
  imports Stream_Decoder Bytes
begin

text \<open>
  The control protocol: \<^verbatim>\<open>driver/src/control/codec.rs\<close> on the driver's side, and the client of
  \<^verbatim>\<open>windows-gaming/src/main.rs\<close> that sends one request and waits for an acknowledgement of the two
  backup commands.
\<close>

datatype ControlCmdOut =
    MouseEdged i32 i32
  | TemporaryLightAttached
  | TemporaryLightDetached
  | Ack

datatype ControlCmdIn =
    Ctl_IoEntry
  | Ctl_TryIoEntry
  | Ctl_LightEntry
  | Ctl_Shutdown
  | Ctl_ForceIoEntry
  | Ctl_IoExit
  | Ctl_Suspend
  | Ctl_TemporaryLightEntry i32 i32
  | Ctl_EnterBackupMode
  | Ctl_LeaveBackupMode

text \<open>
  \<^verbatim>\<open>Codec::decode\<close>: the command and the buffer after \<^verbatim>\<open>advance(size)\<close>. The two \<^verbatim>\<open>get_i32_le\<close> cannot
  panic, the length was tested before; the result there is that of no command.
\<close>

definition control_decode :: "u8 list \<Rightarrow> ControlCmdIn option \<times> u8 list" where
  "control_decode buf =
     (case buf of
        [] \<Rightarrow> (None, buf)
      | cmd # bbuf \<Rightarrow>
          if cmd = 1 then (Some Ctl_IoEntry, drop 1 buf)
          else if cmd = 2 then (Some Ctl_Shutdown, drop 1 buf)
          else if cmd = 3 then (Some Ctl_ForceIoEntry, drop 1 buf)
          else if cmd = 4 then (Some Ctl_IoExit, drop 1 buf)
          else if cmd = 5 then (Some Ctl_Suspend, drop 1 buf)
          else if cmd = 6 then (Some Ctl_TryIoEntry, drop 1 buf)
          else if cmd = 7 then (Some Ctl_LightEntry, drop 1 buf)
          else if cmd = 8 then
            (if length buf < 9 then (None, buf)
             else case get_i32_le bbuf of
                    None \<Rightarrow> (None, buf)
                  | Some (x, bbuf) \<Rightarrow>
                      (case get_i32_le bbuf of
                         None \<Rightarrow> (None, buf)
                       | Some (y, _) \<Rightarrow> (Some (Ctl_TemporaryLightEntry x y), drop (1 + 8) buf)))
          else if cmd = 9 then (Some Ctl_EnterBackupMode, drop 1 buf)
          else if cmd = 10 then (Some Ctl_LeaveBackupMode, drop 1 buf)
          else (None, buf))"

text \<open>\<^verbatim>\<open>Codec::encode\<close> appends to the buffer.\<close>

primrec control_encode :: "ControlCmdOut \<Rightarrow> u8 list \<Rightarrow> u8 list" where
  "control_encode (MouseEdged x y) buf = buf @ [1] @ put_i32_le x @ put_i32_le y"
| "control_encode TemporaryLightAttached buf = buf @ [2]"
| "control_encode TemporaryLightDetached buf = buf @ [3]"
| "control_encode Ack buf = buf @ [4]"

text \<open>
  \<^verbatim>\<open>control_send_fallible\<close> of the client: the byte it writes (\<open>None\<close> is \<^verbatim>\<open>unimplemented!()\<close>), whether
  it waits for an answer, and the answer it accepts.
\<close>

primrec control_request_byte :: "ControlCmdIn \<Rightarrow> u8 option" where
  "control_request_byte Ctl_IoEntry = Some 1"
| "control_request_byte Ctl_TryIoEntry = Some 6"
| "control_request_byte Ctl_LightEntry = Some 7"
| "control_request_byte Ctl_Shutdown = Some 2"
| "control_request_byte Ctl_ForceIoEntry = Some 3"
| "control_request_byte Ctl_IoExit = Some 4"
| "control_request_byte Ctl_Suspend = Some 5"
| "control_request_byte (Ctl_TemporaryLightEntry x y) = None"
| "control_request_byte Ctl_EnterBackupMode = Some 9"
| "control_request_byte Ctl_LeaveBackupMode = Some 10"

definition control_waits_for_ack :: "ControlCmdIn \<Rightarrow> bool" where
  "control_waits_for_ack cmd \<longleftrightarrow> cmd = Ctl_EnterBackupMode \<or> cmd = Ctl_LeaveBackupMode"

text \<open>\<^verbatim>\<open>read_exact\<close> of one byte and \<^verbatim>\<open>assert_eq!(v, 4)\<close>; \<open>None\<close> is the panic of either.\<close>

fun control_read_ack :: "u8 list \<Rightarrow> u8 list option" where
  "control_read_ack [] = None"
| "control_read_ack (v # bs) = (if v = 4 then Some bs else None)"

subsection \<open>The decoder keeps the contract of a stream decoder\<close>

lemma control_decode_TemporaryLightEntry:
  "control_decode (8 # put_i32_le x @ put_i32_le y @ rest) = (Some (Ctl_TemporaryLightEntry x y), rest)"
  by (simp add: control_decode_def)

lemma control_decode_None: "control_decode buf = (None, r) \<Longrightarrow> r = buf"
  by (auto simp: control_decode_def split: list.splits if_splits option.splits)

lemma control_decode_takes: "control_decode buf = (Some c, r) \<Longrightarrow> length r < length buf"
  by (auto simp: control_decode_def split: list.splits if_splits option.splits)

lemma control_decode_more:
  "control_decode buf = (Some c, r) \<Longrightarrow> control_decode (buf @ more) = (Some c, r @ more)"
  by (cases buf)
    (auto simp: control_decode_def get_i32_le_append split: if_splits option.splits)

interpretation cc: stream_decoder control_decode
  by unfold_locales (auto intro: control_decode_None control_decode_takes control_decode_more)

text \<open>What the driver understands of the one byte the client writes.\<close>

lemma control_decode_request:
  "control_request_byte cmd = Some b \<Longrightarrow> control_decode (b # rest) = (Some cmd, rest)"
  by (cases cmd) (auto simp: control_decode_def)

text \<open>
  The bytes a peer sends for a command: those of the client, and the nine bytes of a temporary
  entry, which the bundled client never sends.
\<close>

definition control_request :: "ControlCmdIn \<Rightarrow> u8 list" where
  "control_request cmd =
     (case cmd of
        Ctl_TemporaryLightEntry x y \<Rightarrow> 8 # put_i32_le x @ put_i32_le y
      | _ \<Rightarrow> (case control_request_byte cmd of None \<Rightarrow> [] | Some b \<Rightarrow> [b]))"

lemma control_decode_encoded: "control_decode (control_request cmd @ rest) = (Some cmd, rest)"
proof (cases cmd)
  case (Ctl_TemporaryLightEntry x y)
  then show ?thesis
    using control_decode_TemporaryLightEntry by (simp add: control_request_def)
qed (simp_all add: control_request_def control_decode_def)

interpretation control_frames: framing control_request control_decode "\<lambda>_. True"
proof
  fix cmd p rest
  show "control_decode (control_request cmd @ rest) = (Some cmd, rest)" by (rule control_decode_encoded)
  show "control_request cmd \<noteq> []" by (simp add: control_request_def split: ControlCmdIn.split)
  show "control_decode p = (None, p)" if "strict_prefix p (control_request cmd)"
  proof (cases p)
    case (Cons b bs)
    from prefix_length_less [OF that] that Cons show ?thesis
      by (cases cmd) (auto simp: control_request_def control_decode_def)
  qed (simp add: control_decode_def)
qed (simp_all add: control_decode_def)

lemma control_decode_unknown: "11 \<le> b \<or> b = 0 \<Longrightarrow> control_decode (b # rest) = (None, b # rest)"
  by (auto simp: control_decode_def word_le_nat_alt)

lemma control_decode_all_Nil: "decode_all control_decode [] = ([], [])"
  by (rule cc.decode_all_None) (simp add: control_decode_def)

lemma control_feed_requests:
  assumes "concat chunks = concat (map control_request cmds) @ rest"
  shows "feed_all control_decode [] chunks =
           (cmds @ fst (decode_all control_decode rest), snd (decode_all control_decode rest))"
  using assms cc.feed_all_eq [OF control_decode_all_Nil, of chunks]
    cc.decode_all_items [of cmds control_request rest]
  by (simp add: control_decode_encoded)

text \<open>
  C33: However the socket cuts the byte stream into chunks, the connection sees exactly the commands
  the peer sent, in order, and no byte is left over.
\<close>

theorem control_stream_roundtrip:
  assumes "concat chunks = concat (map control_request cmds)"
  shows "feed_all control_decode [] chunks = (cmds, [])"
  by (rule control_frames.feed_items) (simp_all add: assms)

theorem control_stream_roundtrip_witness:
  "feed_all control_decode [] [[8, 1, 0, 0], [0, 2, 0, 0, 0, 9], [4]] =
     ([Ctl_TemporaryLightEntry 1 2, Ctl_EnterBackupMode, Ctl_IoExit], [])"
  by (rule control_stream_roundtrip) (simp add: control_request_def put_i32_le_def)

text \<open>
  A byte that is no command hangs the connection: the commands before it are seen, and no
  later byte is ever looked at again.
\<close>

lemma control_unknown_byte_hangs:
  assumes "11 \<le> b \<or> b = 0"
    and "concat chunks = concat (map control_request cmds) @ b # rest"
  shows "feed_all control_decode [] chunks = (cmds, b # rest)"
  using control_feed_requests [OF assms(2)]
    cc.decode_all_None [OF control_decode_unknown [OF assms(1)]] by simp

lemma control_unknown_byte_hangs_witness:
  "feed_all control_decode [] [[1, 77], [1, 2, 3]] = ([Ctl_IoEntry], [77, 1, 2, 3])"
  by (rule control_unknown_byte_hangs) (simp_all add: control_request_def)

subsection \<open>The answers\<close>

definition control_answers :: "ControlCmdOut list \<Rightarrow> u8 list" where
  "control_answers cmds = fold control_encode cmds []"

lemma control_encode_append: "control_encode c buf = buf @ control_encode c []"
  by (cases c) simp_all

lemma fold_control_encode: "fold control_encode cmds buf = buf @ concat (map (\<lambda>c. control_encode c []) cmds)"
proof (induction cmds arbitrary: buf)
  case (Cons c cs)
  from Cons.IH [of "control_encode c buf"] control_encode_append [of c buf] show ?case by simp
qed simp

lemma control_encode_prefix:
  assumes "control_encode c [] @ r = control_encode d [] @ t"
  shows "c = d \<and> r = t"
proof (cases c; cases d)
  fix x y x' y' assume c: "c = MouseEdged x y" and d: "d = MouseEdged x' y'"
  let ?b = "\<lambda>x y r. put_i32_le x @ put_i32_le y @ r"
  from assms c d have eq: "?b x y r = ?b x' y' t" by simp
  then have "get_i32_le (?b x y r) = get_i32_le (?b x' y' t)" by simp
  then have 1: "x = x'" and eq2: "put_i32_le y @ r = put_i32_le y' @ t" by simp_all
  from eq2 have "get_i32_le (put_i32_le y @ r) = get_i32_le (put_i32_le y' @ t)" by simp
  then have "y = y'" and "r = t" by simp_all
  with 1 c d show ?thesis by simp
qed (use assms in simp_all)

lemma control_encode_not_Nil: "control_encode c [] \<noteq> []"
  by (cases c) simp_all

text \<open>
  The answers are uniquely decodable: two sequences of answers with the same bytes are the
  same sequence.
\<close>

lemma control_answers_inj:
  assumes "control_answers xs = control_answers ys"
  shows "xs = ys"
proof -
  have "concat (map (\<lambda>c. control_encode c []) xs) = concat (map (\<lambda>c. control_encode c []) ys)"
    using assms by (simp add: control_answers_def fold_control_encode)
  then show ?thesis
  proof (induction xs arbitrary: ys)
    case Nil
    then show ?case by (cases ys) (simp_all add: control_encode_not_Nil)
  next
    case (Cons x xs)
    then show ?case by (cases ys) (auto simp: control_encode_not_Nil dest: control_encode_prefix)
  qed
qed

lemma control_answers_inj_witness:
  "[MouseEdged 1 2, Ack] = [MouseEdged (0 + 1) 2, Ack]"
  by (rule control_answers_inj) simp

end
