(* ===== verification/Effects.thy ===== *)
theory Effects
  imports Udev Ga_Protocol Qmp Control_Codec "HOL-Library.Multiset"
begin

text \<open>
  What the driver's components do to the rest of the system, and what they learn from it. Each
  effect is one call in the order the calls are made: a message put into one of the unbounded
  channels, a process started, a libinput device opened or closed, a one-shot channel made or
  completed. The record \<open>World\<close> is what the environment answers during one operation.
\<close>

subsection \<open>Clipboard requests\<close>

text \<open>\<^verbatim>\<open>ClipboardRequest\<close> of the clipboard crate: the wanted type and the pipe to write to.\<close>

record ClipboardRequest =
  cr_mime_type :: string
  cr_target :: nat

definition PLAINTEXT_MIME_TYPES :: "string list" where
  "PLAINTEXT_MIME_TYPES =
     [''text/plain'', ''text/plain;charset=utf-8'', ''STRING'', ''UTF8_STRING'', ''TEXT'']"

definition CLIPBOARD_MIME_PNG :: string where
  "CLIPBOARD_MIME_PNG = ''image/png''"

record ClipboardRequestEvent =
  cre_req :: ClipboardRequest

datatype ClipboardResponse = Data "u8 list"

record ClipboardRequestResponse =
  crr_event :: ClipboardRequestEvent
  crr_response :: ClipboardResponse

definition reply_data :: "ClipboardRequestEvent \<Rightarrow> u8 list \<Rightarrow> ClipboardRequestResponse" where
  "reply_data e buf = \<lparr>crr_event = e, crr_response = Data buf\<rparr>"

definition desired_type :: "ClipboardRequestEvent \<Rightarrow> ClipboardType" where
  "desired_type e =
     (if list_ex (\<lambda>m. m = cr_mime_type (cre_req e)) PLAINTEXT_MIME_TYPES then CT_Text
      else if cr_mime_type (cre_req e) = CLIPBOARD_MIME_PNG then CT_Image
      else CT_Text)"

subsection \<open>Effects and environment\<close>

datatype Effect =
    To_monitor QmpCommand
  | To_ga GaCmdOut
  | To_control nat ControlCmdOut
  | To_x11_response ClipboardRequestResponse
  | To_x11_grabber ClipboardTypes
  | To_x11_reader ClipboardType
  | Shell string
  | Notify_systemd bool string
  | Li_add string
  | Li_accel string u64
  | Li_remove string
  | Suspend_waits nat
  | Suspend_done nat
  | Wait_for_acks "nat list" nat

text \<open>
  The receivers that are still there, the answers of libudev and libinput, which files exist,
  which commands can be started, and \<^verbatim>\<open>RUST_LOG\<close> (\<open>None\<close> in a release build). A libinput device
  is known by its device node.
\<close>

record World =
  w_monitor_open :: bool
  w_clientpipe_open :: bool
  w_x11_open :: bool
  w_control_open :: "nat \<Rightarrow> bool"
  w_udev :: Udev
  w_li_open :: "string \<Rightarrow> bool"
  w_li_flat :: "string \<Rightarrow> bool"
  w_li_config_ok :: "string \<Rightarrow> bool"
  w_path_exists :: "string \<Rightarrow> bool"
  w_spawn_ok :: "string \<Rightarrow> bool"
  w_rust_log :: "string option"

subsection \<open>Reading a trace\<close>

text \<open>The devices libinput still holds open after a trace.\<close>

fun li_open_after :: "Effect \<Rightarrow> string multiset \<Rightarrow> string multiset" where
  "li_open_after (Li_add h) M = add_mset h M"
| "li_open_after (Li_remove h) M = M - {#h#}"
| "li_open_after _ M = M"

definition li_open :: "Effect list \<Rightarrow> string multiset" where
  "li_open tr = fold li_open_after tr {#}"

text \<open>The USB devices plugged into the guest at run time, by id.\<close>

fun usb_after :: "Effect \<Rightarrow> string set \<Rightarrow> string set" where
  "usb_after (To_monitor (DeviceAdd drv i bus port hb ha)) P = insert i P"
| "usb_after (To_monitor (DeviceDel i)) P = P - {i}"
| "usb_after _ P = P"

definition usb_plugged :: "Effect list \<Rightarrow> string set" where
  "usb_plugged tr = fold usb_after tr {}"

text \<open>The callers of \<^verbatim>\<open>suspend\<close> that wait, and those that were told.\<close>

fun suspend_awaited :: "Effect list \<Rightarrow> nat list" where
  "suspend_awaited [] = []"
| "suspend_awaited (Suspend_waits t # tr) = t # suspend_awaited tr"
| "suspend_awaited (_ # tr) = suspend_awaited tr"

fun suspend_resolved :: "Effect list \<Rightarrow> nat list" where
  "suspend_resolved [] = []"
| "suspend_resolved (Suspend_done t # tr) = t # suspend_resolved tr"
| "suspend_resolved (_ # tr) = suspend_resolved tr"

lemma li_open_append: "li_open (tr @ es) = fold li_open_after es (li_open tr)"
  by (simp add: li_open_def)

lemma usb_plugged_append: "usb_plugged (tr @ es) = fold usb_after es (usb_plugged tr)"
  by (simp add: usb_plugged_def)

lemma suspend_awaited_append [simp]:
  "suspend_awaited (tr @ es) = suspend_awaited tr @ suspend_awaited es"
  by (induction tr rule: suspend_awaited.induct) simp_all

lemma suspend_resolved_append [simp]:
  "suspend_resolved (tr @ es) = suspend_resolved tr @ suspend_resolved es"
  by (induction tr rule: suspend_resolved.induct) simp_all

lemma li_open_Nil [simp]: "li_open [] = {#}"
  by (simp add: li_open_def)

lemma usb_plugged_Nil [simp]: "usb_plugged [] = {}"
  by (simp add: usb_plugged_def)

end
