(* ===== verification/Input_Devices.thy ===== *)
theory Input_Devices
  imports Effects
begin

text \<open>
  The \<^verbatim>\<open>Input\<close> half of \<^verbatim>\<open>driver/src/libinput.rs\<close>: opening the host's input devices for a light
  entry and closing them again. The lemmas show that the handles kept are exactly the devices
  libinput holds open.
\<close>

subsection \<open>Opening and grabbing a device node\<close>

text \<open>
  The C library: the result of a call and the value of \<^verbatim>\<open>errno\<close> it leaves when it fails. A call
  that succeeds leaves \<^verbatim>\<open>errno\<close> alone.
\<close>

record Libc =
  lc_open :: "string \<Rightarrow> i32 \<Rightarrow> int \<times> nat"
  lc_ioctl_grab :: "int \<Rightarrow> bool \<Rightarrow> int \<times> nat"

definition errno_after :: "int \<times> nat \<Rightarrow> nat \<Rightarrow> nat" where
  "errno_after r errno = (if fst r < 0 then snd r else errno)"

definition grab_fd :: "Libc \<Rightarrow> int \<Rightarrow> bool \<Rightarrow> nat \<Rightarrow> nat" where
  "grab_fd lc fd grap errno = errno_after (lc_ioctl_grab lc fd grap) errno"

definition do_open :: "Libc \<Rightarrow> string \<Rightarrow> i32 \<Rightarrow> nat \<Rightarrow> int \<times> nat" where
  "do_open lc path mode errno =
     (let r = lc_open lc path mode; errno = errno_after r errno; errno = grab_fd lc (fst r) True errno
      in (fst r, errno))"

definition open_restricted :: "Libc \<Rightarrow> string \<Rightarrow> i32 \<Rightarrow> nat \<Rightarrow> nat + int" where
  "open_restricted lc path flags errno =
     (let (fd, errno) = do_open lc path flags errno in if fd < 0 then Inl errno else Inr fd)"

subsection \<open>The devices of a light entry\<close>

record Input =
  in_machine :: MachineConfig
  in_device_handles :: "string list"

definition Input_new :: "MachineConfig \<Rightarrow> Input" where
  "Input_new machine = \<lparr>in_machine = machine, in_device_handles = []\<rparr>"

definition input_suspend :: "Input \<Rightarrow> Input \<times> Effect list" where
  "input_suspend inp =
     (inp\<lparr>in_device_handles := []\<rparr>, map Li_remove (in_device_handles inp))"

text \<open>
  The body of the inner loop; the state is the handles and the effects so far. A device that
  cannot be opened is only reported.
\<close>

definition open_input_device ::
    "World \<Rightarrow> u64 \<Rightarrow> UdevDevice \<Rightarrow> string list \<times> Effect list \<Rightarrow> panic + (string list \<times> Effect list)" where
  "open_input_device w speed dev s =
     (let (handles, es) = s in
      case ud_devnode dev of
        None \<Rightarrow> Inl Missing_devnode
      | Some None \<Rightarrow> Inl Devnode_not_utf8
      | Some (Some node) \<Rightarrow>
          if w_li_open w node then
            if w_li_flat w node then
              if w_li_config_ok w node then Inr (handles @ [node], es @ [Li_add node, Li_accel node speed])
              else Inl Libinput_config_failed
            else Inr (handles @ [node], es @ [Li_add node])
          else Inr (handles, es))"

text \<open>
  One enumeration. An \<^verbatim>\<open>Err\<close> of \<^verbatim>\<open>resume_inner\<close> becomes a panic in \<^verbatim>\<open>resume\<close>, its only caller.
\<close>

definition udev_enumerate :: "Udev \<Rightarrow> UdevMatch list \<Rightarrow> panic + UdevDevice list" where
  "udev_enumerate u ms =
     (if \<not> udev_enumerator_ok u then Inl Udev_enumerator_failed
      else if \<not> list_all (udev_match_ok u) ms then Inl Udev_result_failed
      else case udev_scan u ms of None \<Rightarrow> Inl Udev_result_failed | Some ds \<Rightarrow> Inr ds)"

definition input_query :: "UdevDevice \<Rightarrow> UdevMatch list" where
  "input_query usbdev =
     [MatchSubsystem ''input'', MatchParent (ud_syspath usbdev),
      MatchProperty ''LIBINPUT_DEVICE_GROUP'' ''?*'']"

definition open_usb_device ::
    "World \<Rightarrow> u64 \<Rightarrow> UsbDevice \<Rightarrow> string list \<times> Effect list \<Rightarrow> panic + (string list \<times> Effect list)" where
  "open_usb_device w speed dev s =
     and_then (udev_enumerate (w_udev w) (binding_matches_udev (dev_binding dev))) (\<lambda>usbdevs.
       for_each_res (\<lambda>usbdev s.
         and_then (udev_enumerate (w_udev w) (input_query usbdev)) (\<lambda>devs.
           for_each_res (open_input_device w speed) devs s)) usbdevs s)"

definition input_resume :: "World \<Rightarrow> Input \<Rightarrow> panic + (Input \<times> Effect list)" where
  "input_resume w inp =
     (if \<not> udev_context_ok (w_udev w) then Inl Udev_result_failed
      else
        and_then
          (for_each_res (open_usb_device w (mc_light_mouse_speed (in_machine inp)))
            (filter (\<lambda>x. \<not> dev_permanent x) (mc_usb_devices (in_machine inp)))
            (in_device_handles inp, []))
          (\<lambda>(handles, es). Inr (inp\<lparr>in_device_handles := handles\<rparr>, es)))"

subsection \<open>The handles are what libinput holds open\<close>

text \<open>\<open>s\<close> extends a trace that holds the devices \<open>M\<close> open.\<close>

definition handles_tracked :: "string multiset \<Rightarrow> string list \<times> Effect list \<Rightarrow> bool" where
  "handles_tracked M s \<longleftrightarrow> fold li_open_after (snd s) M = mset (fst s)"

definition only_li_effects :: "Effect list \<Rightarrow> bool" where
  "only_li_effects es \<longleftrightarrow>
     (\<forall>e\<in>set es. \<exists>h s. e = Li_add h \<or> e = Li_remove h \<or> e = Li_accel h s)"

lemma open_input_device_inv:
  assumes "open_input_device w speed dev s = Inr t"
    and "handles_tracked M s \<and> only_li_effects (snd s)"
  shows "handles_tracked M t \<and> only_li_effects (snd t)"
  using assms
  by (auto simp: open_input_device_def handles_tracked_def only_li_effects_def Let_def
      split: option.splits if_splits prod.splits)

lemma open_usb_device_inv:
  assumes "open_usb_device w speed dev s = Inr t"
    and "handles_tracked M s \<and> only_li_effects (snd s)"
  shows "handles_tracked M t \<and> only_li_effects (snd t)"
proof -
  from assms(1) obtain usbdevs where loop:
    "for_each_res (\<lambda>usbdev s. and_then (udev_enumerate (w_udev w) (input_query usbdev)) (\<lambda>devs.
       for_each_res (open_input_device w speed) devs s)) usbdevs s = Inr t"
    by (auto simp: open_usb_device_def res_simps)
  have inner: "handles_tracked M y \<and> only_li_effects (snd y)"
    if "for_each_res (open_input_device w speed) devs x = Inr y"
      "handles_tracked M x \<and> only_li_effects (snd x)" for devs x y
    using that by (rule for_each_res_inv) (rule open_input_device_inv)
  from loop assms(2) show ?thesis
    by (rule for_each_res_inv) (auto simp: res_simps dest: inner)
qed

lemma input_resume_inv:
  assumes "input_resume w inp = Inr (inp', es)"
    and "M = mset (in_device_handles inp)"
  shows "fold li_open_after es M = mset (in_device_handles inp')"
    and "only_li_effects es" and "in_machine inp' = in_machine inp"
proof -
  from assms(1) obtain hs where loop:
      "for_each_res (open_usb_device w (mc_light_mouse_speed (in_machine inp)))
         (filter (\<lambda>x. \<not> dev_permanent x) (mc_usb_devices (in_machine inp)))
         (in_device_handles inp, []) = Inr (hs, es)"
    and inp': "inp' = inp\<lparr>in_device_handles := hs\<rparr>"
    by (auto simp: input_resume_def res_simps split: if_splits)
  from loop have "handles_tracked M (hs, es) \<and> only_li_effects (snd (hs, es))"
    by (rule for_each_res_inv)
      (auto simp: assms(2) handles_tracked_def only_li_effects_def dest: open_usb_device_inv)
  with inp' show "fold li_open_after es M = mset (in_device_handles inp')"
    and "only_li_effects es" and "in_machine inp' = in_machine inp"
    by (auto simp: handles_tracked_def)
qed

lemma fold_li_remove: "fold li_open_after (map Li_remove hs) (mset hs) = {#}"
  by (induction hs) simp_all

lemma input_suspend_inv:
  assumes "input_suspend inp = (inp', es)"
  shows "fold li_open_after es (mset (in_device_handles inp)) = {#}"
    and "only_li_effects es" and "in_device_handles inp' = []" and "in_machine inp' = in_machine inp"
  using assms by (auto simp: input_suspend_def fold_li_remove only_li_effects_def)

lemma only_li_effects_simps:
  assumes "only_li_effects es"
  shows "fold usb_after es P = P" and "suspend_awaited es = []" and "suspend_resolved es = []"
proof -
  from assms have "fold usb_after es P = P \<and> suspend_awaited es = [] \<and> suspend_resolved es = []"
    by (induction es) (auto simp: only_li_effects_def)
  then show "fold usb_after es P = P" and "suspend_awaited es = []" and "suspend_resolved es = []"
    by auto
qed

subsection \<open>A healthy host\<close>

lemma udev_enumerate_healthy:
  assumes "udev_healthy u"
  shows "\<exists>ds. udev_enumerate u ms = Inr ds \<and> (\<forall>d\<in>set ds. \<exists>n. ud_devnode d = Some (Some n))"
proof -
  from assms have "\<forall>ms. \<exists>ds. udev_scan u ms = Some ds \<and>
      (\<forall>d\<in>set ds. (\<exists>a. device_address d = Inr a) \<and> (\<exists>n. ud_devnode d = Some (Some n)))"
    unfolding udev_healthy_def by (elim conjE)
  then obtain ds where "udev_scan u ms = Some ds" "\<forall>d\<in>set ds. \<exists>n. ud_devnode d = Some (Some n)"
    by (elim allE [of _ ms]) blast
  moreover have "udev_enumerator_ok u" "list_all (udev_match_ok u) ms"
    using assms by (auto simp: udev_healthy_def list_all_iff)
  ultimately show ?thesis by (simp add: udev_enumerate_def)
qed

lemma input_resume_healthy:
  assumes "udev_healthy (w_udev w)" and "\<forall>n. w_li_config_ok w n"
  shows "\<exists>r. input_resume w inp = Inr r"
proof -
  have "\<exists>t. open_usb_device w speed dev s = Inr t \<and> True" for speed dev s
  proof -
    have inner: "\<exists>t. for_each_res (open_input_device w speed) ds s = Inr t \<and> True"
      if "\<forall>d\<in>set ds. \<exists>n. ud_devnode d = Some (Some n)" for ds s
    proof (rule for_each_res_ok)
      fix d and s :: "string list \<times> Effect list"
      assume "d \<in> set ds"
      with that obtain n where "ud_devnode d = Some (Some n)" by blast
      with assms(2) show "\<exists>t. open_input_device w speed d s = Inr t \<and> True"
        by (cases s) (simp add: open_input_device_def)
    qed simp
    obtain us where us: "udev_enumerate (w_udev w) (binding_matches_udev (dev_binding dev)) = Inr us"
      using udev_enumerate_healthy [OF assms(1)] by blast
    have "\<exists>t. for_each_res (\<lambda>usbdev s. and_then (udev_enumerate (w_udev w) (input_query usbdev)) (\<lambda>devs.
       for_each_res (open_input_device w speed) devs s)) us s = Inr t \<and> True"
    proof (rule for_each_res_ok)
      fix u and s :: "string list \<times> Effect list"
      obtain ds where "udev_enumerate (w_udev w) (input_query u) = Inr ds"
          "\<forall>d\<in>set ds. \<exists>n. ud_devnode d = Some (Some n)"
        using udev_enumerate_healthy [OF assms(1)] by blast
      with inner [of ds s] show "\<exists>t. and_then (udev_enumerate (w_udev w) (input_query u)) (\<lambda>devs.
          for_each_res (open_input_device w speed) devs s) = Inr t \<and> True" by simp
    qed simp
    with us show ?thesis by (simp add: open_usb_device_def)
  qed
  then have "\<exists>t. for_each_res (open_usb_device w speed) ds s = Inr t \<and> True" for speed ds s
    by (intro for_each_res_ok) auto
  then obtain t where
    "for_each_res (open_usb_device w (mc_light_mouse_speed (in_machine inp)))
       (filter (\<lambda>x. \<not> dev_permanent x) (mc_usb_devices (in_machine inp)))
       (in_device_handles inp, []) = Inr t"
    by blast
  moreover have "udev_context_ok (w_udev w)" using assms(1) by (simp add: udev_healthy_def)
  ultimately show ?thesis by (cases t) (simp add: input_resume_def)
qed

subsection \<open>Properties\<close>

definition EBADF :: nat where
  "EBADF = 9"

text \<open>
  When a device node cannot be opened, libinput is told the error of the grab that follows on
  the invalid descriptor, not why the open failed.
\<close>

lemma open_failure_errno:
  assumes "fst (lc_open lc path flags) < 0"
    and "\<And>fd grap. fd < 0 \<Longrightarrow> lc_ioctl_grab lc fd grap = (-1, EBADF)"
  shows "open_restricted lc path flags errno = Inl EBADF"
  using assms(1) assms(2) [OF assms(1), of True]
  by (simp add: open_restricted_def do_open_def grab_fd_def errno_after_def)

lemma open_failure_errno_witness:
  "open_restricted
     \<lparr>lc_open = (\<lambda>p m. if p = ''/dev/input/event0'' then (3, 0) else (-1, 13)),
      lc_ioctl_grab = (\<lambda>fd g. if fd < 0 then (-1, 9) else (0, 0))\<rparr> ''/dev/input/event9'' 2 0 = Inl EBADF"
  by (rule open_failure_errno) (simp_all add: EBADF_def)

end
