(* ===== verification/Usb_Topology.thy ===== *)
theory Usb_Topology
  imports Config
begin

text \<open>
  Where a configured USB device is plugged in. \<^verbatim>\<open>qemu::run\<close> (\<^verbatim>\<open>driver/src/qemu.rs\<close>) creates the host
  controllers and plugs in the permanent devices on the command line; \<^verbatim>\<open>io_force_attach\<close>
  (\<^verbatim>\<open>driver/src/controller.rs\<close>) plugs in the others at run time. Both sort the devices by bus,
  group them and number each group on their own; the lemmas compute the number of a device in
  closed form, from which agreement, disjointness and capacity follow.
\<close>

subsection \<open>Grouping\<close>

text \<open>
  \<^verbatim>\<open>group_by\<close>: consecutive elements with the same key form one group. \<^verbatim>\<open>sorted_by\<close> is the
  standard library's stable sort, \<open>sort_key\<close>.
\<close>

fun runs :: "('a \<Rightarrow> 'k) \<Rightarrow> 'a list \<Rightarrow> ('k \<times> 'a list) list" where
  "runs f [] = []"
| "runs f (x # xs) =
     (case runs f xs of
        [] \<Rightarrow> [(f x, [x])]
      | (k, g) # rs \<Rightarrow> if k = f x then (k, x # g) # rs else (f x, [x]) # (k, g) # rs)"

lemma runs_Nil_iff [simp]: "runs f xs = [] \<longleftrightarrow> xs = []"
  by (cases xs) (auto split: list.splits)

lemma runs_sorted:
  assumes "sorted (map f xs)"
  shows "set (runs f xs) = (\<lambda>k. (k, filter (\<lambda>x. f x = k) xs)) ` f ` set xs"
    and "sorted_wrt (<) (map fst (runs f xs))"
proof -
  have "set (runs f xs) = (\<lambda>k. (k, filter (\<lambda>x. f x = k) xs)) ` f ` set xs \<and>
      sorted_wrt (<) (map fst (runs f xs))"
    using assms
  proof (induction xs)
    case Nil
    show ?case by simp
  next
    case (Cons x xs)
    let ?grp = "\<lambda>k. (k, filter (\<lambda>z. f z = k) xs)"
    from Cons have ih: "set (runs f xs) = ?grp ` f ` set xs" "sorted_wrt (<) (map fst (runs f xs))"
      and le: "\<forall>z\<in>set xs. f x \<le> f z" by auto
    show ?case
    proof (cases "runs f xs")
      case Nil
      then show ?thesis by simp
    next
      case (Cons kg rs)
      obtain k g where kg: "kg = (k, g)" by (cases kg)
      have mem: "(k, g) \<in> ?grp ` f ` set xs"
        using ih(1) by (metis Cons kg list.set_intros(1))
      then have g: "g = filter (\<lambda>z. f z = k) xs" and k: "k \<in> f ` set xs" by auto
      have gt: "\<forall>e\<in>set rs. k < fst e" using ih(2) Cons kg by simp
      have rs: "set rs = ?grp ` (f ` set xs - {k})"
      proof -
        have "insert (k, g) (set rs) = ?grp ` f ` set xs" using ih(1) Cons kg by simp
        moreover have "(k, g) \<notin> set rs" using gt by auto
        ultimately have "set rs = ?grp ` f ` set xs - {?grp k}" using g by blast
        also have "\<dots> = ?grp ` (f ` set xs - {k})" by auto
        finally show ?thesis .
      qed
      show ?thesis
      proof (cases "k = f x")
        case True
        have "set rs = (\<lambda>k. (k, filter (\<lambda>z. f z = k) (x # xs))) ` (f ` set xs - {f x})"
          unfolding rs using True by (intro image_cong) auto
        with True k g Cons kg gt ih(2) show ?thesis by (auto simp: image_iff)
      next
        case False
        have lt: "\<forall>z\<in>set xs. f x < f z"
        proof
          fix z assume z: "z \<in> set xs"
          have "k \<le> f z" using z rs gt g k by (cases "f z = k") (auto simp: less_le)
          moreover have "f x < k" using False k le by (auto simp: less_le)
          ultimately show "f x < f z" by simp
        qed
        then have "filter (\<lambda>z. f z = f x) xs = []" by (auto simp: filter_empty_conv)
        moreover have "?grp ` f ` set xs = (\<lambda>k. (k, filter (\<lambda>z. f z = k) (x # xs))) ` f ` set xs"
          using lt by (intro image_cong) auto
        ultimately have "set (runs f (x # xs)) =
            (\<lambda>k. (k, filter (\<lambda>z. f z = k) (x # xs))) ` f ` set (x # xs)"
          using False Cons kg ih(1) by auto
        moreover have "sorted_wrt (<) (map fst (runs f (x # xs)))"
        proof -
          have "f x < k" using lt k by auto
          then show ?thesis using False Cons kg gt ih(2) by (auto dest: less_trans)
        qed
        ultimately show ?thesis by blast
      qed
    qed
  qed
  then show "set (runs f xs) = (\<lambda>k. (k, filter (\<lambda>x. f x = k) xs)) ` f ` set xs"
    and "sorted_wrt (<) (map fst (runs f xs))" by blast+
qed

subsection \<open>Numbering the devices of a bus\<close>

text \<open>
  \<^verbatim>\<open>io_force_attach\<close>: \<^verbatim>\<open>usb_devices.iter().enumerate().sorted_by(bus)\<close>, \<^verbatim>\<open>group_by\<close> bus and
  \<^verbatim>\<open>flat_map(|(_, group)| group.enumerate())\<close>: triples of the number in the group, the index in the
  configuration and the device.
\<close>

definition numbered_devices :: "UsbDevice list \<Rightarrow> (usize \<times> usize \<times> UsbDevice) list" where
  "numbered_devices devs =
     concat (map (\<lambda>(_, group). enumerate 0 group)
       (runs (\<lambda>(_, d). dev_bus d) (sort_key (\<lambda>(_, d). dev_bus d) (enumerate 0 devs))))"

text \<open>The entries that \<^verbatim>\<open>filter(|..| !dev.permanent)\<close> keeps.\<close>

definition hotplug_devices :: "UsbDevice list \<Rightarrow> (usize \<times> usize \<times> UsbDevice) list" where
  "hotplug_devices devs = filter (\<lambda>(_, _, d). \<not> dev_permanent d) (numbered_devices devs)"

text \<open>
  The location string of number \<open>n\<close> of a bus: host controller \<open>n / usable_ports\<close> and port
  \<open>n % usable_ports + 1\<close>.
\<close>

definition port_bus_name :: "UsbBus \<Rightarrow> usize \<Rightarrow> string" where
  "port_bus_name b n = UsbBus_display b @ decimal (n div usable_ports b) @ ''.0''"

definition port_number :: "UsbBus \<Rightarrow> usize \<Rightarrow> usize" where
  "port_number b n = n mod usable_ports b + 1"

lemma enumerate_filter_take:
  "(n, (i, x)) \<in> set (enumerate 0 (filter (\<lambda>(_, y). Q y) (enumerate 0 xs))) \<longleftrightarrow>
     i < length xs \<and> x = xs ! i \<and> Q x \<and> n = length (filter Q (take i xs))"
proof (induction xs rule: rev_induct)
  case Nil
  show ?case by simp
next
  case (snoc y ys)
  have len: "length (filter (\<lambda>(_, y). Q y) (enumerate 0 ys)) = length (filter Q ys)"
  proof -
    have "filter Q (map snd (enumerate 0 ys)) = map snd (filter (Q \<circ> snd) (enumerate 0 ys))"
      by (rule filter_map)
    then have "length (filter Q ys) = length (filter (Q \<circ> snd) (enumerate 0 ys))"
      by (metis length_map map_snd_enumerate)
    then show ?thesis by (simp add: comp_def case_prod_beta')
  qed
  show ?case
    by (auto simp: snoc enumerate_append_eq nth_append len less_Suc_eq)
qed

lemma sort_key_enumerate_group:
  "filter (\<lambda>(_, d). dev_bus d = b) (sort_key (\<lambda>(_, d). dev_bus d) (enumerate 0 devs)) =
     filter (\<lambda>(_, d). dev_bus d = b) (enumerate 0 devs)"
  using sort_key_stable [where f = "\<lambda>(_, d). dev_bus d" and xs = "enumerate 0 devs" and k = b]
  by (simp add: case_prod_beta')

text \<open>
  The number of device \<open>i\<close> is the number of earlier devices on the same bus.
\<close>

lemma set_numbered_devices:
  "(n, (i, d)) \<in> set (numbered_devices devs) \<longleftrightarrow>
     i < length devs \<and> d = devs ! i \<and>
     n = length (filter (\<lambda>e. dev_bus e = dev_bus d) (take i devs))"
proof -
  let ?f = "\<lambda>e :: nat \<times> UsbDevice. dev_bus (snd e)"
  let ?xs = "sort_key ?f (enumerate 0 devs)"
  have buses: "?f ` set ?xs = dev_bus ` set devs"
  proof -
    have "?f ` set ?xs = dev_bus ` set (map snd (enumerate 0 devs))"
      by (simp only: set_sort set_map image_image)
    then show ?thesis by (simp only: map_snd_enumerate)
  qed
  have "set (numbered_devices devs) = (\<Union>(_, g)\<in>set (runs ?f ?xs). set (enumerate 0 g))"
    by (auto simp: numbered_devices_def case_prod_beta')
  also have "\<dots> = (\<Union>b\<in>?f ` set ?xs. set (enumerate 0 (filter (\<lambda>e. ?f e = b) ?xs)))"
    by (subst runs_sorted(1)) auto
  also have "\<dots> = (\<Union>b\<in>dev_bus ` set devs. set (enumerate 0 (filter (\<lambda>(_, d). dev_bus d = b) (enumerate 0 devs))))"
    unfolding buses using sort_key_enumerate_group [of _ devs] by (simp add: case_prod_beta')
  finally have "(n, (i, d)) \<in> set (numbered_devices devs) \<longleftrightarrow>
      (\<exists>b\<in>dev_bus ` set devs.
        (n, (i, d)) \<in> set (enumerate 0 (filter (\<lambda>(_, d). dev_bus d = b) (enumerate 0 devs))))"
    by (simp only: UN_iff)
  then show ?thesis unfolding enumerate_filter_take by auto
qed

subsection \<open>The command line of QEMU\<close>

text \<open>
  \<^verbatim>\<open>create_usb_buses\<close>: enough host controllers of a kind for its devices. The Xhci count
  reserves three places for the driver's own devices.
\<close>

definition usb_bus_count :: "UsbDevice list \<Rightarrow> UsbBus \<Rightarrow> usize" where
  "usb_bus_count devs typ =
     length (filter (\<lambda>d. dev_bus d = typ) devs) + (if typ = Xhci then 3 else 0)"

definition usb_bus_num :: "UsbDevice list \<Rightarrow> UsbBus \<Rightarrow> usize" where
  "usb_bus_num devs typ = (usb_bus_count devs typ + usable_ports typ - 1) div usable_ports typ"

definition usb_bus_id :: "UsbBus \<Rightarrow> usize \<Rightarrow> string" where
  "usb_bus_id typ i = UsbBus_display typ @ decimal i"

definition create_usb_buses :: "UsbDevice list \<Rightarrow> string \<Rightarrow> UsbBus \<Rightarrow> string \<Rightarrow> string list" where
  "create_usb_buses devs name typ ports =
     concat (map (\<lambda>i. [''-device'', name @ '',id='' @ usb_bus_id typ i @ ports])
       [0..<usb_bus_num devs typ])"

definition usb_bus_args :: "UsbDevice list \<Rightarrow> string list" where
  "usb_bus_args devs =
     create_usb_buses devs ''pci-ohci'' Ohci '',num-ports=15'' @
     create_usb_buses devs ''ich9-usb-uhci1'' Uhci [] @
     create_usb_buses devs ''ich9-usb-ehci1'' Ehci [] @
     create_usb_buses devs ''qemu-xhci'' Xhci '',p2=15,p3=15''"

text \<open>
  The devices of one group, numbered in order; a permanent device that is present on the host is
  plugged in. \<open>resolve\<close> is \<^verbatim>\<open>controller::resolve_binding\<close>, whose error is a panic here.
\<close>

definition permanent_device_args ::
    "(UsbBinding \<Rightarrow> 'e + (u64 \<times> u64) option) \<Rightarrow> UsbBus \<Rightarrow> usize \<times> UsbDevice \<Rightarrow> string list \<Rightarrow> 'e + string list"
  where
  "permanent_device_args resolve bus e args =
     (let (n, d) = e in
      if dev_permanent d then
        and_then (resolve (dev_binding d)) (\<lambda>r.
          case r of
            None \<Rightarrow> Inr args
          | Some (hostbus, hostaddr) \<Rightarrow>
              Inr (args @ [''-device'',
                ''usb-host,hostbus='' @ decimal (unat hostbus) @ '',hostaddr='' @ decimal (unat hostaddr)
                  @ '',bus='' @ port_bus_name bus n @ '',port='' @ decimal (port_number bus n)]))
      else Inr args)"

text \<open>The driver's own mouse, keyboard and sound card, after the devices of the Xhci group.\<close>

definition lighthouse_args :: "usize \<Rightarrow> string list" where
  "lighthouse_args i =
     [''-device'', ''usb-mouse,bus='' @ port_bus_name Xhci i @ '',port='' @ decimal (port_number Xhci i),
      ''-device'', ''usb-kbd,bus='' @ port_bus_name Xhci (i + 1) @ '',port=''
        @ decimal (port_number Xhci (i + 1)),
      ''-audiodev'',
      ''pipewire,id=pwaudio,out.mixing-engine=off,in.mixing-engine=off,in.latency=100000000,in.buffer-length=100000000'',
      ''-device'', ''ich9-intel-hda'', ''-device'', ''hda-micro,audiodev=pwaudio'']"

definition usb_device_args ::
    "(UsbBinding \<Rightarrow> 'e + (u64 \<times> u64) option) \<Rightarrow> UsbDevice list \<Rightarrow> 'e + string list" where
  "usb_device_args resolve devs =
     for_each_res (\<lambda>(bus, group) args.
         and_then (for_each_res (permanent_device_args resolve bus) (enumerate 0 group) args)
           (\<lambda>args. Inr (if bus = Xhci then args @ lighthouse_args (length group) else args)))
       (runs dev_bus (sort_key dev_bus devs)) []"

text \<open>The numbers \<^verbatim>\<open>qemu::run\<close> gives the devices, as the loop above enumerates them.\<close>

definition qemu_numbered :: "UsbDevice list \<Rightarrow> (usize \<times> UsbDevice) list" where
  "qemu_numbered devs =
     concat (map (\<lambda>(_, group). enumerate 0 group) (runs dev_bus (sort_key dev_bus devs)))"

subsection \<open>Agreement, disjointness, capacity\<close>

lemma runs_map: "runs f (map g xs) = map (\<lambda>(k, grp). (k, map g grp)) (runs (\<lambda>x. f (g x)) xs)"
proof (induction xs)
  case Nil
  show ?case by simp
next
  case (Cons x xs)
  then show ?case by (cases "runs (\<lambda>x. f (g x)) xs") auto
qed

lemma insort_key_map: "insort_key f (g x) (map g xs) = map g (insort_key (\<lambda>z. f (g z)) x xs)"
  by (induction xs) simp_all

lemma sort_key_map: "sort_key f (map g xs) = map g (sort_key (\<lambda>x. f (g x)) xs)"
  by (induction xs) (simp_all add: insort_key_map)

lemma enumerate_map: "enumerate n (map g xs) = map (\<lambda>(i, x). (i, g x)) (enumerate n xs)"
  by (induction xs arbitrary: n) simp_all

lemma qemu_numbered_eq: "qemu_numbered devs = map (\<lambda>(n, (i, d)). (n, d)) (numbered_devices devs)"
proof -
  let ?f = "\<lambda>(i :: nat, d :: UsbDevice). dev_bus d"
  have f: "(\<lambda>x. dev_bus (snd x)) = ?f" by (auto simp: fun_eq_iff)
  have "sort_key dev_bus devs = sort_key dev_bus (map snd (enumerate 0 devs))" by simp
  also have "\<dots> = map snd (sort_key ?f (enumerate 0 devs))" by (simp only: sort_key_map f)
  finally have "runs dev_bus (sort_key dev_bus devs) =
      map (\<lambda>(k, grp). (k, map snd grp)) (runs ?f (sort_key ?f (enumerate 0 devs)))"
    by (simp only: runs_map f)
  then show ?thesis
    unfolding qemu_numbered_def numbered_devices_def
    by (simp add: map_concat enumerate_map case_prod_beta' comp_def)
qed

lemma length_filter_take_less:
  assumes "i < j" and "j \<le> length xs" and "Q (xs ! i)"
  shows "length (filter Q (take i xs)) < length (filter Q (take j xs))"
proof -
  have "take (Suc i) xs = take i xs @ [xs ! i]"
    using assms(1,2) by (simp add: take_Suc_conv_app_nth)
  then have "length (filter Q (take i xs)) < length (filter Q (take (Suc i) xs))"
    using assms(3) by simp
  also have "take j xs = take (Suc i) xs @ take (j - Suc i) (drop (Suc i) xs)"
    using assms(1) by (metis Suc_leI le_add_diff_inverse take_add)
  then have "length (filter Q (take (Suc i) xs)) \<le> length (filter Q (take j xs))" by simp
  finally show ?thesis .
qed

lemma numbered_devices_inj:
  assumes "(n, (i, d)) \<in> set (numbered_devices devs)" and "(n, (j, e)) \<in> set (numbered_devices devs)"
    and "dev_bus d = dev_bus e"
  shows "i = j"
proof (rule ccontr)
  assume "i \<noteq> j"
  then consider "i < j" | "j < i" by linarith
  then show False
    using assms length_filter_take_less [of i j devs "\<lambda>x. dev_bus x = dev_bus e"]
      length_filter_take_less [of j i devs "\<lambda>x. dev_bus x = dev_bus e"]
    by cases (auto simp: set_numbered_devices)
qed

lemma numbered_devices_bound:
  assumes "(n, (i, d)) \<in> set (numbered_devices devs)"
  shows "n < length (filter (\<lambda>e. dev_bus e = dev_bus d) devs)"
  using assms length_filter_take_less [of i "length devs" devs "\<lambda>x. dev_bus x = dev_bus d"]
  by (auto simp: set_numbered_devices)

lemma usb_bus_num_enough:
  assumes "n < usb_bus_count devs b"
  shows "n div usable_ports b < usb_bus_num devs b"
proof -
  have "n + usable_ports b \<le> usb_bus_count devs b + usable_ports b - 1" using assms by simp
  then have "(n + usable_ports b) div usable_ports b \<le> usb_bus_num devs b"
    unfolding usb_bus_num_def by (rule div_le_mono)
  then show ?thesis using usable_ports_pos [of b] by (simp add: div_add_self2)
qed

lemma port_bus_name_eq:
  "port_bus_name b n = port_bus_name c m \<longleftrightarrow>
     b = c \<and> n div usable_ports b = m div usable_ports c"
proof -
  have "length (UsbBus_display b) = length (UsbBus_display c)" by (cases b; cases c) simp_all
  moreover have "UsbBus_display b = UsbBus_display c \<longleftrightarrow> b = c" by (cases b; cases c) simp_all
  ultimately show ?thesis by (auto simp: port_bus_name_def decimal_inj)
qed

lemma port_location_inj:
  "port_bus_name b n = port_bus_name c m \<and> port_number b n = port_number c m \<longleftrightarrow> b = c \<and> n = m"
proof -
  have "n div u = m div u \<Longrightarrow> n mod u = m mod u \<Longrightarrow> n = m" for u :: nat
    by (metis div_mult_mod_eq)
  then show ?thesis by (auto simp: port_bus_name_eq port_number_def)
qed

lemma port_number_range: "1 \<le> port_number b n \<and> port_number b n \<le> usable_ports b"
proof -
  have "n mod usable_ports b < usable_ports b" by simp
  then show ?thesis unfolding port_number_def by linarith
qed

lemma create_usb_buses_ids:
  assumes "i < usb_bus_num devs typ"
  shows "name @ '',id='' @ usb_bus_id typ i @ ports \<in> set (create_usb_buses devs name typ ports)"
  using assms by (auto simp: create_usb_buses_def)

end
