(* ===== verification/Controller.thy ===== *)
theory Controller
  imports Input_Devices Usb_Topology
begin

text \<open>
  \<^verbatim>\<open>driver/src/controller.rs\<close>: the state machine between the guest agent, QEMU, the host's input
  devices, the control socket and the clipboard. One definition per method, with the environment
  \<open>w\<close> as its first argument. Every \<^verbatim>\<open>unbounded_send(..).unwrap()\<close> and \<^verbatim>\<open>expect\<close> is a branch to
  \<open>Inl\<close>; a run of the model ends at the first panic.
\<close>

subsection \<open>State\<close>

datatype State =
    St_Down
  | St_Up
  | St_Pinging
  | St_Suspending
  | St_Suspended
  | St_Resuming bool

text \<open>The sender inside a temporary entry is the number of its channel.\<close>

datatype IoState =
    Io_Detached
  | Io_LightEntry
  | Io_TemporaryLightEntry nat
  | Io_AwaitingUpgrade
  | Io_FullEntry

text \<open>
  The senders are the channels of the effects; \<open>c_trace\<close> is all that was sent or done, in order,
  and \<open>c_next\<close> numbers the one-shot channels made so far.
\<close>

record Controller =
  c_machine_config :: MachineConfig
  c_hooks_config :: HooksConfig
  c_ga :: State
  c_io_state :: IoState
  c_suspend_senders :: "nat list"
  c_input :: Input
  c_win_clipboard_request :: "ClipboardRequestEvent option"
  c_trace :: "Effect list"
  c_next :: nat

definition Controller_new :: "MachineConfig \<Rightarrow> HooksConfig \<Rightarrow> Controller" where
  "Controller_new machine hooks =
     \<lparr>c_machine_config = machine, c_hooks_config = hooks,
      c_ga = St_Down, c_io_state = Io_Detached, c_suspend_senders = [],
      c_input = Input_new machine, c_win_clipboard_request = None, c_trace = [], c_next = 0\<rparr>"

subsection \<open>Sending\<close>

definition emit :: "Effect list \<Rightarrow> Controller \<Rightarrow> Controller" where
  "emit es c = c\<lparr>c_trace := c_trace c @ es\<rparr>"

definition write_ga :: "World \<Rightarrow> GaCmdOut \<Rightarrow> Controller \<Rightarrow> panic + Controller" where
  "write_ga w cmd c = (if w_clientpipe_open w then Inr (emit [To_ga cmd] c) else Inl Channel_closed)"

definition send_monitor :: "World \<Rightarrow> QmpCommand \<Rightarrow> Controller \<Rightarrow> panic + Controller" where
  "send_monitor w cmd c = (if w_monitor_open w then Inr (emit [To_monitor cmd] c) else Inl Channel_closed)"

definition send_control :: "World \<Rightarrow> nat \<Rightarrow> ControlCmdOut \<Rightarrow> Controller \<Rightarrow> panic + Controller" where
  "send_control w ch cmd c =
     (if w_control_open w ch then Inr (emit [To_control ch cmd] c) else Inl Channel_closed)"

definition send_x11 :: "World \<Rightarrow> Effect \<Rightarrow> Controller \<Rightarrow> panic + Controller" where
  "send_x11 w e c = (if w_x11_open w then Inr (emit [e] c) else Inl Channel_closed)"

text \<open>\<^verbatim>\<open>run_hook\<close>: a hook that cannot be started is only reported.\<close>

definition hook_effects :: "World \<Rightarrow> string option \<Rightarrow> Effect list" where
  "hook_effects w hook =
     (case hook of None \<Rightarrow> [] | Some h \<Rightarrow> if w_spawn_ok w h then [Shell h] else [])"

definition run_hook :: "World \<Rightarrow> string option \<Rightarrow> Controller \<Rightarrow> Controller" where
  "run_hook w hook c = emit (hook_effects w hook) c"

text \<open>\<^verbatim>\<open>self.input.borrow_mut().suspend()\<close> and \<^verbatim>\<open>resume()\<close>.\<close>

definition suspend_input :: "Controller \<Rightarrow> Controller" where
  "suspend_input c =
     (let (inp, es) = input_suspend (c_input c) in emit es (c\<lparr>c_input := inp\<rparr>))"

definition resume_input :: "World \<Rightarrow> Controller \<Rightarrow> panic + Controller" where
  "resume_input w c =
     and_then (input_resume w (c_input c)) (\<lambda>(inp, es). Inr (emit es (c\<lparr>c_input := inp\<rparr>)))"

subsection \<open>Attaching and detaching\<close>

definition prepare_entry :: "World \<Rightarrow> Controller \<Rightarrow> panic + Controller" where
  "prepare_entry w c =
     and_then (write_ga w Ga_ReleaseModifiers c) (\<lambda>c.
       Inr (run_hook w (hook_attach (c_hooks_config c)) c))"

definition light_attach :: "World \<Rightarrow> Controller \<Rightarrow> panic + Controller" where
  "light_attach w c =
     (if c_ga c = St_Suspending then Inr c
      else if c_ga c = St_Suspended then
        and_then (send_monitor w SystemWakeup c) (\<lambda>c. Inr (c\<lparr>c_ga := St_Resuming False\<rparr>))
      else
        (case c_io_state c of
           Io_Detached \<Rightarrow>
             and_then (prepare_entry w c) (\<lambda>c.
               and_then (resume_input w c) (\<lambda>c. Inr (c\<lparr>c_io_state := Io_LightEntry\<rparr>)))
         | Io_AwaitingUpgrade \<Rightarrow> Inr (c\<lparr>c_io_state := Io_LightEntry\<rparr>)
         | Io_LightEntry \<Rightarrow> Inr c
         | Io_FullEntry \<Rightarrow> Inr c
         | Io_TemporaryLightEntry _ \<Rightarrow> Inr c))"

text \<open>The body of the loop of \<^verbatim>\<open>io_force_attach\<close> for one entry of \<open>hotplug_devices\<close>.\<close>

definition usb_device_id :: "usize \<Rightarrow> string" where
  "usb_device_id i = ''usb'' @ decimal i"

definition hotplug_device ::
    "World \<Rightarrow> usize \<times> usize \<times> UsbDevice \<Rightarrow> Controller \<Rightarrow> panic + Controller" where
  "hotplug_device w entry c =
     (let (port, i, dev) = entry in
      and_then (expect_binding (udev_resolve_binding (w_udev w) (dev_binding dev))) (\<lambda>r.
        case r of
          None \<Rightarrow> Inr c
        | Some (hostbus, hostaddr) \<Rightarrow>
            send_monitor w
              (DeviceAdd ''usb-host'' (usb_device_id i) (port_bus_name (dev_bus dev) port)
                (port_number (dev_bus dev) port) hostbus hostaddr) c))"

definition full_entry :: "World \<Rightarrow> Controller \<Rightarrow> panic + Controller" where
  "full_entry w c =
     and_then (prepare_entry w c) (\<lambda>c.
       if \<not> udev_context_ok (w_udev w) then Inl Udev_context_failed
       else
         and_then
           (for_each_res (hotplug_device w)
             (hotplug_devices (mc_usb_devices (c_machine_config c))) c)
           (\<lambda>c. Inr (c\<lparr>c_io_state := Io_FullEntry\<rparr>)))"

definition io_force_attach :: "World \<Rightarrow> Controller \<Rightarrow> panic + Controller" where
  "io_force_attach w c =
     (case c_io_state c of
        Io_Detached \<Rightarrow> full_entry w c
      | Io_AwaitingUpgrade \<Rightarrow>
          and_then (send_monitor w ReleaseAllKeys (suspend_input c)) (full_entry w)
      | Io_LightEntry \<Rightarrow>
          and_then (send_monitor w ReleaseAllKeys (suspend_input c)) (full_entry w)
      | Io_TemporaryLightEntry sender \<Rightarrow>
          and_then (send_control w sender TemporaryLightDetached (suspend_input c)) (full_entry w)
      | Io_FullEntry \<Rightarrow> Inr c)"

definition io_attach :: "World \<Rightarrow> Controller \<Rightarrow> panic + Controller" where
  "io_attach w c =
     (case c_ga c of
        St_Resuming _ \<Rightarrow> Inr c
      | St_Suspending \<Rightarrow> Inr c
      | St_Suspended \<Rightarrow>
          and_then (send_monitor w SystemWakeup c) (\<lambda>c. Inr (c\<lparr>c_ga := St_Resuming True\<rparr>))
      | St_Down \<Rightarrow>
          and_then (light_attach w c) (\<lambda>c. Inr (c\<lparr>c_io_state := Io_AwaitingUpgrade\<rparr>))
      | St_Up \<Rightarrow> io_force_attach w c
      | St_Pinging \<Rightarrow> io_force_attach w c)"

definition try_attach :: "World \<Rightarrow> Controller \<Rightarrow> panic + Controller" where
  "try_attach w c =
     (if c_ga c = St_Up \<or> c_ga c = St_Pinging then io_force_attach w c else Inr c)"

text \<open>The ids of the \<^verbatim>\<open>DeviceDel\<close> loop: every device that is not permanent.\<close>

definition hotplug_ids :: "UsbDevice list \<Rightarrow> string list" where
  "hotplug_ids devs =
     map (\<lambda>(i, _). usb_device_id i) (filter (\<lambda>(_, d). \<not> dev_permanent d) (enumerate 0 devs))"

definition io_detach :: "World \<Rightarrow> Controller \<Rightarrow> panic + Controller" where
  "io_detach w c =
     and_then
       (case c_io_state c of
          Io_Detached \<Rightarrow> Inr c
        | Io_AwaitingUpgrade \<Rightarrow> send_monitor w ReleaseAllKeys (suspend_input c)
        | Io_LightEntry \<Rightarrow> send_monitor w ReleaseAllKeys (suspend_input c)
        | Io_TemporaryLightEntry _ \<Rightarrow> send_monitor w ReleaseAllKeys (suspend_input c)
        | Io_FullEntry \<Rightarrow>
            for_each_res (\<lambda>i. send_monitor w (DeviceDel i))
              (hotplug_ids (mc_usb_devices (c_machine_config c))) c)
       (\<lambda>c. Inr (run_hook w (hook_detach (c_hooks_config c)) (c\<lparr>c_io_state := Io_Detached\<rparr>)))"

definition temporary_entry ::
    "World \<Rightarrow> nat \<Rightarrow> i32 \<Rightarrow> i32 \<Rightarrow> Controller \<Rightarrow> panic + bool \<times> Controller" where
  "temporary_entry w sender x y c =
     (if c_ga c = St_Up \<or> c_ga c = St_Pinging then
        if c_io_state c = Io_Detached then
          and_then (write_ga w (Ga_SetMousePosition \<lparr>point_x = x, point_y = y\<rparr>) c) (\<lambda>c.
            and_then (light_attach w c) (\<lambda>c.
              Inr (True, c\<lparr>c_io_state := Io_TemporaryLightEntry sender\<rparr>)))
        else Inr (False, c)
      else Inr (False, c))"

definition temporary_exit :: "World \<Rightarrow> Controller \<Rightarrow> panic + Controller" where
  "temporary_exit w c =
     (case c_io_state c of Io_TemporaryLightEntry _ \<Rightarrow> io_detach w c | _ \<Rightarrow> Inr c)"

subsection \<open>The guest agent\<close>

definition ga_ping :: "World \<Rightarrow> Controller \<Rightarrow> panic + bool \<times> Controller" where
  "ga_ping w c =
     (if c_ga c = St_Pinging then
        let c = c\<lparr>c_ga := St_Down\<rparr> in
        and_then
          (case c_io_state c of
             Io_FullEntry \<Rightarrow> io_detach w c
           | Io_TemporaryLightEntry _ \<Rightarrow> temporary_exit w c
           | _ \<Rightarrow> Inr c)
          (\<lambda>c. Inr (False, c))
      else if c_ga c = St_Up then
        and_then (write_ga w Ga_Ping (c\<lparr>c_ga := St_Pinging\<rparr>)) (\<lambda>c. Inr (True, c))
      else Inr (False, c))"

definition ga_pong :: "Controller \<Rightarrow> Controller" where
  "ga_pong c = (if c_ga c = St_Pinging then c\<lparr>c_ga := St_Up\<rparr> else c)"

definition register_hotkey :: "World \<Rightarrow> usize \<times> HotKey \<Rightarrow> Controller \<Rightarrow> panic + Controller" where
  "register_hotkey w e c =
     (let (i, hotkey) = e; (modifiers, key) = to_windows (hk_key hotkey) in
      write_ga w (register_to_out \<lparr>rhk_id = of_nat i, rhk_modifiers = modifiers, rhk_key = key\<rparr>) c)"

text \<open>\<^verbatim>\<open>ga_hello\<close> up to the hotkeys, then what it does with the states.\<close>

definition hello_register :: "World \<Rightarrow> Controller \<Rightarrow> panic + Controller" where
  "hello_register w c =
     and_then
       (case w_rust_log w of
          Some rl \<Rightarrow> write_ga w (Ga_EnableDebugConsole rl) (emit [Notify_systemd True ''Ready''] c)
        | None \<Rightarrow> Inr (emit [Notify_systemd True ''Ready''] c)) (\<lambda>c.
     for_each_res (register_hotkey w) (enumerate 0 (mc_hotkeys (c_machine_config c))) c)"

definition hello_enter :: "World \<Rightarrow> Controller \<Rightarrow> panic + bool \<times> Controller" where
  "hello_enter w c =
     (let ga = c_ga c; c = c\<lparr>c_ga := St_Up\<rparr> in
      and_then (if c_io_state c = Io_AwaitingUpgrade then io_attach w c else Inr c) (\<lambda>c.
        case ga of
          St_Pinging \<Rightarrow> Inr (False, c)
        | St_Up \<Rightarrow> Inr (False, c)
        | St_Down \<Rightarrow> Inr (True, c)
        | St_Suspended \<Rightarrow> Inr (True, c)
        | St_Resuming full \<Rightarrow>
            and_then (if full then io_force_attach w c else light_attach w c) (\<lambda>c. Inr (True, c))
        | St_Suspending \<Rightarrow> Inr (False, c)))"

definition ga_hello :: "World \<Rightarrow> Controller \<Rightarrow> panic + bool \<times> Controller" where
  "ga_hello w c = and_then (hello_register w c) (hello_enter w)"

definition ga_suspending :: "World \<Rightarrow> Controller \<Rightarrow> panic + Controller" where
  "ga_suspending w c = and_then (io_detach w c) (\<lambda>c. Inr (c\<lparr>c_ga := St_Suspending\<rparr>))"

definition qemu_suspended :: "Controller \<Rightarrow> Controller" where
  "qemu_suspended c =
     (let c = c\<lparr>c_ga := St_Suspended\<rparr> in
      emit (map Suspend_done (c_suspend_senders c)) (c\<lparr>c_suspend_senders := []\<rparr>))"

definition ga_hotkey :: "World \<Rightarrow> u32 \<Rightarrow> Controller \<Rightarrow> panic + Controller" where
  "ga_hotkey w index c =
     (let hotkeys = mc_hotkeys (c_machine_config c) in
      if \<not> unat index < length hotkeys then Inr c
      else
        (case hk_action (hotkeys ! unat index) of
           HkAction action \<Rightarrow>
             (case c_io_state c of
                Io_TemporaryLightEntry _ \<Rightarrow> Inr c
              | _ \<Rightarrow>
                  (case action of
                     IoUpgrade \<Rightarrow> io_attach w c
                   | IoEntryForced \<Rightarrow> io_force_attach w c
                   | IoExit \<Rightarrow> io_detach w c))
         | Exec cmd \<Rightarrow> if w_spawn_ok w cmd then Inr (emit [Shell cmd] c) else Inl Spawn_failed))"

subsection \<open>Suspend and shutdown\<close>

text \<open>The future \<^verbatim>\<open>suspend\<close> returns: resolved, or waiting for a one-shot channel.\<close>

datatype suspend_future = Resolved | Waiting nat

definition suspend :: "World \<Rightarrow> Controller \<Rightarrow> panic + suspend_future \<times> Controller" where
  "suspend w c =
     (if c_ga c = St_Suspended then Inr (Resolved, c)
      else
        and_then (if c_ga c \<noteq> St_Suspending then write_ga w Ga_Suspend c else Inr c) (\<lambda>c.
          let t = c_next c in
          Inr (Waiting t,
               emit [Suspend_waits t]
                 (c\<lparr>c_next := t + 1, c_suspend_senders := c_suspend_senders c @ [t]\<rparr>))))"

definition shutdown :: "World \<Rightarrow> Controller \<Rightarrow> panic + Controller" where
  "shutdown w c =
     (if c_ga c = St_Up \<or> c_ga c = St_Pinging then write_ga w Ga_Shutdown c
      else send_monitor w SystemPowerdown c)"

subsection \<open>The clipboard\<close>

definition grab_x11_clipboard :: "World \<Rightarrow> ClipboardTypes \<Rightarrow> Controller \<Rightarrow> panic + Controller" where
  "grab_x11_clipboard w types c = send_x11 w (To_x11_grabber types) c"

definition read_x11_clipboard :: "World \<Rightarrow> ClipboardType \<Rightarrow> Controller \<Rightarrow> panic + Controller" where
  "read_x11_clipboard w kind c = send_x11 w (To_x11_reader kind) c"

definition respond_x11_clipboard :: "World \<Rightarrow> u8 list \<Rightarrow> Controller \<Rightarrow> panic + Controller" where
  "respond_x11_clipboard w buf c =
     (case c_win_clipboard_request c of
        Some event \<Rightarrow>
          send_x11 w (To_x11_response (reply_data event buf)) (c\<lparr>c_win_clipboard_request := None\<rparr>)
      | None \<Rightarrow> Inr c)"

definition grab_win_clipboard :: "World \<Rightarrow> ClipboardTypes \<Rightarrow> Controller \<Rightarrow> panic + Controller" where
  "grab_win_clipboard w types c = write_ga w (clipboard_to_out (GrabClipboard types)) c"

definition read_win_clipboard :: "World \<Rightarrow> ClipboardRequestEvent \<Rightarrow> Controller \<Rightarrow> panic + Controller" where
  "read_win_clipboard w event c =
     and_then
       (write_ga w (clipboard_to_out (RequestClipboardContents (ClipboardType_as_i32 (desired_type event)))) c)
       (\<lambda>c. Inr (c\<lparr>c_win_clipboard_request := Some event\<rparr>))"

definition respond_win_clipboard :: "World \<Rightarrow> u8 list \<Rightarrow> Controller \<Rightarrow> panic + Controller" where
  "respond_win_clipboard w buf c = write_ga w (clipboard_to_out (ClipboardContents buf)) c"

definition mouse_edged :: "World \<Rightarrow> i32 \<Rightarrow> i32 \<Rightarrow> Controller \<Rightarrow> panic + Controller" where
  "mouse_edged w x y c =
     (case c_io_state c of
        Io_TemporaryLightEntry sender \<Rightarrow> send_control w sender (MouseEdged x y) c
      | _ \<Rightarrow> Inr c)"

subsection \<open>Backups\<close>

text \<open>
  Both operations queue one command per chosen disk, each with a one-shot channel of its own, and
  start a task that waits for all of them before it answers \<open>ack\<close>.
\<close>

definition snapshot_disks :: "(string \<Rightarrow> bool) \<Rightarrow> StorageDevice list \<Rightarrow> (usize \<times> string) list" where
  "snapshot_disks chosen disks =
     filter (\<lambda>(_, s). chosen s)
       (List.map_filter (\<lambda>(i, d). map_option (\<lambda>s. (i, s)) (sto_snapshot_file d)) (enumerate 0 disks))"

definition queue_snapshot ::
    "World \<Rightarrow> (usize \<Rightarrow> string \<Rightarrow> nat \<Rightarrow> QmpCommand) \<Rightarrow> usize \<times> string \<Rightarrow> nat list \<times> Controller \<Rightarrow>
      panic + nat list \<times> Controller" where
  "queue_snapshot w mk e s =
     (let (i, file) = e; (acks, c) = s; t = c_next c in
      and_then (send_monitor w (mk i file t) (c\<lparr>c_next := t + 1\<rparr>)) (\<lambda>c. Inr (acks @ [t], c)))"

definition enter_backup_mode :: "World \<Rightarrow> nat \<Rightarrow> Controller \<Rightarrow> panic + Controller" where
  "enter_backup_mode w ack c =
     and_then
       (for_each_res (queue_snapshot w TakeSnapshot)
         (snapshot_disks (\<lambda>s. \<not> w_path_exists w s) (mc_storage (c_machine_config c))) ([], c))
       (\<lambda>(acks, c). Inr (emit [Wait_for_acks acks ack] c))"

definition leave_backup_mode :: "World \<Rightarrow> nat \<Rightarrow> Controller \<Rightarrow> panic + Controller" where
  "leave_backup_mode w ack c =
     and_then
       (for_each_res (queue_snapshot w CommitSnapshot)
         (snapshot_disks (\<lambda>s. w_path_exists w s) (mc_storage (c_machine_config c))) ([], c))
       (\<lambda>(acks, c). Inr (emit [Wait_for_acks acks ack] c))"

text \<open>
  The waiting task: the answer of each channel is \<open>Some True\<close> for a value, \<open>Some False\<close> for a
  dropped sender and \<open>None\<close> while it is still open. The task sends its ack when it ends with
  \<open>Some True\<close>.
\<close>

fun await_acks :: "(nat \<Rightarrow> bool option) \<Rightarrow> nat list \<Rightarrow> bool option" where
  "await_acks answer [] = Some True"
| "await_acks answer (a # as) =
     (case answer a of
        None \<Rightarrow> None
      | Some False \<Rightarrow> Some False
      | Some True \<Rightarrow> await_acks answer as)"

subsection \<open>One entry point for every caller\<close>

datatype Ctl_call =
    Call_ga_ping
  | Call_ga_pong
  | Call_ga_hello
  | Call_ga_suspending
  | Call_qemu_suspended
  | Call_ga_hotkey u32
  | Call_io_attach
  | Call_try_attach
  | Call_temporary_entry nat i32 i32
  | Call_temporary_exit
  | Call_light_attach
  | Call_io_force_attach
  | Call_suspend
  | Call_io_detach
  | Call_shutdown
  | Call_grab_x11_clipboard ClipboardTypes
  | Call_read_x11_clipboard ClipboardType
  | Call_respond_x11_clipboard "u8 list"
  | Call_grab_win_clipboard ClipboardTypes
  | Call_read_win_clipboard ClipboardRequestEvent
  | Call_respond_win_clipboard "u8 list"
  | Call_mouse_edged i32 i32
  | Call_enter_backup_mode nat
  | Call_leave_backup_mode nat

definition drop_result :: "'e + 'a \<times> 'b \<Rightarrow> 'e + 'b" where
  "drop_result r = and_then r (\<lambda>(_, c). Inr c)"

fun controller_call :: "World \<Rightarrow> Ctl_call \<Rightarrow> Controller \<Rightarrow> panic + Controller" where
  "controller_call w Call_ga_ping c = drop_result (ga_ping w c)"
| "controller_call w Call_ga_pong c = Inr (ga_pong c)"
| "controller_call w Call_ga_hello c = drop_result (ga_hello w c)"
| "controller_call w Call_ga_suspending c = ga_suspending w c"
| "controller_call w Call_qemu_suspended c = Inr (qemu_suspended c)"
| "controller_call w (Call_ga_hotkey i) c = ga_hotkey w i c"
| "controller_call w Call_io_attach c = io_attach w c"
| "controller_call w Call_try_attach c = try_attach w c"
| "controller_call w (Call_temporary_entry s x y) c = drop_result (temporary_entry w s x y c)"
| "controller_call w Call_temporary_exit c = temporary_exit w c"
| "controller_call w Call_light_attach c = light_attach w c"
| "controller_call w Call_io_force_attach c = io_force_attach w c"
| "controller_call w Call_suspend c = drop_result (suspend w c)"
| "controller_call w Call_io_detach c = io_detach w c"
| "controller_call w Call_shutdown c = shutdown w c"
| "controller_call w (Call_grab_x11_clipboard ts) c = grab_x11_clipboard w ts c"
| "controller_call w (Call_read_x11_clipboard k) c = read_x11_clipboard w k c"
| "controller_call w (Call_respond_x11_clipboard b) c = respond_x11_clipboard w b c"
| "controller_call w (Call_grab_win_clipboard ts) c = grab_win_clipboard w ts c"
| "controller_call w (Call_read_win_clipboard e) c = read_win_clipboard w e c"
| "controller_call w (Call_respond_win_clipboard b) c = respond_win_clipboard w b c"
| "controller_call w (Call_mouse_edged x y) c = mouse_edged w x y c"
| "controller_call w (Call_enter_backup_mode a) c = enter_backup_mode w a c"
| "controller_call w (Call_leave_backup_mode a) c = leave_backup_mode w a c"

text \<open>
  Every controller a run can reach, whatever the callers do and however the environment answers
  each call.
\<close>

inductive reachable :: "MachineConfig \<Rightarrow> HooksConfig \<Rightarrow> Controller \<Rightarrow> bool" for mc hooks where
  reachable_new: "reachable mc hooks (Controller_new mc hooks)"
| reachable_call:
    "reachable mc hooks c \<Longrightarrow> controller_call w e c = Inr c' \<Longrightarrow> reachable mc hooks c'"

end
