(* ===== verification/Controller_Lemmas.thy ===== *)
theory Controller_Lemmas
  imports Controller
begin

text \<open>
  What a normal return of each method means: the new state in closed form. The other theories
  reason about the controller with these facts (the collection \<open>ctl_returns\<close>) and the frame facts
  of \<open>emit\<close>, not with the definitions.
\<close>

named_theorems ctl_returns \<open>closed forms of normal returns\<close>

subsection \<open>Frames\<close>

lemma emit_fields [simp]:
  "c_machine_config (emit es c) = c_machine_config c"
  "c_hooks_config (emit es c) = c_hooks_config c"
  "c_ga (emit es c) = c_ga c"
  "c_io_state (emit es c) = c_io_state c"
  "c_suspend_senders (emit es c) = c_suspend_senders c"
  "c_input (emit es c) = c_input c"
  "c_win_clipboard_request (emit es c) = c_win_clipboard_request c"
  "c_trace (emit es c) = c_trace c @ es"
  "c_next (emit es c) = c_next c"
  by (simp_all add: emit_def)

lemma emit_emit [simp]: "emit es (emit ds c) = emit (ds @ es) c"
  by (simp add: emit_def)

lemma emit_Nil [simp]: "emit [] c = c"
  by (simp add: emit_def)

lemma emit_update [simp]:
  "(emit es c)\<lparr>c_io_state := io\<rparr> = emit es (c\<lparr>c_io_state := io\<rparr>)"
  "(emit es c)\<lparr>c_ga := g\<rparr> = emit es (c\<lparr>c_ga := g\<rparr>)"
  "(emit es c)\<lparr>c_input := inp\<rparr> = emit es (c\<lparr>c_input := inp\<rparr>)"
  "(emit es c)\<lparr>c_win_clipboard_request := r\<rparr> = emit es (c\<lparr>c_win_clipboard_request := r\<rparr>)"
  "(emit es c)\<lparr>c_next := n\<rparr> = emit es (c\<lparr>c_next := n\<rparr>)"
  "(emit es c)\<lparr>c_suspend_senders := ss\<rparr> = emit es (c\<lparr>c_suspend_senders := ss\<rparr>)"
  by (simp_all add: emit_def)

subsection \<open>Sending\<close>

lemma write_ga_Inr [ctl_returns]:
  "write_ga w cmd c = Inr c' \<longleftrightarrow> w_clientpipe_open w \<and> c' = emit [To_ga cmd] c"
  by (auto simp: write_ga_def)

lemma send_monitor_Inr [ctl_returns]:
  "send_monitor w cmd c = Inr c' \<longleftrightarrow> w_monitor_open w \<and> c' = emit [To_monitor cmd] c"
  by (auto simp: send_monitor_def)

lemma send_control_Inr [ctl_returns]:
  "send_control w ch cmd c = Inr c' \<longleftrightarrow> w_control_open w ch \<and> c' = emit [To_control ch cmd] c"
  by (auto simp: send_control_def)

lemma send_x11_Inr [ctl_returns]:
  "send_x11 w e c = Inr c' \<longleftrightarrow> w_x11_open w \<and> c' = emit [e] c"
  by (auto simp: send_x11_def)

lemma drop_result_Inr [ctl_returns]: "drop_result r = Inr c \<longleftrightarrow> (\<exists>x. r = Inr (x, c))"
  by (cases r) (auto simp: drop_result_def)

lemma for_each_send_monitor [ctl_returns]:
  "for_each_res (\<lambda>x. send_monitor w (f x)) xs c = Inr c' \<longleftrightarrow>
     (xs = [] \<or> w_monitor_open w) \<and> c' = emit (map (\<lambda>x. To_monitor (f x)) xs) c"
  by (induction xs arbitrary: c) (auto simp: res_simps ctl_returns)

definition entry_effects :: "World \<Rightarrow> Controller \<Rightarrow> Effect list" where
  "entry_effects w c = To_ga Ga_ReleaseModifiers # hook_effects w (hook_attach (c_hooks_config c))"

lemma prepare_entry_Inr [ctl_returns]:
  "prepare_entry w c = Inr c' \<longleftrightarrow> w_clientpipe_open w \<and> c' = emit (entry_effects w c) c"
  by (auto simp: prepare_entry_def run_hook_def entry_effects_def res_simps ctl_returns)

subsection \<open>Plugging in\<close>

text \<open>The command for one entry, if its device is present, and all commands of a full entry.\<close>

definition hotplug_add :: "Udev \<Rightarrow> usize \<times> usize \<times> UsbDevice \<Rightarrow> QmpCommand option" where
  "hotplug_add u entry =
     (let (port, i, dev) = entry in
      case expect_binding (udev_resolve_binding u (dev_binding dev)) of
        Inr (Some (hostbus, hostaddr)) \<Rightarrow>
          Some (DeviceAdd ''usb-host'' (usb_device_id i) (port_bus_name (dev_bus dev) port)
                 (port_number (dev_bus dev) port) hostbus hostaddr)
      | _ \<Rightarrow> None)"

definition hotplug_adds :: "Udev \<Rightarrow> UsbDevice list \<Rightarrow> QmpCommand list" where
  "hotplug_adds u devs = List.map_filter (hotplug_add u) (hotplug_devices devs)"

lemma hotplug_device_Inr:
  assumes "hotplug_device w e c = Inr c'"
  shows "c' = emit (case hotplug_add (w_udev w) e of None \<Rightarrow> [] | Some a \<Rightarrow> [To_monitor a]) c"
  using assms
  by (auto simp: hotplug_device_def hotplug_add_def res_simps ctl_returns Let_def
      split: prod.splits option.splits)

lemma for_each_hotplug_device:
  "for_each_res (hotplug_device w) es c = Inr c' \<Longrightarrow>
     c' = emit (map To_monitor (List.map_filter (hotplug_add (w_udev w)) es)) c"
proof (induction es arbitrary: c)
  case Nil
  then show ?case by (simp add: List.map_filter_def)
next
  case (Cons e es)
  then obtain d where d: "hotplug_device w e c = Inr d" "for_each_res (hotplug_device w) es d = Inr c'"
    by (auto simp: res_simps)
  from hotplug_device_Inr [OF d(1)] Cons.IH [OF d(2)] show ?case
    by (cases "hotplug_add (w_udev w) e") (simp_all add: List.map_filter_def)
qed

lemma full_entry_Inr:
  assumes "full_entry w c = Inr c'"
  shows "c' = emit (entry_effects w c @
    map To_monitor (hotplug_adds (w_udev w) (mc_usb_devices (c_machine_config c))))
      (c\<lparr>c_io_state := Io_FullEntry\<rparr>)"
proof -
  from assms obtain d where d: "for_each_res (hotplug_device w)
      (hotplug_devices (mc_usb_devices (c_machine_config c))) (emit (entry_effects w c) c) = Inr d"
    and c': "c' = d\<lparr>c_io_state := Io_FullEntry\<rparr>"
    by (auto simp: full_entry_def res_simps ctl_returns split: if_splits)
  from for_each_hotplug_device [OF d] c' show ?thesis by (simp add: hotplug_adds_def)
qed

subsection \<open>Input devices\<close>

lemma suspend_input_eq:
  "suspend_input c = emit (map Li_remove (in_device_handles (c_input c)))
     (c\<lparr>c_input := (c_input c)\<lparr>in_device_handles := []\<rparr>\<rparr>)"
  by (simp add: suspend_input_def input_suspend_def)

lemma resume_input_Inr:
  "resume_input w c = Inr c' \<longleftrightarrow>
     (\<exists>inp es. input_resume w (c_input c) = Inr (inp, es) \<and> c' = emit es (c\<lparr>c_input := inp\<rparr>))"
  by (auto simp: resume_input_def res_simps)

text \<open>The part of every method that gives the host's input devices back.\<close>

definition release_input :: "Effect list \<Rightarrow> Controller \<Rightarrow> Controller" where
  "release_input es c = emit (map Li_remove (in_device_handles (c_input c)) @ es)
     (c\<lparr>c_input := (c_input c)\<lparr>in_device_handles := []\<rparr>\<rparr>)"

lemma io_force_attach_Inr:
  assumes "io_force_attach w c = Inr c'"
  shows "c' =
    (case c_io_state c of
       Io_FullEntry \<Rightarrow> c
     | io \<Rightarrow>
         emit (entry_effects w c @
             map To_monitor (hotplug_adds (w_udev w) (mc_usb_devices (c_machine_config c))))
           ((case io of
              Io_Detached \<Rightarrow> c
            | Io_TemporaryLightEntry s \<Rightarrow> release_input [To_control s TemporaryLightDetached] c
            | _ \<Rightarrow> release_input [To_monitor ReleaseAllKeys] c)\<lparr>c_io_state := Io_FullEntry\<rparr>))"
proof -
  have ee: "entry_effects w (emit es (c\<lparr>c_input := inp\<rparr>)) = entry_effects w c" for es inp
    by (simp add: entry_effects_def)
  show ?thesis
    using assms
    by (cases "c_io_state c")
      (auto simp: io_force_attach_def res_simps ctl_returns suspend_input_eq release_input_def ee
        dest!: full_entry_Inr)
qed

lemma io_detach_Inr:
  assumes "io_detach w c = Inr c'"
  shows "c' =
    emit (hook_effects w (hook_detach (c_hooks_config c)))
      ((case c_io_state c of
         Io_Detached \<Rightarrow> c
       | Io_FullEntry \<Rightarrow>
           emit (map (\<lambda>i. To_monitor (DeviceDel i)) (hotplug_ids (mc_usb_devices (c_machine_config c)))) c
       | _ \<Rightarrow> release_input [To_monitor ReleaseAllKeys] c)\<lparr>c_io_state := Io_Detached\<rparr>)"
  using assms
  by (cases "c_io_state c")
    (auto simp: io_detach_def res_simps ctl_returns suspend_input_eq release_input_def run_hook_def)

text \<open>The five outcomes of a light attach.\<close>

lemma light_attach_cases:
  assumes "light_attach w c = Inr c'"
  obtains
    (suspending) "c_ga c = St_Suspending" "c' = c"
  | (wakes) "c_ga c = St_Suspended" "c' = emit [To_monitor SystemWakeup] (c\<lparr>c_ga := St_Resuming False\<rparr>)"
  | (entry) inp es where "c_ga c \<noteq> St_Suspending" "c_ga c \<noteq> St_Suspended" "c_io_state c = Io_Detached"
      "input_resume w (c_input c) = Inr (inp, es)"
      "c' = emit (entry_effects w c @ es) (c\<lparr>c_input := inp, c_io_state := Io_LightEntry\<rparr>)"
  | (downgrade) "c_ga c \<noteq> St_Suspending" "c_ga c \<noteq> St_Suspended" "c_io_state c = Io_AwaitingUpgrade"
      "c' = c\<lparr>c_io_state := Io_LightEntry\<rparr>"
  | (already) "c_ga c \<noteq> St_Suspending" "c_ga c \<noteq> St_Suspended" "c_io_state c \<noteq> Io_Detached"
      "c_io_state c \<noteq> Io_AwaitingUpgrade" "c' = c"
proof (cases "c_ga c = St_Suspending \<or> c_ga c = St_Suspended")
  case True
  then show ?thesis
  proof
    assume g: "c_ga c = St_Suspending"
    with assms have "c' = c" by (simp add: light_attach_def)
    with g show ?thesis by (rule suspending)
  next
    assume g: "c_ga c = St_Suspended"
    with assms have "c' = emit [To_monitor SystemWakeup] (c\<lparr>c_ga := St_Resuming False\<rparr>)"
      by (auto simp: light_attach_def res_simps ctl_returns)
    with g show ?thesis by (rule wakes)
  qed
next
  case False
  then have g: "c_ga c \<noteq> St_Suspending" "c_ga c \<noteq> St_Suspended" by simp_all
  show ?thesis
  proof (cases "c_io_state c")
    case Io_Detached
    with g assms obtain inp es where "input_resume w (c_input c) = Inr (inp, es)"
        "c' = emit (entry_effects w c @ es) (c\<lparr>c_input := inp, c_io_state := Io_LightEntry\<rparr>)"
      by (auto simp: light_attach_def res_simps ctl_returns resume_input_Inr)
    with g Io_Detached show ?thesis by (rule entry)
  next
    case Io_AwaitingUpgrade
    with g assms have "c' = c\<lparr>c_io_state := Io_LightEntry\<rparr>" by (simp add: light_attach_def)
    with g Io_AwaitingUpgrade show ?thesis by (rule downgrade)
  qed (use g assms in \<open>auto simp: light_attach_def intro: already\<close>)
qed

lemma register_hotkey_Inr:
  "for_each_res (register_hotkey w) ks c = Inr c' \<Longrightarrow>
     c' = emit (map (\<lambda>(i, hk). To_ga (Ga_RegisterHotKey
       \<lparr>rhk_id = of_nat i, rhk_modifiers = fst (to_windows (hk_key hk)),
        rhk_key = snd (to_windows (hk_key hk))\<rparr>)) ks) c"
proof (induction ks arbitrary: c)
  case (Cons k ks)
  obtain i hk where k: "k = (i, hk)" by (cases k)
  from Cons.prems obtain d where d: "register_hotkey w (i, hk) c = Inr d"
      "for_each_res (register_hotkey w) ks d = Inr c'"
    by (auto simp: res_simps k)
  from d(1) have "d = emit [To_ga (Ga_RegisterHotKey
      \<lparr>rhk_id = of_nat i, rhk_modifiers = fst (to_windows (hk_key hk)),
       rhk_key = snd (to_windows (hk_key hk))\<rparr>)] c"
    by (auto simp: register_hotkey_def register_to_out_def ctl_returns split: prod.splits)
  with Cons.IH [OF d(2)] show ?case by (simp add: k)
qed simp

subsection \<open>Backups\<close>

text \<open>The commands of the disks, each with the next fresh channel.\<close>

definition snapshot_commands ::
    "(usize \<Rightarrow> string \<Rightarrow> nat \<Rightarrow> QmpCommand) \<Rightarrow> (usize \<times> string) list \<Rightarrow> nat \<Rightarrow> QmpCommand list" where
  "snapshot_commands mk ds n = map (\<lambda>(k, (i, f)). mk i f k) (enumerate n ds)"

lemma for_each_queue_snapshot:
  "for_each_res (queue_snapshot w mk) ds (acks, c) = Inr (acks', c') \<Longrightarrow>
     acks' = acks @ [c_next c..<c_next c + length ds] \<and>
     c' = emit (map To_monitor (snapshot_commands mk ds (c_next c))) (c\<lparr>c_next := c_next c + length ds\<rparr>)"
proof (induction ds arbitrary: acks c)
  case Nil
  then show ?case by (simp add: snapshot_commands_def)
next
  case (Cons d ds)
  obtain i f where d: "d = (i, f)" by (cases d)
  let ?n = "c_next c"
  let ?c = "emit [To_monitor (mk i f ?n)] (c\<lparr>c_next := ?n + 1\<rparr>)"
  have "queue_snapshot w mk d (acks, c) = Inr r \<Longrightarrow> r = (acks @ [?n], ?c)" for r
    by (auto simp: d queue_snapshot_def Let_def res_simps ctl_returns)
  with Cons.prems have "for_each_res (queue_snapshot w mk) ds (acks @ [?n], ?c) = Inr (acks', c')"
    by (auto simp only: for_each_res.simps and_then_eq_Inr)
  from Cons.IH [OF this] show ?case
    by (simp add: d snapshot_commands_def upt_rec [of ?n] Suc_le_eq)
qed

lemma backup_mode_Inr:
  assumes "and_then (for_each_res (queue_snapshot w mk) ds ([], c))
      (\<lambda>(acks, c). Inr (emit [Wait_for_acks acks a] c)) = (Inr c' :: panic + Controller)"
  shows "c' = emit (map To_monitor (snapshot_commands mk ds (c_next c)) @
      [Wait_for_acks [c_next c..<c_next c + length ds] a]) (c\<lparr>c_next := c_next c + length ds\<rparr>)"
proof -
  from assms obtain acks d where loop: "for_each_res (queue_snapshot w mk) ds ([], c) = Inr (acks, d)"
    and c': "c' = emit [Wait_for_acks acks a] d"
    by (auto simp only: and_then_eq_Inr split: prod.splits)
  from for_each_queue_snapshot [OF loop] c' show ?thesis by simp
qed

lemma set_snapshot_disks:
  "(i, f) \<in> set (snapshot_disks chosen disks) \<longleftrightarrow>
     i < length disks \<and> sto_snapshot_file (disks ! i) = Some f \<and> chosen f"
proof -
  have "(i, f) \<in> set (snapshot_disks chosen disks) \<longleftrightarrow>
      (\<exists>d. (i, d) \<in> set (enumerate 0 disks) \<and> sto_snapshot_file d = Some f) \<and> chosen f"
    by (force simp: snapshot_disks_def List.map_filter_def)
  then show ?thesis by (auto simp: in_set_enumerate_eq)
qed

lemma set_snapshot_commands:
  "cmd \<in> set (snapshot_commands mk ds n) \<longleftrightarrow>
     (\<exists>k<length ds. cmd = mk (fst (ds ! k)) (snd (ds ! k)) (n + k))"
proof -
  have len: "length (snapshot_commands mk ds n) = length ds" by (simp add: snapshot_commands_def)
  have "snapshot_commands mk ds n ! k = mk (fst (ds ! k)) (snd (ds ! k)) (n + k)"
    if "k < length ds" for k
    using that by (simp add: snapshot_commands_def nth_enumerate_eq split_def)
  then show ?thesis unfolding in_set_conv_nth len by (metis (no_types))
qed

lemma await_acks_iff: "await_acks answer as = Some True \<longleftrightarrow> (\<forall>t\<in>set as. answer t = Some True)"
  by (induction as) (auto split: option.splits bool.splits)

subsection \<open>Hotkeys\<close>

lemma ga_hotkey_cases:
  assumes "ga_hotkey w i c = Inr c'"
  obtains
    (ignored) "c' = c"
  | (shell) cmd where "c' = emit [Shell cmd] c"
  | (upgrade) "unat i < length (mc_hotkeys (c_machine_config c))"
      "hk_action (mc_hotkeys (c_machine_config c) ! unat i) = HkAction IoUpgrade"
      "io_attach w c = Inr c'"
  | (forced) "io_force_attach w c = Inr c'"
  | (exit) "io_detach w c = Inr c'"
proof (cases "unat i < length (mc_hotkeys (c_machine_config c))")
  case False
  with assms ignored show ?thesis by (simp add: ga_hotkey_def)
next
  case i: True
  show ?thesis
  proof (cases "hk_action (mc_hotkeys (c_machine_config c) ! unat i)")
    case (Exec cmd)
    with assms i have "c' = emit [Shell cmd] c" by (simp add: ga_hotkey_def split: if_splits)
    then show ?thesis by (rule shell)
  next
    case (HkAction a)
    show ?thesis
    proof (cases "\<exists>s. c_io_state c = Io_TemporaryLightEntry s")
      case True
      with assms i HkAction have "c' = c" by (auto simp: ga_hotkey_def)
      then show ?thesis by (rule ignored)
    next
      case False
      then have "(case c_io_state c of Io_TemporaryLightEntry _ \<Rightarrow> Inr c | _ \<Rightarrow> r) = r" for r :: "panic + Controller"
        by (cases "c_io_state c") auto
      with assms i HkAction have *: "(case a of IoUpgrade \<Rightarrow> io_attach w c
          | IoEntryForced \<Rightarrow> io_force_attach w c | IoExit \<Rightarrow> io_detach w c) = Inr c'"
        by (simp add: ga_hotkey_def)
      show ?thesis
      proof (cases a)
        case IoUpgrade
        with * i HkAction show ?thesis by (intro upgrade) simp_all
      qed (use * forced exit in simp_all)
    qed
  qed
qed

end
