(* ===== verification/Controller_Inv.thy ===== *)
theory Controller_Inv
  imports Controller_Lemmas
begin

text \<open>
  The controller refines a small protocol machine over the guest agent's state and the kind of
  the current entry, and keeps an invariant over its state and its whole trace of effects.
\<close>

subsection \<open>The protocol machine\<close>

datatype IoKind = Detached_kind | Light_kind | Temporary_kind | Awaiting_kind | Full_kind

primrec io_kind :: "IoState \<Rightarrow> IoKind" where
  "io_kind Io_Detached = Detached_kind"
| "io_kind Io_LightEntry = Light_kind"
| "io_kind (Io_TemporaryLightEntry s) = Temporary_kind"
| "io_kind Io_AwaitingUpgrade = Awaiting_kind"
| "io_kind Io_FullEntry = Full_kind"

definition protocol_state :: "Controller \<Rightarrow> State \<times> IoKind" where
  "protocol_state c = (c_ga c, io_kind (c_io_state c))"

fun spec_light :: "State \<times> IoKind \<Rightarrow> State \<times> IoKind" where
  "spec_light (g, k) =
     (if g = St_Suspending then (g, k)
      else if g = St_Suspended then (St_Resuming False, k)
      else (g, if k = Detached_kind \<or> k = Awaiting_kind then Light_kind else k))"

fun spec_attach :: "State \<times> IoKind \<Rightarrow> State \<times> IoKind" where
  "spec_attach (St_Resuming full, k) = (St_Resuming full, k)"
| "spec_attach (St_Suspending, k) = (St_Suspending, k)"
| "spec_attach (St_Suspended, k) = (St_Resuming True, k)"
| "spec_attach (St_Down, k) = (St_Down, Awaiting_kind)"
| "spec_attach (St_Up, k) = (St_Up, Full_kind)"
| "spec_attach (St_Pinging, k) = (St_Pinging, Full_kind)"

fun spec_hello :: "State \<times> IoKind \<Rightarrow> State \<times> IoKind" where
  "spec_hello (g, k) =
     (let k = (if k = Awaiting_kind then Full_kind else k) in
      if g = St_Resuming True then (St_Up, Full_kind)
      else if g = St_Resuming False then spec_light (St_Up, k)
      else (St_Up, k))"

fun spec_ping :: "State \<times> IoKind \<Rightarrow> State \<times> IoKind" where
  "spec_ping (g, k) =
     (if g = St_Pinging then
        (St_Down, if k = Full_kind \<or> k = Temporary_kind then Detached_kind else k)
      else if g = St_Up then (St_Pinging, k)
      else (g, k))"

definition spec_hotkey :: "HotKey list \<Rightarrow> nat \<Rightarrow> State \<times> IoKind \<Rightarrow> State \<times> IoKind" where
  "spec_hotkey hotkeys i s =
     (if i < length hotkeys \<and> snd s \<noteq> Temporary_kind then
        (case hk_action (hotkeys ! i) of
           HkAction IoUpgrade \<Rightarrow> spec_attach s
         | HkAction IoEntryForced \<Rightarrow> (fst s, Full_kind)
         | HkAction IoExit \<Rightarrow> (fst s, Detached_kind)
         | Exec _ \<Rightarrow> s)
      else s)"

fun protocol_step :: "HotKey list \<Rightarrow> Ctl_call \<Rightarrow> State \<times> IoKind \<Rightarrow> State \<times> IoKind" where
  "protocol_step hks Call_ga_ping s = spec_ping s"
| "protocol_step hks Call_ga_pong (g, k) = (if g = St_Pinging then St_Up else g, k)"
| "protocol_step hks Call_ga_hello s = spec_hello s"
| "protocol_step hks Call_ga_suspending (g, k) = (St_Suspending, Detached_kind)"
| "protocol_step hks Call_qemu_suspended (g, k) = (St_Suspended, k)"
| "protocol_step hks (Call_ga_hotkey i) s = spec_hotkey hks (unat i) s"
| "protocol_step hks Call_io_attach s = spec_attach s"
| "protocol_step hks Call_try_attach (g, k) =
     (if g = St_Up \<or> g = St_Pinging then (g, Full_kind) else (g, k))"
| "protocol_step hks (Call_temporary_entry ch x y) (g, k) =
     (if (g = St_Up \<or> g = St_Pinging) \<and> k = Detached_kind then (g, Temporary_kind) else (g, k))"
| "protocol_step hks Call_temporary_exit (g, k) = (g, if k = Temporary_kind then Detached_kind else k)"
| "protocol_step hks Call_light_attach s = spec_light s"
| "protocol_step hks Call_io_force_attach (g, k) = (g, Full_kind)"
| "protocol_step hks Call_io_detach (g, k) = (g, Detached_kind)"
| "protocol_step hks _ s = s"

text \<open>The specification's parts are unfolded by hand.\<close>

lemmas spec_simps = spec_light.simps spec_attach.simps spec_hello.simps spec_ping.simps

declare spec_simps [simp del]

subsection \<open>Single methods\<close>

lemma io_force_attach_state:
  assumes "io_force_attach w c = Inr c'"
  shows "protocol_state c' = (c_ga c, Full_kind)"
  using io_force_attach_Inr [OF assms]
  by (cases "c_io_state c") (simp_all add: protocol_state_def release_input_def)

lemma io_detach_state:
  assumes "io_detach w c = Inr c'"
  shows "protocol_state c' = (c_ga c, Detached_kind)"
  using io_detach_Inr [OF assms]
  by (cases "c_io_state c") (simp_all add: protocol_state_def release_input_def)

lemma light_attach_state:
  assumes "light_attach w c = Inr c'"
  shows "protocol_state c' = spec_light (protocol_state c)"
  using assms
proof (cases rule: light_attach_cases)
  case already
  then show ?thesis by (cases "c_io_state c") (simp_all add: spec_simps protocol_state_def)
qed (simp_all add: spec_simps protocol_state_def)

lemma io_attach_state:
  assumes "io_attach w c = Inr c'"
  shows "protocol_state c' = spec_attach (protocol_state c)"
proof (cases "c_ga c")
  case St_Down
  from assms obtain d where d: "light_attach w c = Inr d" and c': "c' = d\<lparr>c_io_state := Io_AwaitingUpgrade\<rparr>"
    by (auto simp: io_attach_def St_Down res_simps)
  have "c_ga d = St_Down"
    using light_attach_state [OF d] St_Down by (simp add: spec_simps protocol_state_def)
  then show ?thesis by (simp add: spec_simps c' St_Down protocol_state_def)
qed (use assms io_force_attach_state in \<open>auto simp: spec_simps io_attach_def protocol_state_def res_simps ctl_returns\<close>)

lemma temporary_exit_state:
  assumes "temporary_exit w c = Inr c'"
  shows "protocol_state c' =
    (c_ga c, if io_kind (c_io_state c) = Temporary_kind then Detached_kind else io_kind (c_io_state c))"
  using assms
  by (cases "c_io_state c")
    (auto simp: temporary_exit_def protocol_state_def dest: io_detach_state)

lemma ga_ping_state:
  assumes "ga_ping w c = Inr (b, c')"
  shows "protocol_state c' = spec_ping (protocol_state c)"
proof (cases "c_ga c = St_Pinging")
  case True
  let ?c = "c\<lparr>c_ga := St_Down\<rparr>"
  from assms True have "(case c_io_state c of Io_FullEntry \<Rightarrow> io_detach w ?c
      | Io_TemporaryLightEntry _ \<Rightarrow> temporary_exit w ?c | _ \<Rightarrow> Inr ?c) = Inr c'"
    by (simp add: ga_ping_def Let_def res_simps)
  with True show ?thesis
    by (cases "c_io_state c")
      (auto simp: spec_simps protocol_state_def dest!: io_detach_state temporary_exit_state)
next
  case False
  with assms show ?thesis
    by (auto simp: spec_simps ga_ping_def Let_def protocol_state_def res_simps ctl_returns split: if_splits)
qed

text \<open>The first part of \<^verbatim>\<open>ga_hello\<close>: the notification, the debug console and the hotkeys.\<close>

definition hello_effects :: "World \<Rightarrow> Controller \<Rightarrow> Effect list" where
  "hello_effects w c =
     Notify_systemd True ''Ready'' #
     (case w_rust_log w of None \<Rightarrow> [] | Some rl \<Rightarrow> [To_ga (Ga_EnableDebugConsole rl)]) @
     map (\<lambda>(i, hk). To_ga (Ga_RegisterHotKey
       \<lparr>rhk_id = of_nat i, rhk_modifiers = fst (to_windows (hk_key hk)),
        rhk_key = snd (to_windows (hk_key hk))\<rparr>))
       (enumerate 0 (mc_hotkeys (c_machine_config c)))"

lemma hello_register_Inr: "hello_register w c = Inr c' \<Longrightarrow> c' = emit (hello_effects w c) c"
  by (auto simp: hello_register_def hello_effects_def res_simps ctl_returns
      split: option.splits dest!: register_hotkey_Inr)

lemma ga_hello_Inr:
  assumes "ga_hello w c = Inr (b, c')"
  obtains d where
    "(if c_io_state c = Io_AwaitingUpgrade then io_attach w (emit (hello_effects w c) (c\<lparr>c_ga := St_Up\<rparr>))
      else Inr (emit (hello_effects w c) (c\<lparr>c_ga := St_Up\<rparr>))) = Inr d"
    "(case c_ga c of St_Resuming full \<Rightarrow> if full then io_force_attach w d else light_attach w d
      | _ \<Rightarrow> Inr d) = Inr c'"
    "b \<longleftrightarrow> c_ga c = St_Down \<or> c_ga c = St_Suspended \<or> (\<exists>full. c_ga c = St_Resuming full)"
proof -
  from assms obtain c2 where 1: "hello_register w c = Inr c2" and 2: "hello_enter w c2 = Inr (b, c')"
    by (auto simp: ga_hello_def res_simps)
  have c2: "c2 = emit (hello_effects w c) c" by (rule hello_register_Inr [OF 1])
  from 2 obtain d where
    3: "(if c_io_state c2 = Io_AwaitingUpgrade then io_attach w (c2\<lparr>c_ga := St_Up\<rparr>)
        else Inr (c2\<lparr>c_ga := St_Up\<rparr>)) = Inr d" and
    4: "(case c_ga c2 of St_Pinging \<Rightarrow> Inr (False, d) | St_Up \<Rightarrow> Inr (False, d) | St_Down \<Rightarrow> Inr (True, d)
       | St_Suspended \<Rightarrow> Inr (True, d)
       | St_Resuming full \<Rightarrow>
           and_then (if full then io_force_attach w d else light_attach w d) (\<lambda>c. Inr (True, c))
       | St_Suspending \<Rightarrow> Inr (False, d)) = Inr (b, c')"
    by (auto simp: hello_enter_def res_simps Let_def)
  show thesis
  proof (rule that [of d])
    show "(if c_io_state c = Io_AwaitingUpgrade then io_attach w (emit (hello_effects w c) (c\<lparr>c_ga := St_Up\<rparr>))
      else Inr (emit (hello_effects w c) (c\<lparr>c_ga := St_Up\<rparr>))) = Inr d"
      using 3 unfolding c2 by (simp split: if_splits)
  qed (use 4 in \<open>auto simp: c2 res_simps split: State.splits\<close>)
qed

lemma ga_hello_state:
  assumes "ga_hello w c = Inr (b, c')"
  shows "protocol_state c' = spec_hello (protocol_state c)"
proof -
  from ga_hello_Inr [OF assms] obtain d where
    1: "(if c_io_state c = Io_AwaitingUpgrade then io_attach w (emit (hello_effects w c) (c\<lparr>c_ga := St_Up\<rparr>))
      else Inr (emit (hello_effects w c) (c\<lparr>c_ga := St_Up\<rparr>))) = Inr d" and
    2: "(case c_ga c of St_Resuming full \<Rightarrow> if full then io_force_attach w d else light_attach w d
      | _ \<Rightarrow> Inr d) = Inr c'"
    by blast
  have d: "protocol_state d =
      (St_Up, if io_kind (c_io_state c) = Awaiting_kind then Full_kind else io_kind (c_io_state c))"
  proof (cases "c_io_state c = Io_AwaitingUpgrade")
    case True
    with 1 have "io_attach w (emit (hello_effects w c) (c\<lparr>c_ga := St_Up\<rparr>)) = Inr d" by simp
    from io_attach_state [OF this] True show ?thesis by (simp add: spec_simps protocol_state_def)
  next
    case False
    with 1 show ?thesis by (cases "c_io_state c") (auto simp: spec_simps protocol_state_def)
  qed
  show ?thesis
  proof (cases "c_ga c")
    case (St_Resuming full)
    show ?thesis
    proof (cases full)
      case True
      with 2 St_Resuming have "io_force_attach w d = Inr c'" by simp
      from io_force_attach_state [OF this] d show ?thesis
        using St_Resuming True by (simp add: spec_simps protocol_state_def)
    next
      case False
      with 2 St_Resuming have "light_attach w d = Inr c'" by simp
      from light_attach_state [OF this] d show ?thesis
        using St_Resuming False by (simp add: spec_simps protocol_state_def)
    qed
  qed (use 2 d in \<open>simp_all add: spec_simps protocol_state_def\<close>)
qed

lemma ga_hotkey_state:
  assumes "ga_hotkey w i c = Inr c'"
  shows "protocol_state c' = spec_hotkey (mc_hotkeys (c_machine_config c)) (unat i) (protocol_state c)"
proof -
  let ?hks = "mc_hotkeys (c_machine_config c)"
  have snd: "snd (protocol_state c) = Temporary_kind \<longleftrightarrow> (\<exists>s. c_io_state c = Io_TemporaryLightEntry s)"
    by (cases "c_io_state c") (simp_all add: spec_simps protocol_state_def)
  show ?thesis
  proof (cases "unat i < length ?hks")
    case False
    with assms show ?thesis by (simp add: ga_hotkey_def spec_hotkey_def)
  next
    case i: True
    show ?thesis
    proof (cases "hk_action (?hks ! unat i)")
      case (Exec cmd)
      with assms i show ?thesis
        by (auto simp: ga_hotkey_def spec_hotkey_def protocol_state_def split: if_splits)
    next
      case (HkAction a)
      show ?thesis
      proof (cases "snd (protocol_state c) = Temporary_kind")
        case True
        with assms i HkAction snd show ?thesis by (auto simp: ga_hotkey_def spec_hotkey_def)
      next
        case False
        with snd have *: "(case c_io_state c of Io_TemporaryLightEntry _ \<Rightarrow> Inr c | _ \<Rightarrow> r) = r" for r
          by (cases "c_io_state c") auto
        from False assms i HkAction show ?thesis
          by (cases a) (auto simp: ga_hotkey_def spec_hotkey_def * protocol_state_def
              dest: io_attach_state io_force_attach_state io_detach_state)
      qed
    qed
  qed
qed

lemma temporary_entry_state:
  assumes "temporary_entry w s x y c = Inr (b, c')"
  shows "protocol_state c' = protocol_step hks (Call_temporary_entry s x y) (protocol_state c)"
    and "b \<longleftrightarrow> (c_ga c = St_Up \<or> c_ga c = St_Pinging) \<and> c_io_state c = Io_Detached"
proof -
  have k: "io_kind (c_io_state c) = Detached_kind \<longleftrightarrow> c_io_state c = Io_Detached"
    by (cases "c_io_state c") simp_all
  from assms show "b \<longleftrightarrow> (c_ga c = St_Up \<or> c_ga c = St_Pinging) \<and> c_io_state c = Io_Detached"
    by (auto simp: temporary_entry_def res_simps split: if_splits)
  show "protocol_state c' = protocol_step hks (Call_temporary_entry s x y) (protocol_state c)"
  proof (cases "(c_ga c = St_Up \<or> c_ga c = St_Pinging) \<and> c_io_state c = Io_Detached")
    case True
    with assms obtain d where
      "light_attach w (emit [To_ga (Ga_SetMousePosition \<lparr>point_x = x, point_y = y\<rparr>)] c) = Inr d"
      and c': "c' = d\<lparr>c_io_state := Io_TemporaryLightEntry s\<rparr>"
      by (auto simp: temporary_entry_def res_simps ctl_returns split: if_splits)
    from light_attach_state [OF this(1)] True have "c_ga d = c_ga c"
      by (auto simp: spec_simps protocol_state_def)
    with True show ?thesis by (simp add: c' protocol_state_def)
  next
    case False
    with assms k show ?thesis
      by (auto simp: temporary_entry_def protocol_state_def split: if_splits)
  qed
qed

subsection \<open>The refinement\<close>

text \<open>Calls that only send leave the protocol state alone.\<close>

lemma sending_calls_state:
  "suspend w c = Inr (f, c') \<Longrightarrow> protocol_state c' = protocol_state c"
  "shutdown w c = Inr c' \<Longrightarrow> protocol_state c' = protocol_state c"
  "grab_x11_clipboard w ts c = Inr c' \<Longrightarrow> protocol_state c' = protocol_state c"
  "read_x11_clipboard w k c = Inr c' \<Longrightarrow> protocol_state c' = protocol_state c"
  "respond_x11_clipboard w b c = Inr c' \<Longrightarrow> protocol_state c' = protocol_state c"
  "grab_win_clipboard w ts c = Inr c' \<Longrightarrow> protocol_state c' = protocol_state c"
  "read_win_clipboard w e c = Inr c' \<Longrightarrow> protocol_state c' = protocol_state c"
  "respond_win_clipboard w b c = Inr c' \<Longrightarrow> protocol_state c' = protocol_state c"
  "mouse_edged w x y c = Inr c' \<Longrightarrow> protocol_state c' = protocol_state c"
  by (auto simp: suspend_def shutdown_def grab_x11_clipboard_def read_x11_clipboard_def
      respond_x11_clipboard_def grab_win_clipboard_def read_win_clipboard_def
      respond_win_clipboard_def mouse_edged_def protocol_state_def Let_def res_simps ctl_returns
      split: if_splits option.splits IoState.splits)

lemma ga_pong_state:
  "protocol_state (ga_pong c) =
     (if c_ga c = St_Pinging then St_Up else c_ga c, io_kind (c_io_state c))"
  by (simp add: ga_pong_def protocol_state_def)

lemma qemu_suspended_state:
  "protocol_state (qemu_suspended c) = (St_Suspended, io_kind (c_io_state c))"
  by (simp add: qemu_suspended_def protocol_state_def)

lemma ga_suspending_state:
  "ga_suspending w c = Inr c' \<Longrightarrow> protocol_state c' = (St_Suspending, Detached_kind)"
  by (auto simp: ga_suspending_def res_simps protocol_state_def dest: io_detach_state)

lemma try_attach_state:
  "try_attach w c = Inr c' \<Longrightarrow> protocol_state c' =
     (if c_ga c = St_Up \<or> c_ga c = St_Pinging then (c_ga c, Full_kind) else protocol_state c)"
  using io_force_attach_state [of w c c'] by (auto simp: try_attach_def)

lemma backup_state:
  "enter_backup_mode w a c = Inr c' \<Longrightarrow> protocol_state c' = protocol_state c"
  "leave_backup_mode w a c = Inr c' \<Longrightarrow> protocol_state c' = protocol_state c"
  by (auto simp: enter_backup_mode_def leave_backup_mode_def protocol_state_def dest!: backup_mode_Inr)

lemma protocol_refines:
  assumes "controller_call w e c = Inr c'"
  shows "protocol_state c' =
    protocol_step (mc_hotkeys (c_machine_config c)) e (protocol_state c)"
proof -
  let ?hks = "mc_hotkeys (c_machine_config c)"
  have ps: "protocol_state c = (c_ga c, io_kind (c_io_state c))" by (simp add: protocol_state_def)
  note entry = temporary_entry_state(1) [of w _ _ _ c _ _ ?hks, unfolded ps]
  from assms show ?thesis
    by (cases e)
      (auto simp: ps drop_result_Inr ga_pong_state qemu_suspended_state
         dest: entry sending_calls_state backup_state ga_ping_state ga_hello_state ga_hotkey_state
           io_attach_state light_attach_state io_force_attach_state io_detach_state
           temporary_exit_state try_attach_state ga_suspending_state)
qed

end
