(* ===== verification/Controller_Safety.thy ===== *)
theory Controller_Safety
  imports Controller_Inv
begin

text \<open>
  The invariant of every reachable controller, over its fields and its trace, by rule induction
  over \<open>reachable\<close>; then what it says about USB devices plugged in at run time.
\<close>

subsection \<open>The invariant\<close>

text \<open>The configuration never changes.\<close>

definition config_ok :: "MachineConfig \<Rightarrow> HooksConfig \<Rightarrow> Controller \<Rightarrow> bool" where
  "config_ok mc hooks c \<longleftrightarrow>
     c_machine_config c = mc \<and> c_hooks_config c = hooks \<and> in_machine (c_input c) = mc"

text \<open>
  The handles are what libinput holds open, and nothing is held open when detached or in a full
  entry.
\<close>

definition input_ok :: "Controller \<Rightarrow> bool" where
  "input_ok c \<longleftrightarrow>
     li_open (c_trace c) = mset (in_device_handles (c_input c)) \<and>
     (c_io_state c = Io_Detached \<or> c_io_state c = Io_FullEntry \<longrightarrow> in_device_handles (c_input c) = [])"

text \<open>
  Waiting callers of \<^verbatim>\<open>suspend\<close> are told once, in the order they came; nobody waits while the guest
  is suspended.
\<close>

definition suspend_ok :: "Controller \<Rightarrow> bool" where
  "suspend_ok c \<longleftrightarrow>
     suspend_awaited (c_trace c) = suspend_resolved (c_trace c) @ c_suspend_senders c \<and>
     sorted_wrt (<) (suspend_resolved (c_trace c) @ c_suspend_senders c) \<and>
     (\<forall>t\<in>set (suspend_resolved (c_trace c)) \<union> set (c_suspend_senders c). t < c_next c) \<and>
     (c_ga c = St_Suspended \<longrightarrow> c_suspend_senders c = [])"

text \<open>A temporary entry ends when the guest agent dies.\<close>

definition temporary_ok :: "Controller \<Rightarrow> bool" where
  "temporary_ok c \<longleftrightarrow> \<not> (c_ga c = St_Down \<and> io_kind (c_io_state c) = Temporary_kind)"

definition controller_ok :: "MachineConfig \<Rightarrow> HooksConfig \<Rightarrow> Controller \<Rightarrow> bool" where
  "controller_ok mc hooks c \<longleftrightarrow> config_ok mc hooks c \<and> input_ok c \<and> suspend_ok c"

text \<open>Effects that none of the three reads.\<close>

fun quiet_effect :: "Effect \<Rightarrow> bool" where
  "quiet_effect (Li_add h) = False"
| "quiet_effect (Li_remove h) = False"
| "quiet_effect (Suspend_waits t) = False"
| "quiet_effect (Suspend_done t) = False"
| "quiet_effect _ = True"

lemma quiet_li: "list_all quiet_effect es \<Longrightarrow> fold li_open_after es M = M"
proof (induction es arbitrary: M)
  case (Cons e es)
  then show ?case by (cases e) simp_all
qed simp

lemma quiet_suspend:
  "list_all quiet_effect es \<Longrightarrow> suspend_awaited es = [] \<and> suspend_resolved es = []"
proof (induction es)
  case (Cons e es)
  then show ?case by (cases e) simp_all
qed simp

lemma quiet_hook [simp]: "list_all quiet_effect (hook_effects w h)"
  by (simp add: hook_effects_def split: option.splits)

lemma quiet_entry [simp]: "list_all quiet_effect (entry_effects w c)"
  by (simp add: entry_effects_def)

lemma quiet_to_monitor [simp]: "list_all quiet_effect (map To_monitor cmds)"
  by (simp add: list_all_iff)

lemma quiet_hello [simp]: "list_all quiet_effect (hello_effects w c)"
  by (auto simp: hello_effects_def list_all_iff split: option.splits)

lemma controller_ok_emit:
  assumes "list_all quiet_effect es"
  shows "controller_ok mc hooks (emit es c) \<longleftrightarrow> controller_ok mc hooks c"
  using quiet_li [OF assms] quiet_suspend [OF assms]
  by (simp add: controller_ok_def config_ok_def input_ok_def suspend_ok_def li_open_append)

lemma controller_ok_ga:
  "controller_ok mc hooks c \<Longrightarrow> g \<noteq> St_Suspended \<Longrightarrow> controller_ok mc hooks (c\<lparr>c_ga := g\<rparr>)"
  by (simp add: controller_ok_def config_ok_def input_ok_def suspend_ok_def)

lemma controller_ok_light:
  "controller_ok mc hooks c \<Longrightarrow> io \<noteq> Io_Detached \<Longrightarrow> io \<noteq> Io_FullEntry \<Longrightarrow>
     controller_ok mc hooks (c\<lparr>c_io_state := io\<rparr>)"
  by (simp add: controller_ok_def config_ok_def input_ok_def suspend_ok_def)

lemma controller_ok_idle:
  "controller_ok mc hooks c \<Longrightarrow> c_io_state c = Io_Detached \<or> c_io_state c = Io_FullEntry \<Longrightarrow>
     controller_ok mc hooks (c\<lparr>c_io_state := io\<rparr>)"
  by (auto simp: controller_ok_def config_ok_def input_ok_def suspend_ok_def)

lemma controller_ok_request [simp]:
  "controller_ok mc hooks (c\<lparr>c_win_clipboard_request := r\<rparr>) \<longleftrightarrow> controller_ok mc hooks c"
  by (simp add: controller_ok_def config_ok_def input_ok_def suspend_ok_def)

lemma controller_ok_next:
  assumes "controller_ok mc hooks c"
  shows "controller_ok mc hooks (c\<lparr>c_next := c_next c + n\<rparr>)"
proof -
  from assms show ?thesis
    unfolding controller_ok_def config_ok_def input_ok_def suspend_ok_def
    by (simp add: ball_Un trans_less_add1)
qed

lemma controller_ok_release:
  assumes "controller_ok mc hooks c" and "list_all quiet_effect es"
  shows "controller_ok mc hooks (release_input es c\<lparr>c_io_state := io\<rparr>)"
proof -
  let ?rm = "map Li_remove (in_device_handles (c_input c))"
  from assms(1) have "li_open (c_trace c) = mset (in_device_handles (c_input c))"
    by (simp add: controller_ok_def input_ok_def)
  then have "fold li_open_after ?rm (li_open (c_trace c)) = {#}"
    by (simp add: fold_li_remove)
  moreover have "suspend_awaited (map Li_remove hs) = []" "suspend_resolved (map Li_remove hs) = []" for hs
    by (induction hs) simp_all
  ultimately show ?thesis
    using assms quiet_li [OF assms(2)] quiet_suspend [OF assms(2)]
    by (simp add: release_input_def controller_ok_def config_ok_def input_ok_def suspend_ok_def
        li_open_append)
qed

subsection \<open>Every method keeps it\<close>

lemma io_force_attach_ok:
  assumes "io_force_attach w c = Inr c'" and "controller_ok mc hooks c"
  shows "controller_ok mc hooks c'"
  using io_force_attach_Inr [OF assms(1)] assms(2)
  by (cases "c_io_state c")
    (auto simp: controller_ok_emit list_all_append intro: controller_ok_idle controller_ok_release)

lemma io_detach_ok:
  assumes "io_detach w c = Inr c'" and "controller_ok mc hooks c"
  shows "controller_ok mc hooks c'"
proof -
  have "list_all quiet_effect (map (\<lambda>i. To_monitor (DeviceDel i)) is)" for "is"
    by (simp add: list_all_iff)
  with io_detach_Inr [OF assms(1)] assms(2) show ?thesis
    by (cases "c_io_state c")
      (auto simp: controller_ok_emit intro: controller_ok_idle controller_ok_release)
qed

lemma light_attach_ok:
  assumes "light_attach w c = Inr c'" and "controller_ok mc hooks c"
  shows "controller_ok mc hooks c'"
  using assms(1)
proof (cases rule: light_attach_cases)
  case (entry inp es)
  from input_resume_inv [OF entry(4) refl] only_li_effects_simps [of es]
  have es: "fold li_open_after es (mset (in_device_handles (c_input c))) = mset (in_device_handles inp)"
    "in_machine inp = in_machine (c_input c)" "suspend_awaited es = []" "suspend_resolved es = []"
    by auto
  have q: "fold li_open_after (entry_effects w c) M = M"
    "suspend_awaited (entry_effects w c) = []" "suspend_resolved (entry_effects w c) = []" for M
    using quiet_li quiet_suspend quiet_entry by blast+
  show ?thesis
    using assms(2) unfolding entry(5)
    by (simp add: es q controller_ok_def config_ok_def input_ok_def suspend_ok_def li_open_append)
qed (use assms(2) in \<open>auto simp: controller_ok_emit intro: controller_ok_ga controller_ok_light\<close>)

lemma io_attach_ok:
  assumes "io_attach w c = Inr c'" and "controller_ok mc hooks c"
  shows "controller_ok mc hooks c'"
  using assms
  by (cases "c_ga c")
    (auto simp: io_attach_def res_simps ctl_returns controller_ok_emit
      intro: controller_ok_ga controller_ok_light light_attach_ok io_force_attach_ok)

lemma temporary_exit_ok:
  "temporary_exit w c = Inr c' \<Longrightarrow> controller_ok mc hooks c \<Longrightarrow> controller_ok mc hooks c'"
  by (auto simp: temporary_exit_def split: IoState.splits dest: io_detach_ok)

lemma temporary_entry_ok:
  "temporary_entry w s x y c = Inr (b, c') \<Longrightarrow> controller_ok mc hooks c \<Longrightarrow> controller_ok mc hooks c'"
  by (auto simp: temporary_entry_def res_simps ctl_returns controller_ok_emit
      intro!: controller_ok_light dest!: light_attach_ok [of w _ _ mc hooks] split: if_splits)

lemma ga_ping_ok:
  "ga_ping w c = Inr (b, c') \<Longrightarrow> controller_ok mc hooks c \<Longrightarrow> controller_ok mc hooks c'"
  using controller_ok_ga [of mc hooks c]
  by (auto simp: ga_ping_def Let_def res_simps ctl_returns controller_ok_emit
      split: if_splits IoState.splits dest: io_detach_ok temporary_exit_ok)

lemma ga_hello_ok:
  assumes "ga_hello w c = Inr (b, c')" and "controller_ok mc hooks c"
  shows "controller_ok mc hooks c'"
proof -
  from ga_hello_Inr [OF assms(1)] obtain d where
    1: "(if c_io_state c = Io_AwaitingUpgrade then io_attach w (emit (hello_effects w c) (c\<lparr>c_ga := St_Up\<rparr>))
      else Inr (emit (hello_effects w c) (c\<lparr>c_ga := St_Up\<rparr>))) = Inr d" and
    2: "(case c_ga c of St_Resuming full \<Rightarrow> if full then io_force_attach w d else light_attach w d
      | _ \<Rightarrow> Inr d) = Inr c'"
    by blast
  from assms(2) have "controller_ok mc hooks (emit (hello_effects w c) (c\<lparr>c_ga := St_Up\<rparr>))"
    by (simp add: controller_ok_emit controller_ok_ga)
  with 1 have "controller_ok mc hooks d" by (auto split: if_splits dest: io_attach_ok)
  with 2 show ?thesis by (auto split: State.splits if_splits dest: io_force_attach_ok light_attach_ok)
qed

lemma ga_hotkey_ok:
  assumes "ga_hotkey w i c = Inr c'" and "controller_ok mc hooks c"
  shows "controller_ok mc hooks c'"
  using assms(1)
proof (cases rule: ga_hotkey_cases)
  case upgrade
  with assms(2) show ?thesis by (blast intro: io_attach_ok)
next
  case forced
  with assms(2) show ?thesis by (blast intro: io_force_attach_ok)
next
  case exit
  with assms(2) show ?thesis by (blast intro: io_detach_ok)
qed (use assms(2) in \<open>simp_all add: controller_ok_emit\<close>)

lemma fold_suspend_done:
  "suspend_awaited (map Suspend_done ts) = []" "suspend_resolved (map Suspend_done ts) = ts"
  "fold li_open_after (map Suspend_done ts) M = M"
  by (induction ts) simp_all

lemma qemu_suspended_ok: "controller_ok mc hooks c \<Longrightarrow> controller_ok mc hooks (qemu_suspended c)"
  by (simp add: qemu_suspended_def controller_ok_def config_ok_def input_ok_def suspend_ok_def
      fold_suspend_done li_open_append)

lemma suspend_ok_call:
  assumes "suspend w c = Inr (f, c')" and ok: "controller_ok mc hooks c"
  shows "controller_ok mc hooks c'"
proof (cases "c_ga c = St_Suspended")
  case True
  with assms show ?thesis by (simp add: suspend_def)
next
  case False
  let ?d = "if c_ga c \<noteq> St_Suspending then emit [To_ga Ga_Suspend] c else c"
  from ok have d: "controller_ok mc hooks ?d" by (simp add: controller_ok_emit)
  have ga: "c_ga ?d = c_ga c" by simp
  from assms(1) False have c': "c' = emit [Suspend_waits (c_next ?d)]
      (?d\<lparr>c_next := c_next ?d + 1, c_suspend_senders := c_suspend_senders ?d @ [c_next ?d]\<rparr>)"
    by (auto simp: suspend_def Let_def res_simps ctl_returns split: if_splits)
  show ?thesis
    using d False ga unfolding c'
    by (simp add: controller_ok_def config_ok_def input_ok_def suspend_ok_def li_open_append
        sorted_wrt_append) (auto intro: less_SucI)
qed

lemma sending_calls_ok:
  assumes "controller_ok mc hooks c"
  shows
  "shutdown w c = Inr c' \<Longrightarrow> controller_ok mc hooks c'"
  "grab_x11_clipboard w ts c = Inr c' \<Longrightarrow> controller_ok mc hooks c'"
  "read_x11_clipboard w k c = Inr c' \<Longrightarrow> controller_ok mc hooks c'"
  "respond_x11_clipboard w bs c = Inr c' \<Longrightarrow> controller_ok mc hooks c'"
  "grab_win_clipboard w ts c = Inr c' \<Longrightarrow> controller_ok mc hooks c'"
  "read_win_clipboard w e c = Inr c' \<Longrightarrow> controller_ok mc hooks c'"
  "respond_win_clipboard w bs c = Inr c' \<Longrightarrow> controller_ok mc hooks c'"
  "mouse_edged w x y c = Inr c' \<Longrightarrow> controller_ok mc hooks c'"
  using assms
  by (auto simp: shutdown_def grab_x11_clipboard_def read_x11_clipboard_def
      respond_x11_clipboard_def grab_win_clipboard_def read_win_clipboard_def
      respond_win_clipboard_def mouse_edged_def res_simps ctl_returns controller_ok_emit
      split: if_splits option.splits IoState.splits)

lemma backup_ok:
  assumes "controller_ok mc hooks c"
  shows "enter_backup_mode w a c = Inr c' \<Longrightarrow> controller_ok mc hooks c'"
    and "leave_backup_mode w a c = Inr c' \<Longrightarrow> controller_ok mc hooks c'"
  using assms
  by (auto simp: enter_backup_mode_def leave_backup_mode_def controller_ok_emit list_all_append
      dest!: backup_mode_Inr intro: controller_ok_next)

lemma controller_call_ok:
  assumes "controller_call w e c = Inr c'" and "controller_ok mc hooks c"
  shows "controller_ok mc hooks c'"
proof -
  note d = sending_calls_ok [OF assms(2)] backup_ok [OF assms(2)]
  from assms show ?thesis
    by (cases e)
      (auto simp: drop_result_Inr ga_pong_def try_attach_def ga_suspending_def res_simps
        intro: controller_ok_ga qemu_suspended_ok split: if_splits
        dest: d io_attach_ok io_force_attach_ok io_detach_ok light_attach_ok temporary_exit_ok
          temporary_entry_ok ga_ping_ok ga_hello_ok ga_hotkey_ok suspend_ok_call)
qed

lemma reachable_ok: "reachable mc hooks c \<Longrightarrow> controller_ok mc hooks c"
proof (induction rule: reachable.induct)
  case reachable_new
  show ?case
    by (simp add: controller_ok_def config_ok_def input_ok_def suspend_ok_def Controller_new_def
        Input_new_def)
next
  case (reachable_call c w e c')
  from reachable_call(2,3) show ?case by (rule controller_call_ok)
qed

end
