(* ===== verification/Usb_Hotplug.thy ===== *)
theory Usb_Hotplug
  imports Controller_Safety
begin

text \<open>
  The USB devices the controller plugs into the running guest: every \<open>DeviceAdd\<close> of a run names a
  location the command line created, and, as long as nobody asks for an upgrade of a full entry
  while the guest agent is down, no device stays plugged in after the full entry ends.
\<close>

subsection \<open>Commands of one full entry\<close>

lemma usb_device_id_eq [simp]: "usb_device_id i = usb_device_id j \<longleftrightarrow> i = j"
  by (simp add: usb_device_id_def decimal_inj)

lemma hotplug_ids_iff:
  "x \<in> set (hotplug_ids devs) \<longleftrightarrow>
     (\<exists>i<length devs. \<not> dev_permanent (devs ! i) \<and> x = usb_device_id i)"
  by (force simp: hotplug_ids_def in_set_enumerate_eq)

text \<open>The command for device \<open>i\<close> of the configuration, when the host has it at an address.\<close>

definition device_add_command :: "UsbDevice list \<Rightarrow> nat \<Rightarrow> u64 \<times> u64 \<Rightarrow> QmpCommand" where
  "device_add_command devs i a =
     (let b = dev_bus (devs ! i); n = length (filter (\<lambda>e. dev_bus e = b) (take i devs)) in
      DeviceAdd ''usb-host'' (usb_device_id i) (port_bus_name b n) (port_number b n) (fst a) (snd a))"

lemma hotplug_add_Some:
  "hotplug_add u (n, (i, d)) = Some cmd \<longleftrightarrow>
     (\<exists>a. expect_binding (udev_resolve_binding u (dev_binding d)) = Inr (Some a) \<and>
        cmd = DeviceAdd ''usb-host'' (usb_device_id i) (port_bus_name (dev_bus d) n)
                (port_number (dev_bus d) n) (fst a) (snd a))"
proof (cases "expect_binding (udev_resolve_binding u (dev_binding d))")
  case (Inr r)
  then show ?thesis by (cases r) (auto simp: hotplug_add_def)
qed (simp add: hotplug_add_def)

lemma hotplug_adds_iff:
  "cmd \<in> set (hotplug_adds u devs) \<longleftrightarrow>
     (\<exists>i<length devs. \<exists>a. \<not> dev_permanent (devs ! i) \<and>
        expect_binding (udev_resolve_binding u (dev_binding (devs ! i))) = Inr (Some a) \<and>
        cmd = device_add_command devs i a)"
proof -
  have "cmd \<in> set (hotplug_adds u devs) \<longleftrightarrow>
      (\<exists>n i d. (n, (i, d)) \<in> set (numbered_devices devs) \<and> \<not> dev_permanent d \<and>
        hotplug_add u (n, (i, d)) = Some cmd)"
    by (force simp: hotplug_adds_def hotplug_devices_def List.map_filter_def)
  also have "\<dots> \<longleftrightarrow> (\<exists>i<length devs. \<exists>a. \<not> dev_permanent (devs ! i) \<and>
        expect_binding (udev_resolve_binding u (dev_binding (devs ! i))) = Inr (Some a) \<and>
        cmd = device_add_command devs i a)"
    unfolding set_numbered_devices hotplug_add_Some device_add_command_def Let_def by blast
  finally show ?thesis .
qed

definition add_id :: "QmpCommand \<Rightarrow> string option" where
  "add_id cmd = (case cmd of DeviceAdd drv i bus port hb ha \<Rightarrow> Some i | _ \<Rightarrow> None)"

lemma add_id_command [simp]: "add_id (device_add_command devs i a) = Some (usb_device_id i)"
  by (simp add: device_add_command_def add_id_def Let_def)

text \<open>The devices of the configuration that the host has.\<close>

definition present_ids :: "Udev \<Rightarrow> UsbDevice list \<Rightarrow> string set" where
  "present_ids u devs =
     {usb_device_id i | i. i < length devs \<and> \<not> dev_permanent (devs ! i) \<and>
        (\<exists>a. expect_binding (udev_resolve_binding u (dev_binding (devs ! i))) = Inr (Some a))}"

lemma fold_usb_adds:
  "\<forall>cmd\<in>set cmds. add_id cmd \<noteq> None \<Longrightarrow>
     fold usb_after (map To_monitor cmds) P = P \<union> {i. \<exists>cmd\<in>set cmds. add_id cmd = Some i}"
proof (induction cmds arbitrary: P)
  case (Cons cmd cmds)
  from Cons.prems obtain drv i bus port hb ha where "cmd = DeviceAdd drv i bus port hb ha"
    by (cases cmd) (auto simp: add_id_def)
  with Cons show ?case by (auto simp: add_id_def)
qed simp

lemma fold_usb_entry:
  "fold usb_after (map To_monitor (hotplug_adds u devs)) P = P \<union> present_ids u devs"
proof -
  have "\<forall>cmd\<in>set (hotplug_adds u devs). add_id cmd \<noteq> None"
    by (auto simp: hotplug_adds_iff)
  then have "fold usb_after (map To_monitor (hotplug_adds u devs)) P =
      P \<union> {i. \<exists>cmd\<in>set (hotplug_adds u devs). add_id cmd = Some i}"
    by (rule fold_usb_adds)
  also have "{i. \<exists>cmd\<in>set (hotplug_adds u devs). add_id cmd = Some i} = present_ids u devs"
  proof (rule set_eqI, rule iffI)
    fix x assume "x \<in> {i. \<exists>cmd\<in>set (hotplug_adds u devs). add_id cmd = Some i}"
    then obtain cmd where "cmd \<in> set (hotplug_adds u devs)" "add_id cmd = Some x" by blast
    then show "x \<in> present_ids u devs" by (auto simp: hotplug_adds_iff present_ids_def)
  next
    fix x assume "x \<in> present_ids u devs"
    then obtain i a where i: "x = usb_device_id i" "i < length devs" "\<not> dev_permanent (devs ! i)"
        "expect_binding (udev_resolve_binding u (dev_binding (devs ! i))) = Inr (Some a)"
      unfolding present_ids_def by blast
    then have "device_add_command devs i a \<in> set (hotplug_adds u devs)"
      unfolding hotplug_adds_iff by blast
    moreover have "add_id (device_add_command devs i a) = Some x" by (simp add: i(1))
    ultimately show "x \<in> {i. \<exists>cmd\<in>set (hotplug_adds u devs). add_id cmd = Some i}" by blast
  qed
  finally show ?thesis .
qed

lemma present_ids_subset: "present_ids u devs \<subseteq> set (hotplug_ids devs)"
  by (auto simp: present_ids_def hotplug_ids_iff)

lemma fold_usb_dels: "fold usb_after (map (\<lambda>i. To_monitor (DeviceDel i)) is) P = P - set is"
  by (induction "is" arbitrary: P) auto

subsection \<open>Every device is plugged in where the command line made room\<close>

definition adds_ok :: "UsbDevice list \<Rightarrow> Effect list \<Rightarrow> bool" where
  "adds_ok devs tr \<longleftrightarrow>
     (\<forall>cmd. To_monitor cmd \<in> set tr \<and> add_id cmd \<noteq> None \<longrightarrow>
        (\<exists>u. cmd \<in> set (hotplug_adds u devs)))"

fun usb_quiet :: "Effect \<Rightarrow> bool" where
  "usb_quiet (To_monitor (DeviceAdd drv i bus port hb ha)) = False"
| "usb_quiet (To_monitor (DeviceDel i)) = False"
| "usb_quiet _ = True"

lemma usb_quiet_fold: "list_all usb_quiet es \<Longrightarrow> fold usb_after es P = P"
proof (induction es arbitrary: P)
  case (Cons e es)
  then show ?case by (cases e rule: usb_quiet.cases) simp_all
qed simp

lemma adds_ok_quiet: "list_all usb_quiet es \<Longrightarrow> adds_ok devs es"
  by (auto simp: adds_ok_def add_id_def list_all_iff split: QmpCommand.splits)

lemma adds_ok_append: "adds_ok devs (tr @ es) \<longleftrightarrow> adds_ok devs tr \<and> adds_ok devs es"
  by (auto simp: adds_ok_def)

lemma adds_ok_Cons: "usb_quiet e \<Longrightarrow> adds_ok devs (e # es) \<longleftrightarrow> adds_ok devs es"
  using adds_ok_append [of devs "[e]" es] adds_ok_quiet [of "[e]" devs] by simp

lemma adds_ok_entry: "adds_ok devs (map To_monitor (hotplug_adds u devs))"
  by (auto simp: adds_ok_def)

lemma adds_ok_dels: "adds_ok devs (map (\<lambda>i. To_monitor (DeviceDel i)) is)"
  by (auto simp: adds_ok_def add_id_def)

text \<open>Nothing is plugged in outside a full entry.\<close>

definition usb_ok :: "Controller \<Rightarrow> bool" where
  "usb_ok c \<longleftrightarrow>
     adds_ok (mc_usb_devices (c_machine_config c)) (c_trace c) \<and>
     usb_plugged (c_trace c) \<subseteq> set (hotplug_ids (mc_usb_devices (c_machine_config c)))"

definition usb_tidy :: "Controller \<Rightarrow> bool" where
  "usb_tidy c \<longleftrightarrow> (c_io_state c \<noteq> Io_FullEntry \<longrightarrow> usb_plugged (c_trace c) = {})"

text \<open>
  A step keeps \<open>usb_ok\<close>; when \<open>p\<close> holds it keeps \<open>usb_tidy\<close> as well. The steps of a method compose.
\<close>

definition usb_step :: "bool \<Rightarrow> Controller \<Rightarrow> Controller \<Rightarrow> bool" where
  "usb_step p c c' \<longleftrightarrow>
     c_machine_config c' = c_machine_config c \<and>
     (usb_ok c \<longrightarrow> usb_ok c' \<and> (p \<and> usb_tidy c \<longrightarrow> usb_tidy c'))"

lemma usb_step_refl [simp]: "usb_step p c c"
  by (simp add: usb_step_def)

lemma usb_step_trans: "usb_step p c d \<Longrightarrow> usb_step p d e \<Longrightarrow> usb_step p c e"
  by (auto simp: usb_step_def)

lemma usb_step_weaken: "usb_step True c d \<Longrightarrow> usb_step p c d"
  by (auto simp: usb_step_def)

text \<open>Steps whose effects do not plug and that do not leave a full entry.\<close>

lemma usb_step_quiet:
  assumes "c_trace c' = c_trace c @ es" and "list_all usb_quiet es"
    and "c_machine_config c' = c_machine_config c"
    and "p \<Longrightarrow> c_io_state c = Io_FullEntry \<Longrightarrow> c_io_state c' = Io_FullEntry"
  shows "usb_step p c c'"
  using assms
  by (auto simp: usb_step_def usb_ok_def usb_tidy_def adds_ok_append adds_ok_quiet
      usb_plugged_append usb_quiet_fold)

lemma usb_step_emit: "list_all usb_quiet es \<Longrightarrow> usb_step p c (emit es c)"
  by (rule usb_step_quiet) simp_all

lemma usb_step_ga: "usb_step p c (c\<lparr>c_ga := g\<rparr>)"
  by (rule usb_step_quiet [where es = "[]"]) simp_all

lemma usb_quiet_hook [simp]: "list_all usb_quiet (hook_effects w h)"
  by (simp add: hook_effects_def split: option.splits)

lemma usb_quiet_entry [simp]: "list_all usb_quiet (entry_effects w c)"
  by (simp add: entry_effects_def)

lemma usb_quiet_hello [simp]: "list_all usb_quiet (hello_effects w c)"
  by (auto simp: hello_effects_def list_all_iff split: option.splits)

lemma usb_quiet_li: "only_li_effects es \<Longrightarrow> list_all usb_quiet es"
  by (auto simp: only_li_effects_def list_all_iff)

lemma usb_quiet_removes [simp]: "list_all usb_quiet (map Li_remove hs)"
  by (simp add: list_all_iff)

text \<open>A full entry plugs in the devices the host has; its end unplugs all of the configuration.\<close>

lemma io_force_attach_plugged:
  assumes "io_force_attach w c = Inr c'"
  shows "usb_plugged (c_trace c') =
    (if c_io_state c = Io_FullEntry then usb_plugged (c_trace c)
     else usb_plugged (c_trace c) \<union> present_ids (w_udev w) (mc_usb_devices (c_machine_config c)))"
  using io_force_attach_Inr [OF assms]
  by (cases "c_io_state c")
    (simp_all add: usb_plugged_append release_input_def usb_quiet_fold fold_usb_entry)

lemma io_detach_plugged:
  assumes "io_detach w c = Inr c'"
  shows "usb_plugged (c_trace c') =
    (if c_io_state c = Io_FullEntry
     then usb_plugged (c_trace c) - set (hotplug_ids (mc_usb_devices (c_machine_config c)))
     else usb_plugged (c_trace c))"
  using io_detach_Inr [OF assms]
  by (cases "c_io_state c")
    (simp_all add: usb_plugged_append release_input_def usb_quiet_fold fold_usb_dels)

lemma io_force_attach_usb:
  assumes "io_force_attach w c = Inr c'"
  shows "usb_step True c c'"
proof -
  note eq = io_force_attach_Inr [OF assms]
  have m: "c_machine_config c' = c_machine_config c"
    unfolding eq by (cases "c_io_state c") (simp_all add: release_input_def)
  have f: "c_io_state c' = Io_FullEntry"
    unfolding eq by (cases "c_io_state c") (simp_all add: release_input_def)
  have a: "adds_ok (mc_usb_devices (c_machine_config c)) (c_trace c')"
    if "adds_ok (mc_usb_devices (c_machine_config c)) (c_trace c)"
    unfolding eq using that
    by (cases "c_io_state c")
      (simp_all add: release_input_def adds_ok_append adds_ok_Cons adds_ok_quiet adds_ok_entry)
  have "usb_plugged (c_trace c') \<subseteq> usb_plugged (c_trace c) \<union>
      present_ids (w_udev w) (mc_usb_devices (c_machine_config c))"
    unfolding io_force_attach_plugged [OF assms] by simp
  then have "usb_plugged (c_trace c') \<subseteq> usb_plugged (c_trace c) \<union>
      set (hotplug_ids (mc_usb_devices (c_machine_config c)))"
    using present_ids_subset by blast
  with m f a show ?thesis by (auto simp: usb_step_def usb_ok_def usb_tidy_def)
qed

lemma io_detach_usb:
  assumes "io_detach w c = Inr c'"
  shows "usb_step True c c'"
proof -
  note eq = io_detach_Inr [OF assms]
  have m: "c_machine_config c' = c_machine_config c"
    unfolding eq by (cases "c_io_state c") (simp_all add: release_input_def)
  have a: "adds_ok (mc_usb_devices (c_machine_config c)) (c_trace c')"
    if "adds_ok (mc_usb_devices (c_machine_config c)) (c_trace c)"
    unfolding eq using that
    by (cases "c_io_state c")
      (simp_all add: release_input_def adds_ok_append adds_ok_Cons adds_ok_quiet adds_ok_dels)
  from io_detach_plugged [OF assms] m a show ?thesis
    by (auto simp: usb_step_def usb_ok_def usb_tidy_def split: if_splits)
qed

lemma light_attach_usb:
  assumes "light_attach w c = Inr c'"
  shows "usb_step True c c'"
  using assms
proof (cases rule: light_attach_cases)
  case (entry inp es)
  have "list_all usb_quiet (entry_effects w c @ es)"
    using input_resume_inv(2) [OF entry(4) refl] by (simp add: usb_quiet_li)
  then show ?thesis by (rule usb_step_quiet [rotated]) (simp_all add: entry)
next
  case wakes
  then show ?thesis by (intro usb_step_quiet [where es = "[To_monitor SystemWakeup]"]) simp_all
next
  case downgrade
  then show ?thesis by (intro usb_step_quiet [where es = "[]"]) simp_all
qed simp_all

text \<open>
  An upgrade asked for while the agent is down forgets a full entry: the only step that can leave
  devices plugged in.
\<close>

definition forgets_full_entry :: "Controller \<Rightarrow> bool" where
  "forgets_full_entry c \<longleftrightarrow> c_ga c = St_Down \<and> c_io_state c = Io_FullEntry"

lemma io_attach_usb:
  assumes "io_attach w c = Inr c'"
  shows "usb_step (\<not> forgets_full_entry c) c c'"
proof (cases "c_ga c")
  case St_Down
  from assms obtain d where d: "light_attach w c = Inr d" and c': "c' = d\<lparr>c_io_state := Io_AwaitingUpgrade\<rparr>"
    by (auto simp: io_attach_def St_Down res_simps)
  show ?thesis
  proof (cases "c_io_state c = Io_FullEntry")
    case True
    with d St_Down have "d = c" by (auto simp: light_attach_def)
    with c' True St_Down show ?thesis
      by (intro usb_step_quiet [where es = "[]"]) (simp_all add: forgets_full_entry_def)
  next
    case False
    then have "io_kind (c_io_state c) \<noteq> Full_kind" by (cases "c_io_state c") simp_all
    with light_attach_state [OF d] have "c_io_state d \<noteq> Io_FullEntry"
      by (auto simp: protocol_state_def spec_simps St_Down split: if_splits)
    with c' have "usb_step True d c'" by (intro usb_step_quiet [where es = "[]"]) simp_all
    with light_attach_usb [OF d] have "usb_step True c c'" by (rule usb_step_trans)
    then show ?thesis by (rule usb_step_weaken)
  qed
next
  case St_Suspended
  with assms show ?thesis
    by (intro usb_step_quiet [where es = "[To_monitor SystemWakeup]"])
      (auto simp: io_attach_def res_simps ctl_returns)
next
  case St_Up
  with assms have "io_force_attach w c = Inr c'" by (simp add: io_attach_def)
  then show ?thesis by (rule usb_step_weaken [OF io_force_attach_usb])
next
  case St_Pinging
  with assms have "io_force_attach w c = Inr c'" by (simp add: io_attach_def)
  then show ?thesis by (rule usb_step_weaken [OF io_force_attach_usb])
qed (use assms in \<open>simp_all add: io_attach_def\<close>)

subsection \<open>Every call\<close>

lemma light_attach_not_full:
  assumes "light_attach w c = Inr d" and "c_io_state c \<noteq> Io_FullEntry"
  shows "c_io_state d \<noteq> Io_FullEntry"
  using assms(1)
proof (cases rule: light_attach_cases)
  case already
  with assms(2) show ?thesis by simp
qed (use assms(2) in simp_all)

lemma temporary_exit_usb: "temporary_exit w c = Inr c' \<Longrightarrow> usb_step True c c'"
  by (auto simp: temporary_exit_def split: IoState.splits dest: io_detach_usb)

lemma ga_ping_usb:
  assumes "ga_ping w c = Inr (b, c')"
  shows "usb_step True c c'"
proof (cases "c_ga c = St_Pinging")
  case True
  let ?c = "c\<lparr>c_ga := St_Down\<rparr>"
  from assms True have "(case c_io_state c of Io_FullEntry \<Rightarrow> io_detach w ?c
      | Io_TemporaryLightEntry _ \<Rightarrow> temporary_exit w ?c | _ \<Rightarrow> Inr ?c) = Inr c'"
    by (simp add: ga_ping_def Let_def res_simps)
  then have "usb_step True ?c c'"
    by (cases "c_io_state c") (auto dest: io_detach_usb temporary_exit_usb)
  with usb_step_ga show ?thesis by (rule usb_step_trans)
next
  case False
  then show ?thesis
  proof (cases "c_ga c = St_Up")
    case True
    with assms show ?thesis
      by (intro usb_step_quiet [where es = "[To_ga Ga_Ping]"])
        (auto simp: ga_ping_def res_simps ctl_returns)
  qed (use assms in \<open>simp_all add: ga_ping_def\<close>)
qed

lemma ga_hello_usb:
  assumes "ga_hello w c = Inr (b, c')"
  shows "usb_step True c c'"
proof -
  let ?c = "emit (hello_effects w c) (c\<lparr>c_ga := St_Up\<rparr>)"
  from ga_hello_Inr [OF assms] obtain d where
    1: "(if c_io_state c = Io_AwaitingUpgrade then io_attach w ?c else Inr ?c) = Inr d" and
    2: "(case c_ga c of St_Resuming full \<Rightarrow> if full then io_force_attach w d else light_attach w d
      | _ \<Rightarrow> Inr d) = Inr c'"
    by blast
  have "usb_step True c ?c"
    by (rule usb_step_quiet [where es = "hello_effects w c"]) simp_all
  moreover have "usb_step True ?c d"
  proof (cases "c_io_state c = Io_AwaitingUpgrade")
    case True
    with 1 have "io_attach w ?c = Inr d" by simp
    moreover have "\<not> forgets_full_entry ?c" by (simp add: forgets_full_entry_def)
    ultimately show ?thesis using io_attach_usb [of w ?c d] by simp
  qed (use 1 in simp)
  moreover have "usb_step True d c'"
    using 2 by (auto split: State.splits if_splits dest: io_force_attach_usb light_attach_usb)
  ultimately show ?thesis by (blast intro: usb_step_trans)
qed

text \<open>The call that asks for an upgrade when a full entry would be forgotten.\<close>

definition careless_call :: "Ctl_call \<Rightarrow> Controller \<Rightarrow> bool" where
  "careless_call e c \<longleftrightarrow> forgets_full_entry c \<and>
     (case e of
        Call_io_attach \<Rightarrow> True
      | Call_ga_hotkey i \<Rightarrow>
          (let hks = mc_hotkeys (c_machine_config c) in
           unat i < length hks \<and> hk_action (hks ! unat i) = HkAction IoUpgrade)
      | _ \<Rightarrow> False)"

lemma ga_hotkey_usb:
  assumes "ga_hotkey w i c = Inr c'"
  shows "usb_step (\<not> careless_call (Call_ga_hotkey i) c) c c'"
  using assms
proof (cases rule: ga_hotkey_cases)
  case (shell cmd)
  then show ?thesis by (simp add: usb_step_emit)
next
  case upgrade
  then have "careless_call (Call_ga_hotkey i) c \<longleftrightarrow> forgets_full_entry c"
    by (simp add: careless_call_def)
  with io_attach_usb [OF upgrade(3)] show ?thesis by simp
next
  case forced
  then show ?thesis by (rule usb_step_weaken [OF io_force_attach_usb])
next
  case exit
  then show ?thesis by (rule usb_step_weaken [OF io_detach_usb])
qed simp

lemma temporary_entry_usb:
  assumes "temporary_entry w s x y c = Inr (b, c')"
  shows "usb_step True c c'"
proof (cases "(c_ga c = St_Up \<or> c_ga c = St_Pinging) \<and> c_io_state c = Io_Detached")
  case True
  let ?c = "emit [To_ga (Ga_SetMousePosition \<lparr>point_x = x, point_y = y\<rparr>)] c"
  from assms True obtain d where d: "light_attach w ?c = Inr d"
    and c': "c' = d\<lparr>c_io_state := Io_TemporaryLightEntry s\<rparr>"
    by (auto simp: temporary_entry_def res_simps ctl_returns split: if_splits)
  have "c_io_state d \<noteq> Io_FullEntry"
    using light_attach_not_full [OF d] True by simp
  with c' have "usb_step True d c'" by (intro usb_step_quiet [where es = "[]"]) simp_all
  moreover have "usb_step True c ?c" by (rule usb_step_emit) simp
  ultimately show ?thesis using light_attach_usb [OF d] by (blast intro: usb_step_trans)
qed (use assms in \<open>auto simp: temporary_entry_def split: if_splits\<close>)

text \<open>The calls that only send.\<close>

lemma backup_effects:
  "enter_backup_mode w a c = Inr c' \<Longrightarrow> \<exists>es. c_trace c' = c_trace c @ es \<and> list_all usb_quiet es"
  "leave_backup_mode w a c = Inr c' \<Longrightarrow> \<exists>es. c_trace c' = c_trace c @ es \<and> list_all usb_quiet es"
  by (auto simp: enter_backup_mode_def leave_backup_mode_def snapshot_commands_def list_all_iff
      dest!: backup_mode_Inr)

lemma backup_frame:
  assumes "enter_backup_mode w a c = Inr c' \<or> leave_backup_mode w a c = Inr c'"
  shows "c_machine_config c' = c_machine_config c \<and> c_io_state c' = c_io_state c"
  using assms by (auto simp: enter_backup_mode_def leave_backup_mode_def dest!: backup_mode_Inr)

lemma backup_usb:
  assumes "enter_backup_mode w a c = Inr c' \<or> leave_backup_mode w a c = Inr c'"
  shows "usb_step p c c'"
proof -
  obtain es where "c_trace c' = c_trace c @ es" "list_all usb_quiet es"
    using backup_effects [of w a c c'] assms by blast
  then show ?thesis using backup_frame [OF assms] by (intro usb_step_quiet) simp_all
qed

lemma suspend_usb:
  assumes "suspend w c = Inr (f, c')"
  shows "usb_step p c c'"
proof -
  from assms obtain es where "c_trace c' = c_trace c @ es" "list_all usb_quiet es"
      "c_machine_config c' = c_machine_config c" "c_io_state c' = c_io_state c"
    by (auto simp: suspend_def Let_def res_simps ctl_returns split: if_splits)
  then show ?thesis by (intro usb_step_quiet) simp_all
qed

lemma usb_step_request:
  "list_all usb_quiet es \<Longrightarrow> usb_step p c (emit es (c\<lparr>c_win_clipboard_request := r\<rparr>))"
  by (rule usb_step_quiet) simp_all

lemma sending_calls_usb:
  "shutdown w c = Inr c' \<Longrightarrow> usb_step p c c'"
  "grab_x11_clipboard w ts c = Inr c' \<Longrightarrow> usb_step p c c'"
  "read_x11_clipboard w k c = Inr c' \<Longrightarrow> usb_step p c c'"
  "respond_x11_clipboard w bs c = Inr c' \<Longrightarrow> usb_step p c c'"
  "grab_win_clipboard w ts c = Inr c' \<Longrightarrow> usb_step p c c'"
  "read_win_clipboard w ev c = Inr c' \<Longrightarrow> usb_step p c c'"
  "respond_win_clipboard w bs c = Inr c' \<Longrightarrow> usb_step p c c'"
  "mouse_edged w x y c = Inr c' \<Longrightarrow> usb_step p c c'"
  by (auto simp: shutdown_def grab_x11_clipboard_def read_x11_clipboard_def
      respond_x11_clipboard_def grab_win_clipboard_def read_win_clipboard_def
      respond_win_clipboard_def mouse_edged_def res_simps ctl_returns
      intro!: usb_step_emit usb_step_request split: if_splits option.splits IoState.splits)

lemma controller_call_usb:
  assumes "controller_call w e c = Inr c'"
  shows "usb_step (\<not> careless_call e c) c c'"
proof (cases e)
  case Call_io_attach
  with assms io_attach_usb [of w c c'] show ?thesis by (simp add: careless_call_def)
next
  case (Call_ga_hotkey i)
  with assms show ?thesis by (simp add: ga_hotkey_usb)
next
  case Call_ga_suspending
  with assms obtain d where "io_detach w c = Inr d" "c' = d\<lparr>c_ga := St_Suspending\<rparr>"
    by (auto simp: ga_suspending_def res_simps)
  then show ?thesis by (metis usb_step_ga usb_step_trans usb_step_weaken io_detach_usb)
next
  case Call_qemu_suspended
  with assms have "c' = emit (map Suspend_done (c_suspend_senders c))
      (c\<lparr>c_ga := St_Suspended, c_suspend_senders := []\<rparr>)"
    by (simp add: qemu_suspended_def)
  then show ?thesis
    by (intro usb_step_quiet [where es = "map Suspend_done (c_suspend_senders c)"])
      (simp_all add: list_all_iff)
next
  case Call_ga_pong
  with assms show ?thesis by (auto simp: ga_pong_def usb_step_ga)
next
  case Call_try_attach
  with assms show ?thesis
    by (auto simp: try_attach_def intro: usb_step_weaken io_force_attach_usb split: if_splits)
next
  case Call_temporary_exit
  with assms have "usb_step True c c'" by (simp add: temporary_exit_usb)
  then show ?thesis by (rule usb_step_weaken)
next
  case Call_temporary_entry
  with assms have "usb_step True c c'" by (auto simp: drop_result_Inr dest: temporary_entry_usb)
  then show ?thesis by (rule usb_step_weaken)
next
  case Call_ga_ping
  with assms have "usb_step True c c'" by (auto simp: drop_result_Inr dest: ga_ping_usb)
  then show ?thesis by (rule usb_step_weaken)
next
  case Call_ga_hello
  with assms have "usb_step True c c'" by (auto simp: drop_result_Inr dest: ga_hello_usb)
  then show ?thesis by (rule usb_step_weaken)
next
  case Call_light_attach
  with assms have "usb_step True c c'" by (simp add: light_attach_usb)
  then show ?thesis by (rule usb_step_weaken)
next
  case Call_io_force_attach
  with assms have "usb_step True c c'" by (simp add: io_force_attach_usb)
  then show ?thesis by (rule usb_step_weaken)
next
  case Call_io_detach
  with assms have "usb_step True c c'" by (simp add: io_detach_usb)
  then show ?thesis by (rule usb_step_weaken)
qed (use assms in \<open>auto simp: drop_result_Inr dest: sending_calls_usb suspend_usb intro: backup_usb\<close>)

text \<open>Runs without such a call.\<close>

inductive careful :: "MachineConfig \<Rightarrow> HooksConfig \<Rightarrow> Controller \<Rightarrow> bool" for mc hooks where
  careful_new: "careful mc hooks (Controller_new mc hooks)"
| careful_call:
    "careful mc hooks c \<Longrightarrow> controller_call w e c = Inr c' \<Longrightarrow> \<not> careless_call e c \<Longrightarrow>
       careful mc hooks c'"

lemma usb_new: "usb_ok (Controller_new mc hooks) \<and> usb_tidy (Controller_new mc hooks)"
  by (simp add: usb_ok_def usb_tidy_def adds_ok_def Controller_new_def)

lemma reachable_usb: "reachable mc hooks c \<Longrightarrow> usb_ok c"
proof (induction rule: reachable.induct)
  case reachable_new
  show ?case using usb_new by blast
next
  case (reachable_call c w e c')
  then show ?case using controller_call_usb [of w e c c'] by (simp add: usb_step_def)
qed

lemma careful_usb: "careful mc hooks c \<Longrightarrow> usb_ok c \<and> usb_tidy c"
proof (induction rule: careful.induct)
  case careful_new
  show ?case by (rule usb_new)
next
  case (careful_call c w e c')
  then show ?case using controller_call_usb [of w e c c'] by (simp add: usb_step_def)
qed

end
