(* ===== verification/Controller_Progress.thy ===== *)
theory Controller_Progress
  imports Controller_Inv
begin

text \<open>
  No method panics while the other tasks are alive and the host answers: every \<^verbatim>\<open>unwrap\<close> and
  \<^verbatim>\<open>expect\<close> of the controller is covered by \<open>w_healthy\<close> and by the receiver of a temporary entry
  being open.
\<close>

definition w_healthy :: "World \<Rightarrow> bool" where
  "w_healthy w \<longleftrightarrow>
     w_monitor_open w \<and> w_clientpipe_open w \<and> w_x11_open w \<and> udev_healthy (w_udev w) \<and>
     (\<forall>n. w_li_config_ok w n) \<and> (\<forall>cmd. w_spawn_ok w cmd)"

definition temporary_open :: "World \<Rightarrow> Controller \<Rightarrow> bool" where
  "temporary_open w c \<longleftrightarrow> (\<forall>s. c_io_state c = Io_TemporaryLightEntry s \<longrightarrow> w_control_open w s)"

definition returns :: "'e + 'a \<Rightarrow> bool" where
  "returns r \<longleftrightarrow> (\<exists>x. r = Inr x)"

lemma returns_Inr [simp]: "returns (Inr x)"
  by (simp add: returns_def)

lemma returns_and_then: "returns m \<Longrightarrow> (\<And>x. m = Inr x \<Longrightarrow> returns (f x)) \<Longrightarrow> returns (and_then m f)"
  by (auto simp: returns_def)

lemma returns_for_each:
  "(\<And>x s. x \<in> set xs \<Longrightarrow> returns (f x s)) \<Longrightarrow> returns (for_each_res f xs s)"
  using for_each_res_ok [of "\<lambda>_. True" s xs f] by (auto simp: returns_def)

lemma returns_drop_result: "returns r \<Longrightarrow> returns (drop_result r)"
  by (auto simp: returns_def drop_result_def)

lemma open_channels:
  assumes "w_healthy w"
  shows "w_monitor_open w" "w_clientpipe_open w" "w_x11_open w"
  using assms by (simp_all add: w_healthy_def)

lemma returns_send [simp]:
  assumes "w_healthy w"
  shows "returns (write_ga w cmd c)" "returns (send_monitor w qcmd c)" "returns (send_x11 w e c)"
  using open_channels [OF assms] by (simp_all add: write_ga_def send_monitor_def send_x11_def)

lemma returns_prepare_entry: "w_healthy w \<Longrightarrow> returns (prepare_entry w c)"
  unfolding prepare_entry_def by (rule returns_and_then) simp_all

lemma returns_resume_input: "w_healthy w \<Longrightarrow> returns (resume_input w c)"
proof -
  assume "w_healthy w"
  then have "\<exists>r. input_resume w (c_input c) = Inr r"
    by (intro input_resume_healthy) (simp_all add: w_healthy_def)
  then show ?thesis unfolding resume_input_def by (auto simp: returns_def split: prod.splits)
qed

lemma returns_hotplug_device: "w_healthy w \<Longrightarrow> returns (hotplug_device w e c)"
proof -
  assume w: "w_healthy w"
  obtain n i d where e: "e = (n, (i, d))" by (cases e)
  have "\<exists>r. expect_binding (udev_resolve_binding (w_udev w) (dev_binding d)) = Inr r"
    using w by (intro resolve_healthy) (simp add: w_healthy_def)
  then obtain r where "expect_binding (udev_resolve_binding (w_udev w) (dev_binding d)) = Inr r" ..
  with w show ?thesis by (cases r) (simp_all add: e hotplug_device_def split: prod.splits)
qed

lemma returns_light_attach: "w_healthy w \<Longrightarrow> returns (light_attach w c)"
proof -
  assume w: "w_healthy w"
  have "returns (and_then (prepare_entry w c) (\<lambda>c. and_then (resume_input w c)
      (\<lambda>c. Inr (c\<lparr>c_io_state := Io_LightEntry\<rparr>)) :: panic + Controller))"
    by (intro returns_and_then returns_prepare_entry returns_resume_input w) simp_all
  moreover have "returns (and_then (send_monitor w SystemWakeup c)
      (\<lambda>c. Inr (c\<lparr>c_ga := St_Resuming False\<rparr>) :: panic + Controller))"
    by (rule returns_and_then) (simp_all add: w)
  ultimately show ?thesis by (simp add: light_attach_def split: IoState.splits)
qed

lemma returns_full_entry: "w_healthy w \<Longrightarrow> returns (full_entry w c)"
proof -
  assume w: "w_healthy w"
  have loop: "returns (and_then (for_each_res (hotplug_device w) es d)
      (\<lambda>c. Inr (c\<lparr>c_io_state := Io_FullEntry\<rparr>)))" for es d
    by (rule returns_and_then) (simp_all add: returns_for_each returns_hotplug_device w)
  have "udev_context_ok (w_udev w)" using w by (simp add: w_healthy_def udev_healthy_def)
  then show ?thesis
    unfolding full_entry_def by (intro returns_and_then returns_prepare_entry w) (simp add: loop)
qed

lemma returns_io_force_attach:
  assumes "w_healthy w" and "temporary_open w c"
  shows "returns (io_force_attach w c)"
  using assms
  by (cases "c_io_state c")
    (auto simp: io_force_attach_def temporary_open_def send_control_def
      intro: returns_and_then returns_full_entry)

lemma returns_io_detach: "w_healthy w \<Longrightarrow> returns (io_detach w c)"
  unfolding io_detach_def
  by (rule returns_and_then) (auto split: IoState.splits intro: returns_for_each)

lemma returns_io_attach:
  assumes "w_healthy w" and "temporary_open w c"
  shows "returns (io_attach w c)"
  using assms
  by (cases "c_ga c")
    (auto simp: io_attach_def intro: returns_and_then returns_light_attach returns_io_force_attach)

lemma returns_temporary_exit: "w_healthy w \<Longrightarrow> returns (temporary_exit w c)"
  by (auto simp: temporary_exit_def returns_io_detach split: IoState.splits)

lemma returns_temporary_entry: "w_healthy w \<Longrightarrow> returns (temporary_entry w s x y c)"
  unfolding temporary_entry_def by (auto intro!: returns_and_then returns_light_attach)

lemma returns_ga_ping: "w_healthy w \<Longrightarrow> returns (ga_ping w c)"
  by (auto simp: ga_ping_def Let_def returns_io_detach returns_temporary_exit
      intro!: returns_and_then split: IoState.splits)

lemma returns_ga_hotkey:
  assumes "w_healthy w" and "temporary_open w c"
  shows "returns (ga_hotkey w i c)"
proof -
  have "\<forall>cmd. w_spawn_ok w cmd" using assms(1) by (simp add: w_healthy_def)
  then show ?thesis
    using returns_io_attach [OF assms] returns_io_force_attach [OF assms]
      returns_io_detach [OF assms(1), of c]
    by (simp add: ga_hotkey_def Let_def split: HotKeyAction.splits IoState.splits Action.splits)
qed

lemma returns_hello_register: "w_healthy w \<Longrightarrow> returns (hello_register w c)"
proof -
  assume w: "w_healthy w"
  have "returns (register_hotkey w e d)" for e d
    using w by (simp add: register_hotkey_def split: prod.splits)
  with w show ?thesis
    unfolding hello_register_def
    by (intro returns_and_then returns_for_each) (simp_all split: option.splits)
qed

lemma returns_hello_enter:
  assumes w: "w_healthy w" and "temporary_open w d"
  shows "returns (hello_enter w d)"
proof -
  let ?d = "d\<lparr>c_ga := St_Up\<rparr>"
  have t: "temporary_open w ?d" using assms(2) by (simp add: temporary_open_def)
  have "returns (if c_io_state ?d = Io_AwaitingUpgrade then io_attach w ?d else Inr ?d)"
    using returns_io_attach [OF w t] by simp
  moreover have "temporary_open w e"
    if "(if c_io_state ?d = Io_AwaitingUpgrade then io_attach w ?d else Inr ?d) = Inr e" for e
  proof (cases "c_io_state ?d = Io_AwaitingUpgrade")
    case True
    with that have "io_force_attach w ?d = Inr e" by (simp add: io_attach_def)
    from io_force_attach_Inr [OF this] True show ?thesis
      by (simp add: temporary_open_def release_input_def)
  qed (use that t in \<open>auto split: if_splits\<close>)
  moreover have "returns (case c_ga d of
         St_Pinging \<Rightarrow> Inr (False, e)
       | St_Up \<Rightarrow> Inr (False, e)
       | St_Down \<Rightarrow> Inr (True, e)
       | St_Suspended \<Rightarrow> Inr (True, e)
       | St_Resuming full \<Rightarrow>
           and_then (if full then io_force_attach w e else light_attach w e) (\<lambda>c. Inr (True, c))
       | St_Suspending \<Rightarrow> Inr (False, e))" if e: "temporary_open w e" for e
  proof (cases "c_ga d")
    case (St_Resuming full)
    have "returns (if full then io_force_attach w e else light_attach w e)"
      using returns_io_force_attach [OF w e] returns_light_attach [OF w] by simp
    with St_Resuming show ?thesis by (simp add: returns_and_then)
  qed simp_all
  ultimately show ?thesis unfolding hello_enter_def Let_def by (intro returns_and_then) auto
qed

lemma returns_ga_hello:
  assumes w: "w_healthy w" and t: "temporary_open w c"
  shows "returns (ga_hello w c)"
  unfolding ga_hello_def
proof (rule returns_and_then [OF returns_hello_register [OF w]])
  fix d assume "hello_register w c = Inr d"
  from hello_register_Inr [OF this] have "c_io_state d = c_io_state c" by simp
  with t have "temporary_open w d" by (simp add: temporary_open_def)
  with w show "returns (hello_enter w d)" by (rule returns_hello_enter)
qed

lemma returns_backup: "w_healthy w \<Longrightarrow> returns (enter_backup_mode w a c) \<and> returns (leave_backup_mode w a c)"
  by (auto simp: enter_backup_mode_def leave_backup_mode_def queue_snapshot_def Let_def
      intro!: returns_and_then returns_for_each split: prod.splits)

lemma controller_call_returns:
  assumes w: "w_healthy w" and t: "temporary_open w c"
  shows "returns (controller_call w e c)"
proof -
  have "\<forall>s. c_io_state c = Io_TemporaryLightEntry s \<longrightarrow> w_control_open w s"
    using t by (simp add: temporary_open_def)
  then have edged: "returns (mouse_edged w x y c)" for x y
    by (simp add: mouse_edged_def send_control_def split: IoState.splits)
  have susp: "returns (suspend w c)"
    by (auto simp: suspend_def Let_def w intro!: returns_and_then)
  show ?thesis
    by (cases e)
      (simp_all add: w t edged susp returns_drop_result returns_ga_ping returns_ga_hello returns_ga_hotkey
        returns_io_attach returns_io_force_attach returns_temporary_entry returns_temporary_exit
        returns_light_attach returns_io_detach returns_backup ga_suspending_def try_attach_def
        shutdown_def grab_x11_clipboard_def read_x11_clipboard_def respond_x11_clipboard_def
        grab_win_clipboard_def read_win_clipboard_def respond_win_clipboard_def returns_and_then
        split: option.splits)
qed

end
