(* ===== verification/Demo.thy ===== *)
theory Demo
  imports Usb_Hotplug Controller_Progress
begin

text \<open>
  A small concrete host and configuration, on which the properties of the controller are applied:
  one USB device for light and full entries, the default hotkeys, two disks, and an environment
  that always answers.
\<close>

definition demo_device :: UdevDevice where
  "demo_device =
     \<lparr>ud_syspath = ''/sys/bus/usb/devices/1-2'', ud_devnode = Some (Some ''/dev/input/event3''),
      ud_attributes = [(''busnum'', Some ''1''), (''serial'', None), (''devnum'', Some ''5'')]\<rparr>"

definition demo_udev :: Udev where
  "demo_udev =
     \<lparr>udev_context_ok = True, udev_enumerator_ok = True, udev_match_ok = (\<lambda>_. True),
      udev_scan = (\<lambda>_. Some [demo_device])\<rparr>"

definition demo_world :: World where
  "demo_world =
     \<lparr>w_monitor_open = True, w_clientpipe_open = True, w_x11_open = True, w_control_open = (\<lambda>_. True),
      w_udev = demo_udev, w_li_open = (\<lambda>_. True), w_li_flat = (\<lambda>_. True),
      w_li_config_ok = (\<lambda>_. True), w_path_exists = (\<lambda>s. s = ''old.qcow2''),
      w_spawn_ok = (\<lambda>_. True), w_rust_log = None\<rparr>"

definition demo_usb :: UsbDevice where
  "demo_usb =
     \<lparr>dev_binding = ById \<lparr>usbid_vendor = 0x046d, usbid_product = 0xc52b\<rparr>, dev_permanent = False,
      dev_bus = Xhci\<rparr>"

definition demo_disk :: "string option \<Rightarrow> StorageDevice" where
  "demo_disk f = \<lparr>sto_path = ''/dev/sda'', sto_cache = ''none'', sto_format = ''raw'', sto_snapshot_file = f\<rparr>"

definition demo_machine :: MachineConfig where
  "demo_machine =
     \<lparr>mc_cpu = None, mc_memory = ''8G'', mc_hugepages = None, mc_cores = 4, mc_threads = None,
      mc_light_mouse_speed = 0, mc_pci_devices = [], mc_network = None,
      mc_storage = [demo_disk (Some ''new.qcow2''), demo_disk None, demo_disk (Some ''old.qcow2'')],
      mc_usb_devices = [demo_usb], mc_hotkeys = machineconfig_hotkeys_default\<rparr>"

definition demo_controller :: Controller where
  "demo_controller = Controller_new demo_machine HooksConfig_default"

lemma demo_address: "device_address demo_device = Inr (1, 5)"
proof -
  have "ud_attributes demo_device = [] @ (''busnum'', Some (decimal (unat (1 :: u64)))) #
      [(''serial'', None)] @ (''devnum'', Some (decimal (unat (5 :: u64)))) # []"
  proof -
    have "decimal 1 = ''1''" and "decimal 5 = ''5''" by code_simp+
    then show ?thesis by (simp add: demo_device_def)
  qed
  then show ?thesis by (rule device_address_sysfs) simp
qed

lemma demo_udev_healthy: "udev_healthy demo_udev"
  using demo_address by (simp add: udev_healthy_def demo_udev_def) (simp add: demo_device_def)

lemma demo_healthy: "w_healthy demo_world"
  using demo_udev_healthy by (simp add: w_healthy_def demo_world_def)

lemma demo_temporary_open [simp]: "temporary_open demo_world c"
  by (simp add: temporary_open_def demo_world_def)

subsection \<open>Runs\<close>

text \<open>Several calls in one environment.\<close>

fun run_calls :: "World \<Rightarrow> Ctl_call list \<Rightarrow> Controller \<Rightarrow> panic + Controller" where
  "run_calls w [] c = Inr c"
| "run_calls w (e # es) c = and_then (controller_call w e c) (run_calls w es)"

lemma run_calls_reachable:
  "run_calls w es c = Inr c' \<Longrightarrow> reachable mc hooks c \<Longrightarrow> reachable mc hooks c'"
  by (induction es arbitrary: c) (auto simp: res_simps intro: reachable_call)

lemma demo_run_returns: "\<exists>c'. run_calls demo_world es c = Inr c'"
proof (induction es arbitrary: c)
  case (Cons e es)
  have "returns (controller_call demo_world e c)"
    by (rule controller_call_returns) (simp_all add: demo_healthy)
  then obtain d where "controller_call demo_world e c = Inr d" by (auto simp: returns_def)
  with Cons.IH [of d] show ?case by simp
qed simp

lemma demo_run:
  obtains c where "run_calls demo_world es demo_controller = Inr c"
    and "reachable demo_machine HooksConfig_default c"
  using demo_run_returns [of es demo_controller] run_calls_reachable
    reachable_new [of demo_machine HooksConfig_default]
  unfolding demo_controller_def by blast

end
