(* ===== verification/Controller_Properties.thy ===== *)
theory Controller_Properties
  imports Demo
begin

text \<open>
  What the controller guarantees, over every call and every run, with each property applied to the
  demonstration host.
\<close>

lemma io_kind_iff:
  "io_kind io = Detached_kind \<longleftrightarrow> io = Io_Detached"
  "io_kind io = Light_kind \<longleftrightarrow> io = Io_LightEntry"
  "io_kind io = Awaiting_kind \<longleftrightarrow> io = Io_AwaitingUpgrade"
  "io_kind io = Full_kind \<longleftrightarrow> io = Io_FullEntry"
  "io_kind io = Temporary_kind \<longleftrightarrow> (\<exists>s. io = Io_TemporaryLightEntry s)"
  by (cases io; simp)+

subsection \<open>The protocol\<close>

text \<open>
  C1: Refinement: every call of the controller that returns changes the guest agent's state and
  the kind of entry exactly as the protocol machine does, whatever the environment answers.
\<close>

theorem controller_refines_protocol:
  assumes "controller_call w e c = Inr c'"
  shows "protocol_state c' = protocol_step (mc_hotkeys (c_machine_config c)) e (protocol_state c)"
  using assms by (rule protocol_refines)

theorem controller_refines_protocol_witness:
  "\<exists>c. controller_call demo_world Call_io_attach demo_controller = Inr c \<and>
     protocol_state c = (St_Down, Awaiting_kind)"
proof -
  obtain c where c: "controller_call demo_world Call_io_attach demo_controller = Inr c"
    using demo_run_returns [of "[Call_io_attach]" demo_controller] by (auto simp: res_simps)
  from controller_refines_protocol [OF c] c show ?thesis
    by (auto simp: demo_controller_def Controller_new_def protocol_state_def spec_simps)
qed

text \<open>
  C3: Invariant: whatever happens, libinput holds open exactly the devices the controller has
  handles for, so no input device stays grabbed once the controller is detached or in a full entry.
\<close>

theorem input_devices_released:
  assumes "reachable mc hooks c"
  shows "li_open (c_trace c) = mset (in_device_handles (c_input c)) \<and>
    (c_io_state c = Io_Detached \<or> c_io_state c = Io_FullEntry \<longrightarrow> li_open (c_trace c) = {#})"
  using reachable_ok [OF assms] by (auto simp: controller_ok_def input_ok_def)

theorem input_devices_released_witness:
  "\<exists>c. run_calls demo_world [Call_io_attach, Call_ga_hello] demo_controller = Inr c \<and>
     li_open (c_trace c) = {#}"
proof -
  obtain c where c: "run_calls demo_world [Call_io_attach, Call_ga_hello] demo_controller = Inr c"
      "reachable demo_machine HooksConfig_default c"
    by (rule demo_run)
  from c(1) obtain d where
    d: "controller_call demo_world Call_io_attach demo_controller = Inr d"
      "controller_call demo_world Call_ga_hello d = Inr c"
    by (auto simp del: controller_call.simps simp: res_simps)
  from protocol_refines [OF d(1)] have "protocol_state d = (St_Down, Awaiting_kind)"
    by (simp add: demo_controller_def Controller_new_def protocol_state_def spec_simps)
  with protocol_refines [OF d(2)] have "protocol_state c = (St_Up, Full_kind)"
    by (simp add: spec_simps)
  then have "c_io_state c = Io_FullEntry" by (cases "c_io_state c") (simp_all add: protocol_state_def)
  with input_devices_released [OF c(2)] c(1) show ?thesis by blast
qed

text \<open>
  C4: Invariant: the callers of \<^verbatim>\<open>suspend\<close> are told in the order they came, each once; the ones
  not told yet are exactly the stored senders, and there are none while the guest is suspended.
\<close>

theorem suspend_callers_told:
  assumes "reachable mc hooks c"
  shows "suspend_awaited (c_trace c) = suspend_resolved (c_trace c) @ c_suspend_senders c \<and>
    distinct (suspend_awaited (c_trace c)) \<and>
    (c_ga c = St_Suspended \<longrightarrow> suspend_resolved (c_trace c) = suspend_awaited (c_trace c))"
proof -
  have "suspend_ok c" using reachable_ok [OF assms] by (simp add: controller_ok_def)
  then show ?thesis
    by (auto simp: suspend_ok_def strict_sorted_iff simp flip: sorted_wrt_append)
qed

theorem suspend_callers_told_witness:
  "\<exists>c. run_calls demo_world [Call_suspend, Call_suspend, Call_qemu_suspended] demo_controller = Inr c \<and>
     suspend_resolved (c_trace c) = suspend_awaited (c_trace c)"
proof -
  obtain c where c: "run_calls demo_world [Call_suspend, Call_suspend, Call_qemu_suspended]
        demo_controller = Inr c"
      "reachable demo_machine HooksConfig_default c"
    by (rule demo_run)
  then have "c_ga c = St_Suspended" by (auto simp: res_simps qemu_suspended_def)
  with suspend_callers_told [OF c(2)] c(1) show ?thesis by blast
qed



text \<open>
  C19: Safety: a temporary entry never outlives the guest agent, and an agent that answers neither
  of two pings in a row is declared dead, its full or temporary entry detached.
\<close>

theorem dead_agent_detached:
  assumes "c_ga c = St_Up" and "ga_ping w c = Inr (a, d)" and "ga_ping w d = Inr (b, e)"
  shows "a \<and> \<not> b \<and> c_ga e = St_Down \<and> c_io_state e \<noteq> Io_FullEntry \<and>
    (\<forall>s. c_io_state e \<noteq> Io_TemporaryLightEntry s)"
proof -
  from assms(1,2) have a: a and d: "c_ga d = St_Pinging"
    by (auto simp: ga_ping_def res_simps ctl_returns)
  from assms(3) d have "\<not> b" by (auto simp: ga_ping_def Let_def res_simps)
  moreover have "protocol_state e = spec_ping (protocol_state d)" by (rule ga_ping_state [OF assms(3)])
  with d have "c_ga e = St_Down \<and> io_kind (c_io_state e) \<noteq> Full_kind \<and>
      io_kind (c_io_state e) \<noteq> Temporary_kind"
    by (auto simp: protocol_state_def spec_simps split: if_splits)
  ultimately show ?thesis using a by auto
qed

theorem dead_agent_detached_witness:
  "\<exists>a d b e. ga_ping demo_world (demo_controller\<lparr>c_ga := St_Up, c_io_state := Io_FullEntry\<rparr>) = Inr (a, d) \<and>
     ga_ping demo_world d = Inr (b, e) \<and> c_io_state e \<noteq> Io_FullEntry"
proof -
  let ?c = "demo_controller\<lparr>c_ga := St_Up, c_io_state := Io_FullEntry\<rparr>"
  obtain a d where d: "ga_ping demo_world ?c = Inr (a, d)"
    using returns_ga_ping [OF demo_healthy, of ?c] by (auto simp: returns_def)
  obtain b e where e: "ga_ping demo_world d = Inr (b, e)"
    using returns_ga_ping [OF demo_healthy, of d] by (auto simp: returns_def)
  from dead_agent_detached [OF _ d e] d e show ?thesis by auto
qed

subsection \<open>Suspend and resume\<close>

text \<open>
  C22: Functional: attaching to a suspended guest wakes it up and enters nothing; when its agent
  reports in, a full entry follows, or a light one when a light one was asked for.
\<close>

theorem attach_wakes_then_enters:
  assumes "c_ga c = St_Suspended"
    and "(if full then io_attach w c else light_attach w c) = Inr d"
    and "ga_hello w' d = Inr (b, e)"
  shows "c_trace d = c_trace c @ [To_monitor SystemWakeup] \<and> c_io_state d = c_io_state c \<and> b \<and>
    c_ga e = St_Up \<and>
    (full \<longrightarrow> c_io_state e = Io_FullEntry) \<and>
    (\<not> full \<and> c_io_state c = Io_Detached \<longrightarrow> c_io_state e = Io_LightEntry)"
proof -
  have d: "d = emit [To_monitor SystemWakeup] (c\<lparr>c_ga := St_Resuming full\<rparr>)"
    using assms(1,2) by (auto simp: io_attach_def light_attach_def res_simps ctl_returns split: if_splits)
  from ga_hello_Inr [OF assms(3)] d have b by auto
  have "protocol_state e = spec_hello (protocol_state d)" by (rule ga_hello_state [OF assms(3)])
  then have "c_ga e = St_Up" "full \<Longrightarrow> c_io_state e = Io_FullEntry"
    "\<not> full \<Longrightarrow> c_io_state c = Io_Detached \<Longrightarrow> c_io_state e = Io_LightEntry"
    by (cases full; auto simp: d protocol_state_def spec_simps Let_def io_kind_iff split: if_splits)+
  with \<open>b\<close> d show ?thesis by auto
qed

theorem attach_wakes_then_enters_witness:
  "\<exists>d b e. io_attach demo_world (demo_controller\<lparr>c_ga := St_Suspended\<rparr>) = Inr d \<and>
     ga_hello demo_world d = Inr (b, e) \<and> b \<and> c_io_state e = Io_FullEntry"
proof -
  let ?c = "demo_controller\<lparr>c_ga := St_Suspended\<rparr>"
  obtain d where d: "io_attach demo_world ?c = Inr d"
    using returns_io_attach [OF demo_healthy demo_temporary_open, of ?c] by (auto simp: returns_def)
  obtain b e where e: "ga_hello demo_world d = Inr (b, e)"
    using returns_ga_hello [OF demo_healthy demo_temporary_open, of d] by (auto simp: returns_def)
  from attach_wakes_then_enters [of ?c True demo_world d demo_world b e] d e show ?thesis by auto
qed

subsection \<open>USB devices\<close>

text \<open>
  C2: Invariant: in every run that never asks for an upgrade of a full entry while the agent is
  down, nothing is plugged in outside a full entry, and only devices of the configuration that are
  not permanent ever are.
\<close>

theorem usb_unplugged_after_entry:
  assumes "careful mc hooks c"
  shows "usb_plugged (c_trace c) \<subseteq> set (hotplug_ids (mc_usb_devices (c_machine_config c))) \<and>
    (c_io_state c \<noteq> Io_FullEntry \<longrightarrow> usb_plugged (c_trace c) = {})"
  using careful_usb [OF assms] by (auto simp: usb_ok_def usb_tidy_def)

theorem usb_unplugged_after_entry_witness:
  "\<exists>c. run_calls demo_world [Call_io_force_attach, Call_io_detach] demo_controller = Inr c \<and>
     usb_plugged (c_trace c) = {}"
proof -
  obtain c where c: "run_calls demo_world [Call_io_force_attach, Call_io_detach] demo_controller = Inr c"
    by (rule demo_run)
  then obtain d where
    d: "controller_call demo_world Call_io_force_attach demo_controller = Inr d"
      "controller_call demo_world Call_io_detach d = Inr c"
    by (auto simp del: controller_call.simps simp: res_simps)
  have "careful demo_machine HooksConfig_default d"
    using d(1) unfolding demo_controller_def
    by (rule careful_call [OF careful_new]) (simp add: careless_call_def)
  then have "careful demo_machine HooksConfig_default c"
    using d(2) by (rule careful_call) (simp add: careless_call_def)
  moreover have "c_io_state c \<noteq> Io_FullEntry"
    using io_detach_state [of demo_world d c] d(2) by (auto simp: protocol_state_def)
  ultimately show ?thesis using usb_unplugged_after_entry c by blast
qed

text \<open>
  C39: The run that C7 excludes: an upgrade asked for in a full entry while the agent is down makes
  the controller forget the entry, and the next detach leaves every device plugged in.
\<close>

theorem forgotten_entry_leaks_usb:
  assumes "c_ga c = St_Down" and "c_io_state c = Io_FullEntry"
    and "io_attach w c = Inr d" and "io_detach w' d = Inr e"
  shows "c_io_state e = Io_Detached \<and> usb_plugged (c_trace e) = usb_plugged (c_trace c)"
proof -
  have d: "d = c\<lparr>c_io_state := Io_AwaitingUpgrade\<rparr>"
    using assms(1-3) by (simp add: io_attach_def light_attach_def)
  with io_detach_plugged [OF assms(4)] io_detach_state [OF assms(4)] show ?thesis
    by (cases "c_io_state e") (simp_all add: protocol_state_def)
qed

theorem forgotten_entry_leaks_usb_witness:
  "\<exists>c d e. reachable demo_machine HooksConfig_default c \<and>
     io_attach demo_world c = Inr d \<and> io_detach demo_world d = Inr e \<and>
     c_io_state e = Io_Detached \<and> usb_plugged (c_trace e) = {usb_device_id 0}"
proof -
  obtain c where c: "run_calls demo_world [Call_io_force_attach] demo_controller = Inr c"
      "reachable demo_machine HooksConfig_default c"
    by (rule demo_run)
  then have f: "io_force_attach demo_world demo_controller = Inr c" by (simp add: res_simps)
  have new: "c_io_state demo_controller = Io_Detached" "c_trace demo_controller = []"
    "mc_usb_devices (c_machine_config demo_controller) = [demo_usb]" "c_ga demo_controller = St_Down"
    by (simp_all add: demo_controller_def Controller_new_def demo_machine_def)
  from io_force_attach_state [OF f] new have ga: "c_ga c = St_Down" "c_io_state c = Io_FullEntry"
    by (simp_all add: protocol_state_def io_kind_iff)
  have r: "expect_binding (udev_resolve_binding demo_udev b) = Inr (Some (1, 5))" for b
    by (simp add: udev_resolve_binding_def expect_binding_def demo_address)
      (simp add: demo_udev_def list_all_iff demo_address)
  have "present_ids (w_udev demo_world) [demo_usb] = {usb_device_id 0}"
    using r by (auto simp: present_ids_def demo_world_def demo_usb_def)
  with io_force_attach_plugged [OF f] new have p: "usb_plugged (c_trace c) = {usb_device_id 0}" by simp
  obtain d where d: "io_attach demo_world c = Inr d"
    using returns_io_attach [OF demo_healthy demo_temporary_open] by (auto simp: returns_def)
  obtain e where e: "io_detach demo_world d = Inr e"
    using returns_io_detach [OF demo_healthy] by (auto simp: returns_def)
  from forgotten_entry_leaks_usb [OF ga d e] p c(2) d e show ?thesis by auto
qed

text \<open>
  C24: Bounds: every \<open>DeviceAdd\<close> of every run names a host controller that the command line of QEMU
  created and a port that controller has.
\<close>

theorem usb_location_exists:
  assumes "reachable mc hooks c"
    and "To_monitor (DeviceAdd drv i bus port hostbus hostaddr) \<in> set (c_trace c)"
  shows "\<exists>b k. k < usb_bus_num (mc_usb_devices mc) b \<and> bus = usb_bus_id b k @ ''.0'' \<and>
    1 \<le> port \<and> port \<le> usable_ports b"
proof -
  have mc: "c_machine_config c = mc"
    using reachable_ok [OF assms(1)] by (simp add: controller_ok_def config_ok_def)
  let ?devs = "mc_usb_devices mc"
  have "add_id (DeviceAdd drv i bus port hostbus hostaddr) \<noteq> None" by (simp add: add_id_def)
  then obtain u where "DeviceAdd drv i bus port hostbus hostaddr \<in> set (hotplug_adds u ?devs)"
    using reachable_usb [OF assms(1)] assms(2) mc unfolding usb_ok_def adds_ok_def by metis
  then obtain j a where j: "j < length ?devs"
      "DeviceAdd drv i bus port hostbus hostaddr = device_add_command ?devs j a"
    unfolding hotplug_adds_iff by blast
  define b where "b = dev_bus (?devs ! j)"
  define n where "n = length (filter (\<lambda>e. dev_bus e = b) (take j ?devs))"
  from j(2) have bus: "bus = port_bus_name b n" and port: "port = port_number b n"
    by (simp_all add: device_add_command_def b_def n_def Let_def)
  have "(n, (j, ?devs ! j)) \<in> set (numbered_devices ?devs)"
    using j(1) by (simp add: set_numbered_devices n_def b_def)
  from numbered_devices_bound [OF this] have "n < usb_bus_count ?devs b"
    by (simp add: usb_bus_count_def b_def)
  then have "n div usable_ports b < usb_bus_num ?devs b" by (rule usb_bus_num_enough)
  moreover have "bus = usb_bus_id b (n div usable_ports b) @ ''.0''"
    by (simp add: bus port_bus_name_def usb_bus_id_def)
  ultimately show ?thesis using port port_number_range by blast
qed

theorem usb_location_exists_witness:
  "\<exists>c drv i bus port hb ha. run_calls demo_world [Call_io_force_attach] demo_controller = Inr c \<and>
     To_monitor (DeviceAdd drv i bus port hb ha) \<in> set (c_trace c) \<and> 1 \<le> port \<and> port \<le> 15"
proof -
  obtain c where c: "run_calls demo_world [Call_io_force_attach] demo_controller = Inr c"
      "reachable demo_machine HooksConfig_default c"
    by (rule demo_run)
  have r: "expect_binding (udev_resolve_binding demo_udev b) = Inr (Some (1, 5))" for b
    by (simp add: udev_resolve_binding_def expect_binding_def demo_address)
      (simp add: demo_udev_def list_all_iff demo_address)
  have "device_add_command [demo_usb] 0 (1, 5) \<in> set (hotplug_adds demo_udev [demo_usb])"
    unfolding hotplug_adds_iff using r by (auto simp: demo_usb_def)
  moreover have "c_trace c = entry_effects demo_world demo_controller @
      map To_monitor (hotplug_adds demo_udev [demo_usb])"
    using io_force_attach_Inr [of demo_world demo_controller c] c(1)
    by (simp add: res_simps demo_controller_def Controller_new_def demo_machine_def demo_world_def)
  ultimately have m: "To_monitor (device_add_command [demo_usb] 0 (1, 5)) \<in> set (c_trace c)" by simp
  then obtain drv i bus port hb ha where
    "To_monitor (DeviceAdd drv i bus port hb ha) \<in> set (c_trace c)"
    by (auto simp: device_add_command_def Let_def)
  moreover from usb_location_exists [OF c(2) this] obtain b where "1 \<le> port" "port \<le> usable_ports b"
    by blast
  moreover have "usable_ports b \<le> 15" by (cases b) simp_all
  ultimately show ?thesis using c(1) by (meson le_trans)
qed



subsection \<open>Backups\<close>

text \<open>
  Functional: entering backup mode asks for a snapshot of exactly the disks that have a
  snapshot file configured and not there yet, each with an answer channel of its own, and the task
  it starts acknowledges exactly when all of them have been answered.
\<close>

lemma enter_backup_snapshots:
  assumes "enter_backup_mode w ack c = Inr c'"
  shows "\<exists>cmds acks. c_trace c' = c_trace c @ map To_monitor cmds @ [Wait_for_acks acks ack] \<and>
    distinct acks \<and>
    (\<forall>i f. (\<exists>t. TakeSnapshot i f t \<in> set cmds) \<longleftrightarrow>
       i < length (mc_storage (c_machine_config c)) \<and>
       sto_snapshot_file (mc_storage (c_machine_config c) ! i) = Some f \<and> \<not> w_path_exists w f) \<and>
    (\<forall>t. t \<in> set acks \<longleftrightarrow> (\<exists>i f. TakeSnapshot i f t \<in> set cmds)) \<and>
    (\<forall>answer. await_acks answer acks = Some True \<longleftrightarrow> (\<forall>t\<in>set acks. answer t = Some True))"
proof -
  let ?disks = "mc_storage (c_machine_config c)" and ?n = "c_next c"
  define ds where "ds = snapshot_disks (\<lambda>s. \<not> w_path_exists w s) ?disks"
  have c': "c' = emit (map To_monitor (snapshot_commands TakeSnapshot ds ?n) @
      [Wait_for_acks [?n..<?n + length ds] ack]) (c\<lparr>c_next := ?n + length ds\<rparr>)"
    using assms unfolding enter_backup_mode_def ds_def by (rule backup_mode_Inr)
  have ds: "(i, f) \<in> set ds \<longleftrightarrow> i < length ?disks \<and> sto_snapshot_file (?disks ! i) = Some f \<and>
      \<not> w_path_exists w f" for i f
    by (simp add: ds_def set_snapshot_disks)
  have cmds: "TakeSnapshot i f t \<in> set (snapshot_commands TakeSnapshot ds ?n) \<longleftrightarrow>
      (\<exists>k<length ds. ds ! k = (i, f) \<and> t = ?n + k)" for i f t
    by (auto simp: set_snapshot_commands)
  have sent: "(\<exists>t. TakeSnapshot i f t \<in> set (snapshot_commands TakeSnapshot ds ?n)) \<longleftrightarrow> (i, f) \<in> set ds" for i f
    unfolding cmds by (auto simp: in_set_conv_nth)
  have acks: "t \<in> set [?n..<?n + length ds] \<longleftrightarrow>
      (\<exists>i f. TakeSnapshot i f t \<in> set (snapshot_commands TakeSnapshot ds ?n))" for t
    unfolding cmds by (auto simp: le_iff_add)
  from sent acks ds await_acks_iff show ?thesis
    by (intro exI [of _ "snapshot_commands TakeSnapshot ds ?n"] exI [of _ "[?n..<?n + length ds]"])
      (simp add: c')
qed

lemma enter_backup_snapshots_witness:
  "\<exists>c'. enter_backup_mode demo_world 7 demo_controller = Inr c' \<and>
     (\<exists>t. To_monitor (TakeSnapshot 0 ''new.qcow2'' t) \<in> set (c_trace c'))"
proof -
  obtain c' where c': "enter_backup_mode demo_world 7 demo_controller = Inr c'"
    using returns_backup [OF demo_healthy, of 7 demo_controller] by (auto simp: returns_def)
  from enter_backup_snapshots [OF c'] obtain cmds acks where
    tr: "c_trace c' = c_trace demo_controller @ map To_monitor cmds @ [Wait_for_acks acks 7]" and
    cmds: "\<forall>i f. (\<exists>t. TakeSnapshot i f t \<in> set cmds) \<longleftrightarrow>
       i < length (mc_storage (c_machine_config demo_controller)) \<and>
       sto_snapshot_file (mc_storage (c_machine_config demo_controller) ! i) = Some f \<and>
       \<not> w_path_exists demo_world f"
    by (elim exE conjE)
  from cmds have "\<exists>t. TakeSnapshot 0 ''new.qcow2'' t \<in> set cmds"
    by (simp add: demo_controller_def Controller_new_def demo_machine_def demo_disk_def demo_world_def)
  then have "\<exists>t. To_monitor (TakeSnapshot 0 ''new.qcow2'' t) \<in> set (c_trace c')"
    unfolding tr by auto
  with c' show ?thesis by blast
qed

end
