(* ===== verification/Ga_Codec.thy ===== *)
theory Ga_Codec
  imports Stream_Decoder Ga_Protocol
begin

text \<open>
  The framing of the guest agent's connection: \<^verbatim>\<open>driver/src/clientpipe/codec.rs\<close> and its twin
  \<^verbatim>\<open>guest-agent/src/clientpipe_codec.rs\<close>. A frame is a varint length and an encoded message. The
  protobuf library is a parameter; the lemmas show that the frames of a peer are read back
  whatever the chunks, that no byte sequence makes the decoder split past the end of the buffer,
  and what happens on a frame whose message cannot be read.
\<close>

subsection \<open>The protobuf library\<close>

text \<open>
  What the codecs call of prost, for the message type \<open>'m\<close> of a \<^verbatim>\<open>oneof\<close>: reading a varint off
  the front of a buffer (\<open>None\<close> is \<^verbatim>\<open>DecodeError\<close>), the length of a varint as prost writes it,
  decoding a message (\<open>Some None\<close> when the \<^verbatim>\<open>oneof\<close> is empty or of an unknown field), and the
  encoding with its length in front (the left result is \<^verbatim>\<open>EncodeError\<close>, for want of room).
\<close>

record 'm Prost =
  pb_decode_varint :: "u8 list \<Rightarrow> (u64 \<times> u8 list) option"
  pb_encoded_len_varint :: "u64 \<Rightarrow> usize"
  pb_decode :: "u8 list \<Rightarrow> 'm option option"
  pb_encode_length_delimited :: "'m \<Rightarrow> unit + u8 list"

subsection \<open>The codecs\<close>

text \<open>
  The inner block of \<^verbatim>\<open>decode\<close>: the bytes consumed and the message (\<open>None\<close> for both
  \<^verbatim>\<open>Ok(None)\<close> and \<^verbatim>\<open>Err\<close>, which \<^verbatim>\<open>or_else\<close> turns into \<^verbatim>\<open>Ok(None)\<close> after logging).
\<close>

definition ga_frame :: "'m Prost \<Rightarrow> u8 list \<Rightarrow> usize \<times> 'm option" where
  "ga_frame pb buf =
     (case pb_decode_varint pb buf of
        None \<Rightarrow> (0, None)
      | Some (len, rbuf) \<Rightarrow>
          if unat len \<le> length rbuf then
            (unat len + pb_encoded_len_varint pb len,
             case pb_decode pb (take (unat len) rbuf) of None \<Rightarrow> None | Some message \<Rightarrow> message)
          else (0, None))"

text \<open>\<^verbatim>\<open>split_to\<close> panics past the end of the buffer; lemma \<open>ga_frame_in_range\<close> excludes it.\<close>

definition ga_decode :: "'m Prost \<Rightarrow> u8 list \<Rightarrow> 'm option \<times> u8 list" where
  "ga_decode pb buf = (let (consumed, res) = ga_frame pb buf in (res, drop consumed buf))"

definition ga_encode :: "'m Prost \<Rightarrow> 'm \<Rightarrow> u8 list \<Rightarrow> unit + u8 list" where
  "ga_encode pb cmd buf = and_then (pb_encode_length_delimited pb cmd) (\<lambda>tmp. Inr (buf @ tmp))"

text \<open>The guest agent's copy, with the message types the other way round.\<close>

definition guest_frame :: "'m Prost \<Rightarrow> u8 list \<Rightarrow> usize \<times> 'm option" where
  "guest_frame pb buf =
     (case pb_decode_varint pb buf of
        None \<Rightarrow> (0, None)
      | Some (len, rbuf) \<Rightarrow>
          if unat len \<le> length rbuf then
            (unat len + pb_encoded_len_varint pb len,
             case pb_decode pb (take (unat len) rbuf) of None \<Rightarrow> None | Some message \<Rightarrow> message)
          else (0, None))"

definition guest_decode :: "'m Prost \<Rightarrow> u8 list \<Rightarrow> 'm option \<times> u8 list" where
  "guest_decode pb buf = (let (consumed, res) = guest_frame pb buf in (res, drop consumed buf))"

definition guest_encode :: "'m Prost \<Rightarrow> 'm \<Rightarrow> u8 list \<Rightarrow> unit + u8 list" where
  "guest_encode pb cmd buf = and_then (pb_encode_length_delimited pb cmd) (\<lambda>bytes. Inr (buf @ bytes))"

lemma guest_is_ga: "guest_decode = ga_decode" "guest_encode = ga_encode"
  by (simp_all add: fun_eq_iff guest_decode_def guest_frame_def ga_decode_def ga_frame_def
      guest_encode_def ga_encode_def)

subsection \<open>Frames\<close>

text \<open>
  \<open>delimits pb head body\<close>: \<open>head\<close> is the varint prost writes for the length of \<open>body\<close>: it reads
  back, it has the length prost computes, and no proper prefix of it is a varint.
\<close>

definition delimits :: "'m Prost \<Rightarrow> u8 list \<Rightarrow> u8 list \<Rightarrow> bool" where
  "delimits pb head body \<longleftrightarrow>
     head \<noteq> [] \<and> length body < 2 ^ 64 \<and>
     pb_encoded_len_varint pb (of_nat (length body)) = length head \<and>
     (\<forall>rest. pb_decode_varint pb (head @ rest) = Some (of_nat (length body), rest)) \<and>
     (\<forall>p. strict_prefix p head \<longrightarrow> pb_decode_varint pb p = None)"

text \<open>A message whose encoding is such a frame and whose body reads back.\<close>

definition ga_readable :: "'m Prost \<Rightarrow> 'm \<Rightarrow> bool" where
  "ga_readable pb m \<longleftrightarrow>
     (\<exists>head body. pb_encode_length_delimited pb m = Inr (head @ body) \<and> delimits pb head body \<and>
        pb_decode pb body = Some (Some m))"

definition ga_bytes :: "'m Prost \<Rightarrow> 'm \<Rightarrow> u8 list" where
  "ga_bytes pb m = (case ga_encode pb m [] of Inl _ \<Rightarrow> [] | Inr bytes \<Rightarrow> bytes)"

lemma ga_decode_frame:
  assumes "delimits pb head body"
  shows "ga_decode pb (head @ body @ rest) =
    (case pb_decode pb body of None \<Rightarrow> None | Some message \<Rightarrow> message, rest)"
  using assms by (simp add: ga_decode_def ga_frame_def delimits_def unat_of_nat_small)

lemma ga_decode_partial:
  assumes "delimits pb head body" and "strict_prefix p (head @ body)"
  shows "ga_decode pb p = (None, p)"
proof (cases "length head \<le> length p")
  case True
  from prefix_length_less [OF assms(2)] have "length p < length head + length body" by simp
  moreover have "prefix head p"
    using assms(2) True by (intro prefix_length_prefix [of head "head @ body" p]) (auto simp: strict_prefix_def)
  then obtain q where "p = head @ q" by (auto simp: prefix_def)
  ultimately have q: "p = head @ q" "length q < length body" by simp_all
  with assms(1) show ?thesis
    by (simp add: ga_decode_def ga_frame_def delimits_def unat_of_nat_small)
next
  case False
  with assms(2) have "strict_prefix p head"
    by (auto simp: strict_prefix_def prefix_append)
  with assms(1) show ?thesis by (simp add: ga_decode_def ga_frame_def delimits_def)
qed

lemma ga_bytes_readable:
  assumes "ga_readable pb m"
  obtains head body where "ga_bytes pb m = head @ body" "delimits pb head body"
    "pb_decode pb body = Some (Some m)"
  using assms by (auto simp: ga_readable_def ga_bytes_def ga_encode_def)

lemma ga_framing:
  assumes "pb_decode_varint pb [] = None"
  shows "framing (ga_bytes pb) (ga_decode pb) (ga_readable pb)"
proof
  fix m rest p
  assume "ga_readable pb m"
  then obtain head body where b: "ga_bytes pb m = head @ body" "delimits pb head body"
      "pb_decode pb body = Some (Some m)" by (rule ga_bytes_readable)
  then show "ga_decode pb (ga_bytes pb m @ rest) = (Some m, rest)"
    using ga_decode_frame [OF b(2), of rest] by simp
  from b show "ga_bytes pb m \<noteq> []" by (simp add: delimits_def)
  show "ga_decode pb p = (None, p)" if "strict_prefix p (ga_bytes pb m)"
    using ga_decode_partial [OF b(2)] that b(1) by simp
next
  show "ga_decode pb [] = (None, [])" using assms by (simp add: ga_decode_def ga_frame_def)
qed

subsection \<open>Properties\<close>

text \<open>
  A concrete instance for the examples: messages of less than 128 bytes, whose length is one byte;
  the tags are those of \<^verbatim>\<open>protocol.proto\<close>.
\<close>

definition small_body :: "GaCmdIn \<Rightarrow> u8 list" where
  "small_body m = (case m of Ga_ReportBoot \<Rightarrow> [18, 0] | Ga_Suspending \<Rightarrow> [130, 1, 0] | _ \<Rightarrow> [10, 0])"

fun small_varint :: "u8 list \<Rightarrow> (u64 \<times> u8 list) option" where
  "small_varint [] = None"
| "small_varint (b # bs) =
     (if b < 128 then Some (ucast b, bs)
      else case small_varint bs of
        None \<Rightarrow> None
      | Some (n, r) \<Rightarrow> Some (ucast (b AND 127) + push_bit 7 n, r))"

definition small_prost :: "GaCmdIn Prost" where
  "small_prost =
     \<lparr>pb_decode_varint = small_varint,
      pb_encoded_len_varint = (\<lambda>n. if n < 128 then 1 else 2),
      pb_decode = (\<lambda>body. if body = [10, 0] then Some (Some Ga_Pong)
                    else if body = [18, 0] then Some (Some Ga_ReportBoot)
                    else if body = [130, 1, 0] then Some (Some Ga_Suspending) else None),
      pb_encode_length_delimited = (\<lambda>m. Inr (of_nat (length (small_body m)) # small_body m))\<rparr>"

lemma small_delimits:
  assumes "body \<in> {[10, 0], [18, 0], [130, 1, 0], [7, 0]}"
  shows "delimits small_prost [of_nat (length body)] body"
  using assms by (auto simp: delimits_def small_prost_def strict_prefix_def prefix_def Cons_eq_append_conv)

lemma small_readable:
  assumes "m \<in> {Ga_Pong, Ga_ReportBoot, Ga_Suspending}"
  shows "ga_readable small_prost m"
  unfolding ga_readable_def
proof (intro exI conjI)
  show "delimits small_prost [of_nat (length (small_body m))] (small_body m)"
    using assms by (intro small_delimits) (auto simp: small_body_def)
qed (use assms in \<open>auto simp: small_prost_def small_body_def\<close>)

lemma small_bytes: "ga_bytes small_prost m = of_nat (length (small_body m)) # small_body m"
  by (simp add: ga_bytes_def ga_encode_def small_prost_def)

lemma guest_encode_all:
  assumes "for_each_res (guest_encode pb) ms buf = Inr bytes"
  shows "bytes = buf @ concat (map (ga_bytes pb) ms)"
  using assms
proof (induction ms arbitrary: buf)
  case (Cons m ms)
  then obtain u where u: "guest_encode pb m buf = Inr u" "for_each_res (guest_encode pb) ms u = Inr bytes"
    by (auto simp: res_simps)
  from u(1) obtain b where "pb_encode_length_delimited pb m = Inr b" "u = buf @ b"
    by (auto simp: guest_encode_def res_simps)
  with u(2) have b: "pb_encode_length_delimited pb m = Inr b"
      "for_each_res (guest_encode pb) ms (buf @ b) = Inr bytes" by simp_all
  from Cons.IH [OF b(2)] b(1) show ?case by (simp add: ga_bytes_def ga_encode_def)
qed simp

lemma ga_stream:
  assumes "\<forall>m\<in>set ms. ga_readable pb m" and "pb_decode_varint pb [] = None"
    and "for_each_res (guest_encode pb) ms [] = Inr bytes" and "concat chunks = bytes"
  shows "feed_all (ga_decode pb) [] chunks = (ms, [])"
  using guest_encode_all [OF assms(3)] assms(4)
  by (intro framing.feed_items [OF ga_framing [OF assms(2)] assms(1)]) simp

text \<open>
  C29: Round trip: however the bytes the guest agent's encoder wrote are cut into chunks, the
  driver's decoder gives exactly the messages, in order, and no byte is left over.
\<close>

theorem ga_stream_roundtrip:
  assumes "\<forall>m\<in>set ms. ga_readable pb m" and "pb_decode_varint pb [] = None"
    and "for_each_res (guest_encode pb) ms [] = Inr bytes" and "concat chunks = bytes"
  shows "feed_all (ga_decode pb) [] chunks = (ms, [])"
  using assms by (rule ga_stream)

theorem ga_stream_roundtrip_witness:
  "feed_all (ga_decode small_prost) [] [[2, 18], [0, 2], [10, 0, 3, 130], [1, 0]] =
     ([Ga_ReportBoot, Ga_Pong, Ga_Suspending], [])"
  by (rule ga_stream_roundtrip [where bytes = "[2, 18, 0, 2, 10, 0, 3, 130, 1, 0]"])
    (auto intro: small_readable, simp_all add: small_prost_def guest_encode_def small_body_def)

text \<open>
  A frame whose message cannot be read is skipped, but the decoder answers that it needs more
  bytes: complete messages behind it in the same chunk are delivered only with the next chunk.
\<close>

lemma ga_bad_frame_stalls:
  assumes "delimits pb head body" and "pb_decode pb body \<in> {None, Some None}"
    and "\<forall>m\<in>set (ms @ ns). ga_readable pb m" and "pb_decode_varint pb [] = None"
    and "ms_bytes = concat (map (ga_bytes pb) ms)" and "ns_bytes = concat (map (ga_bytes pb) ns)"
  shows "feed_all (ga_decode pb) [] [head @ body @ ms_bytes] = ([], ms_bytes) \<and>
    feed_all (ga_decode pb) [] [head @ body @ ms_bytes, ns_bytes] = (ms @ ns, [])"
proof -
  have "ga_decode pb (head @ body @ ms_bytes) = (None, ms_bytes)"
    using assms(2) ga_decode_frame [OF assms(1), of ms_bytes] by auto
  then have first: "decode_all (ga_decode pb) (head @ body @ ms_bytes) = ([], ms_bytes)"
    by (simp add: decode_all_def)
  have "feed_all (ga_decode pb) [] [ms_bytes @ ns_bytes] = (ms @ ns, [])"
    using assms(5,6) by (intro framing.feed_items [OF ga_framing [OF assms(4)] assms(3)]) simp
  with first show ?thesis by (simp add: split_def Let_def)
qed

lemma ga_bad_frame_stalls_witness:
  "feed_all (ga_decode small_prost) [] [[2, 7, 0, 2, 10, 0]] = ([], [2, 10, 0]) \<and>
   feed_all (ga_decode small_prost) [] [[2, 7, 0, 2, 10, 0], [2, 18, 0]] = ([Ga_Pong, Ga_ReportBoot], [])"
proof -
  have "pb_decode small_prost [7, 0] \<in> {None, Some None}" by (simp add: small_prost_def)
  moreover have "\<forall>m\<in>set ([Ga_Pong] @ [Ga_ReportBoot]). ga_readable small_prost m"
    by (simp add: small_readable)
  moreover have "pb_decode_varint small_prost [] = None" by (simp add: small_prost_def)
  moreover have "[2, 10, 0] = concat (map (ga_bytes small_prost) [Ga_Pong])"
    "[2, 18, 0] = concat (map (ga_bytes small_prost) [Ga_ReportBoot])"
    by (simp_all add: small_bytes small_body_def)
  moreover have "delimits small_prost [2] [7, 0]" using small_delimits [of "[7, 0]"] by simp
  ultimately show ?thesis
    using ga_bad_frame_stalls [of small_prost "[2]" "[7, 0]"] by (metis append.simps)
qed

text \<open>
  Bounds: no byte sequence makes \<^verbatim>\<open>split_to\<close> panic, and the decoder only takes bytes off the
  front, as long as a varint in the buffer is not shorter than prost would write it.
\<close>

lemma ga_frame_in_range:
  assumes "\<forall>len rbuf. pb_decode_varint pb buf = Some (len, rbuf) \<longrightarrow>
      length rbuf + pb_encoded_len_varint pb len \<le> length buf"
  shows "fst (ga_frame pb buf) \<le> length buf \<and> (\<exists>p. buf = p @ snd (ga_decode pb buf))"
proof -
  have "fst (ga_frame pb buf) \<le> length buf"
    using assms by (fastforce simp: ga_frame_def split: option.splits)
  moreover have "buf = take (fst (ga_frame pb buf)) buf @ snd (ga_decode pb buf)"
    by (simp add: ga_decode_def split_def Let_def)
  ultimately show ?thesis by blast
qed

lemma ga_frame_in_range_witness:
  "fst (ga_frame small_prost [130, 0, 10, 0, 2]) \<le> 5 \<and>
   (\<exists>p. [130, 0, 10, 0, 2] = p @ snd (ga_decode small_prost [130, 0, 10, 0, 2]))"
  using ga_frame_in_range [of small_prost "[130, 0, 10, 0, 2]"] by (simp add: small_prost_def)

text \<open>
  A length whose varint is \<open>k\<close> bytes longer than prost would write it desynchronises the
  stream: the message is delivered, but its last \<open>k\<close> bytes stay in front of the next frame.
\<close>

lemma ga_overlong_length_desyncs:
  assumes "pb_decode_varint pb (head @ body @ rest) = Some (of_nat (length body), body @ rest)"
    and "length body < 2 ^ 64"
    and "pb_encoded_len_varint pb (of_nat (length body)) + k = length head"
    and "pb_decode pb body = Some (Some m)"
  shows "ga_decode pb (head @ body @ rest) =
    (Some m, drop (length (head @ body) - k) (head @ body) @ rest)"
proof -
  let ?n = "length body + pb_encoded_len_varint pb (of_nat (length body))"
  have "ga_frame pb (head @ body @ rest) = (?n, Some m)"
    using assms by (simp add: ga_frame_def unat_of_nat_small)
  moreover have n: "?n = length (head @ body) - k" using assms(3) by simp
  ultimately have "ga_decode pb (head @ body @ rest) = (Some m, drop ?n ((head @ body) @ rest))"
    by (simp add: ga_decode_def)
  also have "drop ?n ((head @ body) @ rest) = drop ?n (head @ body) @ rest"
    using n by (simp only: drop_append) simp
  finally show ?thesis using n by simp
qed

lemma ga_overlong_length_desyncs_witness:
  "ga_decode small_prost [130, 0, 10, 0, 2, 18, 0] = (Some Ga_Pong, [0, 2, 18, 0])"
  using ga_overlong_length_desyncs [of small_prost "[130, 0]" "[10, 0]" "[2, 18, 0]" 1 Ga_Pong]
  by (simp add: small_prost_def)

end
