(* ===== verification/Clientpipe.thy ===== *)
theory Clientpipe
  imports Demo Ga_Codec
begin

text \<open>
  \<^verbatim>\<open>driver/src/clientpipe/mod.rs\<close>: the connection to the guest agent. Its messages become calls of
  the controller, and a hello may start a task that pings the agent every five seconds. The state
  is the receive buffer, the number of ping tasks that still run, and the controller they share.
\<close>

subsection \<open>Messages and ping tasks\<close>

text \<open>\<^verbatim>\<open>take_handler\<close>: one message; the number counts the ping tasks.\<close>

definition clientpipe_handle ::
    "World \<Rightarrow> GaCmdIn \<Rightarrow> nat \<times> Controller \<Rightarrow> panic + nat \<times> Controller" where
  "clientpipe_handle w cmd s =
     (let (timers, c) = s; same = (\<lambda>c. Inr (timers, c)) in
      case cmd of
        Ga_ReportBoot \<Rightarrow>
          and_then (ga_hello w c) (\<lambda>(start, c). Inr (if start then timers + 1 else timers, c))
      | Ga_Suspending \<Rightarrow> and_then (ga_suspending w c) same
      | Ga_Pong \<Rightarrow> same (ga_pong c)
      | Ga_HotKey i \<Rightarrow> and_then (ga_hotkey w i c) same
      | Ga_HotKeyBindingFailed _ \<Rightarrow> same c
      | Ga_ClipboardIn message \<Rightarrow>
          (case message of
             Some (GrabClipboard types) \<Rightarrow> and_then (grab_x11_clipboard w types c) same
           | Some (RequestClipboardContents kind) \<Rightarrow>
               (case ClipboardType_from_i32 kind of
                  Some kind \<Rightarrow> and_then (read_x11_clipboard w kind c) same
                | None \<Rightarrow> same c)
           | Some (ClipboardContents buf) \<Rightarrow> and_then (respond_x11_clipboard w buf c) same
           | None \<Rightarrow> same c)
      | Ga_MouseEdged p \<Rightarrow> and_then (mouse_edged w (point_x p) (point_y p) c) same)"

text \<open>A ping task's turn: it ends when \<^verbatim>\<open>ga_ping\<close> answers \<^verbatim>\<open>false\<close>.\<close>

definition ping_tick :: "World \<Rightarrow> nat \<times> Controller \<Rightarrow> panic + nat \<times> Controller" where
  "ping_tick w s =
     (let (timers, c) = s in
      and_then (ga_ping w c) (\<lambda>(ok, c). Inr (if ok then timers else timers - 1, c)))"

text \<open>A chunk of bytes from the agent: every message it completes is handled in order.\<close>

definition clientpipe_receive ::
    "World \<Rightarrow> GaCmdIn Prost \<Rightarrow> u8 list \<Rightarrow> u8 list \<times> nat \<times> Controller \<Rightarrow>
      panic + u8 list \<times> nat \<times> Controller" where
  "clientpipe_receive w pb chunk s =
     (let (buf, s) = s; (cmds, buf) = decode_all (ga_decode pb) (buf @ chunk) in
      and_then (for_each_res (clientpipe_handle w) cmds s) (\<lambda>s. Inr (buf, s)))"

text \<open>\<^verbatim>\<open>Clientpipe::new\<close> forwards what the controller sends to the encoder.\<close>

definition ga_sent :: "Effect list \<Rightarrow> GaCmdOut list" where
  "ga_sent tr = List.map_filter (\<lambda>e. case e of To_ga cmd \<Rightarrow> Some cmd | _ \<Rightarrow> None) tr"

definition clientpipe_written :: "GaCmdOut Prost \<Rightarrow> Effect list \<Rightarrow> unit + u8 list" where
  "clientpipe_written pb tr = for_each_res (ga_encode pb) (ga_sent tr) []"

subsection \<open>Runs\<close>

text \<open>
  Messages and ticks in any order, between calls of the other components; only this connection
  calls \<^verbatim>\<open>ga_hello\<close> and \<^verbatim>\<open>ga_ping\<close>. \<open>polite\<close> agents do not say hello while they suspend.
\<close>

inductive pipe_run :: "bool \<Rightarrow> nat \<times> Controller \<Rightarrow> nat \<times> Controller \<Rightarrow> bool" for polite where
  pipe_start: "pipe_run polite s s"
| pipe_message:
    "pipe_run polite s (n, c) \<Longrightarrow> clientpipe_handle w cmd (n, c) = Inr t \<Longrightarrow>
      polite \<longrightarrow> \<not> (cmd = Ga_ReportBoot \<and> c_ga c = St_Suspending) \<Longrightarrow> pipe_run polite s t"
| pipe_tick: "pipe_run polite s (n, c) \<Longrightarrow> 0 < n \<Longrightarrow> ping_tick w (n, c) = Inr t \<Longrightarrow> pipe_run polite s t"
| pipe_other:
    "pipe_run polite s (n, c) \<Longrightarrow> controller_call w e c = Inr c' \<Longrightarrow>
      e \<noteq> Call_ga_hello \<Longrightarrow> e \<noteq> Call_ga_ping \<Longrightarrow> pipe_run polite s (n, c')"

definition agent_up :: "Controller \<Rightarrow> bool" where
  "agent_up c \<longleftrightarrow> c_ga c = St_Up \<or> c_ga c = St_Pinging"

definition watched :: "nat \<times> Controller \<Rightarrow> bool" where
  "watched s \<longleftrightarrow> (agent_up (snd s) \<longrightarrow> 0 < fst s)"

text \<open>Every message but a hello is at most one of these calls, and starts no ping task.\<close>

fun agent_call :: "Ctl_call \<Rightarrow> bool" where
  "agent_call Call_ga_suspending = True"
| "agent_call Call_ga_pong = True"
| "agent_call (Call_ga_hotkey i) = True"
| "agent_call (Call_mouse_edged x y) = True"
| "agent_call (Call_grab_x11_clipboard ts) = True"
| "agent_call (Call_read_x11_clipboard k) = True"
| "agent_call (Call_respond_x11_clipboard b) = True"
| "agent_call _ = False"

lemma clientpipe_handle_agent_call:
  assumes "clientpipe_handle w cmd (n, c) = Inr (n', c')" and "cmd \<noteq> Ga_ReportBoot"
  shows "n' = n \<and> (c' = c \<or> (\<exists>e. controller_call w e c = Inr c' \<and> agent_call e))"
proof -
  have call: "n' = n \<and> (\<exists>e. controller_call w e c = Inr c' \<and> agent_call e)"
    if "and_then (controller_call w e c) (\<lambda>c. Inr (n, c)) = Inr (n', c')" "agent_call e" for e
    using that by (auto simp: res_simps simp del: controller_call.simps)
  show ?thesis
  proof (cases cmd)
    case Ga_Pong
    with assms(1) call [of Call_ga_pong] show ?thesis by (simp add: clientpipe_handle_def)
  next
    case Ga_Suspending
    with assms(1) call [of Call_ga_suspending] show ?thesis by (simp add: clientpipe_handle_def)
  next
    case (Ga_HotKey i)
    with assms(1) call [of "Call_ga_hotkey i"] show ?thesis by (simp add: clientpipe_handle_def)
  next
    case (Ga_MouseEdged p)
    with assms(1) call [of "Call_mouse_edged (point_x p) (point_y p)"] show ?thesis
      by (simp add: clientpipe_handle_def)
  next
    case (Ga_ClipboardIn m)
    show ?thesis
    proof (cases m)
      case (Some msg)
      show ?thesis
      proof (cases msg)
        case (GrabClipboard ts)
        with Some Ga_ClipboardIn assms(1) call [of "Call_grab_x11_clipboard ts"] show ?thesis
          by (simp add: clientpipe_handle_def)
      next
        case (RequestClipboardContents k)
        with Some Ga_ClipboardIn assms(1) call [of "Call_read_x11_clipboard (the (ClipboardType_from_i32 k))"]
        show ?thesis by (cases "ClipboardType_from_i32 k") (simp_all add: clientpipe_handle_def)
      next
        case (ClipboardContents b)
        with Some Ga_ClipboardIn assms(1) call [of "Call_respond_x11_clipboard b"] show ?thesis
          by (simp add: clientpipe_handle_def)
      qed
    qed (use Ga_ClipboardIn assms(1) in \<open>simp add: clientpipe_handle_def\<close>)
  qed (use assms in \<open>simp_all add: clientpipe_handle_def\<close>)
qed

lemma clientpipe_handle_call:
  assumes "clientpipe_handle w cmd (n, c) = Inr (n', c')" and "cmd \<noteq> Ga_ReportBoot"
  shows "n' = n \<and> (c' = c \<or>
    (\<exists>e. controller_call w e c = Inr c' \<and> e \<noteq> Call_ga_hello \<and> e \<noteq> Call_ga_ping))"
  using clientpipe_handle_agent_call [OF assms] by auto

lemma clientpipe_hello:
  assumes "clientpipe_handle w Ga_ReportBoot (n, c) = Inr (n', c')"
  shows "c_ga c' = St_Up" and "n' = (if agent_up c \<or> c_ga c = St_Suspending then n else n + 1)"
proof -
  from assms obtain b where b: "ga_hello w c = Inr (b, c')" "n' = (if b then n + 1 else n)"
    by (auto simp: clientpipe_handle_def res_simps)
  have "b \<longleftrightarrow> \<not> (agent_up c \<or> c_ga c = St_Suspending)"
    by (rule ga_hello_Inr [OF b(1)], cases "c_ga c") (simp_all add: agent_up_def)
  with b(2) show "n' = (if agent_up c \<or> c_ga c = St_Suspending then n else n + 1)" by simp
  from ga_hello_state [OF b(1)] show "c_ga c' = St_Up"
    by (auto simp: protocol_state_def spec_simps Let_def split: if_splits)
qed

text \<open>Only a hello, a pong to a ping and a ping leave the agent up.\<close>

lemma agent_up_preserved:
  assumes "controller_call w e c = Inr c'" and "e \<noteq> Call_ga_hello" and "e \<noteq> Call_ga_ping" and "agent_up c'"
  shows "agent_up c"
proof -
  obtain g k where s: "protocol_state c = (g, k)" by (cases "protocol_state c")
  have "fst (protocol_step hks e (g, k)) = St_Up \<or> fst (protocol_step hks e (g, k)) = St_Pinging \<Longrightarrow>
      g = St_Up \<or> g = St_Pinging" for hks
    using assms(2,3)
    by (cases e; cases g) (auto simp: spec_simps spec_hotkey_def split: if_splits HotKeyAction.splits Action.splits)
  moreover have "c_ga c' = fst (protocol_step (mc_hotkeys (c_machine_config c)) e (g, k))"
    using arg_cong [OF protocol_refines [OF assms(1)], of fst] s by (simp add: protocol_state_def)
  moreover have "g = c_ga c" using s by (simp add: protocol_state_def)
  ultimately show ?thesis using assms(4) by (metis agent_up_def)
qed

lemma ping_tick_watched:
  assumes "ping_tick w (n, c) = Inr t" and "watched (n, c)"
  shows "watched t"
proof -
  from assms(1) obtain ok c' where p: "ga_ping w c = Inr (ok, c')" and t: "t = (if ok then n else n - 1, c')"
    by (auto simp: ping_tick_def res_simps)
  have ok: "ok \<longleftrightarrow> c_ga c = St_Up"
    using p by (auto simp: ga_ping_def Let_def res_simps split: if_splits)
  have "c_ga c' = fst (spec_ping (protocol_state c))"
    using arg_cong [OF ga_ping_state [OF p], of fst] by (simp add: protocol_state_def)
  then have "agent_up c' \<Longrightarrow> ok"
    using ok by (auto simp: agent_up_def spec_simps protocol_state_def split: if_splits)
  with ok t assms(2) show ?thesis by (auto simp: watched_def agent_up_def)
qed

lemma clientpipe_handle_watched:
  assumes "clientpipe_handle w cmd (n, c) = Inr (n', c')" and "watched (n, c)"
    and "\<not> (cmd = Ga_ReportBoot \<and> c_ga c = St_Suspending)"
  shows "watched (n', c')"
proof (cases "cmd = Ga_ReportBoot")
  case True
  with clientpipe_hello(2) [of w n c n' c'] assms show ?thesis by (auto simp: watched_def split: if_splits)
next
  case False
  from clientpipe_handle_call [OF assms(1) False] assms(2) agent_up_preserved [of w _ c c'] show ?thesis
    by (auto simp: watched_def)
qed

lemma pipe_run_watched: "pipe_run True s t \<Longrightarrow> watched s \<Longrightarrow> watched t"
proof (induction rule: pipe_run.induct)
  case (pipe_message s n c w cmd t)
  then show ?case by (cases t) (auto intro: clientpipe_handle_watched)
next
  case (pipe_other s n c w e c')
  then have "watched (n, c)" by simp
  with agent_up_preserved [OF pipe_other.hyps(2-4)] show ?case by (auto simp: watched_def)
qed (auto intro: ping_tick_watched)

text \<open>Every controller of a run is reachable.\<close>

lemma clientpipe_handle_reachable:
  assumes "clientpipe_handle w cmd (n, c) = Inr (n', c')" and "reachable mc hooks c"
  shows "reachable mc hooks c'"
proof (cases "cmd = Ga_ReportBoot")
  case True
  with assms(1) obtain b where "ga_hello w c = Inr (b, c')" by (auto simp: clientpipe_handle_def res_simps)
  then have "controller_call w Call_ga_hello c = Inr c'" by (simp add: ctl_returns)
  with assms(2) show ?thesis by (rule reachable_call)
next
  case False
  from clientpipe_handle_call [OF assms(1) False] assms(2) show ?thesis by (auto intro: reachable_call)
qed

lemma ping_tick_reachable:
  assumes "ping_tick w (n, c) = Inr (n', c')" and "reachable mc hooks c"
  shows "reachable mc hooks c'"
proof -
  from assms(1) obtain b where "ga_ping w c = Inr (b, c')" by (auto simp: ping_tick_def res_simps)
  then have "controller_call w Call_ga_ping c = Inr c'" by (simp add: ctl_returns)
  with assms(2) show ?thesis by (rule reachable_call)
qed

lemma pipe_run_reachable:
  "pipe_run polite s t \<Longrightarrow> reachable mc hooks (snd s) \<Longrightarrow> reachable mc hooks (snd t)"
proof (induction rule: pipe_run.induct)
  case (pipe_message s n c w cmd t)
  then show ?case by (cases t) (auto intro: clientpipe_handle_reachable)
next
  case (pipe_tick s n c w t)
  then show ?case by (cases t) (auto intro: ping_tick_reachable)
next
  case (pipe_other s n c w e c')
  then show ?case using reachable_call by auto
qed

text \<open>Handling the chunks is handling the messages they hold.\<close>

lemma clientpipe_receive_all:
  "for_each_res (clientpipe_receive w pb) chunks (buf, s) =
     (let (cmds, rest) = feed_all (ga_decode pb) buf chunks in
      and_then (for_each_res (clientpipe_handle w) cmds s) (\<lambda>s. Inr (rest, s)))"
proof (induction chunks arbitrary: buf s)
  case (Cons chunk chunks)
  obtain cmds rest where d: "decode_all (ga_decode pb) (buf @ chunk) = (cmds, rest)"
    by (cases "decode_all (ga_decode pb) (buf @ chunk)")
  then have "clientpipe_receive w pb chunk (buf, s) =
      and_then (for_each_res (clientpipe_handle w) cmds s) (\<lambda>s. Inr (rest, s))"
    by (simp add: clientpipe_receive_def)
  with d show ?case
    by (cases "for_each_res (clientpipe_handle w) cmds s")
      (simp_all add: Cons.IH for_each_res_append split: prod.split)
qed simp

subsection \<open>Properties\<close>

text \<open>
  C28: Invariant: as long as the agent does not say hello while it suspends, a ping task runs
  whenever the agent counts as up, whatever the other components do; so a dead agent is noticed.
\<close>

theorem agent_watched:
  assumes "pipe_run True (0, Controller_new mc hooks) (n, c)"
    and "c_ga c = St_Up \<or> c_ga c = St_Pinging"
  shows "0 < n"
  using pipe_run_watched [OF assms(1)] assms(2)
  by (simp add: watched_def agent_up_def Controller_new_def)

theorem agent_watched_witness:
  "\<exists>n c. clientpipe_handle demo_world Ga_ReportBoot (0, demo_controller) = Inr (n, c) \<and> c_ga c = St_Up \<and> 0 < n"
proof -
  obtain b c where "ga_hello demo_world demo_controller = Inr (b, c)"
    using returns_ga_hello [OF demo_healthy, of demo_controller] by (auto simp: returns_def)
  then obtain n where h: "clientpipe_handle demo_world Ga_ReportBoot (0, demo_controller) = Inr (n, c)"
    by (simp add: clientpipe_handle_def)
  then have "pipe_run True (0, demo_controller) (n, c)"
    by (rule pipe_message [OF pipe_start]) (simp add: demo_controller_def Controller_new_def)
  moreover have "c_ga c = St_Up" by (rule clientpipe_hello(1) [OF h])
  ultimately show ?thesis
    using agent_watched [of demo_machine HooksConfig_default n c] h by (auto simp: demo_controller_def)
qed

text \<open>
  An agent that says hello while it still counts as suspending comes up without a ping task:
  when the last task has ended, no message makes the driver ping it again.
\<close>

lemma hello_while_suspending_unwatched:
  assumes "c_ga c = St_Suspending" and "ping_tick w (1, c) = Inr (n, d)"
    and "clientpipe_handle w' Ga_ReportBoot (n, d) = Inr (m, e)"
  shows "c_ga e = St_Up \<and> m = 0 \<and>
    (\<forall>w cmd k f. clientpipe_handle w cmd (m, e) = Inr (k, f) \<and> cmd \<noteq> Ga_Suspending \<longrightarrow> k = 0)"
proof -
  from assms(1,2) have "n = 0" and d: "d = c" by (auto simp: ping_tick_def ga_ping_def Let_def)
  with clientpipe_hello [OF assms(3)] assms(1) have e: "c_ga e = St_Up" "m = 0" by simp_all
  moreover have "k = 0" if "clientpipe_handle w cmd (m, e) = Inr (k, f)" for w cmd k f
  proof (cases "cmd = Ga_ReportBoot")
    case True
    with clientpipe_hello(2) [of w m e k f] that e show ?thesis by (simp add: agent_up_def)
  next
    case False
    from clientpipe_handle_call [OF that False] e show ?thesis by simp
  qed
  ultimately show ?thesis by blast
qed

lemma hello_while_suspending_unwatched_witness:
  "\<exists>n d m e. ping_tick demo_world (1, demo_controller\<lparr>c_ga := St_Suspending\<rparr>) = Inr (n, d) \<and>
     clientpipe_handle demo_world Ga_ReportBoot (n, d) = Inr (m, e) \<and> c_ga e = St_Up \<and> m = 0"
proof -
  let ?c = "demo_controller\<lparr>c_ga := St_Suspending\<rparr>"
  obtain n d where d: "ping_tick demo_world (1, ?c) = Inr (n, d)"
    by (simp add: ping_tick_def ga_ping_def)
  obtain b e where "ga_hello demo_world d = Inr (b, e)"
    using returns_ga_hello [OF demo_healthy, of d] by (auto simp: returns_def)
  then obtain m where h: "clientpipe_handle demo_world Ga_ReportBoot (n, d) = Inr (m, e)"
    by (simp add: clientpipe_handle_def)
  have "c_ga ?c = St_Suspending" by simp
  from hello_while_suspending_unwatched [OF this d h] d h show ?thesis by blast
qed

text \<open>
  A resume starts a second ping task beside the one that still runs, and the turns of the two
  need not be five seconds apart: the next two detach an agent that just came up.
\<close>

lemma resume_starts_second_timer:
  assumes "clientpipe_handle w1 Ga_Suspending (n, c) = Inr (n1, c1)"
    and "clientpipe_handle w2 Ga_ReportBoot (n1, qemu_suspended c1) = Inr (n2, c2)"
    and "ping_tick w3 (n2, c2) = Inr (n3, c3)" and "ping_tick w4 (n3, c3) = Inr (n4, c4)"
  shows "n2 = n + 1 \<and> c_ga c2 = St_Up \<and> c_ga c4 = St_Down \<and> c_io_state c4 \<noteq> Io_FullEntry"
proof -
  have "n1 = n" using clientpipe_handle_call [OF assms(1)] by simp
  moreover have "c_ga (qemu_suspended c1) = St_Suspended" by (simp add: qemu_suspended_def)
  ultimately have up: "c_ga c2 = St_Up" "n2 = n + 1"
    using clientpipe_hello [OF assms(2)] by (simp_all add: agent_up_def)
  from assms(3,4) obtain a b where p: "ga_ping w3 c2 = Inr (a, c3)" "ga_ping w4 c3 = Inr (b, c4)"
    by (auto simp: ping_tick_def res_simps)
  from ga_ping_state [OF p(1)] up(1) have "c_ga c3 = St_Pinging"
    by (simp add: protocol_state_def spec_simps)
  with ga_ping_state [OF p(2)] have "c_ga c4 = St_Down \<and> io_kind (c_io_state c4) \<noteq> Full_kind"
    by (auto simp: protocol_state_def spec_simps split: if_splits)
  then have "c_ga c4 = St_Down \<and> c_io_state c4 \<noteq> Io_FullEntry" by auto
  with up show ?thesis by simp
qed

lemma resume_starts_second_timer_witness:
  "\<exists>n1 c1 n2 c2 n3 c3 n4 c4. clientpipe_handle demo_world Ga_Suspending (1, demo_controller\<lparr>c_ga := St_Up\<rparr>) = Inr (n1, c1) \<and>
     clientpipe_handle demo_world Ga_ReportBoot (n1, qemu_suspended c1) = Inr (n2, c2) \<and> n2 = 2 \<and>
     ping_tick demo_world (n2, c2) = Inr (n3, c3) \<and> ping_tick demo_world (n3, c3) = Inr (n4, c4) \<and>
     c_ga c4 = St_Down"
proof -
  let ?c = "demo_controller\<lparr>c_ga := St_Up\<rparr>"
  obtain c1 where "ga_suspending demo_world ?c = Inr c1"
    using returns_io_detach [OF demo_healthy, of ?c] by (auto simp: returns_def ga_suspending_def)
  then have 1: "clientpipe_handle demo_world Ga_Suspending (1, ?c) = Inr (1, c1)"
    by (simp add: clientpipe_handle_def)
  obtain b c2 where "ga_hello demo_world (qemu_suspended c1) = Inr (b, c2)"
    using returns_ga_hello [OF demo_healthy, of "qemu_suspended c1"] by (auto simp: returns_def)
  then obtain n2 where 2: "clientpipe_handle demo_world Ga_ReportBoot (1, qemu_suspended c1) = Inr (n2, c2)"
    by (simp add: clientpipe_handle_def)
  obtain a c3 where "ga_ping demo_world c2 = Inr (a, c3)"
    using returns_ga_ping [OF demo_healthy, of c2] by (auto simp: returns_def)
  then obtain n3 where 3: "ping_tick demo_world (n2, c2) = Inr (n3, c3)" by (simp add: ping_tick_def)
  obtain d c4 where "ga_ping demo_world c3 = Inr (d, c4)"
    using returns_ga_ping [OF demo_healthy, of c3] by (auto simp: returns_def)
  then obtain n4 where 4: "ping_tick demo_world (n3, c3) = Inr (n4, c4)" by (simp add: ping_tick_def)
  from resume_starts_second_timer [OF 1 2 3 4] have "n2 = 2" "c_ga c4 = St_Down" by simp_all
  with 1 2 3 4 show ?thesis by blast
qed

text \<open>
  Functional: however the agent's bytes arrive, the controller goes through exactly the
  messages the agent encoded, in order, and panics on them only where it would on the messages.
\<close>

lemma agent_messages_handled:
  assumes "\<forall>m\<in>set ms. ga_readable pb m" and "pb_decode_varint pb [] = None"
    and "for_each_res (guest_encode pb) ms [] = Inr bytes" and "concat chunks = bytes"
  shows "for_each_res (clientpipe_receive w pb) chunks ([], n, c) =
    and_then (for_each_res (clientpipe_handle w) ms (n, c)) (\<lambda>s. Inr ([], s))"
  using clientpipe_receive_all [of w pb chunks "[]" "(n, c)"] ga_stream [OF assms] by simp

lemma agent_messages_handled_witness:
  "for_each_res (clientpipe_receive demo_world small_prost) [[2], [18, 0, 2, 10], [0]] ([], 0, demo_controller) =
     and_then (for_each_res (clientpipe_handle demo_world) [Ga_ReportBoot, Ga_Pong] (0, demo_controller))
       (\<lambda>s. Inr ([], s))"
  by (rule agent_messages_handled [where bytes = "[2, 18, 0, 2, 10, 0]"])
    (auto intro: small_readable, simp_all add: small_prost_def guest_encode_def small_body_def)

end
