(* ===== verification/Controller_Frames.thy ===== *)
theory Controller_Frames
  imports Controller_Inv
begin

text \<open>
  What every controller call leaves alone: the trace is only appended to, and a temporary entry
  keeps its channel. The theories of the controller's callers rest on it.
\<close>

definition frame_ok :: "Controller \<Rightarrow> Controller \<Rightarrow> bool" where
  "frame_ok c c' \<longleftrightarrow>
     (\<exists>es. c_trace c' = c_trace c @ es) \<and>
     (\<forall>ch. c_io_state c' = Io_TemporaryLightEntry ch \<longrightarrow> c_io_state c = Io_TemporaryLightEntry ch)"

lemma frame_refl [simp]: "frame_ok c c"
  by (simp add: frame_ok_def)

lemma frame_trans: "frame_ok c d \<Longrightarrow> frame_ok d e \<Longrightarrow> frame_ok c e"
  by (auto simp: frame_ok_def)

lemma frame_emit [simp]: "frame_ok c (emit es c)"
  by (simp add: frame_ok_def)

lemma frame_emit_update [simp]:
  "frame_ok c (emit es (c\<lparr>c_ga := g\<rparr>))"
  "frame_ok c (emit es (c\<lparr>c_ga := g, c_suspend_senders := ss\<rparr>))"
  "frame_ok c (emit es (c\<lparr>c_next := n\<rparr>))"
  "frame_ok c (emit es (c\<lparr>c_next := n, c_suspend_senders := ss\<rparr>))"
  "frame_ok c (emit es (c\<lparr>c_win_clipboard_request := r\<rparr>))"
  by (simp_all add: frame_ok_def)

lemma frame_update [simp]: "frame_ok c (c\<lparr>c_ga := g\<rparr>)"
  by (simp add: frame_ok_def)

lemma frame_of_ga: "frame_ok (c\<lparr>c_ga := g\<rparr>) d \<longleftrightarrow> frame_ok c d"
  by (simp add: frame_ok_def)

lemma frame_io_force_attach: "io_force_attach w c = Inr c' \<Longrightarrow> frame_ok c c'"
  by (drule io_force_attach_Inr) (auto simp: frame_ok_def release_input_def split: IoState.splits)

lemma frame_io_detach: "io_detach w c = Inr c' \<Longrightarrow> frame_ok c c'"
  by (drule io_detach_Inr) (auto simp: frame_ok_def release_input_def split: IoState.splits)

lemma frame_light_attach:
  assumes "light_attach w c = Inr c'"
  shows "frame_ok c c'"
  using assms by (cases rule: light_attach_cases) (simp_all add: frame_ok_def)

lemma frame_io_attach:
  assumes "io_attach w c = Inr c'"
  shows "frame_ok c c'"
proof (cases "c_ga c")
  case St_Down
  with assms obtain d where d: "light_attach w c = Inr d" "c' = d\<lparr>c_io_state := Io_AwaitingUpgrade\<rparr>"
    by (auto simp: io_attach_def res_simps)
  from frame_light_attach [OF d(1)] d(2) show ?thesis by (auto simp: frame_ok_def)
qed (use assms in \<open>auto simp: io_attach_def res_simps ctl_returns intro: frame_io_force_attach\<close>)

lemma frame_temporary_exit: "temporary_exit w c = Inr c' \<Longrightarrow> frame_ok c c'"
  by (auto simp: temporary_exit_def intro: frame_io_detach split: IoState.splits)

lemma frame_ga_ping:
  assumes "ga_ping w c = Inr (b, c')"
  shows "frame_ok c c'"
proof (cases "c_ga c = St_Pinging")
  case True
  with assms have "(case c_io_state c of Io_FullEntry \<Rightarrow> io_detach w (c\<lparr>c_ga := St_Down\<rparr>)
      | Io_TemporaryLightEntry _ \<Rightarrow> temporary_exit w (c\<lparr>c_ga := St_Down\<rparr>)
      | _ \<Rightarrow> Inr (c\<lparr>c_ga := St_Down\<rparr>)) = Inr c'"
    by (simp add: ga_ping_def Let_def res_simps)
  then show ?thesis
    using frame_io_detach [of w "c\<lparr>c_ga := St_Down\<rparr>" c'] frame_temporary_exit [of w "c\<lparr>c_ga := St_Down\<rparr>" c']
    by (cases "c_io_state c") (auto simp: frame_of_ga)
next
  case False
  with assms show ?thesis
    by (auto simp: ga_ping_def Let_def res_simps ctl_returns split: if_splits)
qed

lemma frame_ga_hello:
  assumes "ga_hello w c = Inr (b, c')"
  shows "frame_ok c c'"
proof -
  let ?c = "emit (hello_effects w c) (c\<lparr>c_ga := St_Up\<rparr>)"
  from ga_hello_Inr [OF assms] obtain d where
    1: "(if c_io_state c = Io_AwaitingUpgrade then io_attach w ?c else Inr ?c) = Inr d" and
    2: "(case c_ga c of St_Resuming full \<Rightarrow> if full then io_force_attach w d else light_attach w d
      | _ \<Rightarrow> Inr d) = Inr c'"
    by blast
  have "frame_ok c ?c" by simp
  moreover from 1 have "frame_ok ?c d" by (auto intro: frame_io_attach split: if_splits)
  moreover from 2 have "frame_ok d c'"
    by (auto intro: frame_io_force_attach frame_light_attach split: State.splits if_splits)
  ultimately show ?thesis by (blast intro: frame_trans)
qed

lemma frame_ga_hotkey:
  assumes "ga_hotkey w i c = Inr c'"
  shows "frame_ok c c'"
  using assms
  by (cases rule: ga_hotkey_cases) (auto intro: frame_io_attach frame_io_force_attach frame_io_detach)

lemma frame_backup:
  "enter_backup_mode w a c = Inr c' \<Longrightarrow> frame_ok c c'"
  "leave_backup_mode w a c = Inr c' \<Longrightarrow> frame_ok c c'"
  unfolding enter_backup_mode_def leave_backup_mode_def
  by (drule backup_mode_Inr, simp)+

text \<open>A new temporary entry is on the channel it was given.\<close>

lemma temporary_entry_frame:
  assumes "temporary_entry w s x y c = Inr (b, c')"
  shows "\<exists>es. c_trace c' = c_trace c @ es"
    and "c_io_state c' = Io_TemporaryLightEntry ch \<Longrightarrow>
      (b \<and> ch = s) \<or> (\<not> b \<and> c_io_state c = Io_TemporaryLightEntry ch)"
    and "b \<Longrightarrow> c_io_state c' = Io_TemporaryLightEntry s"
proof -
  have l: "\<exists>es. c_trace d' = c_trace d @ es" if "light_attach w d = Inr d'" for d d'
    using frame_light_attach [OF that] by (simp add: frame_ok_def)
  have "\<exists>es. c_trace c' = c_trace c @ es"
    using assms l by (fastforce simp: temporary_entry_def res_simps ctl_returns split: if_splits)
  then show "\<exists>es. c_trace c' = c_trace c @ es" .
  show "(b \<and> ch = s) \<or> (\<not> b \<and> c_io_state c = Io_TemporaryLightEntry ch)"
    if "c_io_state c' = Io_TemporaryLightEntry ch"
    using assms that by (auto simp: temporary_entry_def res_simps split: if_splits)
  show "c_io_state c' = Io_TemporaryLightEntry s" if b
    using assms that by (auto simp: temporary_entry_def res_simps split: if_splits)
qed

text \<open>Every call but a temporary entry.\<close>

definition makes_channel :: "Ctl_call \<Rightarrow> bool" where
  "makes_channel e \<longleftrightarrow> (\<exists>s x y. e = Call_temporary_entry s x y)"

lemma controller_call_frame:
  assumes "controller_call w e c = Inr c'" and "\<not> makes_channel e"
  shows "frame_ok c c'"
proof (cases e)
  case (Call_temporary_entry s x y)
  with assms(2) show ?thesis by (simp add: makes_channel_def)
next
  case Call_try_attach
  with assms(1) show ?thesis by (auto simp: try_attach_def intro: frame_io_force_attach split: if_splits)
next
  case Call_ga_suspending
  with assms(1) obtain d where d: "io_detach w c = Inr d" "c' = d\<lparr>c_ga := St_Suspending\<rparr>"
    by (auto simp: ga_suspending_def res_simps)
  from frame_trans [OF frame_io_detach [OF d(1)] frame_update] d(2) show ?thesis by simp
next
  case Call_suspend
  with assms(1) show ?thesis
    by (auto simp: suspend_def res_simps ctl_returns Let_def split: if_splits)
next
  case Call_ga_pong
  with assms(1) show ?thesis by (auto simp: ga_pong_def)
next
  case (Call_mouse_edged x y)
  with assms(1) show ?thesis by (auto simp: mouse_edged_def ctl_returns split: IoState.splits)
qed (use assms(1) in \<open>auto simp: ctl_returns res_simps qemu_suspended_def shutdown_def
    grab_x11_clipboard_def read_x11_clipboard_def respond_x11_clipboard_def grab_win_clipboard_def
    read_win_clipboard_def respond_win_clipboard_def Let_def
    intro: frame_ga_ping frame_ga_hello frame_ga_hotkey frame_io_attach frame_temporary_exit
      frame_light_attach frame_io_force_attach frame_io_detach frame_backup
    split: if_splits option.splits\<close>)

end
