(* ===== verification/Control_Server.thy ===== *)
theory Control_Server
  imports Controller_Frames Controller_Safety Demo
begin

text \<open>
  \<^verbatim>\<open>driver/src/control/mod.rs\<close>: the control socket. Each connection has a reader that turns requests
  into calls of the controller, a writer, and, after a temporary entry, a task that forwards what
  the controller sends on the entry's channel. The lemmas show that the channel of the current
  entry always has such a task, that a connection waits exactly while its suspend is not done, and
  what a connection does whose temporary entry has ended without it.
\<close>

subsection \<open>State\<close>

text \<open>
  A connection: the captured \<^verbatim>\<open>temp_entry\<close>, the suspend its reader waits for, whether its two
  halves still run, and what was put into the writer's channel.
\<close>

record Conn =
  cn_temp_entry :: bool
  cn_waits :: "nat option"
  cn_open :: bool
  cn_out :: "ControlCmdOut list"

definition Conn_new :: Conn where
  "Conn_new = \<lparr>cn_temp_entry = False, cn_waits = None, cn_open = True, cn_out = []\<rparr>"

text \<open>
  A forwarder is the channel it reads, the connection it writes to and the number of messages it
  has forwarded; a waiting ack is its number and its connection. \<open>sv_next\<close> numbers both.
\<close>

record Server =
  sv_controller :: Controller
  sv_conns :: "Conn list"
  sv_forwarders :: "(nat \<times> nat \<times> nat) list"
  sv_acks :: "(nat \<times> nat) list"
  sv_next :: nat

definition Server_new :: "Controller \<Rightarrow> Server" where
  "Server_new c =
     \<lparr>sv_controller = c, sv_conns = [], sv_forwarders = [], sv_acks = [], sv_next = 0\<rparr>"

text \<open>The receiver of a channel lives as long as its forwarder.\<close>

definition server_world :: "Server \<Rightarrow> World \<Rightarrow> World" where
  "server_world s w = w\<lparr>w_control_open := \<lambda>ch. ch \<in> fst ` set (sv_forwarders s)\<rparr>"

definition upd_conn :: "nat \<Rightarrow> (Conn \<Rightarrow> Conn) \<Rightarrow> Server \<Rightarrow> Server" where
  "upd_conn i f s = s\<lparr>sv_conns := (sv_conns s)[i := f (sv_conns s ! i)]\<rparr>"

definition close_conn :: "nat \<Rightarrow> Server \<Rightarrow> Server" where
  "close_conn i = upd_conn i (\<lambda>n. n\<lparr>cn_open := False\<rparr>)"

text \<open>\<^verbatim>\<open>unbounded_send\<close> to the writer: it fails once the connection is gone.\<close>

definition conn_push :: "nat \<Rightarrow> ControlCmdOut \<Rightarrow> Server \<Rightarrow> Server" where
  "conn_push i cmd = upd_conn i (\<lambda>n. n\<lparr>cn_out := cn_out n @ [cmd]\<rparr>)"

definition conn_send :: "nat \<Rightarrow> ControlCmdOut \<Rightarrow> Server \<Rightarrow> panic + Server" where
  "conn_send i cmd s = (if cn_open (sv_conns s ! i) then Inr (conn_push i cmd s) else Inl Channel_closed)"

definition conn_try_send :: "nat \<Rightarrow> ControlCmdOut \<Rightarrow> Server \<Rightarrow> Server" where
  "conn_try_send i cmd s = (if cn_open (sv_conns s ! i) then conn_push i cmd s else s)"

subsection \<open>Requests\<close>

definition put_controller :: "Server \<Rightarrow> Controller \<Rightarrow> panic + Server" where
  "put_controller s c = Inr (s\<lparr>sv_controller := c\<rparr>)"

text \<open>A request of a connection that made a temporary entry.\<close>

definition temporary_request :: "World \<Rightarrow> nat \<Rightarrow> ControlCmdIn \<Rightarrow> Server \<Rightarrow> panic + Server" where
  "temporary_request w i req s =
     and_then (temporary_exit w (sv_controller s)) (\<lambda>c.
       let s = s\<lparr>sv_controller := c\<rparr> in
       Inr (case req of
              Ctl_IoExit \<Rightarrow> upd_conn i (\<lambda>n. n\<lparr>cn_temp_entry := False\<rparr>) s
            | _ \<Rightarrow> close_conn i s))"

definition start_temporary_entry :: "World \<Rightarrow> nat \<Rightarrow> i32 \<Rightarrow> i32 \<Rightarrow> Server \<Rightarrow> panic + Server" where
  "start_temporary_entry w i x y s =
     (let ch = sv_next s in
      and_then (temporary_entry w ch x y (sv_controller s)) (\<lambda>(res, c).
        let s = s\<lparr>sv_controller := c, sv_next := ch + 1\<rparr> in
        if \<not> res then Inr (close_conn i s)
        else
          and_then (conn_send i TemporaryLightAttached s) (\<lambda>s.
            Inr (upd_conn i (\<lambda>n. n\<lparr>cn_temp_entry := True\<rparr>)
                  (s\<lparr>sv_forwarders := sv_forwarders s @ [(ch, i, 0)]\<rparr>)))))"

text \<open>\<^verbatim>\<open>send_ack_when_ready\<close>: a fresh channel and a task that waits for it.\<close>

definition backup_request ::
    "(nat \<Rightarrow> Controller \<Rightarrow> panic + Controller) \<Rightarrow> nat \<Rightarrow> Server \<Rightarrow> panic + Server" where
  "backup_request f i s =
     (let a = sv_next s in
      and_then (f a (sv_controller s)) (\<lambda>c.
        Inr (s\<lparr>sv_controller := c, sv_next := a + 1, sv_acks := sv_acks s @ [(a, i)]\<rparr>)))"

definition suspend_request :: "World \<Rightarrow> nat \<Rightarrow> Server \<Rightarrow> panic + Server" where
  "suspend_request w i s =
     and_then (suspend w (sv_controller s)) (\<lambda>(fut, c).
       Inr (upd_conn i (\<lambda>n. n\<lparr>cn_waits := (case fut of Resolved \<Rightarrow> None | Waiting t \<Rightarrow> Some t)\<rparr>)
             (s\<lparr>sv_controller := c\<rparr>)))"

definition control_request_step :: "World \<Rightarrow> nat \<Rightarrow> ControlCmdIn \<Rightarrow> Server \<Rightarrow> panic + Server" where
  "control_request_step w i req s =
     (let w = server_world s w; c = sv_controller s in
      if cn_temp_entry (sv_conns s ! i) then temporary_request w i req s
      else
        (case req of
           Ctl_IoEntry \<Rightarrow> and_then (io_attach w c) (put_controller s)
         | Ctl_Shutdown \<Rightarrow> and_then (shutdown w c) (put_controller s)
         | Ctl_ForceIoEntry \<Rightarrow> and_then (io_force_attach w c) (put_controller s)
         | Ctl_IoExit \<Rightarrow> and_then (io_detach w c) (put_controller s)
         | Ctl_Suspend \<Rightarrow> suspend_request w i s
         | Ctl_TryIoEntry \<Rightarrow> and_then (try_attach w c) (put_controller s)
         | Ctl_LightEntry \<Rightarrow> and_then (light_attach w c) (put_controller s)
         | Ctl_TemporaryLightEntry x y \<Rightarrow> start_temporary_entry w i x y s
         | Ctl_EnterBackupMode \<Rightarrow> backup_request (enter_backup_mode w) i s
         | Ctl_LeaveBackupMode \<Rightarrow> backup_request (leave_backup_mode w) i s))"

subsection \<open>The tasks\<close>

text \<open>What the controller has sent on a channel.\<close>

definition channel_sent :: "nat \<Rightarrow> Effect list \<Rightarrow> ControlCmdOut list" where
  "channel_sent ch tr =
     List.map_filter (\<lambda>e. case e of To_control h cmd \<Rightarrow> if h = ch then Some cmd else None | _ \<Rightarrow> None) tr"

text \<open>
  The forwarder at position \<open>k\<close> runs: it forwards the next message if the connection is still
  there; it ends when that fails or when the controller has dropped its sender, and then leaves
  the temporary entry and reports so.
\<close>

definition end_forwarder :: "World \<Rightarrow> nat \<Rightarrow> nat \<Rightarrow> Server \<Rightarrow> panic + Server" where
  "end_forwarder w k i s =
     (let s = s\<lparr>sv_forwarders := take k (sv_forwarders s) @ drop (k + 1) (sv_forwarders s)\<rparr> in
      and_then (temporary_exit (server_world s w) (sv_controller s)) (\<lambda>c.
        Inr (conn_try_send i TemporaryLightDetached (s\<lparr>sv_controller := c\<rparr>))))"

definition forward_step :: "World \<Rightarrow> nat \<Rightarrow> Server \<Rightarrow> panic + Server" where
  "forward_step w k s =
     (let (ch, i, n) = sv_forwarders s ! k; c = sv_controller s; sent = channel_sent ch (c_trace c) in
      if n < length sent then
        if cn_open (sv_conns s ! i) then
          Inr (conn_push i (sent ! n) (s\<lparr>sv_forwarders := (sv_forwarders s)[k := (ch, i, n + 1)]\<rparr>))
        else end_forwarder w k i s
      else if c_io_state c = Io_TemporaryLightEntry ch then Inr s
      else end_forwarder w k i s)"

text \<open>The ack task at position \<open>k\<close>: its channel was answered (\<open>ok\<close>) or dropped.\<close>

definition ack_step :: "nat \<Rightarrow> bool \<Rightarrow> Server \<Rightarrow> Server" where
  "ack_step k ok s =
     (let (a, i) = sv_acks s ! k;
          s = s\<lparr>sv_acks := take k (sv_acks s) @ drop (k + 1) (sv_acks s)\<rparr> in
      if ok then conn_try_send i Ack s else s)"

text \<open>A reader takes its next request when it runs and the suspend it waits for is done.\<close>

definition conn_ready :: "Server \<Rightarrow> nat \<Rightarrow> bool" where
  "conn_ready s i \<longleftrightarrow>
     i < length (sv_conns s) \<and> cn_open (sv_conns s ! i) \<and>
     (case cn_waits (sv_conns s ! i) of
        None \<Rightarrow> True
      | Some t \<Rightarrow> t \<in> set (suspend_resolved (c_trace (sv_controller s))))"

datatype Server_event =
    Ev_accept
  | Ev_request nat ControlCmdIn
  | Ev_hangup nat
  | Ev_forward nat
  | Ev_ack nat bool
  | Ev_elsewhere Ctl_call

text \<open>
  One event; one that is not possible changes nothing. \<open>Ev_elsewhere\<close> is a call of another
  component of the driver; temporary entries are only made here.
\<close>

fun server_step :: "World \<Rightarrow> Server_event \<Rightarrow> Server \<Rightarrow> panic + Server" where
  "server_step w Ev_accept s = Inr (s\<lparr>sv_conns := sv_conns s @ [Conn_new]\<rparr>)"
| "server_step w (Ev_request i req) s = (if conn_ready s i then control_request_step w i req s else Inr s)"
| "server_step w (Ev_hangup i) s = (if i < length (sv_conns s) then Inr (close_conn i s) else Inr s)"
| "server_step w (Ev_forward k) s = (if k < length (sv_forwarders s) then forward_step w k s else Inr s)"
| "server_step w (Ev_ack k ok) s = (if k < length (sv_acks s) then Inr (ack_step k ok s) else Inr s)"
| "server_step w (Ev_elsewhere e) s =
     (if makes_channel e then Inr s
      else and_then (controller_call (server_world s w) e (sv_controller s)) (put_controller s))"

inductive server_run :: "MachineConfig \<Rightarrow> HooksConfig \<Rightarrow> Server \<Rightarrow> bool" for mc hooks where
  server_start: "server_run mc hooks (Server_new (Controller_new mc hooks))"
| server_more: "server_run mc hooks s \<Longrightarrow> server_step w e s = Inr s' \<Longrightarrow> server_run mc hooks s'"

subsection \<open>The invariant\<close>

text \<open>
  The channel of a current temporary entry is read by a forwarder of a connection that knows about
  the entry; a connection waits only for a suspend that was asked for.
\<close>

definition owned :: "Server \<Rightarrow> bool" where
  "owned s \<longleftrightarrow>
     (\<forall>ch. c_io_state (sv_controller s) = Io_TemporaryLightEntry ch \<longrightarrow>
       (\<exists>i n. (ch, i, n) \<in> set (sv_forwarders s) \<and> i < length (sv_conns s) \<and>
          cn_temp_entry (sv_conns s ! i)))"

definition waits_ok :: "Server \<Rightarrow> bool" where
  "waits_ok s \<longleftrightarrow>
     (\<forall>cn\<in>set (sv_conns s). \<forall>t. cn_waits cn = Some t \<longrightarrow>
       t \<in> set (suspend_awaited (c_trace (sv_controller s))))"

definition server_ok :: "MachineConfig \<Rightarrow> HooksConfig \<Rightarrow> Server \<Rightarrow> bool" where
  "server_ok mc hooks s \<longleftrightarrow>
     reachable mc hooks (sv_controller s) \<and> owned s \<and> waits_ok s \<and>
     (\<forall>(ch, i, n)\<in>set (sv_forwarders s). i < length (sv_conns s))"

lemma upd_conn_fields [simp]:
  "sv_controller (upd_conn i f s) = sv_controller s"
  "sv_forwarders (upd_conn i f s) = sv_forwarders s"
  "sv_acks (upd_conn i f s) = sv_acks s"
  "sv_next (upd_conn i f s) = sv_next s"
  "length (sv_conns (upd_conn i f s)) = length (sv_conns s)"
  by (simp_all add: upd_conn_def)

lemma nth_upd_conn:
  "j < length (sv_conns s) \<Longrightarrow> sv_conns (upd_conn i f s) ! j = (if i = j then f (sv_conns s ! j) else sv_conns s ! j)"
  by (auto simp: upd_conn_def nth_list_update)

lemma server_ok_controller:
  assumes "server_ok mc hooks s" and "reachable mc hooks c" and "frame_ok (sv_controller s) c"
  shows "server_ok mc hooks (s\<lparr>sv_controller := c\<rparr>)"
  using assms unfolding server_ok_def owned_def waits_ok_def frame_ok_def by fastforce

lemma server_ok_waits:
  "waits_ok s \<Longrightarrow> (\<And>t. cn_waits (f (sv_conns s ! i)) = Some t \<Longrightarrow>
      t \<in> set (suspend_awaited (c_trace (sv_controller s)))) \<Longrightarrow> waits_ok (upd_conn i f s)"
  unfolding waits_ok_def upd_conn_def
  by (auto dest!: set_update_subset_insert [THEN subsetD])

lemma waits_ok_still:
  assumes "waits_ok s" and "\<And>n. cn_waits (f n) = cn_waits n"
  shows "waits_ok (upd_conn i f s)"
proof (cases "i < length (sv_conns s)")
  case True
  then have "sv_conns s ! i \<in> set (sv_conns s)" by simp
  with assms show ?thesis by (intro server_ok_waits) (auto simp: waits_ok_def)
qed (use assms(1) in \<open>simp add: upd_conn_def list_update_beyond\<close>)

text \<open>A connection may change as long as it knows of its entry and waits for no other suspend.\<close>

lemma server_ok_conn:
  assumes "server_ok mc hooks s"
    and "cn_temp_entry (sv_conns s ! i) \<Longrightarrow> cn_temp_entry (f (sv_conns s ! i)) \<or>
      (\<forall>ch. c_io_state (sv_controller s) \<noteq> Io_TemporaryLightEntry ch)"
    and "\<And>t. cn_waits (f (sv_conns s ! i)) = Some t \<Longrightarrow>
      t \<in> set (suspend_awaited (c_trace (sv_controller s)))"
  shows "server_ok mc hooks (upd_conn i f s)"
proof -
  have "owned (upd_conn i f s)"
    unfolding owned_def
  proof (intro allI impI)
    fix ch assume ch: "c_io_state (sv_controller (upd_conn i f s)) = Io_TemporaryLightEntry ch"
    with assms(1) obtain j n where j: "(ch, j, n) \<in> set (sv_forwarders s)" "j < length (sv_conns s)"
        "cn_temp_entry (sv_conns s ! j)"
      by (auto simp: server_ok_def owned_def)
    with assms(2) ch have "cn_temp_entry (sv_conns (upd_conn i f s) ! j)" by (auto simp: nth_upd_conn)
    with j show "\<exists>j n. (ch, j, n) \<in> set (sv_forwarders (upd_conn i f s)) \<and>
        j < length (sv_conns (upd_conn i f s)) \<and> cn_temp_entry (sv_conns (upd_conn i f s) ! j)"
      by auto
  qed
  moreover have "waits_ok (upd_conn i f s)"
    using assms(1,3) by (intro server_ok_waits) (auto simp: server_ok_def)
  ultimately show ?thesis using assms(1) by (simp add: server_ok_def)
qed

lemma server_ok_still:
  assumes "server_ok mc hooks s" and "i < length (sv_conns s)"
    and "\<And>n. cn_temp_entry (f n) = cn_temp_entry n" and "\<And>n. cn_waits (f n) = cn_waits n"
  shows "server_ok mc hooks (upd_conn i f s)"
proof (rule server_ok_conn [OF assms(1)])
  have "sv_conns s ! i \<in> set (sv_conns s)" using assms(2) by simp
  then show "t \<in> set (suspend_awaited (c_trace (sv_controller s)))"
    if "cn_waits (f (sv_conns s ! i)) = Some t" for t
    using assms(1,4) that by (auto simp: server_ok_def waits_ok_def)
qed (simp add: assms(3))

lemma server_ok_push: "server_ok mc hooks s \<Longrightarrow> server_ok mc hooks (conn_push i cmd s)"
  unfolding conn_push_def
proof (cases "i < length (sv_conns s)")
  case False
  then show "server_ok mc hooks s \<Longrightarrow> server_ok mc hooks (upd_conn i (\<lambda>n. n\<lparr>cn_out := cn_out n @ [cmd]\<rparr>) s)"
    by (simp add: upd_conn_def list_update_beyond)
qed (rule server_ok_still, simp_all)

lemma server_ok_try_send: "server_ok mc hooks s \<Longrightarrow> server_ok mc hooks (conn_try_send i cmd s)"
  by (simp add: conn_try_send_def server_ok_push)

lemma server_ok_close: "server_ok mc hooks s \<Longrightarrow> i < length (sv_conns s) \<Longrightarrow> server_ok mc hooks (close_conn i s)"
  unfolding close_conn_def by (rule server_ok_still) simp_all

text \<open>A controller call, which is not a temporary entry.\<close>

lemma server_ok_call:
  assumes "server_ok mc hooks s" and "controller_call w e (sv_controller s) = Inr c" and "\<not> makes_channel e"
  shows "server_ok mc hooks (s\<lparr>sv_controller := c\<rparr>)"
proof (rule server_ok_controller [OF assms(1) _ controller_call_frame [OF assms(2,3)]])
  show "reachable mc hooks c" using assms(1,2) reachable_call by (auto simp: server_ok_def)
qed

lemma temporary_exit_not_temporary:
  "temporary_exit w c = Inr c' \<Longrightarrow> c_io_state c' \<noteq> Io_TemporaryLightEntry ch"
  using temporary_exit_state [of w c c'] by (auto simp: protocol_state_def split: if_splits)

lemma server_ok_exit:
  assumes "server_ok mc hooks s" and "temporary_exit w (sv_controller s) = Inr c"
  shows "server_ok mc hooks (s\<lparr>sv_controller := c\<rparr>)"
  by (rule server_ok_call [OF assms(1), where e = Call_temporary_exit and w = w])
    (simp_all add: assms(2) makes_channel_def)

subsection \<open>Every event keeps the invariant\<close>

lemma temporary_request_ok:
  assumes "server_ok mc hooks s" and "i < length (sv_conns s)" and "temporary_request w i req s = Inr s'"
  shows "server_ok mc hooks s'"
proof -
  from assms(3) obtain c where c: "temporary_exit w (sv_controller s) = Inr c"
    and s': "s' = (case req of Ctl_IoExit \<Rightarrow> upd_conn i (\<lambda>n. n\<lparr>cn_temp_entry := False\<rparr>) (s\<lparr>sv_controller := c\<rparr>)
        | _ \<Rightarrow> close_conn i (s\<lparr>sv_controller := c\<rparr>))"
    by (auto simp: temporary_request_def res_simps Let_def)
  let ?s = "s\<lparr>sv_controller := c\<rparr>"
  have ok: "server_ok mc hooks ?s" by (rule server_ok_exit [OF assms(1) c])
  have w: "t \<in> set (suspend_awaited (c_trace (sv_controller ?s)))"
    if "cn_waits (sv_conns ?s ! i) = Some t" for t
    using ok that assms(2) by (auto simp: server_ok_def waits_ok_def)
  have "server_ok mc hooks (upd_conn i (\<lambda>n. n\<lparr>cn_temp_entry := False\<rparr>) ?s)"
    using temporary_exit_not_temporary [OF c] w by (intro server_ok_conn [OF ok]) auto
  with server_ok_close [OF ok, of i] assms(2) show ?thesis
    unfolding s' by (cases req) simp_all
qed

lemma start_temporary_entry_ok:
  assumes "server_ok mc hooks s" and "i < length (sv_conns s)"
    and "start_temporary_entry w i x y s = Inr s'"
  shows "server_ok mc hooks s'"
proof -
  let ?ch = "sv_next s"
  from assms(3) obtain res c where t: "temporary_entry w ?ch x y (sv_controller s) = Inr (res, c)"
    by (auto simp: start_temporary_entry_def res_simps Let_def)
  then have call: "controller_call w (Call_temporary_entry ?ch x y) (sv_controller s) = Inr c"
    by (simp add: drop_result_def)
  have "reachable mc hooks (sv_controller s)" using assms(1) by (simp add: server_ok_def)
  from reachable_call [OF this call] have r: "reachable mc hooks c" .
  obtain es where es: "c_trace c = c_trace (sv_controller s) @ es"
    using temporary_entry_frame(1) [OF t] by blast
  let ?s = "s\<lparr>sv_controller := c, sv_next := ?ch + 1\<rparr>"
  have waits: "waits_ok (?s\<lparr>sv_forwarders := fs\<rparr>)" for fs
    using assms(1) es by (auto simp: server_ok_def waits_ok_def)
  show ?thesis
  proof (cases res)
    case False
    with temporary_entry_frame(2) [OF t] r es assms(1) have "server_ok mc hooks ?s"
      by (auto simp: server_ok_def owned_def waits_ok_def)
    with False t assms(2,3) show ?thesis
      by (simp add: start_temporary_entry_def Let_def) (metis server_ok_close select_convs(2) ext_inject
          surjective update_convs(1) update_convs(5))
  next
    case True
    let ?f = "\<lambda>n. n\<lparr>cn_temp_entry := True\<rparr>"
    let ?p = "conn_push i TemporaryLightAttached ?s"
    from True t assms(3) have s': "s' = upd_conn i ?f (?p\<lparr>sv_forwarders := sv_forwarders ?p @ [(?ch, i, 0)]\<rparr>)"
      by (auto simp: start_temporary_entry_def Let_def res_simps conn_send_def split: if_splits)
    have conns: "sv_conns s' ! i = ?f ((sv_conns s ! i)\<lparr>cn_out := cn_out (sv_conns s ! i) @ [TemporaryLightAttached]\<rparr>)"
      "length (sv_conns s') = length (sv_conns s)" "sv_forwarders s' = sv_forwarders s @ [(?ch, i, 0)]"
      "sv_controller s' = c"
      using assms(2) by (simp_all add: s' conn_push_def upd_conn_def)
    have "waits_ok ?p" unfolding conn_push_def using waits [of "sv_forwarders ?s"]
      by (intro waits_ok_still) simp_all
    then have "waits_ok (?p\<lparr>sv_forwarders := sv_forwarders ?p @ [(?ch, i, 0)]\<rparr>)" by (simp add: waits_ok_def)
    then have "waits_ok s'" unfolding s' by (rule waits_ok_still) simp
    moreover have "owned s'"
      unfolding owned_def conns
      using temporary_entry_frame(3) [OF t True] assms(2) by (intro allI impI exI [of _ i] exI [of _ 0]) (simp add: conns)
    ultimately show ?thesis using r assms(1,2) conns by (auto simp: server_ok_def)
  qed
qed

lemma end_forwarder_ok:
  assumes "server_ok mc hooks s" and "i < length (sv_conns s)" and "end_forwarder w k i s = Inr s'"
  shows "server_ok mc hooks s'"
proof -
  let ?fs = "take k (sv_forwarders s) @ drop (k + 1) (sv_forwarders s)"
  from assms(3) obtain c where c: "temporary_exit (server_world (s\<lparr>sv_forwarders := ?fs\<rparr>) w) (sv_controller s) = Inr c"
    and s': "s' = conn_try_send i TemporaryLightDetached (s\<lparr>sv_forwarders := ?fs, sv_controller := c\<rparr>)"
    by (auto simp: end_forwarder_def res_simps Let_def)
  have ok: "server_ok mc hooks (s\<lparr>sv_controller := c\<rparr>)" by (rule server_ok_exit [OF assms(1) c])
  have sub: "set ?fs \<subseteq> set (sv_forwarders s)"
    by (auto dest: in_set_takeD in_set_dropD)
  have "owned (s\<lparr>sv_forwarders := ?fs, sv_controller := c\<rparr>)"
    using temporary_exit_not_temporary [OF c] by (simp add: owned_def)
  moreover have "\<forall>(ch, i, n)\<in>set ?fs. i < length (sv_conns s)"
    using ok sub by (auto simp: server_ok_def)
  ultimately have "server_ok mc hooks (s\<lparr>sv_forwarders := ?fs, sv_controller := c\<rparr>)"
    using ok unfolding server_ok_def waits_ok_def by simp
  then show ?thesis unfolding s' by (rule server_ok_try_send)
qed

lemma forward_step_ok:
  assumes "server_ok mc hooks s" and "k < length (sv_forwarders s)" and "forward_step w k s = Inr s'"
  shows "server_ok mc hooks s'"
proof -
  obtain ch i n where f: "sv_forwarders s ! k = (ch, i, n)" by (cases "sv_forwarders s ! k")
  with assms(1,2) have i: "i < length (sv_conns s)"
    by (auto simp: server_ok_def dest!: bspec [OF _ nth_mem])
  let ?fs = "(sv_forwarders s)[k := (ch, i, n + 1)]"
  have "owned (s\<lparr>sv_forwarders := ?fs\<rparr>)"
    unfolding owned_def
  proof (intro allI impI)
    fix h assume "c_io_state (sv_controller (s\<lparr>sv_forwarders := ?fs\<rparr>)) = Io_TemporaryLightEntry h"
    with assms(1) obtain j m where j: "(h, j, m) \<in> set (sv_forwarders s)" "j < length (sv_conns s)"
        "cn_temp_entry (sv_conns s ! j)"
      by (auto simp: server_ok_def owned_def)
    then obtain l where "l < length (sv_forwarders s)" "sv_forwarders s ! l = (h, j, m)"
      by (auto simp: in_set_conv_nth)
    then have "\<exists>m. (h, j, m) \<in> set ?fs"
      using f assms(2) by (cases "l = k") (auto simp: in_set_conv_nth nth_list_update)
    with j show "\<exists>i n. (h, i, n) \<in> set (sv_forwarders (s\<lparr>sv_forwarders := ?fs\<rparr>)) \<and>
        i < length (sv_conns (s\<lparr>sv_forwarders := ?fs\<rparr>)) \<and> cn_temp_entry (sv_conns (s\<lparr>sv_forwarders := ?fs\<rparr>) ! i)"
      by auto
  qed
  moreover have "\<forall>(ch, i, n)\<in>set ?fs. i < length (sv_conns s)"
    using assms(1) i by (auto simp: server_ok_def dest!: set_update_subset_insert [THEN subsetD])
  ultimately have "server_ok mc hooks (s\<lparr>sv_forwarders := ?fs\<rparr>)"
    using assms(1) by (simp add: server_ok_def waits_ok_def)
  with i have "server_ok mc hooks (conn_push i cmd (s\<lparr>sv_forwarders := ?fs\<rparr>))" for cmd
    by (intro server_ok_push)
  with assms f i show ?thesis
    by (auto simp: forward_step_def Let_def intro: end_forwarder_ok split: if_splits)
qed

lemma suspend_request_ok:
  assumes "server_ok mc hooks s" and "i < length (sv_conns s)" and "suspend_request w i s = Inr s'"
  shows "server_ok mc hooks s'"
proof -
  from assms(3) obtain fut c where c: "suspend w (sv_controller s) = Inr (fut, c)"
    and s': "s' = upd_conn i (\<lambda>n. n\<lparr>cn_waits := (case fut of Resolved \<Rightarrow> None | Waiting t \<Rightarrow> Some t)\<rparr>)
      (s\<lparr>sv_controller := c\<rparr>)"
    by (auto simp: suspend_request_def res_simps)
  have ok: "server_ok mc hooks (s\<lparr>sv_controller := c\<rparr>)"
    by (rule server_ok_call [OF assms(1), where e = Call_suspend and w = w])
      (simp_all add: c drop_result_def makes_channel_def)
  have "t \<in> set (suspend_awaited (c_trace c))" if "fut = Waiting t" for t
    using c that by (auto simp: suspend_def res_simps ctl_returns Let_def split: if_splits)
  then show ?thesis unfolding s'
    by (intro server_ok_conn [OF ok]) (auto split: suspend_future.splits)
qed

lemma backup_request_ok:
  assumes "server_ok mc hooks s" and "backup_request f i s = Inr s'"
    and "\<And>a. f a = controller_call w (e a)" and "\<And>a. \<not> makes_channel (e a)"
  shows "server_ok mc hooks s'"
proof -
  from assms(2,3) obtain c where c: "controller_call w (e (sv_next s)) (sv_controller s) = Inr c"
    and s': "s' = s\<lparr>sv_controller := c, sv_next := sv_next s + 1, sv_acks := sv_acks s @ [(sv_next s, i)]\<rparr>"
    by (auto simp: backup_request_def res_simps Let_def simp del: controller_call.simps)
  from server_ok_call [OF assms(1) c assms(4)] show ?thesis
    by (simp add: s' server_ok_def owned_def waits_ok_def)
qed

lemma control_request_step_ok:
  assumes "server_ok mc hooks s" and "i < length (sv_conns s)" and "control_request_step w i req s = Inr s'"
  shows "server_ok mc hooks s'"
proof (cases "cn_temp_entry (sv_conns s ! i)")
  case True
  with assms show ?thesis by (auto simp: control_request_step_def Let_def intro: temporary_request_ok)
next
  case False
  let ?w = "server_world s w"
  have call: "server_ok mc hooks s'"
    if "and_then (controller_call ?w e (sv_controller s)) (put_controller s) = Inr s'" "\<not> makes_channel e" for e
    using that server_ok_call [OF assms(1)]
    by (auto simp: put_controller_def res_simps simp del: controller_call.simps)
  note step = assms(3) [unfolded control_request_step_def Let_def if_not_P [OF False]]
  show ?thesis
  proof (cases req)
    case Ctl_IoEntry
    with step call [of Call_io_attach] show ?thesis by (simp add: makes_channel_def)
  next
    case Ctl_TryIoEntry
    with step call [of Call_try_attach] show ?thesis by (simp add: makes_channel_def)
  next
    case Ctl_LightEntry
    with step call [of Call_light_attach] show ?thesis by (simp add: makes_channel_def)
  next
    case Ctl_Shutdown
    with step call [of Call_shutdown] show ?thesis by (simp add: makes_channel_def)
  next
    case Ctl_ForceIoEntry
    with step call [of Call_io_force_attach] show ?thesis by (simp add: makes_channel_def)
  next
    case Ctl_IoExit
    with step call [of Call_io_detach] show ?thesis by (simp add: makes_channel_def)
  next
    case Ctl_Suspend
    with step assms(1,2) show ?thesis by (auto intro: suspend_request_ok)
  next
    case (Ctl_TemporaryLightEntry x y)
    with step assms(1,2) show ?thesis by (auto intro: start_temporary_entry_ok)
  next
    case Ctl_EnterBackupMode
    with step show ?thesis
      by (intro backup_request_ok [OF assms(1), where e = Call_enter_backup_mode and w = ?w and i = i
            and f = "enter_backup_mode ?w"]) (simp_all add: makes_channel_def fun_eq_iff)
  next
    case Ctl_LeaveBackupMode
    with step show ?thesis
      by (intro backup_request_ok [OF assms(1), where e = Call_leave_backup_mode and w = ?w and i = i
            and f = "leave_backup_mode ?w"]) (simp_all add: makes_channel_def fun_eq_iff)
  qed
qed

lemma server_step_ok:
  assumes "server_ok mc hooks s" and "server_step w e s = Inr s'"
  shows "server_ok mc hooks s'"
proof (cases e)
  case Ev_accept
  with assms(2) have s': "s' = s\<lparr>sv_conns := sv_conns s @ [Conn_new]\<rparr>" by simp
  have "owned s'"
    unfolding owned_def
  proof (intro allI impI)
    fix ch assume "c_io_state (sv_controller s') = Io_TemporaryLightEntry ch"
    with assms(1) obtain i n where "(ch, i, n) \<in> set (sv_forwarders s)" "i < length (sv_conns s)"
        "cn_temp_entry (sv_conns s ! i)"
      by (auto simp: server_ok_def owned_def s')
    then show "\<exists>i n. (ch, i, n) \<in> set (sv_forwarders s') \<and> i < length (sv_conns s') \<and>
        cn_temp_entry (sv_conns s' ! i)"
      by (intro exI [of _ i] exI [of _ n]) (simp add: s' nth_append)
  qed
  moreover have "waits_ok s'"
    using assms(1) by (auto simp: server_ok_def waits_ok_def s' Conn_new_def)
  moreover have "\<forall>(ch, i, n)\<in>set (sv_forwarders s'). i < length (sv_conns s')"
    using assms(1) by (auto simp: server_ok_def s')
  ultimately show ?thesis using assms(1) by (simp add: server_ok_def s')
next
  case (Ev_request i req)
  with assms show ?thesis
    by (auto simp: conn_ready_def intro: control_request_step_ok split: if_splits)
next
  case (Ev_hangup i)
  with assms show ?thesis by (auto intro: server_ok_close split: if_splits)
next
  case (Ev_forward k)
  with assms show ?thesis by (auto intro: forward_step_ok split: if_splits)
next
  case (Ev_ack k ok)
  have acks: "server_ok mc hooks (s\<lparr>sv_acks := as\<rparr>)" for as
    using assms(1) by (simp add: server_ok_def owned_def waits_ok_def)
  from Ev_ack assms acks show ?thesis
    by (cases "sv_acks s ! k") (auto simp: ack_step_def Let_def server_ok_try_send split: if_splits)
next
  case (Ev_elsewhere c)
  with assms server_ok_call [OF assms(1)] show ?thesis
    by (auto simp: put_controller_def res_simps simp del: controller_call.simps split: if_splits)
qed


lemma server_new_ok: "server_ok mc hooks (Server_new (Controller_new mc hooks))"
proof -
  have "c_io_state (Controller_new mc hooks) = Io_Detached" by (simp add: Controller_new_def)
  then show ?thesis by (simp add: server_ok_def Server_new_def owned_def waits_ok_def reachable_new)
qed

lemma server_run_ok: "server_run mc hooks s \<Longrightarrow> server_ok mc hooks s"
  by (induction rule: server_run.induct) (auto intro: server_new_ok server_step_ok)

text \<open>In a healthy environment every channel the controller may write to is open.\<close>

lemma server_world_healthy [simp]: "w_healthy (server_world s w) = w_healthy w"
  by (simp add: w_healthy_def server_world_def)

lemma server_world_open:
  assumes "owned s"
  shows "temporary_open (server_world s w) (sv_controller s)"
  using assms by (force simp: temporary_open_def server_world_def owned_def)

lemma returns_request:
  assumes w: "w_healthy w" and "owned s" and "cn_open (sv_conns s ! i)" and "i < length (sv_conns s)"
  shows "returns (control_request_step w i req s)"
proof -
  let ?w = "server_world s w"
  have w': "w_healthy ?w" using w by simp
  have t: "temporary_open ?w (sv_controller s)" using assms(2) by (rule server_world_open)
  have exit: "returns (temporary_request ?w i req s)"
    by (simp add: temporary_request_def returns_and_then returns_temporary_exit [OF w'] Let_def)
  have call: "returns (and_then (controller_call ?w e (sv_controller s)) (put_controller s))" for e
    by (intro returns_and_then controller_call_returns w' t) (simp add: put_controller_def)
  have "returns (start_temporary_entry ?w i x y s)" for x y
    using assms(3)
    by (auto simp: start_temporary_entry_def Let_def conn_send_def
        intro!: returns_and_then returns_temporary_entry w')
  moreover have "returns (suspend_request ?w i s)"
  proof -
    have "returns (controller_call ?w Call_suspend (sv_controller s))" by (rule controller_call_returns [OF w' t])
    then have "returns (suspend ?w (sv_controller s))"
      by (cases "suspend ?w (sv_controller s)") (simp_all add: drop_result_def returns_def)
    then show ?thesis by (auto simp: suspend_request_def intro!: returns_and_then)
  qed
  moreover have "returns (backup_request (enter_backup_mode ?w) i s)" "returns (backup_request (leave_backup_mode ?w) i s)"
    using returns_backup [OF w'] by (auto simp: backup_request_def Let_def intro!: returns_and_then)
  ultimately show ?thesis
    using exit call [of Call_io_attach] call [of Call_shutdown] call [of Call_io_force_attach]
      call [of Call_io_detach] call [of Call_try_attach] call [of Call_light_attach]
    unfolding control_request_step_def Let_def by (simp split: ControlCmdIn.split)
qed

lemma returns_forward:
  assumes "w_healthy w"
  shows "returns (forward_step w k s)"
proof -
  have "returns (end_forwarder w k i s)" for i
    using assms unfolding end_forwarder_def Let_def
    by (intro returns_and_then returns_temporary_exit) simp_all
  then show ?thesis by (simp add: forward_step_def Let_def split: prod.split)
qed

lemma returns_forward_event: "w_healthy w \<Longrightarrow> returns (server_step w (Ev_forward k) s)"
  by (simp add: returns_forward)

lemma server_step_returns:
  assumes "w_healthy w" and "owned s"
  shows "returns (server_step w e s)"
proof (cases e)
  case (Ev_request i req)
  with assms show ?thesis by (auto simp: conn_ready_def intro: returns_request)
next
  case (Ev_forward k)
  with assms show ?thesis by (simp add: returns_forward)
next
  case (Ev_elsewhere c)
  have "temporary_open (server_world s w) (sv_controller s)"
    using assms(2) by (rule server_world_open)
  with assms(1) have "returns (controller_call (server_world s w) c (sv_controller s))"
    by (intro controller_call_returns) simp_all
  with Ev_elsewhere show ?thesis by (auto intro: returns_and_then simp: put_controller_def)
qed simp_all

subsection \<open>Properties\<close>

text \<open>
  Safety: in a healthy environment no event of the control socket makes the driver panic: the
  channel of a temporary entry always has a live receiver, whatever connections come, go or hang up.
\<close>

lemma control_server_never_panics:
  assumes "server_run mc hooks s" and "w_healthy w"
  shows "\<exists>s'. server_step w e s = Inr s' \<and> server_run mc hooks s'"
  using server_step_returns [OF assms(2), of s e] server_run_ok [OF assms(1)] server_more [OF assms(1)]
  by (auto simp: returns_def server_ok_def)

lemma control_server_never_panics_witness:
  "\<exists>s. server_step demo_world (Ev_elsewhere Call_io_force_attach) (Server_new demo_controller) = Inr s \<and>
     server_run demo_machine HooksConfig_default s"
  unfolding demo_controller_def by (rule control_server_never_panics [OF server_start demo_healthy])

text \<open>
  C26: Invariant: the channel of the current temporary entry is read by a forwarder of a connection
  whose reader knows that it is in the entry, so its client can always leave it; and what the
  sockets do to the controller is a run of the controller.
\<close>

theorem temporary_entry_owned:
  assumes "server_run mc hooks s"
  shows "reachable mc hooks (sv_controller s) \<and>
    (\<forall>ch. c_io_state (sv_controller s) = Io_TemporaryLightEntry ch \<longrightarrow>
      (\<exists>i n. (ch, i, n) \<in> set (sv_forwarders s) \<and> i < length (sv_conns s) \<and>
        cn_temp_entry (sv_conns s ! i)))"
  using server_run_ok [OF assms] by (simp add: server_ok_def owned_def)

theorem temporary_entry_owned_witness:
  "\<exists>s1 s2 s3 ch i n. server_step demo_world Ev_accept (Server_new demo_controller) = Inr s1 \<and>
     server_step demo_world (Ev_elsewhere Call_ga_hello) s1 = Inr s2 \<and>
     server_step demo_world (Ev_request 0 (Ctl_TemporaryLightEntry 3 4)) s2 = Inr s3 \<and>
     c_io_state (sv_controller s3) = Io_TemporaryLightEntry ch \<and>
     (ch, i, n) \<in> set (sv_forwarders s3) \<and> cn_temp_entry (sv_conns s3 ! i)"
proof -
  let ?s0 = "Server_new demo_controller" and ?w = "\<lambda>s. server_world s demo_world"
  obtain s1 where 1: "server_step demo_world Ev_accept ?s0 = Inr s1" by simp
  have f1: "sv_conns s1 = [Conn_new]" "sv_controller s1 = demo_controller"
    using 1 by (auto simp: Server_new_def)
  have o1: "owned s1" by (simp add: owned_def f1 demo_controller_def Controller_new_def)
  obtain s2 where 2: "server_step demo_world (Ev_elsewhere Call_ga_hello) s1 = Inr s2"
    using server_step_returns [OF demo_healthy o1] unfolding returns_def by blast
  then have c2: "controller_call (?w s1) Call_ga_hello demo_controller = Inr (sv_controller s2)"
      "sv_conns s2 = [Conn_new]"
    by (auto simp: makes_channel_def put_controller_def res_simps f1 simp del: controller_call.simps)
  from protocol_refines [OF c2(1)] have p2: "protocol_state (sv_controller s2) = (St_Up, Detached_kind)"
    by (simp add: protocol_state_def demo_controller_def Controller_new_def spec_simps)
  then have o2: "owned s2" by (auto simp: owned_def protocol_state_def)
  obtain s3 where 3: "server_step demo_world (Ev_request 0 (Ctl_TemporaryLightEntry 3 4)) s2 = Inr s3"
    using server_step_returns [OF demo_healthy o2] unfolding returns_def by blast
  have "conn_ready s2 0" "\<not> cn_temp_entry (sv_conns s2 ! 0)"
    using c2(2) by (simp_all add: conn_ready_def Conn_new_def)
  with 3 have "start_temporary_entry (?w s2) 0 3 4 s2 = Inr s3"
    by (simp add: control_request_step_def Let_def)
  then obtain res c where "temporary_entry (?w s2) (sv_next s2) 3 4 (sv_controller s2) = Inr (res, c)"
      "sv_controller s3 = c"
    by (auto simp: start_temporary_entry_def Let_def res_simps conn_send_def conn_push_def close_conn_def
        split: if_splits)
  then have "controller_call (?w s2) (Call_temporary_entry (sv_next s2) 3 4) (sv_controller s2) =
      Inr (sv_controller s3)"
    by (simp add: drop_result_def)
  from protocol_refines [OF this] p2 have "protocol_state (sv_controller s3) = (St_Up, Temporary_kind)" by simp
  then obtain ch where ch: "c_io_state (sv_controller s3) = Io_TemporaryLightEntry ch"
    by (cases "c_io_state (sv_controller s3)") (auto simp: protocol_state_def)
  have "server_run demo_machine HooksConfig_default s3"
    using server_more [OF server_more [OF server_more [OF server_start 1 [unfolded demo_controller_def]] 2] 3] .
  from temporary_entry_owned [OF this] ch obtain i n where "(ch, i, n) \<in> set (sv_forwarders s3)"
      "cn_temp_entry (sv_conns s3 ! i)" by blast
  with 1 2 3 ch show ?thesis by blast
qed

text \<open>
  C27: Liveness: once Windows is suspended, no connection waits any more: every one that is still
  open takes its next request.
\<close>

theorem suspend_releases_readers:
  assumes "server_run mc hooks s" and "c_ga (sv_controller s) = St_Suspended"
    and "i < length (sv_conns s)" and "cn_open (sv_conns s ! i)"
  shows "conn_ready s i"
proof -
  have ok: "server_ok mc hooks s" by (rule server_run_ok [OF assms(1)])
  then have "suspend_ok (sv_controller s)"
    using reachable_ok by (auto simp: server_ok_def controller_ok_def)
  with assms(2) have "suspend_awaited (c_trace (sv_controller s)) = suspend_resolved (c_trace (sv_controller s))"
    by (simp add: suspend_ok_def)
  with ok assms(3,4) show ?thesis
    by (auto simp: conn_ready_def server_ok_def waits_ok_def split: option.splits)
qed

theorem suspend_releases_readers_witness:
  "\<exists>s1 s2 s3. server_step demo_world Ev_accept (Server_new demo_controller) = Inr s1 \<and>
     server_step demo_world (Ev_request 0 Ctl_Suspend) s1 = Inr s2 \<and> \<not> conn_ready s2 0 \<and>
     server_step demo_world (Ev_elsewhere Call_qemu_suspended) s2 = Inr s3 \<and> conn_ready s3 0"
proof -
  let ?s0 = "Server_new demo_controller"
  obtain s1 where 1: "server_step demo_world Ev_accept ?s0 = Inr s1" by simp
  have f1: "sv_conns s1 = [Conn_new]" "sv_controller s1 = demo_controller"
    using 1 by (auto simp: Server_new_def)
  obtain s2 where 2: "server_step demo_world (Ev_request 0 Ctl_Suspend) s1 = Inr s2"
    using returns_request [OF demo_healthy, of s1 0 Ctl_Suspend] f1
    by (auto simp: returns_def conn_ready_def Conn_new_def owned_def demo_controller_def Controller_new_def)
  have open_w: "w_clientpipe_open (server_world s1 demo_world)" by (simp add: server_world_def demo_world_def)
  from 2 f1 open_w have f2: "sv_conns s2 = [Conn_new\<lparr>cn_waits := Some 0\<rparr>]"
      "c_trace (sv_controller s2) = [To_ga Ga_Suspend, Suspend_waits 0]"
    by (auto simp: conn_ready_def Conn_new_def control_request_step_def suspend_request_def suspend_def
        res_simps ctl_returns Let_def upd_conn_def demo_controller_def Controller_new_def)
  obtain s3 where 3: "server_step demo_world (Ev_elsewhere Call_qemu_suspended) s2 = Inr s3"
    by (simp add: makes_channel_def put_controller_def)
  then have f3: "sv_conns s3 = sv_conns s2" "c_ga (sv_controller s3) = St_Suspended"
    by (auto simp: makes_channel_def put_controller_def qemu_suspended_def)
  have "server_run demo_machine HooksConfig_default s3"
    using server_more [OF server_more [OF server_more [OF server_start 1 [unfolded demo_controller_def]] 2] 3] .
  from suspend_releases_readers [OF this f3(2), of 0] f2 f3 have "conn_ready s3 0" by (simp add: Conn_new_def)
  moreover have "\<not> conn_ready s2 0" using f2 by (simp add: conn_ready_def)
  ultimately show ?thesis using 1 2 3 by blast
qed

text \<open>
  A connection whose temporary entry has ended without it does not know: it ignores its next
  request and, unless that is an exit, closes; and if another client is in a temporary entry by
  then, it ends that one's.
\<close>

lemma stale_temporary_flag:
  assumes "conn_ready s i" and "cn_temp_entry (sv_conns s ! i)"
    and "server_step w (Ev_request i req) s = Inr s'"
  shows "((\<forall>ch. c_io_state (sv_controller s) \<noteq> Io_TemporaryLightEntry ch) \<longrightarrow> sv_controller s' = sv_controller s) \<and>
    ((\<exists>ch. c_io_state (sv_controller s) = Io_TemporaryLightEntry ch) \<longrightarrow>
      c_io_state (sv_controller s') = Io_Detached) \<and>
    (req \<noteq> Ctl_IoExit \<longrightarrow> \<not> cn_open (sv_conns s' ! i))"
proof -
  have i: "i < length (sv_conns s)" using assms(1) by (simp add: conn_ready_def)
  from assms obtain c where c: "temporary_exit (server_world s w) (sv_controller s) = Inr c"
    and s': "s' = (case req of Ctl_IoExit \<Rightarrow> upd_conn i (\<lambda>n. n\<lparr>cn_temp_entry := False\<rparr>) (s\<lparr>sv_controller := c\<rparr>)
        | _ \<Rightarrow> close_conn i (s\<lparr>sv_controller := c\<rparr>))"
    by (auto simp: control_request_step_def temporary_request_def res_simps Let_def)
  have c': "sv_controller s' = c" unfolding s' by (cases req) (simp_all add: close_conn_def)
  have "(\<forall>ch. c_io_state (sv_controller s) \<noteq> Io_TemporaryLightEntry ch) \<longrightarrow> c = sv_controller s"
    using c by (auto simp: temporary_exit_def split: IoState.splits)
  moreover have "c_io_state c = Io_Detached" if "c_io_state (sv_controller s) = Io_TemporaryLightEntry ch" for ch
    using temporary_exit_state [OF c] that by (cases "c_io_state c") (simp_all add: protocol_state_def)
  moreover have "\<not> cn_open (sv_conns s' ! i)" if "req \<noteq> Ctl_IoExit"
    using that i unfolding s' by (cases req) (simp_all add: close_conn_def nth_upd_conn)
  ultimately show ?thesis unfolding c' by blast
qed

text \<open>The connections of two clients, the second of them in the temporary entry.\<close>

definition demo_two_clients :: Server where
  "demo_two_clients =
     \<lparr>sv_controller = demo_controller\<lparr>c_ga := St_Up, c_io_state := Io_TemporaryLightEntry 1\<rparr>,
      sv_conns = [Conn_new\<lparr>cn_temp_entry := True\<rparr>, Conn_new\<lparr>cn_temp_entry := True\<rparr>],
      sv_forwarders = [(1, 1, 0)], sv_acks = [], sv_next = 2\<rparr>"

lemma demo_two_clients_simps [simp]:
  "conn_ready demo_two_clients 0" "conn_ready demo_two_clients 1"
  "cn_temp_entry (sv_conns demo_two_clients ! 0)"
  "c_io_state (sv_controller demo_two_clients) = Io_TemporaryLightEntry 1"
  "sv_forwarders demo_two_clients = [(1, 1, 0)]" "sv_conns demo_two_clients ! Suc 0 = Conn_new\<lparr>cn_temp_entry := True\<rparr>"
  "c_trace (sv_controller demo_two_clients) = []"
  "length (sv_conns demo_two_clients) = 2"
  by (simp_all add: demo_two_clients_def conn_ready_def Conn_new_def demo_controller_def Controller_new_def)

lemma demo_two_clients_owned: "owned demo_two_clients"
  unfolding owned_def by (intro allI impI exI [of _ 1] exI [of _ 0]) simp

lemma stale_temporary_flag_witness:
  "\<exists>s'. server_step demo_world (Ev_request 0 Ctl_LightEntry) demo_two_clients = Inr s' \<and>
     c_io_state (sv_controller s') = Io_Detached \<and> \<not> cn_open (sv_conns s' ! 0)"
proof -
  obtain s' where s': "server_step demo_world (Ev_request 0 Ctl_LightEntry) demo_two_clients = Inr s'"
    using server_step_returns [OF demo_healthy demo_two_clients_owned] unfolding returns_def by blast
  have "conn_ready demo_two_clients 0" "cn_temp_entry (sv_conns demo_two_clients ! 0)" by simp_all
  from stale_temporary_flag [OF this s'] s' show ?thesis by auto
qed

subsubsection \<open>Messages on a channel\<close>

lemma channel_sent_append: "channel_sent ch (xs @ ys) = channel_sent ch xs @ channel_sent ch ys"
  by (induction xs) (simp_all add: channel_sent_def List.map_filter_def)

lemma channel_sent_none:
  "(\<And>e cmd. e \<in> set es \<Longrightarrow> e \<noteq> To_control ch cmd) \<Longrightarrow> channel_sent ch es = []"
  by (induction es) (auto simp: channel_sent_def List.map_filter_def split: Effect.splits if_splits)

lemma channel_sent_quiet [simp]:
  "channel_sent ch (map Li_remove hs) = []" "channel_sent ch (map To_monitor cmds) = []"
  "channel_sent ch (entry_effects w c) = []" "channel_sent ch [] = []"
  "channel_sent ch (To_control ch cmd # es) = cmd # channel_sent ch es"
  by (auto intro!: channel_sent_none simp: entry_effects_def hook_effects_def split: option.splits)
    (simp_all add: channel_sent_def List.map_filter_def)

lemma force_attach_sent:
  assumes "io_force_attach w c = Inr c'" and "c_io_state c = Io_TemporaryLightEntry ch"
  shows "channel_sent ch (c_trace c') = channel_sent ch (c_trace c) @ [TemporaryLightDetached]"
    and "c_io_state c' = Io_FullEntry"
  using io_force_attach_Inr [OF assms(1)] assms(2)
  by (simp_all add: release_input_def channel_sent_append)

lemma forward_step_sends:
  assumes "k < length (sv_forwarders s)" and "sv_forwarders s ! k = (ch, i, n)"
    and "n < length (channel_sent ch (c_trace (sv_controller s)))" and "cn_open (sv_conns s ! i)"
  shows "server_step w (Ev_forward k) s =
    Inr (conn_push i (channel_sent ch (c_trace (sv_controller s)) ! n)
      (s\<lparr>sv_forwarders := (sv_forwarders s)[k := (ch, i, n + 1)]\<rparr>))"
  using assms by (simp add: forward_step_def)

lemma conn_push_out:
  "i < length (sv_conns s) \<Longrightarrow> cn_out (sv_conns (conn_push i cmd s) ! i) = cn_out (sv_conns s ! i) @ [cmd]"
  "i < length (sv_conns s) \<Longrightarrow> cn_open (sv_conns (conn_push i cmd s) ! i) = cn_open (sv_conns s ! i)"
  by (simp_all add: conn_push_def nth_upd_conn)

lemma conn_push_rest [simp]:
  "sv_controller (conn_push i cmd s) = sv_controller s" "sv_forwarders (conn_push i cmd s) = sv_forwarders s"
  "length (sv_conns (conn_push i cmd s)) = length (sv_conns s)"
  by (simp_all add: conn_push_def)

text \<open>
  A forced attach out of a temporary entry tells its client twice that it has ended: once
  through the entry's channel and once when the forwarder finds the channel dropped.
\<close>

lemma forced_attach_detaches_twice:
  assumes "c_io_state (sv_controller s) = Io_TemporaryLightEntry ch"
    and "k < length (sv_forwarders s)"
    and "sv_forwarders s ! k = (ch, i, length (channel_sent ch (c_trace (sv_controller s))))"
    and "i < length (sv_conns s)" and "cn_open (sv_conns s ! i)"
    and "server_step w1 (Ev_elsewhere Call_io_force_attach) s = Inr s1"
    and "server_step w2 (Ev_forward k) s1 = Inr s2" and "server_step w3 (Ev_forward k) s2 = Inr s3"
  shows "cn_out (sv_conns s3 ! i) =
    cn_out (sv_conns s ! i) @ [TemporaryLightDetached, TemporaryLightDetached]"
proof -
  let ?sent = "channel_sent ch (c_trace (sv_controller s))"
  from assms(6) obtain c where c: "io_force_attach (server_world s w1) (sv_controller s) = Inr c"
    and s1: "s1 = s\<lparr>sv_controller := c\<rparr>"
    by (auto simp: makes_channel_def put_controller_def res_simps)
  note sent = force_attach_sent [OF c assms(1)]
  have "k < length (sv_forwarders s1)" "sv_forwarders s1 ! k = (ch, i, length ?sent)"
    "length ?sent < length (channel_sent ch (c_trace (sv_controller s1)))" "cn_open (sv_conns s1 ! i)"
    using assms sent by (simp_all add: s1)
  from forward_step_sends [OF this, of w2] assms(7) have
    s2: "s2 = conn_push i (channel_sent ch (c_trace c) ! length ?sent)
      (s1\<lparr>sv_forwarders := (sv_forwarders s1)[k := (ch, i, length ?sent + 1)]\<rparr>)"
    by (simp add: s1)
  have out2: "cn_out (sv_conns s2 ! i) = cn_out (sv_conns s ! i) @ [TemporaryLightDetached]"
      "cn_open (sv_conns s2 ! i)" "sv_controller s2 = c" "sv_forwarders s2 ! k = (ch, i, length ?sent + 1)"
      "k < length (sv_forwarders s2)" "i < length (sv_conns s2)"
    using assms sent by (simp_all add: s2 conn_push_out s1 nth_append)
  from out2 sent assms(8) have "end_forwarder w3 k i s2 = Inr s3" by (simp add: forward_step_def)
  then have "s3 = conn_try_send i TemporaryLightDetached
      (s2\<lparr>sv_forwarders := take k (sv_forwarders s2) @ drop (k + 1) (sv_forwarders s2), sv_controller := c\<rparr>)"
    using sent(2) out2(3) by (simp add: end_forwarder_def temporary_exit_def Let_def)
  then show ?thesis using out2 by (simp add: conn_try_send_def conn_push_out)
qed

lemma forced_attach_detaches_twice_witness:
  "\<exists>s1 s2 s3. server_step demo_world (Ev_elsewhere Call_io_force_attach) demo_two_clients = Inr s1 \<and>
     server_step demo_world (Ev_forward 0) s1 = Inr s2 \<and> server_step demo_world (Ev_forward 0) s2 = Inr s3 \<and>
     cn_out (sv_conns s3 ! 1) = [TemporaryLightDetached, TemporaryLightDetached]"
proof -
  obtain s1 where 1: "server_step demo_world (Ev_elsewhere Call_io_force_attach) demo_two_clients = Inr s1"
    using server_step_returns [OF demo_healthy demo_two_clients_owned] unfolding returns_def by blast
  obtain s2 where 2: "server_step demo_world (Ev_forward 0) s1 = Inr s2"
    using returns_forward_event [OF demo_healthy] unfolding returns_def by blast
  obtain s3 where 3: "server_step demo_world (Ev_forward 0) s2 = Inr s3"
    using returns_forward_event [OF demo_healthy] unfolding returns_def by blast
  have "c_io_state (sv_controller demo_two_clients) = Io_TemporaryLightEntry 1"
    "0 < length (sv_forwarders demo_two_clients)"
    "sv_forwarders demo_two_clients ! 0 =
      (1, 1, length (channel_sent 1 (c_trace (sv_controller demo_two_clients))))"
    "1 < length (sv_conns demo_two_clients)" "cn_open (sv_conns demo_two_clients ! 1)"
    by (simp_all add: Conn_new_def)
  from forced_attach_detaches_twice [OF this 1 2 3] 1 2 3 show ?thesis by (auto simp: Conn_new_def)
qed

text \<open>
  A client that hangs up in its temporary entry leaves the entry behind: the forwarder only
  notices at the next mouse edge.
\<close>

lemma hangup_keeps_entry:
  assumes "c_io_state (sv_controller s) = Io_TemporaryLightEntry ch"
    and "k < length (sv_forwarders s)"
    and "sv_forwarders s ! k = (ch, i, length (channel_sent ch (c_trace (sv_controller s))))"
    and "i < length (sv_conns s)"
    and "server_step w1 (Ev_hangup i) s = Inr s1"
    and "server_step w2 (Ev_elsewhere (Call_mouse_edged x y)) s1 = Inr s2"
    and "server_step w3 (Ev_forward k) s2 = Inr s3"
  shows "server_step w (Ev_forward k) s1 = Inr s1 \<and>
    c_io_state (sv_controller s1) = Io_TemporaryLightEntry ch \<and>
    c_io_state (sv_controller s3) = Io_Detached"
proof -
  let ?sent = "channel_sent ch (c_trace (sv_controller s))"
  have s1: "s1 = close_conn i s" using assms(4,5) by simp
  then have f1: "sv_controller s1 = sv_controller s" "sv_forwarders s1 = sv_forwarders s"
      "\<not> cn_open (sv_conns s1 ! i)"
    using assms(4) by (simp_all add: close_conn_def nth_upd_conn)
  with assms(1-3) have 1: "server_step w (Ev_forward k) s1 = Inr s1" by (simp add: forward_step_def)
  from assms(1,6) f1 have s2: "s2 = s1\<lparr>sv_controller := emit [To_control ch (MouseEdged x y)] (sv_controller s)\<rparr>"
    by (auto simp: makes_channel_def put_controller_def res_simps mouse_edged_def ctl_returns)
  have "k < length (sv_forwarders s2)" using assms(2) by (simp add: s2 f1)
  moreover have "forward_step w3 k s2 = end_forwarder w3 k i s2"
    using assms(3) f1 by (simp add: forward_step_def s2 channel_sent_append)
  ultimately have "end_forwarder w3 k i s2 = Inr s3" using assms(7) by simp
  then obtain w' c where c: "temporary_exit w' (sv_controller s2) = Inr c" "sv_controller s3 = c"
    by (auto simp: end_forwarder_def res_simps Let_def conn_try_send_def)
  have "c_io_state (sv_controller s2) = Io_TemporaryLightEntry ch" by (simp add: s2 assms(1))
  with temporary_exit_state [OF c(1)] have "c_io_state c = Io_Detached"
    by (cases "c_io_state c") (simp_all add: protocol_state_def)
  with 1 f1 assms(1) c(2) show ?thesis by simp
qed

lemma hangup_keeps_entry_witness:
  "\<exists>s1 s2 s3. server_step demo_world (Ev_hangup 1) demo_two_clients = Inr s1 \<and>
     server_step demo_world (Ev_elsewhere (Call_mouse_edged 7 8)) s1 = Inr s2 \<and>
     server_step demo_world (Ev_forward 0) s2 = Inr s3 \<and>
     c_io_state (sv_controller s1) = Io_TemporaryLightEntry 1 \<and> c_io_state (sv_controller s3) = Io_Detached"
proof -
  obtain s1 where 1: "server_step demo_world (Ev_hangup 1) demo_two_clients = Inr s1" by simp
  then have "owned s1"
    by (auto simp: owned_def close_conn_def upd_conn_def Conn_new_def)
  then obtain s2 where 2: "server_step demo_world (Ev_elsewhere (Call_mouse_edged 7 8)) s1 = Inr s2"
    using server_step_returns [OF demo_healthy] unfolding returns_def by blast
  obtain s3 where 3: "server_step demo_world (Ev_forward 0) s2 = Inr s3"
    using returns_forward_event [OF demo_healthy] unfolding returns_def by blast
  have "c_io_state (sv_controller demo_two_clients) = Io_TemporaryLightEntry 1"
    "0 < length (sv_forwarders demo_two_clients)"
    "sv_forwarders demo_two_clients ! 0 =
      (1, 1, length (channel_sent 1 (c_trace (sv_controller demo_two_clients))))"
    "1 < length (sv_conns demo_two_clients)"
    by simp_all
  from hangup_keeps_entry [OF this 1 2 3] 1 2 3 show ?thesis by blast
qed

end
