(* ===== verification/Windows_Loop.thy ===== *)
theory Windows_Loop
  imports Prelude
begin

text \<open>
  \<^verbatim>\<open>windows-eventloop/src/lib.rs\<close>: a thread that owns an invisible window. Other threads send it
  callbacks and wake it with a posted message; every other message of the window goes to the
  registered listeners. The loop ends when its owner drops it.
\<close>

subsection \<open>The Windows API\<close>

text \<open>
  The calls the loop makes, over a state \<open>'s\<close> that holds the thread's message queue, the windows
  and everything the listeners share. \<open>wa_get_message\<close> answers \<open>None\<close> for \<^verbatim>\<open>WM_QUIT\<close>.
  \<open>wa_destroy_window\<close> answers the messages Windows sends to the window procedure while it destroys
  the window, or \<open>None\<close> when it fails. \<open>wa_exists\<close> tells whether the window exists.
\<close>

type_synonym HWND = i64
type_synonym LRESULT = i64

record MSG =
  msg_hwnd :: HWND
  msg_message :: u32
  msg_wparam :: u64
  msg_lparam :: i64

record 's Win_api =
  wa_get_message :: "'s \<Rightarrow> MSG option \<times> 's"
  wa_post_message :: "HWND \<Rightarrow> u32 \<Rightarrow> 's \<Rightarrow> bool \<times> 's"
  wa_post_quit :: "'s \<Rightarrow> 's"
  wa_destroy_window :: "HWND \<Rightarrow> 's \<Rightarrow> (MSG list \<times> 's) option"
  wa_def_proc :: "MSG \<Rightarrow> 's \<Rightarrow> LRESULT \<times> 's"
  wa_exists :: "HWND \<Rightarrow> 's \<Rightarrow> bool"

text \<open>The numbers of the messages, from the \<^verbatim>\<open>windows\<close> crate.\<close>

definition WM_DESTROY :: u32 where "WM_DESTROY = 0x0002"
definition WM_RENDERFORMAT :: u32 where "WM_RENDERFORMAT = 0x0305"
definition WM_RENDERALLFORMATS :: u32 where "WM_RENDERALLFORMATS = 0x0306"
definition WM_DESTROYCLIPBOARD :: u32 where "WM_DESTROYCLIPBOARD = 0x0307"
definition WM_HOTKEY :: u32 where "WM_HOTKEY = 0x0312"
definition WM_CLIPBOARDUPDATE :: u32 where "WM_CLIPBOARDUPDATE = 0x031D"
definition WM_USER :: u32 where "WM_USER = 0x0400"

lemmas WM_defs = WM_DESTROY_def WM_RENDERFORMAT_def WM_RENDERALLFORMATS_def WM_DESTROYCLIPBOARD_def
  WM_HOTKEY_def WM_CLIPBOARDUPDATE_def WM_USER_def

text \<open>How a call on the Windows side can fail to return: a panic, or a loop that never ends.\<close>

datatype win_panic =
    Unwrap_failed
  | Assertion_failed
  | Unreachable_reached
  | Slice_out_of_range
  | Never_returns

subsection \<open>The window's data\<close>

text \<open>
  A listener answers \<^verbatim>\<open>Err(RemoveMeError)\<close> (\<open>Inl ()\<close>) or an optional result. \<^verbatim>\<open>handle_wm\<close> waits until
  all of them have answered, so a listener is one step, also where it awaits. A callback is
  given the \<^verbatim>\<open>WindowData\<close>, of which only \<^verbatim>\<open>register_listener\<close> is public: it answers the listeners it
  registers, in order.
\<close>

type_synonym 's Listener = "MSG \<Rightarrow> 's \<Rightarrow> win_panic + (unit + LRESULT option) \<times> 's"
type_synonym 's Callback = "'s \<Rightarrow> win_panic + 's Listener list \<times> 's"

text \<open>\<open>wd_connected\<close> tells whether a sender of callbacks is left.\<close>

record 's WindowData =
  wd_listeners :: "'s Listener list"
  wd_callbacks :: "'s Callback list"
  wd_connected :: bool

definition register_listener :: "'s Listener \<Rightarrow> 's WindowData \<Rightarrow> 's WindowData" where
  "register_listener l d = d\<lparr>wd_listeners := wd_listeners d @ [l]\<rparr>"

text \<open>
  \<^verbatim>\<open>join_all\<close> over the listeners in reverse order of registration, each with its index; then the
  results in that order: the first that is there wins, and a listener that asked for it is removed.
\<close>

fun run_listeners ::
    "MSG \<Rightarrow> (nat \<times> 's Listener) list \<Rightarrow> 's \<Rightarrow> win_panic + (nat \<times> (unit + LRESULT option)) list \<times> 's" where
  "run_listeners m [] s = Inr ([], s)"
| "run_listeners m ((i, l) # ls) s =
     and_then (l m s) (\<lambda>(r, s).
       and_then (run_listeners m ls s) (\<lambda>(rs, s). Inr ((i, r) # rs, s)))"

definition vec_remove :: "nat \<Rightarrow> 'a list \<Rightarrow> 'a list" where
  "vec_remove i xs = take i xs @ drop (Suc i) xs"

fun or_option :: "'a option \<Rightarrow> 'a option \<Rightarrow> 'a option" where
  "or_option (Some x) o' = Some x"
| "or_option None o' = o'"

fun collect_results ::
    "(nat \<times> (unit + LRESULT option)) list \<Rightarrow> LRESULT option \<times> 'l list \<Rightarrow> LRESULT option \<times> 'l list" where
  "collect_results [] acc = acc"
| "collect_results ((i, Inr r) # rs) (result, ls) = collect_results rs (or_option result r, ls)"
| "collect_results ((i, Inl _) # rs) (result, ls) = collect_results rs (result, vec_remove i ls)"

definition wm_listeners ::
    "'s Win_api \<Rightarrow> MSG \<Rightarrow> 's WindowData \<times> 's \<Rightarrow> win_panic + LRESULT \<times> 's WindowData \<times> 's" where
  "wm_listeners api m ds =
     (let (d, s) = ds in
      and_then (run_listeners m (rev (enumerate 0 (wd_listeners d))) s) (\<lambda>(rs, s).
        let (result, ls) = collect_results rs (None, wd_listeners d); d = d\<lparr>wd_listeners := ls\<rparr> in
        Inr (case result of
               Some r \<Rightarrow> (r, d, s)
             | None \<Rightarrow> let (r, s) = wa_def_proc api m s in (r, d, s))))"

text \<open>Every message but \<^verbatim>\<open>WM_USER\<close>: only the loop's owner posts that one, so Windows never sends it.\<close>

definition wm_sent ::
    "'s Win_api \<Rightarrow> MSG \<Rightarrow> 's WindowData \<times> 's \<Rightarrow> win_panic + LRESULT \<times> 's WindowData \<times> 's" where
  "wm_sent api m ds =
     (if msg_message m = WM_DESTROY then (let (d, s) = ds in Inr (0, d, wa_post_quit api s))
      else wm_listeners api m ds)"

text \<open>\<^verbatim>\<open>DestroyWindow(window).ok().unwrap()\<close>, with the messages Windows sends meanwhile.\<close>

definition destroy_window ::
    "'s Win_api \<Rightarrow> HWND \<Rightarrow> 's WindowData \<times> 's \<Rightarrow> win_panic + 's WindowData \<times> 's" where
  "destroy_window api window ds =
     (let (d, s) = ds in
      case wa_destroy_window api window s of
        None \<Rightarrow> Inl Unwrap_failed
      | Some (sent, s) \<Rightarrow> for_each_res (\<lambda>m ds. and_then (wm_sent api m ds) (\<lambda>(_, ds). Inr ds)) sent (d, s))"

text \<open>\<^verbatim>\<open>WM_USER\<close>: the callbacks until the channel is empty; when nobody can send any more, the end.\<close>

fun run_callbacks :: "'s Callback list \<Rightarrow> 's Listener list \<times> 's \<Rightarrow> win_panic + 's Listener list \<times> 's" where
  "run_callbacks [] lss = Inr lss"
| "run_callbacks (cb # cbs) (ls, s) = and_then (cb s) (\<lambda>(new, s). run_callbacks cbs (ls @ new, s))"

definition wm_user ::
    "'s Win_api \<Rightarrow> HWND \<Rightarrow> 's WindowData \<times> 's \<Rightarrow> win_panic + LRESULT \<times> 's WindowData \<times> 's" where
  "wm_user api window ds =
     (let (d, s) = ds in
      and_then (run_callbacks (wd_callbacks d) (wd_listeners d, s)) (\<lambda>(ls, s).
        let d = d\<lparr>wd_listeners := ls, wd_callbacks := []\<rparr> in
        if wd_connected d then Inr (0, d, s)
        else and_then (destroy_window api window (d, s)) (\<lambda>ds. Inr (0, ds))))"

definition handle_wm ::
    "'s Win_api \<Rightarrow> MSG \<Rightarrow> 's WindowData \<times> 's \<Rightarrow> win_panic + LRESULT \<times> 's WindowData \<times> 's" where
  "handle_wm api m ds =
     (if msg_message m = WM_USER then wm_user api (msg_hwnd m) ds else wm_sent api m ds)"

text \<open>
  \<^verbatim>\<open>wndproc\<close>: while the window is being created it has no data yet. \<^verbatim>\<open>DispatchMessageA\<close> calls it when
  the window still exists.
\<close>

definition wndproc ::
    "'s Win_api \<Rightarrow> MSG \<Rightarrow> 's WindowData option \<times> 's \<Rightarrow> win_panic + LRESULT \<times> 's WindowData option \<times> 's" where
  "wndproc api m ds =
     (case ds of
        (None, s) \<Rightarrow> let (r, s) = wa_def_proc api m s in Inr (r, None, s)
      | (Some d, s) \<Rightarrow> and_then (handle_wm api m (d, s)) (\<lambda>(r, d, s). Inr (r, Some d, s)))"

definition dispatch_message ::
    "'s Win_api \<Rightarrow> MSG \<Rightarrow> 's WindowData \<times> 's \<Rightarrow> win_panic + 's WindowData \<times> 's" where
  "dispatch_message api m ds =
     (if wa_exists api (msg_hwnd m) (snd ds) then and_then (handle_wm api m ds) (\<lambda>(_, ds). Inr ds) else Inr ds)"

text \<open>The message pump of \<^verbatim>\<open>run\<close>: \<open>None\<close> when it does not end.\<close>

partial_function (option) message_pump ::
    "'s Win_api \<Rightarrow> 's WindowData \<times> 's \<Rightarrow> (win_panic + 's WindowData \<times> 's) option" where
  "message_pump api ds =
     (case wa_get_message api (snd ds) of
        (None, s) \<Rightarrow> Some (Inr (fst ds, s))
      | (Some m, s) \<Rightarrow>
          (case dispatch_message api m (fst ds, s) of
             Inl e \<Rightarrow> Some (Inl e)
           | Inr ds \<Rightarrow> message_pump api ds))"

subsection \<open>The owner's side\<close>

text \<open>
  \<^verbatim>\<open>send_callback\<close>: the callback goes into the channel (\<open>send_callback_queue\<close>), then the thread is
  woken (\<open>wake_loop\<close>). The channel holds sixteen callbacks; a sender waits while it is full, which is
  \<open>None\<close>. \<open>Some False\<close> is the error of a loop that has ended: its receiver, which \<^verbatim>\<open>run\<close> owns, is gone.
\<close>

definition callback_capacity :: nat where "callback_capacity = 16"

definition send_callback_queue :: "bool \<Rightarrow> 's Callback \<Rightarrow> 's WindowData \<Rightarrow> (bool \<times> 's WindowData) option" where
  "send_callback_queue running cb d =
     (if \<not> running then Some (False, d)
      else if length (wd_callbacks d) < callback_capacity then Some (True, d\<lparr>wd_callbacks := wd_callbacks d @ [cb]\<rparr>)
      else None)"

definition wake_loop :: "'s Win_api \<Rightarrow> HWND \<Rightarrow> 's \<Rightarrow> bool \<times> 's" where
  "wake_loop api window s = wa_post_message api window WM_USER s"

text \<open>\<^verbatim>\<open>Drop\<close>: the only sender goes, and the thread is woken.\<close>

definition drop_loop ::
    "'s Win_api \<Rightarrow> HWND \<Rightarrow> 's WindowData \<times> 's \<Rightarrow> win_panic + 's WindowData \<times> 's" where
  "drop_loop api window ds =
     (let (d, s) = ds; d = d\<lparr>wd_connected := False\<rparr>; (ok, s) = wake_loop api window s in
      if ok then Inr (d, s) else Inl Unwrap_failed)"

text \<open>
  How the thread ended: \<^verbatim>\<open>run\<close>'s result, or a panic that \<^verbatim>\<open>catch_unwind\<close> caught. The window's handle
  has been sent exactly when the window was created and \<^verbatim>\<open>init\<close> still waited for it; otherwise
  \<^verbatim>\<open>tx.send(hwnd).unwrap()\<close> panics.
\<close>

datatype 'e Thread_end = Thread_done | Thread_error 'e | Thread_panicked

definition thread_start :: "'e + HWND \<Rightarrow> bool \<Rightarrow> 'e Thread_end + HWND" where
  "thread_start created waiting =
     (case created of
        Inl e \<Rightarrow> Inl (Thread_error e)
      | Inr window \<Rightarrow> if waiting then Inr window else Inl Thread_panicked)"

text \<open>
  \<^verbatim>\<open>init\<close> after the thread was started: it gets the handle, or else the end of the thread.
  \<open>Inl None\<close> is the panic of the thread going on here, \<open>Inl (Some p)\<close> one of its own.
\<close>

definition init_result :: "'e Thread_end + HWND \<Rightarrow> win_panic option + ('e + HWND)" where
  "init_result start =
     (case start of
        Inr window \<Rightarrow> Inr (Inr window)
      | Inl Thread_done \<Rightarrow> Inl (Some Unreachable_reached)
      | Inl (Thread_error e) \<Rightarrow> Inr (Inl e)
      | Inl Thread_panicked \<Rightarrow> Inl None)"

lemma init_never_unreachable: "init_result (thread_start created waiting) \<noteq> Inl (Some p)"
  by (simp add: init_result_def thread_start_def split: sum.splits)

text \<open>
  \<^verbatim>\<open>shutdown\<close>: drop, then the end of the thread; \<open>end\<close> is what the channel delivers, \<open>None\<close> when its
  sender is gone without a word.
\<close>

definition shutdown_result ::
    "'s Win_api \<Rightarrow> HWND \<Rightarrow> 'e Thread_end option \<Rightarrow> 's WindowData \<times> 's \<Rightarrow> win_panic option + 'e option" where
  "shutdown_result api window result ds =
     (case drop_loop api window ds of
        Inl p \<Rightarrow> Inl (Some p)
      | Inr _ \<Rightarrow>
          (case result of
             Some Thread_done \<Rightarrow> Inr None
           | Some (Thread_error e) \<Rightarrow> Inr (Some e)
           | Some Thread_panicked \<Rightarrow> Inl None
           | None \<Rightarrow> Inl (Some Unreachable_reached)))"

text \<open>
  The comment on \<^verbatim>\<open>shutdown\<close> says it surfaces the errors and panics of the thread. Once the thread has
  ended its window is gone (\<^verbatim>\<open>WM_CLOSE\<close> from another program ends it without an error) and the message
  cannot be posted: the drop panics first.
\<close>

lemma shutdown_after_end_panics:
  assumes "\<not> fst (wa_post_message api window WM_USER s)"
  shows "shutdown_result api window result (d, s) = Inl (Some Unwrap_failed)"
  using assms
  by (cases "wa_post_message api window WM_USER s") (simp add: shutdown_result_def drop_loop_def wake_loop_def)

subsection \<open>Listeners\<close>

text \<open>Whether a listener stays, and the answer of the listeners, given their results in order of registration.\<close>

definition kept :: "'l list \<Rightarrow> (unit + 'r) list \<Rightarrow> 'l list" where
  "kept ls rs = map fst (filter (\<lambda>lr. \<not> isl (snd lr)) (zip ls rs))"

fun last_answer :: "(unit + 'r option) list \<Rightarrow> 'r option" where
  "last_answer [] = None"
| "last_answer (r # rs) =
     (case last_answer rs of Some x \<Rightarrow> Some x | None \<Rightarrow> (case r of Inr (Some x) \<Rightarrow> Some x | _ \<Rightarrow> None))"

lemma last_answer_snoc:
  "last_answer (rs @ [r]) = (case r of Inr (Some x) \<Rightarrow> Some x | _ \<Rightarrow> last_answer rs)"
  by (induction rs) (auto split: sum.splits option.splits)

lemma run_listeners_indices: "run_listeners m ils s = Inr (rs, t) \<Longrightarrow> map fst rs = map fst ils"
  by (induction m ils s arbitrary: rs rule: run_listeners.induct) (auto simp: res_simps)

lemma vec_remove_parts:
  "k < length xs \<Longrightarrow> take k (vec_remove k xs) = take k xs \<and> drop k (vec_remove k xs) = drop (Suc k) xs"
  by (simp add: vec_remove_def)

lemma collect_results_rev:
  assumes "map fst rs = rev [0..<k]" and "k \<le> length ls"
  shows "collect_results rs (result, ls) =
    (or_option result (last_answer (rev (map snd rs))), kept (take k ls) (rev (map snd rs)) @ drop k ls)"
  using assms
proof (induction rs arbitrary: k ls result)
  case Nil
  then show ?case by (cases result) (simp_all add: kept_def)
next
  case (Cons ir rs)
  then obtain k' where k': "k = Suc k'" by (cases k) auto
  with Cons.prems(1) have i: "fst ir = k'" and rs: "map fst rs = rev [0..<k']" by simp_all
  from Cons.prems(2) k' have lt: "k' < length ls" by simp
  have len: "length (rev (map snd rs)) = k'" using arg_cong [OF rs, of length] by simp
  have take: "take k ls = take k' ls @ [ls ! k']" using lt k' by (simp add: take_Suc_conv_app_nth)
  have zip: "zip (take k ls) (rev (map snd rs) @ [r]) = zip (take k' ls) (rev (map snd rs)) @ [(ls ! k', r)]"
    for r :: "unit + LRESULT option"
    unfolding take using lt len by (simp add: zip_append)
  have drop: "drop k' ls = ls ! k' # drop k ls" using lt k' by (simp add: Cons_nth_drop_Suc)
  obtain r where r: "ir = (k', r)" using i by (cases ir) auto
  show ?case
  proof (cases r)
    case (Inl u)
    have "collect_results (ir # rs) (result, ls) = collect_results rs (result, vec_remove k' ls)"
      unfolding r Inl by simp
    also have "\<dots> = (or_option result (last_answer (rev (map snd rs))),
        kept (take k' (vec_remove k' ls)) (rev (map snd rs)) @ drop k' (vec_remove k' ls))"
      using lt by (intro Cons.IH [OF rs]) (simp add: vec_remove_def)
    finally show ?thesis
      using zip [of r] lt k' by (simp add: r Inl kept_def vec_remove_parts last_answer_snoc)
  next
    case (Inr a)
    have "collect_results (ir # rs) (result, ls) = collect_results rs (or_option result a, ls)"
      unfolding r Inr by simp
    also have "\<dots> = (or_option (or_option result a) (last_answer (rev (map snd rs))),
        kept (take k' ls) (rev (map snd rs)) @ drop k' ls)"
      using lt by (intro Cons.IH [OF rs]) simp
    finally show ?thesis
      using zip [of r] by (cases result; cases a) (simp_all add: r Inr kept_def drop last_answer_snoc)
  qed
qed


text \<open>
  C21: the listeners of a message answer as one. The answer is that of the listener registered last
  among those that have one, else Windows' default; exactly the listeners that asked to be removed
  are gone, and the others keep their order.
\<close>

theorem listeners_answer:
  assumes "wm_listeners api m (d, s) = Inr (answer, d', t)"
  shows "\<exists>rs u. length rs = length (wd_listeners d) \<and>
    run_listeners m (rev (enumerate 0 (wd_listeners d))) s = Inr (rev (enumerate 0 rs), u) \<and>
    wd_listeners d' = kept (wd_listeners d) rs \<and>
    (case last_answer rs of
       Some r \<Rightarrow> answer = r \<and> t = u
     | None \<Rightarrow> (answer, t) = wa_def_proc api m u)"
proof -
  define n where "n = length (wd_listeners d)"
  from assms obtain irs u where run: "run_listeners m (rev (enumerate 0 (wd_listeners d))) s = Inr (irs, u)"
    by (auto simp: wm_listeners_def res_simps)
  have idx: "map fst irs = rev [0..<n]"
    using run_listeners_indices [OF run] by (simp add: rev_map [symmetric] n_def)
  define rs where "rs = rev (map snd irs)"
  have len: "length rs = n" using arg_cong [OF idx, of length] by (simp add: rs_def)
  have "rev irs = zip (map fst (rev irs)) (map snd (rev irs))" by (simp add: zip_map_fst_snd)
  also have "\<dots> = enumerate 0 rs"
    using arg_cong [OF idx, of rev] len by (simp add: rev_map rs_def enumerate_eq_zip)
  finally have irs: "irs = rev (enumerate 0 rs)" by (metis rev_rev_ident)
  have "collect_results irs (None, wd_listeners d) = (last_answer rs, kept (wd_listeners d) rs)"
    using collect_results_rev [OF idx, of "wd_listeners d" None] by (simp add: n_def rs_def)
  with assms run have "wd_listeners d' = kept (wd_listeners d) rs"
    and "case last_answer rs of Some r \<Rightarrow> answer = r \<and> t = u | None \<Rightarrow> (answer, t) = wa_def_proc api m u"
    by (auto simp: wm_listeners_def res_simps Let_def split: option.splits prod.splits)
  with run irs len n_def show ?thesis by metis
qed

subsection \<open>The end of the pump\<close>

text \<open>
  What the loop relies on in Windows, over the posted messages of the thread and its quit flag:
  messages come in order; the quit flag shows once nothing is posted; the window procedure is sent
  \<^verbatim>\<open>WM_DESTROY\<close> while the window is destroyed, and the default procedure leaves the queue alone.
\<close>

definition queue_documented :: "'s Win_api \<Rightarrow> HWND \<Rightarrow> ('s \<Rightarrow> MSG list) \<Rightarrow> ('s \<Rightarrow> bool) \<Rightarrow> bool" where
  "queue_documented api w posted quit \<longleftrightarrow>
     (\<forall>s m ms. posted s = m # ms \<longrightarrow>
        (\<exists>t. wa_get_message api s = (Some m, t) \<and> posted t = ms \<and> quit t = quit s \<and> wa_exists api w t = wa_exists api w s)) \<and>
     (\<forall>s. posted s = [] \<and> quit s \<longrightarrow> (\<exists>t. wa_get_message api s = (None, t) \<and> wa_exists api w t = wa_exists api w s)) \<and>
     (\<forall>s. posted (wa_post_quit api s) = posted s \<and> quit (wa_post_quit api s) \<and>
        wa_exists api w (wa_post_quit api s) = wa_exists api w s) \<and>
     (\<forall>s. wa_exists api w s \<longrightarrow>
        (\<exists>sent t. wa_destroy_window api w s = Some (sent, t) \<and> posted t = posted s \<and> quit t = quit s \<and>
           \<not> wa_exists api w t \<and> WM_DESTROY \<in> msg_message ` set sent)) \<and>
     (\<forall>s m. let t = snd (wa_def_proc api m s) in
        posted t = posted s \<and> quit t = quit s \<and> wa_exists api w t = wa_exists api w s)"

text \<open>Listeners and callbacks that neither panic nor touch the queue and the window.\<close>

definition calm :: "'s Win_api \<Rightarrow> HWND \<Rightarrow> ('s \<Rightarrow> MSG list) \<Rightarrow> ('s \<Rightarrow> bool) \<Rightarrow> 's \<Rightarrow> 's \<Rightarrow> bool" where
  "calm api w posted quit s t \<longleftrightarrow> posted t = posted s \<and> quit t = quit s \<and> wa_exists api w t = wa_exists api w s"

definition calm_listener :: "'s Win_api \<Rightarrow> HWND \<Rightarrow> ('s \<Rightarrow> MSG list) \<Rightarrow> ('s \<Rightarrow> bool) \<Rightarrow> 's Listener \<Rightarrow> bool" where
  "calm_listener api w posted quit l \<longleftrightarrow> (\<forall>m s. \<exists>r t. l m s = Inr (r, t) \<and> calm api w posted quit s t)"

definition calm_callback :: "'s Win_api \<Rightarrow> HWND \<Rightarrow> ('s \<Rightarrow> MSG list) \<Rightarrow> ('s \<Rightarrow> bool) \<Rightarrow> 's Callback \<Rightarrow> bool" where
  "calm_callback api w posted quit cb \<longleftrightarrow>
     (\<forall>s. \<exists>new t. cb s = Inr (new, t) \<and> calm api w posted quit s t \<and> (\<forall>l\<in>set new. calm_listener api w posted quit l))"

lemma calm_refl: "calm api w posted quit s s"
  by (simp add: calm_def)

lemma calm_trans: "calm api w posted quit s t \<Longrightarrow> calm api w posted quit t u \<Longrightarrow> calm api w posted quit s u"
  by (simp add: calm_def)

lemma run_listeners_calm:
  assumes "\<forall>il\<in>set ils. calm_listener api w posted quit (snd il)"
  shows "\<exists>rs t. run_listeners m ils s = Inr (rs, t) \<and> calm api w posted quit s t"
  using assms
proof (induction ils arbitrary: s)
  case Nil
  show ?case by (simp add: calm_refl)
next
  case (Cons il ils)
  obtain i l where il: "il = (i, l)" by (cases il)
  with Cons.prems obtain r t where l: "l m s = Inr (r, t)" "calm api w posted quit s t"
    unfolding calm_listener_def by (metis list.set_intros(1) snd_conv)
  from Cons.prems have "\<forall>il\<in>set ils. calm_listener api w posted quit (snd il)" by simp
  from Cons.IH [OF this, of t] obtain rs u
    where "run_listeners m ils t = Inr (rs, u)" "calm api w posted quit t u" by blast
  with l il show ?case by (auto intro: calm_trans)
qed


lemma set_kept: "set (kept ls rs) \<subseteq> set ls"
  by (auto simp: kept_def dest: set_zip_leftD)

lemma queue_get:
  "queue_documented api w posted quit \<Longrightarrow> posted s = m # ms \<Longrightarrow>
    \<exists>t. wa_get_message api s = (Some m, t) \<and> posted t = ms \<and> quit t = quit s \<and> wa_exists api w t = wa_exists api w s"
  by (simp add: queue_documented_def)

lemma queue_end:
  "queue_documented api w posted quit \<Longrightarrow> posted s = [] \<Longrightarrow> quit s \<Longrightarrow>
    \<exists>t. wa_get_message api s = (None, t) \<and> wa_exists api w t = wa_exists api w s"
  by (simp add: queue_documented_def)

lemma queue_quit:
  "queue_documented api w posted quit \<Longrightarrow>
    posted (wa_post_quit api s) = posted s \<and> quit (wa_post_quit api s) \<and>
    wa_exists api w (wa_post_quit api s) = wa_exists api w s"
  by (simp add: queue_documented_def)

lemma queue_destroy:
  "queue_documented api w posted quit \<Longrightarrow> wa_exists api w s \<Longrightarrow>
    \<exists>sent t. wa_destroy_window api w s = Some (sent, t) \<and> posted t = posted s \<and> quit t = quit s \<and>
      \<not> wa_exists api w t \<and> WM_DESTROY \<in> msg_message ` set sent"
  by (simp add: queue_documented_def)

lemma queue_def_proc:
  "queue_documented api w posted quit \<Longrightarrow> wa_def_proc api m s = (r, t) \<Longrightarrow> calm api w posted quit s t"
  unfolding queue_documented_def calm_def by (metis snd_conv)

text \<open>Everything registered or sent is calm.\<close>

definition calm_data :: "'s Win_api \<Rightarrow> HWND \<Rightarrow> ('s \<Rightarrow> MSG list) \<Rightarrow> ('s \<Rightarrow> bool) \<Rightarrow> 's WindowData \<Rightarrow> bool" where
  "calm_data api w posted quit d \<longleftrightarrow>
     (\<forall>l\<in>set (wd_listeners d). calm_listener api w posted quit l) \<and>
     (\<forall>cb\<in>set (wd_callbacks d). calm_callback api w posted quit cb)"

lemma wm_listeners_calm:
  assumes q: "queue_documented api w posted quit" and d: "calm_data api w posted quit d"
  shows "\<exists>r d' t. wm_listeners api m (d, s) = Inr (r, d', t) \<and> calm_data api w posted quit d' \<and>
    wd_callbacks d' = wd_callbacks d \<and> wd_connected d' = wd_connected d \<and> calm api w posted quit s t"
proof -
  let ?ls = "rev (enumerate 0 (wd_listeners d))"
  have "\<forall>il\<in>set ?ls. calm_listener api w posted quit (snd il)"
    using d by (auto simp: calm_data_def enumerate_eq_zip dest: set_zip_rightD)
  from run_listeners_calm [OF this, of m s] obtain rs u
    where run: "run_listeners m ?ls s = Inr (rs, u)" and u: "calm api w posted quit s u" by blast
  obtain res ls where col: "collect_results rs (None, wd_listeners d) = (res, ls)" by fastforce
  let ?d = "d\<lparr>wd_listeners := ls\<rparr>"
  from col run_listeners_indices [OF run] have "set ls \<subseteq> set (wd_listeners d)"
    using collect_results_rev [of rs "length (wd_listeners d)" "wd_listeners d" None] set_kept
    by (fastforce simp: rev_map [symmetric])
  with d have d': "calm_data api w posted quit ?d" by (auto simp: calm_data_def)
  show ?thesis
  proof (cases res)
    case None
    obtain r t where def: "wa_def_proc api m u = (r, t)" by fastforce
    have "wm_listeners api m (d, s) = Inr (r, ?d, t)"
      using run col None def by (simp add: wm_listeners_def Let_def)
    with d' calm_trans [OF u queue_def_proc [OF q def]] show ?thesis by auto
  next
    case (Some r)
    have "wm_listeners api m (d, s) = Inr (r, ?d, u)"
      using run col Some by (simp add: wm_listeners_def Let_def)
    with d' u show ?thesis by auto
  qed
qed

text \<open>A message sent to the window leaves the queue; \<^verbatim>\<open>WM_DESTROY\<close> sets the quit flag.\<close>

lemma wm_sent_calm:
  assumes q: "queue_documented api w posted quit" and d: "calm_data api w posted quit d"
  shows "\<exists>r d' t. wm_sent api m (d, s) = Inr (r, d', t) \<and> calm_data api w posted quit d' \<and>
    wd_callbacks d' = wd_callbacks d \<and> wd_connected d' = wd_connected d \<and> posted t = posted s \<and> wa_exists api w t = wa_exists api w s \<and>
    quit t = (quit s \<or> msg_message m = WM_DESTROY)"
proof (cases "msg_message m = WM_DESTROY")
  case True
  with queue_quit [OF q, of s] d show ?thesis by (simp add: wm_sent_def)
next
  case False
  with wm_listeners_calm [OF q d, of m s] show ?thesis by (auto simp: wm_sent_def calm_def)
qed

lemma for_each_sent_calm:
  assumes q: "queue_documented api w posted quit" and d: "calm_data api w posted quit d"
  shows "\<exists>d' t. for_each_res (\<lambda>m ds. and_then (wm_sent api m ds) (\<lambda>(_, ds). Inr ds)) ms (d, s) = Inr (d', t) \<and>
    calm_data api w posted quit d' \<and> wd_callbacks d' = wd_callbacks d \<and> wd_connected d' = wd_connected d \<and> posted t = posted s \<and>
    wa_exists api w t = wa_exists api w s \<and> quit t = (quit s \<or> WM_DESTROY \<in> msg_message ` set ms)"
  using d
proof (induction ms arbitrary: d s)
  case Nil
  then show ?case by simp
next
  case (Cons m ms)
  from wm_sent_calm [OF q Cons.prems, of m s] obtain r d1 s1
    where 1: "wm_sent api m (d, s) = Inr (r, d1, s1)" "calm_data api w posted quit d1"
      "wd_callbacks d1 = wd_callbacks d" "wd_connected d1 = wd_connected d" "posted s1 = posted s" "wa_exists api w s1 = wa_exists api w s"
      "quit s1 = (quit s \<or> msg_message m = WM_DESTROY)" by blast
  from Cons.IH [OF 1(2), of s1] obtain d2 s2
    where "for_each_res (\<lambda>m ds. and_then (wm_sent api m ds) (\<lambda>(_, ds). Inr ds)) ms (d1, s1) = Inr (d2, s2)"
      "calm_data api w posted quit d2" "wd_callbacks d2 = wd_callbacks d1" "wd_connected d2 = wd_connected d1" "posted s2 = posted s1"
      "wa_exists api w s2 = wa_exists api w s1" "quit s2 = (quit s1 \<or> WM_DESTROY \<in> msg_message ` set ms)"
    by blast
  with 1 show ?case by auto
qed

lemma run_callbacks_calm:
  assumes "\<forall>cb\<in>set cbs. calm_callback api w posted quit cb" and "\<forall>l\<in>set ls. calm_listener api w posted quit l"
  shows "\<exists>ls' t. run_callbacks cbs (ls, s) = Inr (ls', t) \<and> calm api w posted quit s t \<and>
    (\<forall>l\<in>set ls'. calm_listener api w posted quit l)"
  using assms
proof (induction cbs arbitrary: ls s)
  case Nil
  then show ?case by (simp add: calm_refl)
next
  case (Cons cb cbs)
  from Cons.prems(1) obtain new t where cb: "cb s = Inr (new, t)" "calm api w posted quit s t"
      "\<forall>l\<in>set new. calm_listener api w posted quit l"
    unfolding calm_callback_def by (metis list.set_intros(1))
  from Cons.prems cb(3) have "\<forall>cb\<in>set cbs. calm_callback api w posted quit cb"
    and "\<forall>l\<in>set (ls @ new). calm_listener api w posted quit l" by auto
  from Cons.IH [OF this, of t] obtain ls' u where "run_callbacks cbs (ls @ new, t) = Inr (ls', u)"
    "calm api w posted quit t u" "\<forall>l\<in>set ls'. calm_listener api w posted quit l" by blast
  with cb show ?case by (auto intro: calm_trans)
qed


lemma wm_user_calm:
  assumes q: "queue_documented api w posted quit" and d: "calm_data api w posted quit d" and w: "wa_exists api w s"
    and c: "\<not> wd_connected d"
  shows "\<exists>r d' t. wm_user api w (d, s) = Inr (r, d', t) \<and> calm_data api w posted quit d' \<and>
    wd_callbacks d' = [] \<and> posted t = posted s \<and> \<not> wa_exists api w t \<and> quit t"
proof -
  from d have "\<forall>cb\<in>set (wd_callbacks d). calm_callback api w posted quit cb"
    and "\<forall>l\<in>set (wd_listeners d). calm_listener api w posted quit l" by (simp_all add: calm_data_def)
  from run_callbacks_calm [OF this, of s] obtain ls t
    where cbs: "run_callbacks (wd_callbacks d) (wd_listeners d, s) = Inr (ls, t)"
      and t: "calm api w posted quit s t" and ls: "\<forall>l\<in>set ls. calm_listener api w posted quit l" by blast
  let ?d = "d\<lparr>wd_listeners := ls, wd_callbacks := []\<rparr>"
  have d': "calm_data api w posted quit ?d" using d ls by (simp add: calm_data_def)
  from t w have "wa_exists api w t" by (simp add: calm_def)
  from queue_destroy [OF q this] obtain sent u
    where u: "wa_destroy_window api w t = Some (sent, u)" "posted u = posted t" "quit u = quit t"
      "\<not> wa_exists api w u" "WM_DESTROY \<in> msg_message ` set sent" by blast
  from for_each_sent_calm [OF q d', of sent u] obtain d2 s2 where
    "for_each_res (\<lambda>m ds. and_then (wm_sent api m ds) (\<lambda>(_, ds). Inr ds)) sent (?d, u) = Inr (d2, s2)"
    "calm_data api w posted quit d2" "wd_callbacks d2 = wd_callbacks ?d" "wd_connected d2 = wd_connected ?d" "posted s2 = posted u"
    "wa_exists api w s2 = wa_exists api w u" "quit s2 = (quit u \<or> WM_DESTROY \<in> msg_message ` set sent)"
    by blast
  with cbs c d t u show ?thesis
    by (simp add: wm_user_def destroy_window_def Let_def calm_data_def calm_def)
qed

lemma pump_after_destroy:
  assumes q: "queue_documented api w posted quit"
    and "quit s" and "\<not> wa_exists api w s" and "\<forall>m\<in>set (posted s). msg_hwnd m = w"
  shows "\<exists>t. message_pump api (d, s) = Some (Inr (d, t)) \<and> \<not> wa_exists api w t"
  using assms(2-)
proof (induction "posted s" arbitrary: s)
  case Nil
  from queue_end [OF q Nil(1) [symmetric] Nil(2)] Nil(3) show ?case
    by (subst message_pump.simps) auto
next
  case (Cons m ms)
  from queue_get [OF q Cons(2) [symmetric]] obtain t
    where t: "wa_get_message api s = (Some m, t)" "posted t = ms" "quit t = quit s"
      "wa_exists api w t = wa_exists api w s" by blast
  from Cons.prems(3) Cons(2) have m: "msg_hwnd m = w" and ms: "\<forall>m\<in>set ms. msg_hwnd m = w"
    by (metis list.set_intros)+
  have "message_pump api (d, s) = message_pump api (d, t)"
    using t m Cons.prems(2) by (subst message_pump.simps) (simp add: dispatch_message_def)
  with Cons.hyps(1) [of t] t ms Cons.prems show ?case by simp
qed

text \<open>
  A loop that nobody can send to and that has been woken: whatever else was posted to the window, the
  pump runs every callback that was sent, destroys the window and returns.
\<close>

lemma dropped_loop_ends:
  assumes "queue_documented api w posted quit" and "calm_data api w posted quit d" and "\<not> wd_connected d"
    and "wa_exists api w s" and "\<forall>m\<in>set (posted s). msg_hwnd m = w"
    and "WM_USER \<in> msg_message ` set (posted s)"
  shows "\<exists>d' t. message_pump api (d, s) = Some (Inr (d', t)) \<and> wd_callbacks d' = [] \<and> \<not> wa_exists api w t"
  using assms(2-)
proof (induction "posted s" arbitrary: d s)
  case Nil
  from Nil(1,6) show ?case by simp
next
  case (Cons m ms)
  from queue_get [OF assms(1) Cons(2) [symmetric]] obtain t
    where t: "wa_get_message api s = (Some m, t)" "posted t = ms" "quit t = quit s"
      "wa_exists api w t = wa_exists api w s" by blast
  from Cons.prems(4) Cons(2) have m: "msg_hwnd m = w" and ms: "\<forall>m\<in>set ms. msg_hwnd m = w"
    by (metis list.set_intros)+
  have w: "wa_exists api w t" using t(4) Cons.prems(3) by simp
  show ?case
  proof (cases "msg_message m = WM_USER")
    case True
    from wm_user_calm [OF assms(1) Cons.prems(1) w Cons.prems(2)] obtain r d1 u
      where 1: "wm_user api w (d, t) = Inr (r, d1, u)" "wd_callbacks d1 = []" "posted u = posted t"
        "\<not> wa_exists api w u" "quit u" by blast
    have "message_pump api (d, s) = message_pump api (d1, u)"
      using t w m True 1(1) by (subst message_pump.simps) (simp add: dispatch_message_def handle_wm_def)
    with pump_after_destroy [OF assms(1) 1(5,4), of d1] 1(2,3) t(2) ms show ?thesis by auto
  next
    case False
    from wm_sent_calm [OF assms(1) Cons.prems(1), of m t] obtain r d1 u
      where 1: "wm_sent api m (d, t) = Inr (r, d1, u)" "calm_data api w posted quit d1"
        "wd_connected d1 = wd_connected d" "posted u = posted t" "wa_exists api w u = wa_exists api w t" by blast
    have "message_pump api (d, s) = message_pump api (d1, u)"
      using t w m False 1(1) by (subst message_pump.simps) (simp add: dispatch_message_def handle_wm_def)
    moreover from Cons(2) Cons.prems(5) False have "WM_USER \<in> msg_message ` set ms"
      by (metis image_iff set_ConsD)
    ultimately show ?thesis using Cons.hyps(1) [of u d1] 1 t(2) w ms Cons.prems(2) by simp
  qed
qed


subsection \<open>Runs\<close>

text \<open>
  The owner and the thread in any order; the number counts the sends whose message is not posted
  yet. A send borrows the loop, so the owner drops it only between sends. Windows may post any other
  message to the window.
\<close>

definition post_documented :: "'s Win_api \<Rightarrow> HWND \<Rightarrow> ('s \<Rightarrow> MSG list) \<Rightarrow> bool" where
  "post_documented api w posted \<longleftrightarrow>
     (\<forall>s. \<exists>m t. wa_post_message api w WM_USER s = (True, t) \<and> posted t = posted s @ [m] \<and>
        msg_hwnd m = w \<and> msg_message m = WM_USER \<and> wa_exists api w t = wa_exists api w s)"

inductive loop_run ::
    "'s Win_api \<Rightarrow> HWND \<Rightarrow> ('s \<Rightarrow> MSG list) \<Rightarrow> ('s \<Rightarrow> bool) \<Rightarrow> nat \<times> 's WindowData \<times> 's \<Rightarrow> bool"
  for api w posted quit where
  loop_start:
    "posted s = [] \<Longrightarrow> loop_run api w posted quit (0, \<lparr>wd_listeners = [], wd_callbacks = [], wd_connected = True\<rparr>, s)"
| loop_send:
    "loop_run api w posted quit (n, d, s) \<Longrightarrow> wd_connected d \<Longrightarrow> calm_callback api w posted quit cb \<Longrightarrow>
      send_callback_queue True cb d = Some (True, d') \<Longrightarrow> loop_run api w posted quit (Suc n, d', s)"
| loop_wake:
    "loop_run api w posted quit (Suc n, d, s) \<Longrightarrow> wake_loop api w s = (ok, t) \<Longrightarrow> loop_run api w posted quit (n, d, t)"
| loop_drop:
    "loop_run api w posted quit (0, d, s) \<Longrightarrow> drop_loop api w (d, s) = Inr (d', t) \<Longrightarrow>
      loop_run api w posted quit (0, d', t)"
| loop_posted:
    "loop_run api w posted quit (n, d, s) \<Longrightarrow> posted t = posted s @ [m] \<Longrightarrow> msg_hwnd m = w \<Longrightarrow>
      wa_exists api w t = wa_exists api w s \<Longrightarrow> loop_run api w posted quit (n, d, t)"
| loop_dispatch:
    "loop_run api w posted quit (n, d, s) \<Longrightarrow> wa_get_message api s = (Some m, t) \<Longrightarrow>
      dispatch_message api m (d, t) = Inr (d', u) \<Longrightarrow> posted s \<noteq> [] \<Longrightarrow> loop_run api w posted quit (n, d', u)"

text \<open>Whatever waits for the thread also wakes it.\<close>

definition woken :: "'s Win_api \<Rightarrow> HWND \<Rightarrow> ('s \<Rightarrow> MSG list) \<Rightarrow> ('s \<Rightarrow> bool) \<Rightarrow> nat \<times> 's WindowData \<times> 's \<Rightarrow> bool" where
  "woken api w posted quit nds \<longleftrightarrow>
     (case nds of (n, d, s) \<Rightarrow>
        calm_data api w posted quit d \<and> (\<forall>m\<in>set (posted s). msg_hwnd m = w) \<and> (wd_connected d \<or> n = 0) \<and>
        length (wd_callbacks d) \<le> callback_capacity \<and>
        (wa_exists api w s \<and> (wd_callbacks d \<noteq> [] \<or> \<not> wd_connected d) \<longrightarrow>
           0 < n \<or> WM_USER \<in> msg_message ` set (posted s)))"

lemma dispatch_woken:
  assumes q: "queue_documented api w posted quit" and inv: "woken api w posted quit (n, d, s)"
    and get: "wa_get_message api s = (Some m, t)" and step: "dispatch_message api m (d, t) = Inr (d', u)"
    and ne: "posted s \<noteq> []"
  shows "woken api w posted quit (n, d', u)"
proof -
  from ne queue_get [OF q, of s] get have ps: "posted s = m # posted t" "wa_exists api w t = wa_exists api w s"
    by (cases "posted s"; auto)+
  from inv ps have m: "msg_hwnd m = w" and calm: "calm_data api w posted quit d" by (simp_all add: woken_def)
  consider (gone) "\<not> wa_exists api w t" | (user) "wa_exists api w t" "msg_message m = WM_USER"
    | (other) "wa_exists api w t" "msg_message m \<noteq> WM_USER" by blast
  then show ?thesis
  proof cases
    case gone
    with step m have "d' = d" "u = t" by (auto simp: dispatch_message_def)
    with inv ps gone show ?thesis by (auto simp: woken_def)
  next
    case user
    with step m obtain r where r: "wm_user api w (d, t) = Inr (r, d', u)"
      by (auto simp: dispatch_message_def handle_wm_def res_simps)
    show ?thesis
    proof (cases "wd_connected d")
      case False
      from wm_user_calm [OF q calm user(1) False] r
      have "calm_data api w posted quit d'" "wd_callbacks d' = []" "posted u = posted t" "\<not> wa_exists api w u"
        by auto
      with inv ps False show ?thesis by (auto simp: woken_def)
    next
      case True
      from calm have "\<forall>cb\<in>set (wd_callbacks d). calm_callback api w posted quit cb"
        and "\<forall>l\<in>set (wd_listeners d). calm_listener api w posted quit l" by (simp_all add: calm_data_def)
      from run_callbacks_calm [OF this, of t] obtain ls v
        where cbs: "run_callbacks (wd_callbacks d) (wd_listeners d, t) = Inr (ls, v)"
          and v: "calm api w posted quit t v" and ls: "\<forall>l\<in>set ls. calm_listener api w posted quit l" by blast
      from r cbs True have "u = v" and "d' = d\<lparr>wd_listeners := ls, wd_callbacks := []\<rparr>"
        by (simp_all add: wm_user_def)
      with v ls inv ps True show ?thesis by (simp add: woken_def calm_def calm_data_def)
    qed
  next
    case other
    with step m obtain r where r: "wm_sent api m (d, t) = Inr (r, d', u)"
      by (auto simp: dispatch_message_def handle_wm_def res_simps)
    with wm_sent_calm [OF q calm, of m t] inv ps other show ?thesis by (auto simp: woken_def)
  qed
qed

lemma loop_run_woken:
  assumes "loop_run api w posted quit nds" and "queue_documented api w posted quit" and "post_documented api w posted"
  shows "woken api w posted quit nds"
  using assms
proof (induction rule: loop_run.induct)
  case (loop_start s)
  then show ?case by (simp add: woken_def calm_data_def)
next
  case (loop_send n d s cb d')
  then show ?case by (auto simp: woken_def calm_data_def send_callback_queue_def split: if_splits)
next
  case (loop_wake n d s ok t)
  from loop_wake.prems(2) loop_wake.hyps(2) obtain m where "posted t = posted s @ [m]" "msg_hwnd m = w"
    "msg_message m = WM_USER" "wa_exists api w t = wa_exists api w s"
    unfolding post_documented_def wake_loop_def by (metis prod.inject)
  with loop_wake.IH [OF loop_wake.prems] show ?case by (auto simp: woken_def)
next
  case (loop_drop d s d' t)
  obtain m u where u: "wa_post_message api w WM_USER s = (True, u)" "posted u = posted s @ [m]"
    "msg_hwnd m = w" "msg_message m = WM_USER" "wa_exists api w u = wa_exists api w s"
    using loop_drop.prems(2) unfolding post_documented_def by blast
  with loop_drop.hyps(2) have "t = u" "d' = d\<lparr>wd_connected := False\<rparr>"
    by (simp_all add: drop_loop_def wake_loop_def)
  with u loop_drop.IH [OF loop_drop.prems] show ?case by (auto simp: woken_def calm_data_def)
next
  case (loop_posted n d s t m)
  from loop_posted.IH [OF loop_posted.prems] loop_posted.hyps show ?case by (auto simp: woken_def)
next
  case (loop_dispatch n d s m t d' u)
  from loop_dispatch.prems(1) loop_dispatch.IH [OF loop_dispatch.prems] loop_dispatch.hyps(2,3,4) show ?case
    by (rule dispatch_woken)
qed



text \<open>A thread with a queue, a quit flag and one window, and a note of the callbacks that ran.\<close>

record Demo_thread =
  dt_posted :: "MSG list"
  dt_quit :: bool
  dt_window :: bool
  dt_ran :: "nat list"

definition demo_message :: "u32 \<Rightarrow> MSG" where
  "demo_message n = \<lparr>msg_hwnd = 1, msg_message = n, msg_wparam = 0, msg_lparam = 0\<rparr>"

definition demo_api :: "Demo_thread Win_api" where
  "demo_api =
     \<lparr>wa_get_message = (\<lambda>s. case dt_posted s of [] \<Rightarrow> (None, s) | m # ms \<Rightarrow> (Some m, s\<lparr>dt_posted := ms\<rparr>)),
      wa_post_message = (\<lambda>w n s. (True, s\<lparr>dt_posted := dt_posted s @ [demo_message n]\<rparr>)),
      wa_post_quit = (\<lambda>s. s\<lparr>dt_quit := True\<rparr>),
      wa_destroy_window = (\<lambda>w s.
        if dt_window s then Some ([demo_message WM_DESTROY], s\<lparr>dt_window := False\<rparr>) else None),
      wa_def_proc = (\<lambda>m s. (0, s)),
      wa_exists = (\<lambda>w s. dt_window s)\<rparr>"

lemma demo_queue_documented: "queue_documented demo_api 1 dt_posted dt_quit"
  by (auto simp: queue_documented_def demo_api_def demo_message_def Let_def)

lemma demo_post_documented: "post_documented demo_api 1 dt_posted"
  by (auto simp: post_documented_def demo_api_def demo_message_def)

definition demo_callback :: "nat \<Rightarrow> Demo_thread Callback" where
  "demo_callback i = (\<lambda>s. Inr ([\<lambda>m s. Inr (Inr None, s)], s\<lparr>dt_ran := dt_ran s @ [i]\<rparr>))"

lemma demo_callback_calm: "calm_callback demo_api 1 dt_posted dt_quit (demo_callback i)"
  by (auto simp: calm_callback_def calm_listener_def demo_callback_def calm_def demo_api_def)

definition demo_thread :: Demo_thread where
  "demo_thread = \<lparr>dt_posted = [], dt_quit = False, dt_window = True, dt_ran = []\<rparr>"

text \<open>Two callbacks are sent and the owner drops the loop before the thread has run at all.\<close>

definition demo_data :: "Demo_thread WindowData" where
  "demo_data = \<lparr>wd_listeners = [], wd_callbacks = [demo_callback 1, demo_callback 2], wd_connected = False\<rparr>"

definition demo_posted :: Demo_thread where
  "demo_posted = demo_thread\<lparr>dt_posted := replicate 3 (demo_message WM_USER)\<rparr>"

lemma demo_loop_run: "loop_run demo_api 1 dt_posted dt_quit (0, demo_data, demo_posted)"
proof -
  note send = loop_send [OF _ _ demo_callback_calm]
  have "loop_run demo_api 1 dt_posted dt_quit (0, \<lparr>wd_listeners = [], wd_callbacks = [], wd_connected = True\<rparr>, demo_thread)"
    by (rule loop_start) (simp add: demo_thread_def)
  from send [OF this, of 1] loop_wake
  have "loop_run demo_api 1 dt_posted dt_quit
    (0, \<lparr>wd_listeners = [], wd_callbacks = [demo_callback 1], wd_connected = True\<rparr>,
     demo_thread\<lparr>dt_posted := [demo_message WM_USER]\<rparr>)"
    by (fastforce simp: send_callback_queue_def callback_capacity_def wake_loop_def demo_api_def demo_thread_def)
  from send [OF this, of 2] loop_wake
  have "loop_run demo_api 1 dt_posted dt_quit
    (0, \<lparr>wd_listeners = [], wd_callbacks = [demo_callback 1, demo_callback 2], wd_connected = True\<rparr>,
     demo_thread\<lparr>dt_posted := [demo_message WM_USER, demo_message WM_USER]\<rparr>)"
    by (fastforce simp: send_callback_queue_def callback_capacity_def wake_loop_def demo_api_def demo_thread_def)
  from loop_drop [OF this] show ?thesis
    by (simp add: drop_loop_def wake_loop_def demo_api_def demo_data_def demo_posted_def demo_thread_def
        numeral_3_eq_3)
qed


text \<open>Both callbacks ran, in order.\<close>

lemma demo_callbacks_ran:
  "map_option (map_sum id (\<lambda>ds. dt_ran (snd ds))) (message_pump demo_api (demo_data, demo_posted)) = Some (Inr [1, 2])"
proof -
  have "message_pump demo_api (demo_data, demo_posted) =
    Some (Inr (\<lparr>wd_listeners = [\<lambda>m s. Inr (Inr None, s), \<lambda>m s. Inr (Inr None, s)], wd_callbacks = [], wd_connected = False\<rparr>,
      \<lparr>dt_posted = [], dt_quit = True, dt_window = False, dt_ran = [1, 2]\<rparr>))"
    apply (subst message_pump.simps)
    apply (simp add: demo_api_def demo_data_def demo_posted_def demo_thread_def demo_message_def dispatch_message_def
        handle_wm_def wm_user_def demo_callback_def destroy_window_def wm_sent_def WM_defs numeral_3_eq_3)
    apply (subst message_pump.simps, simp add: dispatch_message_def)+
    done
  then show ?thesis by simp
qed

text \<open>Three listeners: the first has an answer, the second asks to be removed, the third has none.\<close>

definition demo_listeners :: "Demo_thread WindowData" where
  "demo_listeners =
     \<lparr>wd_listeners = [\<lambda>m s. Inr (Inr (Some 7), s), \<lambda>m s. Inr (Inl (), s), \<lambda>m s. Inr (Inr None, s)],
      wd_callbacks = [], wd_connected = True\<rparr>"

theorem listeners_answer_witness:
  "\<exists>d t. wm_listeners demo_api (demo_message 5) (demo_listeners, demo_thread) = Inr (7, d, t) \<and>
     length (wd_listeners d) = 2 \<and>
     (\<exists>rs u. length rs = 3 \<and> wd_listeners d = kept (wd_listeners demo_listeners) rs \<and>
       (case last_answer rs of Some r \<Rightarrow> (7 :: LRESULT) = r \<and> t = u | None \<Rightarrow> (7, t) = wa_def_proc demo_api (demo_message 5) u))"
proof -
  define d where "d = demo_listeners\<lparr>wd_listeners := [\<lambda>m s. Inr (Inr (Some 7), s), \<lambda>m s. Inr (Inr None, s)]\<rparr>"
  have step: "wm_listeners demo_api (demo_message 5) (demo_listeners, demo_thread) = Inr (7, d, demo_thread)"
    by (simp add: wm_listeners_def demo_listeners_def vec_remove_def d_def)
  have len: "length (wd_listeners d) = 2" "length (wd_listeners demo_listeners) = 3"
    by (simp_all add: d_def demo_listeners_def)
  from listeners_answer [OF step] len(2) step len(1) show ?thesis by metis
qed


subsection \<open>Invariants of a loop that runs\<close>

text \<open>
  What the listeners and callbacks keep, a message keeps, as long as a sender of callbacks is left.
\<close>

definition listener_keeps :: "('s \<Rightarrow> bool) \<Rightarrow> MSG \<Rightarrow> 's Listener \<Rightarrow> bool" where
  "listener_keeps P m l \<longleftrightarrow> (\<forall>s r t. P s \<longrightarrow> l m s = Inr (r, t) \<longrightarrow> P t)"

definition callback_keeps :: "('s \<Rightarrow> bool) \<Rightarrow> 's Listener set \<Rightarrow> 's Callback \<Rightarrow> bool" where
  "callback_keeps P L cb \<longleftrightarrow> (\<forall>s new t. P s \<longrightarrow> cb s = Inr (new, t) \<longrightarrow> P t \<and> set new \<subseteq> L)"

lemma listener_keepsD: "listener_keeps P m l \<Longrightarrow> P s \<Longrightarrow> l m s = Inr (r, t) \<Longrightarrow> P t"
  unfolding listener_keeps_def by metis

lemma callback_keepsD: "callback_keeps P L cb \<Longrightarrow> P s \<Longrightarrow> cb s = Inr (new, t) \<Longrightarrow> P t \<and> set new \<subseteq> L"
  unfolding callback_keeps_def by metis

lemma run_listeners_inv:
  assumes "run_listeners m ils s = Inr (rs, t)" and "P s" and "\<forall>il\<in>set ils. listener_keeps P m (snd il)"
  shows "P t"
  using assms
proof (induction ils arbitrary: s rs)
  case Nil
  then show ?case by simp
next
  case (Cons il ils)
  obtain i l where il: "il = (i, l)" by (cases il)
  with Cons.prems(1) obtain r u rs' where u: "l m s = Inr (r, u)" "run_listeners m ils u = Inr (rs', t)"
    by (auto simp: res_simps)
  from Cons.prems(3) il have "listener_keeps P m l" by simp
  from listener_keepsD [OF this Cons.prems(2) u(1)] have "P u" .
  from Cons.IH [OF u(2) this] Cons.prems(3) show ?case by simp
qed

lemma run_callbacks_inv:
  assumes "run_callbacks cbs (ls, s) = Inr (ls', t)" and "P s" and "set ls \<subseteq> L"
    and "\<forall>cb\<in>set cbs. callback_keeps P L cb"
  shows "P t \<and> set ls' \<subseteq> L"
  using assms
proof (induction cbs arbitrary: ls s)
  case Nil
  then show ?case by simp
next
  case (Cons cb cbs)
  from Cons.prems(1) obtain new u where u: "cb s = Inr (new, u)" "run_callbacks cbs (ls @ new, u) = Inr (ls', t)"
    by (auto simp: res_simps)
  from Cons.prems(4) have "callback_keeps P L cb" by simp
  from callback_keepsD [OF this Cons.prems(2) u(1)] have "P u" "set new \<subseteq> L" by auto
  with Cons.prems(3,4) show ?case by (intro Cons.IH [OF u(2)]) auto
qed

lemma handle_wm_inv:
  assumes step: "handle_wm api m (d, s) = Inr (r, d', t)" and conn: "wd_connected d" and P: "P s"
    and L: "set (wd_listeners d) \<subseteq> L"
    and listeners: "\<forall>l\<in>L. listener_keeps P m l"
    and callbacks: "\<forall>cb\<in>set (wd_callbacks d). callback_keeps P L cb"
    and quit: "\<And>s. P s \<Longrightarrow> P (wa_post_quit api s)"
    and def_proc: "\<And>s. P s \<Longrightarrow> P (snd (wa_def_proc api m s))"
  shows "P t \<and> wd_connected d' \<and> set (wd_listeners d') \<subseteq> L \<and> set (wd_callbacks d') \<subseteq> set (wd_callbacks d)"
proof -
  consider (user) "msg_message m = WM_USER" | (quit) "msg_message m = WM_DESTROY"
    | (other) "msg_message m \<noteq> WM_USER" "msg_message m \<noteq> WM_DESTROY" by blast
  then show ?thesis
  proof cases
    case user
    with step conn obtain ls where ls: "run_callbacks (wd_callbacks d) (wd_listeners d, s) = Inr (ls, t)"
      and d': "d' = d\<lparr>wd_listeners := ls, wd_callbacks := []\<rparr>"
      by (auto simp: handle_wm_def wm_user_def res_simps)
    have "P t \<and> set ls \<subseteq> L" by (rule run_callbacks_inv [OF ls P L callbacks])
    with d' conn show ?thesis by simp
  next
    case quit
    with step P assms(7) conn L show ?thesis by (auto simp: handle_wm_def wm_sent_def WM_defs)
  next
    case other
    with step obtain rs u where run: "run_listeners m (rev (enumerate 0 (wd_listeners d))) s = Inr (rs, u)"
      by (auto simp: handle_wm_def wm_sent_def wm_listeners_def res_simps)
    have "\<forall>il\<in>set (rev (enumerate 0 (wd_listeners d))). listener_keeps P m (snd il)"
      using L listeners by (auto simp: enumerate_eq_zip dest!: set_zip_rightD)
    from run_listeners_inv [OF run P this] have u: "P u" .
    obtain res ls where col: "collect_results rs (None, wd_listeners d) = (res, ls)" by fastforce
    have "set ls \<subseteq> L"
      using col run_listeners_indices [OF run] L set_kept
        collect_results_rev [of rs "length (wd_listeners d)" "wd_listeners d" None]
      by (fastforce simp: rev_map [symmetric])
    with step other run col u def_proc [OF u] conn show ?thesis
      by (auto simp: handle_wm_def wm_sent_def wm_listeners_def Let_def split: option.splits prod.splits)
  qed
qed


end
