(* ===== verification/Key_Bindings.thy ===== *)
theory Key_Bindings
  imports Windows_Loop
begin

text \<open>
  \<^verbatim>\<open>windows-keybinds/src/lib.rs\<close>: hotkeys of the guest. Each binding has a Windows atom as its number
  and a channel; a listener of the event loop puts one message into the channel per press.
\<close>

subsection \<open>State\<close>

text \<open>
  The receiving end of a binding's channel: whether it still exists, and how many presses wait.
  The trace holds the calls of the Windows API; what Windows answers may depend on all of them.
  The other record of the guest extend this one.
\<close>

record HotKey_channel =
  ch_open :: bool
  ch_waiting :: nat

datatype HotKey_call =
    Atom_added u16
  | Register_called u16 u32 u32
  | Unregister_called u16
  | Atom_deleted u16

record HotKeys =
  hk_queues :: "u16 \<rightharpoonup> nat"
  hk_channels :: "HotKey_channel list"
  hk_calls :: "HotKey_call list"

record Hotkey_answers =
  ha_atom :: "HotKey_call list \<Rightarrow> u16"
  ha_unregistered :: "HotKey_call list \<Rightarrow> u16 \<Rightarrow> bool"

definition HotKeyManager_new :: "'a HotKeys_scheme \<Rightarrow> 'a HotKeys_scheme" where
  "HotKeyManager_new s = s\<lparr>hk_queues := Map.empty\<rparr>"

subsection \<open>The listener\<close>

text \<open>\<^verbatim>\<open>queue.send(())\<close> fails when the receiver is gone.\<close>

definition channel_open :: "nat option \<Rightarrow> 'a HotKeys_scheme \<Rightarrow> bool" where
  "channel_open ch s = (case ch of None \<Rightarrow> False | Some c \<Rightarrow> c < length (hk_channels s) \<and> ch_open (hk_channels s ! c))"

definition channel_send :: "nat \<Rightarrow> 'a HotKeys_scheme \<Rightarrow> 'a HotKeys_scheme" where
  "channel_send c s =
     (let ch = hk_channels s ! c in
      s\<lparr>hk_channels := (hk_channels s)[c := ch\<lparr>ch_waiting := ch_waiting ch + 1\<rparr>]\<rparr>)"

text \<open>The binding of a closed channel is given back to Windows, but stays in the table.\<close>

definition hotkey_pressed :: "Hotkey_answers \<Rightarrow> u16 \<Rightarrow> 'a HotKeys_scheme \<Rightarrow> 'a HotKeys_scheme" where
  "hotkey_pressed ha i s =
     (if channel_open (hk_queues s i) s then channel_send (the (hk_queues s i)) s
      else
        let calls = hk_calls s @ [Unregister_called i] in
        s\<lparr>hk_calls := (if ha_unregistered ha (hk_calls s) i then calls @ [Atom_deleted i] else calls)\<rparr>)"

definition hotkey_listener :: "Hotkey_answers \<Rightarrow> 'a HotKeys_scheme Listener" where
  "hotkey_listener ha m s =
     (if msg_message m = WM_HOTKEY then Inr (Inr (Some 0), hotkey_pressed ha (ucast (msg_wparam m)) s)
      else Inr (Inr None, s))"

text \<open>\<^verbatim>\<open>new\<close> sends this callback.\<close>

definition hotkey_callback :: "Hotkey_answers \<Rightarrow> 'a HotKeys_scheme Callback" where
  "hotkey_callback ha s = Inr ([hotkey_listener ha], s)"

subsection \<open>Registering\<close>

text \<open>
  \<^verbatim>\<open>register_hotkey\<close>: a new atom and a new channel, whose number is the answer. The callback then asks
  Windows on the loop's thread; that Windows refuses is only logged.
\<close>

definition register_hotkey_queue :: "Hotkey_answers \<Rightarrow> 'a HotKeys_scheme \<Rightarrow> win_panic + u16 \<times> nat \<times> 'a HotKeys_scheme" where
  "register_hotkey_queue ha s =
     (let i = ha_atom ha (hk_calls s); c = length (hk_channels s);
          s' = s\<lparr>hk_calls := hk_calls s @ [Atom_added i], hk_queues := (hk_queues s)(i \<mapsto> c),
                hk_channels := hk_channels s @ [\<lparr>ch_open = True, ch_waiting = 0\<rparr>]\<rparr> in
      if hk_queues s i = None then Inr (i, c, s') else Inl Assertion_failed)"

definition register_callback :: "u16 \<Rightarrow> u32 \<Rightarrow> u32 \<Rightarrow> 'a HotKeys_scheme Callback" where
  "register_callback i modifiers vk s = Inr ([], s\<lparr>hk_calls := hk_calls s @ [Register_called i modifiers vk]\<rparr>)"

text \<open>The receiver of a binding: it takes a press, or goes away.\<close>

definition take_press :: "nat \<Rightarrow> 'a HotKeys_scheme \<Rightarrow> 'a HotKeys_scheme option" where
  "take_press c s =
     (let ch = hk_channels s ! c in
      if c < length (hk_channels s) \<and> ch_open ch \<and> 0 < ch_waiting ch
      then Some (s\<lparr>hk_channels := (hk_channels s)[c := ch\<lparr>ch_waiting := ch_waiting ch - 1\<rparr>]\<rparr>)
      else None)"

definition drop_receiver :: "nat \<Rightarrow> 'a HotKeys_scheme \<Rightarrow> 'a HotKeys_scheme" where
  "drop_receiver c s = s\<lparr>hk_channels := (hk_channels s)[c := (hk_channels s ! c)\<lparr>ch_open := False\<rparr>]\<rparr>"

subsection \<open>Properties\<close>

text \<open>Windows does not hand out an atom that is in use.\<close>

definition atoms_in_use :: "HotKey_call list \<Rightarrow> u16 set" where
  "atoms_in_use calls =
     foldl (\<lambda>A c. case c of Atom_added i \<Rightarrow> insert i A | Atom_deleted i \<Rightarrow> A - {i} | _ \<Rightarrow> A) {} calls"

lemma atoms_in_use_snoc [simp]:
  "atoms_in_use (calls @ [c]) =
     (case c of Atom_added i \<Rightarrow> insert i (atoms_in_use calls) | Atom_deleted i \<Rightarrow> atoms_in_use calls - {i}
      | _ \<Rightarrow> atoms_in_use calls)"
  by (simp add: atoms_in_use_def split: HotKey_call.split)

lemma atoms_in_use_Nil [simp]: "atoms_in_use [] = {}"
  by (simp add: atoms_in_use_def)

fun atoms_added :: "HotKey_call list \<Rightarrow> nat" where
  "atoms_added [] = 0"
| "atoms_added (Atom_added i # calls) = Suc (atoms_added calls)"
| "atoms_added (_ # calls) = atoms_added calls"

lemma atoms_added_append [simp]: "atoms_added (calls @ calls') = atoms_added calls + atoms_added calls'"
  by (induction calls rule: atoms_added.induct) simp_all

text \<open>Of its 0x4000 atoms, from 0xC000 to 0xFFFF. Each call has a name of its own, so none is shared.\<close>

definition atom_count :: nat where
  "atom_count = 0x4000"

definition atoms_fresh :: "Hotkey_answers \<Rightarrow> bool" where
  "atoms_fresh ha \<longleftrightarrow> (\<forall>calls. atoms_added calls < atom_count \<longrightarrow> ha_atom ha calls \<notin> atoms_in_use calls)"

text \<open>
  The table maps distinct atoms to distinct channels. While all receivers live the atoms in it are in
  use, and each atom ever added has its channel.
\<close>

definition hotkeys_ok :: "'a HotKeys_scheme \<Rightarrow> bool" where
  "hotkeys_ok s \<longleftrightarrow>
     inj_on (hk_queues s) (dom (hk_queues s)) \<and>
     (\<forall>i c. hk_queues s i = Some c \<longrightarrow> c < length (hk_channels s)) \<and>
     dom (hk_queues s) \<subseteq> atoms_in_use (hk_calls s) \<and> (\<forall>ch\<in>set (hk_channels s). ch_open ch) \<and>
     atoms_added (hk_calls s) = length (hk_channels s)"

lemma register_hotkey_keeps:
  assumes "hotkeys_ok s" and "register_hotkey_queue ha s = Inr (i, c, s')"
  shows "i = ha_atom ha (hk_calls s) \<and> c = length (hk_channels s) \<and> hotkeys_ok s' \<and>
    hk_queues s' = (hk_queues s)(i \<mapsto> c) \<and> hk_channels s' = hk_channels s @ [\<lparr>ch_open = True, ch_waiting = 0\<rparr>]"
proof -
  let ?i = "ha_atom ha (hk_calls s)" and ?c = "length (hk_channels s)"
  have inj: "inj_on ((hk_queues s)(?i \<mapsto> ?c)) (insert ?i (dom (hk_queues s)))"
  proof (rule inj_onI)
    fix i j assume ij: "i \<in> insert ?i (dom (hk_queues s))" "j \<in> insert ?i (dom (hk_queues s))"
      "((hk_queues s)(?i \<mapsto> ?c)) i = ((hk_queues s)(?i \<mapsto> ?c)) j"
    have lt: "hk_queues s k \<noteq> Some ?c" for k using assms(1) by (auto simp: hotkeys_ok_def)
    show "i = j"
    proof (cases "i = ?i \<or> j = ?i")
      case True
      with ij lt show ?thesis by (auto split: if_splits dest: sym)
    next
      case False
      with ij assms(1) show ?thesis by (auto simp: hotkeys_ok_def inj_on_def)
    qed
  qed
  let ?s = "s\<lparr>hk_calls := hk_calls s @ [Atom_added ?i], hk_queues := (hk_queues s)(?i \<mapsto> ?c),
    hk_channels := hk_channels s @ [\<lparr>ch_open = True, ch_waiting = 0\<rparr>]\<rparr>"
  have "i = ?i \<and> c = ?c \<and> s' = ?s"
    using assms(2) by (auto simp: register_hotkey_queue_def Let_def split: if_splits)
  moreover have "hotkeys_ok ?s"
    using inj assms(1) by (auto simp: hotkeys_ok_def less_Suc_eq split: if_splits)
  ultimately show ?thesis by simp
qed

lemma register_hotkey_ok:
  assumes "hotkeys_ok s" and "atoms_fresh ha" and "length (hk_channels s) < atom_count"
  obtains i c s' where "register_hotkey_queue ha s = Inr (i, c, s')"
proof -
  from assms have "hk_queues s (ha_atom ha (hk_calls s)) = None"
    by (auto simp: hotkeys_ok_def atoms_fresh_def domIff)
  then show ?thesis using that by (simp add: register_hotkey_queue_def Let_def)
qed

text \<open>A press of a registered binding adds one message to its channel and changes nothing else.\<close>

lemma hotkey_pressed_ok:
  assumes "hotkeys_ok s" and "hk_queues s i = Some c"
  shows "hotkey_pressed ha i s = channel_send c s" and "hotkeys_ok (channel_send c s)"
proof -
  from assms have c: "c < length (hk_channels s)" "ch_open (hk_channels s ! c)"
    by (auto simp: hotkeys_ok_def)
  with assms(2) show "hotkey_pressed ha i s = channel_send c s"
    by (simp add: hotkey_pressed_def channel_open_def)
  have "set ((hk_channels s)[c := x]) \<subseteq> insert x (set (hk_channels s))" for x
    by (rule set_update_subset_insert)
  with assms c show "hotkeys_ok (channel_send c s)"
    by (fastforce simp: hotkeys_ok_def channel_send_def Let_def)
qed

lemma channel_send_waiting:
  "ch_waiting (hk_channels (channel_send c s) ! k) =
     (if k = c \<and> c < length (hk_channels s) then ch_waiting (hk_channels s ! k) + 1 else ch_waiting (hk_channels s ! k))"
  by (cases "k = c") (auto simp: channel_send_def Let_def list_update_beyond)

lemma channel_send_frame [simp]:
  "hk_queues (channel_send c s) = hk_queues s" "hk_calls (channel_send c s) = hk_calls s"
  "length (hk_channels (channel_send c s)) = length (hk_channels s)"
  by (simp_all add: channel_send_def Let_def)

lemma hotkey_pressed_unknown:
  "hk_queues s i = None \<Longrightarrow>
    hk_queues (hotkey_pressed ha i s) = hk_queues s \<and> hk_channels (hotkey_pressed ha i s) = hk_channels s"
  by (simp add: hotkey_pressed_def channel_open_def Let_def)

text \<open>
  a binding whose receiver has gone is given back to Windows at its next press, but its entry
  stays in the table. When Windows hands the freed atom out again, registering a hotkey panics.
\<close>

lemma stale_binding_panics:
  assumes "hk_queues s i = Some c" and "\<not> ch_open (hk_channels s ! c)"
    and "ha_unregistered ha (hk_calls s) i"
    and "ha_atom ha (hk_calls (hotkey_pressed ha i s)) = i"
  shows "i \<notin> atoms_in_use (hk_calls (hotkey_pressed ha i s)) \<and>
    register_hotkey_queue ha (hotkey_pressed ha i s) = Inl Assertion_failed"
proof -
  have calls: "hk_calls (hotkey_pressed ha i s) = hk_calls s @ [Unregister_called i] @ [Atom_deleted i]"
    using assms(1-3) by (simp add: hotkey_pressed_def channel_open_def Let_def)
  have "hk_queues (hotkey_pressed ha i s) i = Some c"
    using assms(1,2) by (simp add: hotkey_pressed_def channel_open_def Let_def)
  with assms(4) have "register_hotkey_queue ha (hotkey_pressed ha i s) = Inl Assertion_failed"
    by (simp add: register_hotkey_queue_def Let_def)
  moreover have "i \<notin> atoms_in_use ((hk_calls s @ [Unregister_called i]) @ [Atom_deleted i])"
    by (subst atoms_in_use_snoc) simp
  ultimately show ?thesis by (simp add: calls)
qed

text \<open>Windows hands out 0xC000, and hands it out again after it was deleted.\<close>

definition demo_atoms :: Hotkey_answers where
  "demo_atoms = \<lparr>ha_atom = (\<lambda>calls. if 0xC000 \<in> atoms_in_use calls then 0xC001 else 0xC000), ha_unregistered = (\<lambda>_ _. True)\<rparr>"

definition demo_hotkeys :: HotKeys where
  "demo_hotkeys =
     \<lparr>hk_queues = [0xC000 \<mapsto> 0], hk_channels = [\<lparr>ch_open = False, ch_waiting = 0\<rparr>],
      hk_calls = [Atom_added 0xC000, Register_called 0xC000 2 0x41]\<rparr>"

lemma stale_binding_panics_witness:
  "register_hotkey_queue demo_atoms (hotkey_pressed demo_atoms 0xC000 demo_hotkeys) = Inl Assertion_failed \<and>
   register_hotkey_queue demo_atoms demo_hotkeys \<noteq> Inl Assertion_failed"
proof -
  have 1: "hk_queues demo_hotkeys 0xC000 = Some 0" "\<not> ch_open (hk_channels demo_hotkeys ! 0)"
    "ha_unregistered demo_atoms (hk_calls demo_hotkeys) 0xC000"
    by (simp_all add: demo_hotkeys_def demo_atoms_def)
  have "ha_atom demo_atoms (hk_calls (hotkey_pressed demo_atoms 0xC000 demo_hotkeys)) = 0xC000"
    by (simp add: demo_hotkeys_def demo_atoms_def hotkey_pressed_def channel_open_def Let_def atoms_in_use_def)
  from conjunct2 [OF stale_binding_panics [OF 1 this]]
  have "register_hotkey_queue demo_atoms (hotkey_pressed demo_atoms 0xC000 demo_hotkeys) = Inl Assertion_failed" .
  moreover have "register_hotkey_queue demo_atoms demo_hotkeys \<noteq> Inl Assertion_failed"
    by (simp add: register_hotkey_queue_def demo_hotkeys_def demo_atoms_def Let_def atoms_in_use_def)
  ultimately show ?thesis ..
qed


end
