(* ===== verification/Utf8.thy ===== *)
theory Utf8
  imports Prelude
begin

text \<open>
  Rust's strings: Unicode scalar values and their UTF-8 bytes, as \<^verbatim>\<open>String::into_bytes\<close>,
  \<^verbatim>\<open>String::from_utf8\<close> and \<^verbatim>\<open>String::from_utf8_lossy\<close> of the standard library treat them.
\<close>

type_synonym unicode = "nat list"

definition scalar :: "nat \<Rightarrow> bool" where
  "scalar c \<longleftrightarrow> c < 0xD800 \<or> 0xE000 \<le> c \<and> c < 0x110000"

text \<open>
  The bytes of a string, and \<^verbatim>\<open>from_utf8_lossy\<close>. A wrong sequence is read as U+FFFD up to the
  first byte that cannot continue it.
\<close>

definition byte_of :: "nat \<Rightarrow> u8" where
  "byte_of n = of_nat n"

definition utf8_char :: "nat \<Rightarrow> u8 list" where
  "utf8_char c =
     (if c < 0x80 then [byte_of c]
      else if c < 0x800 then [byte_of (0xC0 + c div 0x40), byte_of (0x80 + c mod 0x40)]
      else if c < 0x10000 then
        [byte_of (0xE0 + c div 0x1000), byte_of (0x80 + c div 0x40 mod 0x40), byte_of (0x80 + c mod 0x40)]
      else
        [byte_of (0xF0 + c div 0x40000), byte_of (0x80 + c div 0x1000 mod 0x40),
         byte_of (0x80 + c div 0x40 mod 0x40), byte_of (0x80 + c mod 0x40)])"

definition utf8_bytes :: "unicode \<Rightarrow> u8 list" where
  "utf8_bytes s = concat (map utf8_char s)"

definition in_range :: "nat \<Rightarrow> nat \<Rightarrow> u8 \<Rightarrow> bool" where
  "in_range lo hi b \<longleftrightarrow> lo \<le> unat b \<and> unat b \<le> hi"

text \<open>How many bytes follow a first byte, and the range of the second byte.\<close>

definition utf8_lead :: "u8 \<Rightarrow> (nat \<times> nat \<times> nat) option" where
  "utf8_lead b =
     (if in_range 0xC2 0xDF b then Some (1, 0x80, 0xBF)
      else if in_range 0xE0 0xEF b then
        Some (2, if unat b = 0xE0 then 0xA0 else 0x80, if unat b = 0xED then 0x9F else 0xBF)
      else if in_range 0xF0 0xF4 b then
        Some (3, if unat b = 0xF0 then 0x90 else 0x80, if unat b = 0xF4 then 0x8F else 0xBF)
      else None)"

text \<open>The bits that the first byte of a sequence with \<open>n\<close> more bytes carries.\<close>

definition lead_bits :: "nat \<Rightarrow> u8 \<Rightarrow> nat" where
  "lead_bits n b = unat b - (if n = 1 then 0xC0 else if n = 2 then 0xE0 else 0xF0)"

text \<open>\<open>n\<close> continuation bytes, the first within its own range.\<close>

fun utf8_tail :: "nat \<Rightarrow> nat \<Rightarrow> nat \<Rightarrow> nat \<Rightarrow> u8 list \<Rightarrow> nat option \<times> u8 list" where
  "utf8_tail 0 lo hi acc bs = (Some acc, bs)"
| "utf8_tail (Suc n) lo hi acc [] = (None, [])"
| "utf8_tail (Suc n) lo hi acc (b # bs) =
     (if in_range lo hi b then utf8_tail n 0x80 0xBF (acc * 0x40 + (unat b - 0x80)) bs else (None, b # bs))"

lemma utf8_tail_shorter: "utf8_tail n lo hi acc bs = (r, bs') \<Longrightarrow> length bs' \<le> length bs"
  by (induction n lo hi acc bs rule: utf8_tail.induct) (auto split: if_splits)

function utf8_lossy :: "u8 list \<Rightarrow> unicode" where
  "utf8_lossy [] = []"
| "utf8_lossy (b # bs) =
     (if unat b < 0x80 then unat b # utf8_lossy bs
      else case utf8_lead b of
        None \<Rightarrow> 0xFFFD # utf8_lossy bs
      | Some (n, lo, hi) \<Rightarrow>
          (case utf8_tail n lo hi (lead_bits n b) bs of
             (Some c, bs) \<Rightarrow> c # utf8_lossy bs
           | (None, bs) \<Rightarrow> 0xFFFD # utf8_lossy bs))"
  by pat_completeness auto
termination
  by (relation "measure length") (auto simp: less_Suc_eq_le dest: utf8_tail_shorter utf8_tail_shorter [OF sym])

declare utf8_lossy.simps(2) [simp del]

lemma unat_byte_of: "n < 0x100 \<Longrightarrow> unat (byte_of n) = n"
  unfolding byte_of_def by (intro unat_of_nat_small) simp

lemma utf8_tail_continues:
  assumes "lo \<le> 0x80 + m" and "0x80 + m \<le> hi" and "m < 0x40"
  shows "utf8_tail (Suc n) lo hi acc (byte_of (0x80 + m) # bs) = utf8_tail n 0x80 0xBF (acc * 0x40 + m) bs"
  using assms by (simp add: in_range_def unat_byte_of)

lemma utf8_lossy_sequence:
  assumes "utf8_lead b = Some (n, lo, hi)" and "utf8_tail n lo hi (lead_bits n b) bs = (Some c, bs')"
  shows "utf8_lossy (b # bs) = c # utf8_lossy bs'"
proof -
  have "\<not> unat b < 0x80" using assms(1) by (auto simp: utf8_lead_def in_range_def split: if_splits)
  with assms show ?thesis by (simp add: utf8_lossy.simps(2))
qed

lemma split_six_bits: "c div 0x40 * 0x40 + c mod 0x40 = (c :: nat)"
  by (rule div_mult_mod_eq)

lemma utf8_lossy_char:
  assumes "scalar c"
  shows "utf8_lossy (utf8_char c @ bs) = c # utf8_lossy bs"
proof -
  have m: "n mod 0x40 < 0x40" for n :: nat by simp
  consider (1) "c < 0x80" | (2) "0x80 \<le> c" "c < 0x800" | (3) "0x800 \<le> c" "c < 0x10000" | (4) "0x10000 \<le> c" "c < 0x110000"
    using assms by (fastforce simp: scalar_def)
  then show ?thesis
  proof cases
    case 1
    then show ?thesis by (simp add: utf8_char_def utf8_lossy.simps(2) unat_byte_of)
  next
    case 2
    let ?b = "byte_of (0xC0 + c div 0x40)"
    from 2 have q: "2 \<le> c div 0x40" "c div 0x40 < 0x20" by (auto simp: less_mult_imp_div_less)
    then have b: "unat ?b = 0xC0 + c div 0x40" by (intro unat_byte_of) simp
    have "utf8_lead ?b = Some (1, 0x80, 0xBF)"
      unfolding utf8_lead_def in_range_def b using q by simp
    moreover have "utf8_tail 1 0x80 0xBF (lead_bits 1 ?b) (byte_of (0x80 + c mod 0x40) # bs) = (Some c, bs)"
      unfolding One_nat_def using m [of c] split_six_bits [of c]
      by (subst utf8_tail_continues) (simp_all add: lead_bits_def b)
    ultimately show ?thesis using 2 by (simp add: utf8_char_def utf8_lossy_sequence)
  next
    case 3
    let ?q = "c div 0x40"
    let ?b = "byte_of (0xE0 + ?q div 0x40)"
    have q: "?q div 0x40 < 0x10" using 3 by (simp add: less_mult_imp_div_less)
    then have b: "unat ?b = 0xE0 + ?q div 0x40" by (intro unat_byte_of) simp
    let ?lo = "if ?q div 0x40 = 0 then 0xA0 else 0x80" and ?hi = "if ?q div 0x40 = 0xD then 0x9F else 0xBF"
    have lead: "utf8_lead ?b = Some (2, ?lo, ?hi)"
      unfolding utf8_lead_def in_range_def b using q by simp
    have lo: "?lo \<le> 0x80 + ?q mod 0x40"
    proof -
      have "0x20 \<le> ?q" using div_le_mono [of "0x800" c "0x40"] 3 by simp
      with split_six_bits [of ?q] show ?thesis by auto
    qed
    have hi: "0x80 + ?q mod 0x40 \<le> ?hi"
    proof (cases "?q div 0x40 = 0xD")
      case True
      have "?q < 0x360"
        using assms 3 True split_six_bits [of c] split_six_bits [of ?q] m [of c] m [of ?q]
        by (simp add: scalar_def)
      with True split_six_bits [of ?q] show ?thesis by simp
    next
      case False
      with m [of ?q] show ?thesis by simp
    qed
    have "utf8_tail 2 ?lo ?hi (lead_bits 2 ?b) (byte_of (0x80 + ?q mod 0x40) # byte_of (0x80 + c mod 0x40) # bs) = (Some c, bs)"
      unfolding numeral_2_eq_2 utf8_tail_continues [OF lo hi m]
      using m [of c] split_six_bits [of c] split_six_bits [of ?q]
      by (subst utf8_tail_continues) (simp_all add: lead_bits_def b)
    from utf8_lossy_sequence [OF lead this] 3 show ?thesis
      by (simp add: utf8_char_def div_mult2_eq [symmetric])
  next
    case 4
    let ?q = "c div 0x40" let ?r = "c div 0x40 div 0x40"
    let ?b = "byte_of (0xF0 + ?r div 0x40)"
    have q: "?r div 0x40 < 5" using 4 by (simp add: less_mult_imp_div_less div_mult2_eq [symmetric])
    then have b: "unat ?b = 0xF0 + ?r div 0x40" by (intro unat_byte_of) simp
    let ?lo = "if ?r div 0x40 = 0 then 0x90 else 0x80" and ?hi = "if ?r div 0x40 = 4 then 0x8F else 0xBF"
    have lead: "utf8_lead ?b = Some (3, ?lo, ?hi)"
      unfolding utf8_lead_def in_range_def b using q by simp
    have c: "((?r div 0x40 * 0x40 + ?r mod 0x40) * 0x40 + ?q mod 0x40) * 0x40 + c mod 0x40 = c"
      using split_six_bits [of c] split_six_bits [of ?q] split_six_bits [of ?r] by simp
    have r: "0x10 \<le> ?r" "?r < 0x110" using 4 by (auto simp: div_mult2_eq [symmetric] less_mult_imp_div_less)
    have lo: "?lo \<le> 0x80 + ?r mod 0x40" using r(1) split_six_bits [of ?r] by auto
    have hi: "0x80 + ?r mod 0x40 \<le> ?hi"
    proof (cases "?r div 0x40 = 4")
      case True
      with r(2) split_six_bits [of ?r] have "?r mod 0x40 < 0x10" by linarith
      with True show ?thesis by simp
    next
      case False
      with m [of ?r] show ?thesis by simp
    qed
    have "utf8_tail 3 ?lo ?hi (lead_bits 3 ?b)
        (byte_of (0x80 + ?r mod 0x40) # byte_of (0x80 + ?q mod 0x40) # byte_of (0x80 + c mod 0x40) # bs) = (Some c, bs)"
      unfolding numeral_3_eq_3 utf8_tail_continues [OF lo hi m]
      using m [of ?q] m [of c] c by (simp add: utf8_tail_continues lead_bits_def b del: utf8_tail.simps(3))
    from utf8_lossy_sequence [OF lead this] 4 show ?thesis
      by (simp add: utf8_char_def div_mult2_eq [symmetric])
  qed
qed

lemma utf8_lossy_bytes:
  assumes "\<forall>c\<in>set s. scalar c"
  shows "utf8_lossy (utf8_bytes s) = s"
  using assms by (induction s) (simp_all add: utf8_bytes_def utf8_lossy_char)

text \<open>
  \<^verbatim>\<open>String::from_utf8\<close>: bytes that are not UTF-8 are refused. They are those whose lossy reading has
  other bytes, as it puts U+FFFD in place of something that is not U+FFFD.
\<close>

definition from_utf8 :: "u8 list \<Rightarrow> unicode option" where
  "from_utf8 bs = (if utf8_bytes (utf8_lossy bs) = bs then Some (utf8_lossy bs) else None)"

lemma from_utf8_bytes: "\<forall>c\<in>set s. scalar c \<Longrightarrow> from_utf8 (utf8_bytes s) = Some s"
  by (simp add: from_utf8_def utf8_lossy_bytes)

lemma from_utf8_ascii:
  assumes "\<forall>b\<in>set bs. unat b < 0x80"
  shows "from_utf8 bs = Some (map unat bs)"
proof -
  have "utf8_bytes (map unat bs) = bs"
    using assms by (induction bs) (simp_all add: utf8_bytes_def utf8_char_def byte_of_def)
  moreover have "utf8_lossy (utf8_bytes (map unat bs)) = map unat bs"
    using assms by (intro utf8_lossy_bytes) (auto simp: scalar_def)
  ultimately show ?thesis by (simp add: from_utf8_def)
qed

end
