(* ===== verification/Win_Text.thy ===== *)
theory Win_Text
  imports Windows_Loop Utf8
begin

text \<open>
  Text on the Windows clipboard: how \<^verbatim>\<open>ClipboardFormatData::render\<close> (\<^verbatim>\<open>windows/send.rs\<close>) lays a string out
  in a memory block and how \<^verbatim>\<open>receive_string\<close> (\<^verbatim>\<open>windows/offer.rs\<close>) reads one back.
\<close>

subsection \<open>UTF-16\<close>

text \<open>
  \<^verbatim>\<open>encode_wide\<close> gives the UTF-16 units of a string; \<^verbatim>\<open>OsString::from_wide\<close> and \<^verbatim>\<open>to_string_lossy\<close> read
  units, an unpaired surrogate as U+FFFD.
\<close>

definition encode_char :: "nat \<Rightarrow> u16 list" where
  "encode_char c =
     (if c < 0x10000 then [of_nat c]
      else [of_nat (0xD800 + (c - 0x10000) div 0x400), of_nat (0xDC00 + (c - 0x10000) mod 0x400)])"

definition encode_wide :: "unicode \<Rightarrow> u16 list" where
  "encode_wide s = concat (map encode_char s)"

definition high_surrogate :: "u16 \<Rightarrow> bool" where
  "high_surrogate u \<longleftrightarrow> 0xD800 \<le> unat u \<and> unat u < 0xDC00"

definition low_surrogate :: "u16 \<Rightarrow> bool" where
  "low_surrogate u \<longleftrightarrow> 0xDC00 \<le> unat u \<and> unat u < 0xE000"

definition join_surrogates :: "u16 \<Rightarrow> u16 \<Rightarrow> nat" where
  "join_surrogates u v = 0x10000 + (unat u - 0xD800) * 0x400 + (unat v - 0xDC00)"

fun from_wide_lossy :: "u16 list \<Rightarrow> unicode" where
  "from_wide_lossy [] = []"
| "from_wide_lossy [u] = [if high_surrogate u \<or> low_surrogate u then 0xFFFD else unat u]"
| "from_wide_lossy (u # v # us) =
     (if high_surrogate u \<and> low_surrogate v then join_surrogates u v # from_wide_lossy us
      else (if high_surrogate u \<or> low_surrogate u then 0xFFFD else unat u) # from_wide_lossy (v # us))"

lemma from_wide_Cons:
  "\<not> high_surrogate u \<Longrightarrow> \<not> low_surrogate u \<Longrightarrow> from_wide_lossy (u # us) = unat u # from_wide_lossy us"
  by (cases us) simp_all

lemma from_wide_encode_char:
  assumes "scalar c"
  shows "from_wide_lossy (encode_char c @ us) = c # from_wide_lossy us"
proof (cases "c < 0x10000")
  case True
  then have "unat (of_nat c :: u16) = c" by (intro unat_of_nat_small) simp
  moreover from this assms have "\<not> high_surrogate (of_nat c)" "\<not> low_surrogate (of_nat c)"
    by (auto simp: high_surrogate_def low_surrogate_def scalar_def)
  ultimately show ?thesis using True by (simp add: encode_char_def from_wide_Cons)
next
  case False
  let ?d = "c - 0x10000"
  have d: "?d < 0x100000" using assms False by (simp add: scalar_def)
  then have q: "?d div 0x400 < 0x400" by (simp add: less_mult_imp_div_less)
  have r: "?d mod 0x400 < 0x400" by simp
  have hi: "unat (of_nat (0xD800 + ?d div 0x400) :: u16) = 0xD800 + ?d div 0x400"
    using q by (intro unat_of_nat_small) simp
  have lo: "unat (of_nat (0xDC00 + ?d mod 0x400) :: u16) = 0xDC00 + ?d mod 0x400"
    using r by (intro unat_of_nat_small) simp
  have "join_surrogates (of_nat (0xD800 + ?d div 0x400)) (of_nat (0xDC00 + ?d mod 0x400)) = c"
    unfolding join_surrogates_def hi lo using False div_mult_mod_eq [of ?d "0x400"] by simp
  moreover have "high_surrogate (of_nat (0xD800 + ?d div 0x400))" "low_surrogate (of_nat (0xDC00 + ?d mod 0x400))"
    unfolding high_surrogate_def low_surrogate_def hi lo using q r by simp_all
  ultimately show ?thesis using False by (simp add: encode_char_def)
qed

lemma from_wide_encode_wide:
  assumes "\<forall>c\<in>set s. scalar c"
  shows "from_wide_lossy (encode_wide s @ us) = s @ from_wide_lossy us"
  using assms by (induction s) (simp_all add: encode_wide_def from_wide_encode_char)

subsection \<open>Memory blocks\<close>

text \<open>\<^verbatim>\<open>to_le_bytes\<close> of every unit, and \<^verbatim>\<open>align_to::<u16>\<close>: at an odd address the first byte is left out.\<close>

definition put_u16_le :: "u16 \<Rightarrow> u8 list" where
  "put_u16_le u = [ucast u, ucast (drop_bit 8 u)]"

fun get_u16s :: "u8 list \<Rightarrow> u16 list" where
  "get_u16s (a # b # bs) = (ucast a OR push_bit 8 (ucast b)) # get_u16s bs"
| "get_u16s _ = []"

definition align_to_u16 :: "bool \<Rightarrow> u8 list \<Rightarrow> u16 list" where
  "align_to_u16 odd_address bs = get_u16s (if odd_address then drop 1 bs else bs)"

lemma get_put_u16: "ucast (ucast (u :: u16) :: u8) OR push_bit 8 (ucast (ucast (drop_bit 8 u) :: u8)) = u"
  by (rule bit_word_eqI) (auto simp: bit_simps)

lemma get_u16s_put: "get_u16s (concat (map put_u16_le us) @ bs) = us @ get_u16s bs"
  by (induction us) (simp_all add: put_u16_le_def get_put_u16)

text \<open>The block of a text: its units and a zero.\<close>

definition text_block :: "unicode \<Rightarrow> u8 list" where
  "text_block s = concat (map put_u16_le (encode_wide s @ [0]))"

text \<open>
  \<^verbatim>\<open>receive_string\<close> after it got the bytes: the last unit is taken for the terminator. Without any unit
  the length of the slice underflows.
\<close>

definition text_of_block :: "bool \<Rightarrow> u8 list \<Rightarrow> win_panic + unicode" where
  "text_of_block odd_address memory =
     (let stringmem = align_to_u16 odd_address memory in
      if stringmem = [] then Inl Slice_out_of_range else Inr (from_wide_lossy (butlast stringmem)))"

lemma from_wide_zeros: "from_wide_lossy (replicate k 0) = replicate k 0"
  by (induction k) (simp_all add: from_wide_Cons high_surrogate_def low_surrogate_def)

text \<open>
  C30: a text put on the clipboard is read back whole, characters outside the basic plane included,
  when Windows hands out a block of exactly the size asked for. Windows may round the size up: then
  the text comes back with a zero character for every two bytes of padding.
\<close>

theorem clipboard_text_roundtrip:
  assumes "\<forall>c\<in>set s. scalar c"
  shows "text_of_block False (text_block s @ replicate n 0) = Inr (s @ replicate (n div 2) 0)"
proof -
  have zeros: "get_u16s (replicate n 0) = replicate (n div 2) 0" for n
  proof (induction n rule: induct_nat_012)
    case (ge2 n)
    then show ?case by simp
  qed simp_all
  have "get_u16s (text_block s @ replicate n 0) = (encode_wide s @ [0]) @ replicate (n div 2) 0"
    unfolding text_block_def get_u16s_put zeros ..
  also have "\<dots> = (encode_wide s @ replicate (n div 2) 0) @ [0]"
    by (simp add: replicate_append_same)
  finally have "text_of_block False (text_block s @ replicate n 0) =
      Inr (from_wide_lossy (encode_wide s @ replicate (n div 2) 0))"
    by (simp add: text_of_block_def align_to_u16_def Let_def del: append_assoc)
  then show ?thesis by (simp add: from_wide_encode_wide [OF assms] from_wide_zeros)
qed

theorem clipboard_text_roundtrip_witness:
  "text_of_block False (text_block [0x48, 0x1F600]) = Inr [0x48, 0x1F600] \<and>
   text_of_block False (text_block [0x48] @ [0, 0, 0, 0]) = Inr [0x48, 0, 0]"
proof -
  have "replicate 4 0 = [0, 0, 0, 0 :: u8]" "replicate 2 0 = [0, 0 :: nat]"
    by (simp_all add: eval_nat_numeral)
  then show ?thesis
    using clipboard_text_roundtrip [of "[0x48, 0x1F600]" 0] clipboard_text_roundtrip [of "[0x48]" 4]
    by (simp add: scalar_def)
qed

text \<open>An empty block, or an odd address, loses the text.\<close>

lemma empty_block_panics: "text_of_block False [] = Inl Slice_out_of_range"
  by (simp add: text_of_block_def align_to_u16_def)

end
