(* ===== verification/Multi_Cursor.thy ===== *)
theory Multi_Cursor
  imports Bytes
begin

text \<open>
  The image part of \<^verbatim>\<open>zerocost-clipboard/src/windows/offer.rs\<close>: a bitmap of the Windows clipboard is a
  \<^verbatim>\<open>.bmp\<close> file without its file header. \<^verbatim>\<open>receive_image\<close> makes up the header, and a cursor over the two
  buffers stands for the file.
\<close>

subsection \<open>The contract of a reader\<close>

text \<open>
  What \<^verbatim>\<open>std::io::Read\<close> promises: a read takes some bytes off the front of what is left, and none only
  when none were asked for or none are left. The standard library's \<^verbatim>\<open>read_exact\<close> calls it until it has
  all bytes; at the end of the file it fails.
\<close>

function read_exact :: "(nat \<Rightarrow> 's \<Rightarrow> u8 list \<times> 's) \<Rightarrow> nat \<Rightarrow> 's \<Rightarrow> (u8 list \<times> 's) option" where
  "read_exact read n s =
     (if n = 0 then Some ([], s)
      else case read n s of
        ([], t) \<Rightarrow> None
      | (x # xs, t) \<Rightarrow> map_option (\<lambda>(ys, u). ((x # xs) @ ys, u)) (read_exact read (n - length (x # xs)) t))"
  by pat_completeness auto
termination by (relation "measure (\<lambda>(read, n, s). n)") auto

declare read_exact.simps [simp del]

locale byte_reader =
  fixes read :: "nat \<Rightarrow> 's \<Rightarrow> u8 list \<times> 's" and rest :: "'s \<Rightarrow> u8 list" and ok :: "'s \<Rightarrow> bool"
  assumes read_takes: "ok s \<Longrightarrow> read n s = (xs, t) \<Longrightarrow>
    ok t \<and> rest s = xs @ rest t \<and> length xs \<le> n \<and> (xs = [] \<longrightarrow> n = 0 \<or> rest s = [])"
begin

lemma read_exact_enough:
  "ok s \<Longrightarrow> n \<le> length (rest s) \<Longrightarrow>
    \<exists>t. read_exact read n s = Some (take n (rest s), t) \<and> ok t \<and> rest t = drop n (rest s)"
proof (induction n arbitrary: s rule: less_induct)
  case (less n)
  show ?case
  proof (cases "n = 0")
    case True
    then show ?thesis using less.prems by (simp add: read_exact.simps)
  next
    case False
    obtain xs t where r: "read n s = (xs, t)" by fastforce
    from read_takes [OF less.prems(1) r] False less.prems(2)
    have t: "ok t" "rest s = xs @ rest t" "length xs \<le> n" "xs \<noteq> []" by auto
    then have "n - length xs < n" "n - length xs \<le> length (rest t)" using False less.prems(2) by auto
    from less.IH [OF this(1) t(1) this(2)] obtain u
      where "read_exact read (n - length xs) t = Some (take (n - length xs) (rest t), u)" "ok u"
        "rest u = drop (n - length xs) (rest t)" by blast
    with r t False show ?thesis
      by (subst read_exact.simps) (auto split: list.split)
  qed
qed

lemma read_exact_short:
  "ok s \<Longrightarrow> length (rest s) < n \<Longrightarrow> read_exact read n s = None"
proof (induction n arbitrary: s rule: less_induct)
  case (less n)
  obtain xs t where r: "read n s = (xs, t)" by fastforce
  from read_takes [OF less.prems(1) r]
  have t: "ok t" "rest s = xs @ rest t" "length xs \<le> n" by auto
  show ?case
  proof (cases xs)
    case Nil
    with r less.prems(2) show ?thesis by (subst read_exact.simps) simp
  next
    case (Cons y ys)
    with t less.prems(2) have "n - length xs < n" "length (rest t) < n - length xs" by auto
    from less.IH [OF this(1) t(1) this(2)] Cons r less.prems(2) show ?thesis
      by (subst read_exact.simps) simp
  qed
qed

end

subsection \<open>The cursor\<close>

record MultiCursor =
  cur_bufs :: "u8 list list"
  cur_position :: u64

text \<open>\<^verbatim>\<open>fill_buf\<close>: the rest of the buffer that the position is in.\<close>

fun fill_from :: "u8 list list \<Rightarrow> nat \<Rightarrow> u8 list" where
  "fill_from [] pos = []"
| "fill_from (b # bs) pos = (if pos < length b then drop pos b else fill_from bs (pos - length b))"

definition cursor_fill_buf :: "MultiCursor \<Rightarrow> u8 list" where
  "cursor_fill_buf c = fill_from (cur_bufs c) (unat (cur_position c))"

definition cursor_consume :: "nat \<Rightarrow> MultiCursor \<Rightarrow> MultiCursor" where
  "cursor_consume amt c = c\<lparr>cur_position := cur_position c + of_nat amt\<rparr>"

text \<open>\<^verbatim>\<open>read\<close> goes over the buffers the same way; at most one buffer is read from at a time.\<close>

fun read_from :: "u8 list list \<Rightarrow> nat \<Rightarrow> nat \<Rightarrow> u8 list" where
  "read_from [] n pos = []"
| "read_from (b # bs) n pos =
     (if pos < length b then take (min n (length b - pos)) (drop pos b) else read_from bs n (pos - length b))"

definition cursor_read :: "nat \<Rightarrow> MultiCursor \<Rightarrow> u8 list \<times> MultiCursor" where
  "cursor_read n c =
     (let xs = read_from (cur_bufs c) n (unat (cur_position c)) in (xs, cursor_consume (length xs) c))"

text \<open>The sums are 64-bit sums without a check.\<close>

datatype SeekFrom = Seek_Start u64 | Seek_End i64 | Seek_Current i64

definition cursor_seek :: "SeekFrom \<Rightarrow> MultiCursor \<Rightarrow> u64 \<times> MultiCursor" where
  "cursor_seek pos c =
     (let p = (case pos of
         Seek_Start i \<Rightarrow> i
       | Seek_Current i \<Rightarrow> cur_position c + i
       | Seek_End i \<Rightarrow> of_nat (sum_list (map length (cur_bufs c))) + i)
      in (p, c\<lparr>cur_position := p\<rparr>))"

definition cursor_rest :: "MultiCursor \<Rightarrow> u8 list" where
  "cursor_rest c = drop (unat (cur_position c)) (concat (cur_bufs c))"

definition cursor_ok :: "MultiCursor \<Rightarrow> bool" where
  "cursor_ok c \<longleftrightarrow> length (concat (cur_bufs c)) < 2 ^ 63"

lemma read_from_concat:
  "\<exists>k. read_from bs n pos = take k (drop pos (concat bs)) \<and> k \<le> n \<and>
    (k = 0 \<longrightarrow> n = 0 \<or> length (concat bs) \<le> pos) \<and> (pos < length (concat bs) \<longrightarrow> k \<le> length (concat bs) - pos)"
proof (induction bs arbitrary: pos)
  case Nil
  show ?case by (auto intro: exI [of _ 0])
next
  case (Cons b bs)
  show ?case
  proof (cases "pos < length b")
    case True
    then show ?thesis by (intro exI [of _ "min n (length b - pos)"]) auto
  next
    case False
    from Cons.IH [of "pos - length b"] obtain k where
      "read_from bs n (pos - length b) = take k (drop (pos - length b) (concat bs))" "k \<le> n"
      "k = 0 \<longrightarrow> n = 0 \<or> length (concat bs) \<le> pos - length b"
      "pos - length b < length (concat bs) \<longrightarrow> k \<le> length (concat bs) - (pos - length b)" by blast
    with False show ?thesis by (intro exI [of _ k]) auto
  qed
qed

lemma fill_from_concat: "prefix (fill_from bs pos) (drop pos (concat bs))"
  by (induction bs arbitrary: pos) (auto simp: not_less)

lemma cursor_read_takes:
  assumes "cursor_ok c" and "cursor_read n c = (xs, d)"
  shows "cursor_ok d \<and> cursor_rest c = xs @ cursor_rest d \<and> length xs \<le> n \<and>
    (xs = [] \<longrightarrow> n = 0 \<or> cursor_rest c = [])"
proof -
  let ?p = "unat (cur_position c)" and ?all = "concat (cur_bufs c)"
  from assms(2) have xs: "xs = read_from (cur_bufs c) n ?p" and d: "d = cursor_consume (length xs) c"
    by (auto simp: cursor_read_def Let_def)
  from read_from_concat [of "cur_bufs c" n ?p] obtain k where
    k: "xs = take k (drop ?p ?all)" "k \<le> n" "k = 0 \<longrightarrow> n = 0 \<or> length ?all \<le> ?p" unfolding xs by blast
  have len: "length xs = min k (length ?all - ?p)" by (simp add: k(1))
  have "?p + length xs < 2 ^ 64"
  proof (cases "?p \<le> length ?all")
    case True
    with len assms(1) show ?thesis by (simp add: cursor_ok_def)
  next
    case False
    then show ?thesis using len unsigned_less [of "cur_position c"] by simp
  qed
  then have pos: "unat (cur_position d) = ?p + length xs"
    by (simp add: d cursor_consume_def unat_word_ariths unsigned_of_nat take_bit_nat_eq_self)
  have "cursor_rest c = take (length xs) (cursor_rest c) @ drop (length xs) (cursor_rest c)" by simp
  also have "take (length xs) (cursor_rest c) = xs"
    unfolding k(1) cursor_rest_def by (cases "k \<le> length (drop ?p ?all)") simp_all
  also have "drop (length xs) (cursor_rest c) = cursor_rest d"
    using pos by (simp add: cursor_rest_def d cursor_consume_def add.commute)
  finally show ?thesis
    using k len assms(1) by (auto simp: cursor_ok_def d cursor_consume_def cursor_rest_def)
qed

interpretation multi: byte_reader cursor_read cursor_rest cursor_ok
  by unfold_locales (rule cursor_read_takes)

text \<open>What \<^verbatim>\<open>fill_buf\<close> shows is what a read would give, and is empty only at the end.\<close>

lemma fill_buf_read: "cursor_read n c = (take n (cursor_fill_buf c), cursor_consume (min n (length (cursor_fill_buf c))) c)"
proof -
  have "read_from bs n pos = take n (fill_from bs pos)" for bs pos
    by (induction bs arbitrary: pos) (auto simp: min_def)
  then show ?thesis by (simp add: cursor_read_def cursor_fill_buf_def min.commute)
qed

text \<open>A seek that ends before the start of the file wraps round: reads there see the end of the file.\<close>

lemma seek_before_start_is_end:
  assumes "cursor_ok c" and "unat (cur_position c) < k" and "k \<le> 2 ^ 63"
  shows "cursor_rest (snd (cursor_seek (Seek_Current (- of_nat k)) c)) = []"
proof -
  have k: "unat (of_nat k :: u64) = k" using assms(3) by (intro unat_of_nat_small) simp
  have "unat (cur_position c - of_nat k) = unat (cur_position c) + 2 ^ 64 - k"
    using assms(2) k by (simp add: unat_sub_if_size word_size)
  then have "2 ^ 63 \<le> unat (cur_position c - of_nat k)" using assms(3) by simp
  then show ?thesis using assms(1) by (simp add: cursor_seek_def cursor_rest_def cursor_ok_def Let_def)
qed

subsection \<open>The file header\<close>

text \<open>
  \<^verbatim>\<open>receive_image\<close> reads three fields of the bitmap's header, in place: \<open>None\<close> when the buffer is too
  short for them, where the source reads past its end.
\<close>

definition BI_BITFIELDS :: u32 where "BI_BITFIELDS = 3"

definition dib_field :: "nat \<Rightarrow> u8 list \<Rightarrow> u32 option" where
  "dib_field offset mem = map_option fst (get_i32_le (drop offset mem))"

definition file_header_size :: nat where "file_header_size = 14"
definition sizeof_RGBQUAD :: nat where "sizeof_RGBQUAD = 4"

text \<open>Where the pixels start in the file, and how many bytes they are.\<close>

definition pixels_place :: "u8 list \<Rightarrow> (nat \<times> nat) option" where
  "pixels_place mem =
     (case (dib_field 0 mem, dib_field 32 mem, dib_field 20 mem, dib_field 16 mem) of
        (Some header_size, Some colors_used, Some size_image, Some compression) \<Rightarrow>
          let colors_used = (if compression = BI_BITFIELDS then 3 else unat colors_used) in
          Some (file_header_size + unat header_size + colors_used * sizeof_RGBQUAD, unat size_image)
      | _ \<Rightarrow> None)"

text \<open>\<^verbatim>\<open>BITMAPFILEHEADER\<close> is packed: the letters BM, the size, four reserved bytes, the offset.\<close>

definition bmp_file_header :: "nat \<Rightarrow> nat \<Rightarrow> u8 list" where
  "bmp_file_header offset pixels_len =
     [0x42, 0x4D] @ put_i32_le (of_nat (offset + pixels_len)) @ [0, 0, 0, 0] @ put_i32_le (of_nat offset)"

lemma length_bmp_file_header [simp]: "length (bmp_file_header offset n) = file_header_size"
  by (simp add: bmp_file_header_def file_header_size_def)

text \<open>The file the image library is given.\<close>

definition bmp_cursor :: "u8 list \<Rightarrow> MultiCursor option" where
  "bmp_cursor mem =
     map_option (\<lambda>(offset, n). \<lparr>cur_bufs = [bmp_file_header offset n, mem], cur_position = 0\<rparr>) (pixels_place mem)"

text \<open>
  C32: what a decoder reads through the made-up header is the bitmap. Seeking to any place of the
  file and reading gives exactly the bytes of header and bitmap there, however the reads are split
  between the two buffers; and at the offset the header names it finds the pixels, right behind the
  bitmap's own header and its colours.
\<close>

theorem bmp_pixels_read:
  assumes "bmp_cursor mem = Some c" and "pixels_place mem = Some (offset, n)"
    and "offset + n \<le> file_header_size + length mem" and "file_header_size + length mem < 2 ^ 32"
  shows "(\<forall>i k. i + k \<le> file_header_size + length mem \<longrightarrow>
      map_option fst (read_exact cursor_read k (snd (cursor_seek (Seek_Start (of_nat i)) c))) =
        Some (take k (drop i (bmp_file_header offset n @ mem)))) \<and>
    get_i32_le (drop 10 (bmp_file_header offset n)) = Some (of_nat offset, []) \<and>
    map_option fst (read_exact cursor_read n (snd (cursor_seek (Seek_Start (of_nat offset)) c))) =
      Some (take n (drop (offset - file_header_size) mem))"
proof -
  from assms(1,2) have c: "cur_bufs c = [bmp_file_header offset n, mem]"
    by (auto simp: bmp_cursor_def)
  have any: "map_option fst (read_exact cursor_read k (snd (cursor_seek (Seek_Start (of_nat i)) c))) =
      Some (take k (drop i (bmp_file_header offset n @ mem)))"
    if "i + k \<le> file_header_size + length mem" for i k
  proof -
    let ?d = "snd (cursor_seek (Seek_Start (of_nat i)) c)"
    have "unat (of_nat i :: u64) = i" using that assms(4) by (intro unat_of_nat_small) simp
    then have rest: "cursor_rest ?d = drop i (bmp_file_header offset n @ mem)"
      by (simp add: cursor_seek_def cursor_rest_def c Let_def)
    have "cursor_ok ?d" using assms(4) by (simp add: cursor_seek_def cursor_ok_def c Let_def)
    moreover have "k \<le> length (cursor_rest ?d)" using that by (simp add: rest)
    ultimately obtain u where "read_exact cursor_read k ?d = Some (take k (cursor_rest ?d), u)"
      using multi.read_exact_enough by blast
    then show ?thesis by (simp only: rest option.map fst_conv)
  qed
  have off: "file_header_size \<le> offset" using assms(2)
    by (auto simp: pixels_place_def Let_def split: option.splits)
  have "get_i32_le (put_i32_le (of_nat offset) @ []) = Some (of_nat offset, [])" by (rule get_put_i32_le)
  then have "get_i32_le (drop 10 (bmp_file_header offset n)) = Some (of_nat offset, [])"
    by (simp add: bmp_file_header_def put_i32_le_def)
  with any any [of offset n] assms(3) off show ?thesis by simp
qed

text \<open>A bitmap of one pixel, with the header of 40 bytes.\<close>

definition demo_bitmap :: "u8 list" where
  "demo_bitmap =
     [40, 0, 0, 0, 1, 0, 0, 0, 1, 0, 0, 0, 1, 0, 24, 0, 0, 0, 0, 0, 4, 0, 0, 0,
      0, 0, 0, 0, 0, 0, 0, 0, 0, 0, 0, 0, 0, 0, 0, 0, 9, 8, 7, 0]"

theorem bmp_pixels_read_witness:
  "\<exists>c. bmp_cursor demo_bitmap = Some c \<and>
     map_option fst (read_exact cursor_read 4 (snd (cursor_seek (Seek_Start (of_nat 54)) c))) = Some [9, 8, 7, 0]"
proof -
  have fields: "dib_field 0 demo_bitmap = Some 40" "dib_field 32 demo_bitmap = Some 0"
      "dib_field 20 demo_bitmap = Some 4" "dib_field 16 demo_bitmap = Some 0"
    by (simp_all add: demo_bitmap_def dib_field_def)
  then have place: "pixels_place demo_bitmap = Some (54, 4)"
    by (simp add: pixels_place_def file_header_size_def BI_BITFIELDS_def)
  then obtain c where c: "bmp_cursor demo_bitmap = Some c" by (simp add: bmp_cursor_def)
  have len: "length demo_bitmap = 44" by (simp add: demo_bitmap_def)
  have "map_option fst (read_exact cursor_read 4 (snd (cursor_seek (Seek_Start (of_nat 54)) c))) =
      Some (take 4 (drop (54 - file_header_size) demo_bitmap))"
    using bmp_pixels_read [OF c place] by (simp add: len file_header_size_def)
  also have "take 4 (drop (54 - file_header_size) demo_bitmap) = [9, 8, 7, 0]"
    by (simp add: demo_bitmap_def file_header_size_def)
  finally show ?thesis using c by blast
qed


end
