(* ===== verification/Win_Clipboard.thy ===== *)
theory Win_Clipboard
  imports Key_Bindings Win_Text Multi_Cursor "HOL-Library.AList"
begin

text \<open>
  The Windows half of \<^verbatim>\<open>zerocost-clipboard\<close>: opening the clipboard and walking its formats
  (\<^verbatim>\<open>windows/raw.rs\<close>), offers of other programs (\<^verbatim>\<open>windows/offer.rs\<close>), data to be put on it now or when it is
  asked for (\<^verbatim>\<open>windows/send.rs\<close>), and the listener of the event loop (\<^verbatim>\<open>windows/mod.rs\<close>).
\<close>

subsection \<open>The Windows API and the image library\<close>

text \<open>
  The calls over a state \<open>'s\<close>. Error codes are numbers, 0 is \<^verbatim>\<open>S_OK\<close>. \<open>cl_block\<close> is \<^verbatim>\<open>GlobalLock\<close> with
  \<^verbatim>\<open>GlobalSize\<close>: the bytes of a memory block, or \<open>None\<close> for a null pointer. \<open>cl_alloc\<close> makes a block
  with these bytes. A handle comes with the destructor that frees it.
\<close>

datatype Destructor = Global_free | Custom_destructor nat

record DestructibleHandle =
  dh_handle :: u64
  dh_destructor :: Destructor

record 's Clip_api =
  cl_open :: "HWND \<Rightarrow> 's \<Rightarrow> bool \<times> 's"
  cl_close :: "'s \<Rightarrow> bool \<times> 's"
  cl_empty :: "'s \<Rightarrow> u32 option \<times> 's"
  cl_next_format :: "u32 \<Rightarrow> 's \<Rightarrow> u32"
  cl_last_error :: "'s \<Rightarrow> u32"
  cl_get_data :: "u32 \<Rightarrow> 's \<Rightarrow> (u32 + u64) \<times> 's"
  cl_block :: "u64 \<Rightarrow> 's \<Rightarrow> u8 list option"
  cl_set_data :: "u32 \<Rightarrow> u64 \<Rightarrow> 's \<Rightarrow> u64 \<times> 's"
  cl_alloc :: "u8 list \<Rightarrow> 's \<Rightarrow> u64 \<times> 's"
  cl_destroy :: "Destructor \<Rightarrow> u64 \<Rightarrow> 's \<Rightarrow> 's"
  cl_sequence :: "'s \<Rightarrow> u32"
  cl_owner :: "'s \<Rightarrow> HWND"
  cl_add_listener :: "HWND \<Rightarrow> 's \<Rightarrow> bool \<times> 's"
  cl_remove_listener :: "HWND \<Rightarrow> 's \<Rightarrow> 's"

record 'i Image_lib =
  il_bmp_encode :: "'i \<Rightarrow> u8 list"
  il_bmp_load :: "MultiCursor \<Rightarrow> 'i option"
  il_png_encode :: "'i \<Rightarrow> u8 list option"
  il_png_decode :: "u8 list \<Rightarrow> 'i option"
  il_empty :: 'i

definition CF_DIB :: u32 where "CF_DIB = 8"
definition CF_UNICODETEXT :: u32 where "CF_UNICODETEXT = 13"
definition CF_DIBV5 :: u32 where "CF_DIBV5 = 17"

lemmas CF_defs = CF_DIB_def CF_UNICODETEXT_def CF_DIBV5_def

subsection \<open>The open clipboard\<close>

text \<open>\<^verbatim>\<open>WindowsClipboard::open\<close> tries until it succeeds, and \<^verbatim>\<open>Drop\<close> closes.\<close>

partial_function (option) open_loop :: "'s Clip_api \<Rightarrow> HWND \<Rightarrow> 's \<Rightarrow> 's option" where
  "open_loop api w s = (case cl_open api w s of (success, s) \<Rightarrow> if success then Some s else open_loop api w s)"

definition clip_open :: "'s Clip_api \<Rightarrow> HWND \<Rightarrow> 's \<Rightarrow> win_panic + 's" where
  "clip_open api w s = (case open_loop api w s of Some s \<Rightarrow> Inr s | None \<Rightarrow> Inl Never_returns)"

definition clip_close :: "'s Clip_api \<Rightarrow> 's \<Rightarrow> win_panic + 's" where
  "clip_close api s = (let (ok, s) = cl_close api s in if ok then Inr s else Inl Unwrap_failed)"

text \<open>A block of code that holds the clipboard; every way out of it closes.\<close>

definition with_clipboard ::
    "'s Clip_api \<Rightarrow> HWND \<Rightarrow> ('s \<Rightarrow> win_panic + 'r \<times> 's) \<Rightarrow> 's \<Rightarrow> win_panic + 'r \<times> 's" where
  "with_clipboard api w body s =
     and_then (clip_open api w s) (\<lambda>s.
       and_then (body s) (\<lambda>(r, s).
         and_then (clip_close api s) (\<lambda>s. Inr (r, s))))"

text \<open>The iterator \<^verbatim>\<open>EnumClipboardFormats\<close>, collected up to its first error.\<close>

partial_function (option) enum_from :: "'s Clip_api \<Rightarrow> 's \<Rightarrow> u32 \<Rightarrow> (u32 + u32 list) option" where
  "enum_from api s current =
     (let f = cl_next_format api current s in
      if f = 0 then Some (if cl_last_error api s = 0 then Inr [] else Inl (cl_last_error api s))
      else Option.bind (enum_from api s f) (\<lambda>r. Some (map_sum id (\<lambda>fs. f # fs) r)))"

definition enum_formats :: "'s Clip_api \<Rightarrow> 's \<Rightarrow> win_panic + u32 + u32 list" where
  "enum_formats api s = (case enum_from api s 0 of Some r \<Rightarrow> Inr r | None \<Rightarrow> Inl Never_returns)"

definition clip_receive_buffer :: "'s Clip_api \<Rightarrow> u32 \<Rightarrow> 's \<Rightarrow> (u32 + u8 list) \<times> 's" where
  "clip_receive_buffer api format s =
     (case cl_get_data api format s of
        (Inl e, s) \<Rightarrow> (Inl e, s)
      | (Inr h, s) \<Rightarrow> (case cl_block api h s of None \<Rightarrow> (Inl (cl_last_error api s), s) | Some bs \<Rightarrow> (Inr bs, s)))"

text \<open>
  \<^verbatim>\<open>WindowsClipboardOwned::send\<close>: \<open>SetClipboardData\<close> answers a null handle for an error, but also when it
  was given one for data to be rendered later; then the error code is \<^verbatim>\<open>S_OK\<close>.
\<close>

definition success_is_good :: "u32 + 'a \<Rightarrow> u32 + unit" where
  "success_is_good r = (case r of Inl e \<Rightarrow> if e = 0 then Inr () else Inl e | Inr _ \<Rightarrow> Inr ())"

definition clip_send :: "'s Clip_api \<Rightarrow> u32 \<Rightarrow> u64 \<Rightarrow> 's \<Rightarrow> (u32 + unit) \<times> 's" where
  "clip_send api format h s =
     (let (h', s) = cl_set_data api format h s in
      (success_is_good (if h' = 0 then Inl (cl_last_error api s) else Inr h'), s))"

definition send_delay_rendered :: "'s Clip_api \<Rightarrow> u32 \<Rightarrow> 's \<Rightarrow> (u32 + unit) \<times> 's" where
  "send_delay_rendered api format s = clip_send api format 0 s"

subsection \<open>Data\<close>

datatype 'i Format_data =
    FD_Text unicode
  | FD_Image 'i
  | FD_CustomBytes u32 "u8 list"
  | FD_CustomHandle u32 DestructibleHandle

text \<open>Data rendered later holds the channel on which its owner waits for the request.\<close>

datatype Renderer =
    DR_Text nat
  | DR_Image nat
  | DR_CustomBytes u32 nat
  | DR_CustomHandle u32 nat

fun dr_format :: "Renderer \<Rightarrow> u32" where
  "dr_format (DR_Text _) = CF_UNICODETEXT"
| "dr_format (DR_Image _) = CF_DIB"
| "dr_format (DR_CustomBytes f _) = f"
| "dr_format (DR_CustomHandle f _) = f"

text \<open>What the owners of the channels answer; \<open>None\<close> when an owner is gone or drops the request.\<close>

record ('i, 's) Owners =
  ow_text :: "nat \<Rightarrow> 's \<Rightarrow> unicode option \<times> 's"
  ow_image :: "nat \<Rightarrow> 's \<Rightarrow> 'i option \<times> 's"
  ow_bytes :: "nat \<Rightarrow> 's \<Rightarrow> u8 list option \<times> 's"
  ow_handle :: "nat \<Rightarrow> 's \<Rightarrow> DestructibleHandle option \<times> 's"

fun delay_render :: "('i, 's) Owners \<Rightarrow> Renderer \<Rightarrow> 's \<Rightarrow> 'i Format_data option \<times> 's" where
  "delay_render ow (DR_Text ch) s = apfst (map_option FD_Text) (ow_text ow ch s)"
| "delay_render ow (DR_Image ch) s = apfst (map_option FD_Image) (ow_image ow ch s)"
| "delay_render ow (DR_CustomBytes f ch) s = apfst (map_option (FD_CustomBytes f)) (ow_bytes ow ch s)"
| "delay_render ow (DR_CustomHandle f ch) s = apfst (map_option (FD_CustomHandle f)) (ow_handle ow ch s)"

definition alloc_hglobal :: "'s Clip_api \<Rightarrow> u8 list \<Rightarrow> 's \<Rightarrow> DestructibleHandle \<times> 's" where
  "alloc_hglobal api b s =
     (let (h, s) = cl_alloc api b s in (\<lparr>dh_handle = h, dh_destructor = Global_free\<rparr>, s))"

text \<open>\<^verbatim>\<open>render\<close>: the block goes to the clipboard, or is freed when Windows does not take it.\<close>

definition render_block ::
    "'s Clip_api \<Rightarrow> 'i Image_lib \<Rightarrow> 'i Format_data \<Rightarrow> 's \<Rightarrow> win_panic + u32 \<times> DestructibleHandle \<times> 's" where
  "render_block api il data s =
     (case data of
        FD_Text t \<Rightarrow> Inr (CF_UNICODETEXT, alloc_hglobal api (text_block t) s)
      | FD_Image i \<Rightarrow>
          let buf = il_bmp_encode il i in
          if length buf < 14 then Inl Slice_out_of_range else Inr (CF_DIB, alloc_hglobal api (drop 14 buf) s)
      | FD_CustomBytes format b \<Rightarrow> Inr (format, alloc_hglobal api b s)
      | FD_CustomHandle format h \<Rightarrow> Inr (format, h, s))"

definition render ::
    "'s Clip_api \<Rightarrow> 'i Image_lib \<Rightarrow> 'i Format_data \<Rightarrow> 's \<Rightarrow> win_panic + (u32 + unit) \<times> 's" where
  "render api il data s =
     and_then (render_block api il data s) (\<lambda>(format, h, s).
       Inr (case clip_send api format (dh_handle h) s of
              (Inl e, s) \<Rightarrow> (Inl e, cl_destroy api (dh_destructor h) (dh_handle h) s)
            | (Inr _, s) \<Rightarrow> (Inr (), s)))"

subsection \<open>Offers\<close>

record Win_offer =
  wo_sequence :: u32
  wo_owner :: HWND
  wo_formats :: "u32 list"

datatype Offer_error =
    ClipboardOfferExpired
  | FormatNotAvailable
  | Windows_error u32
  | Image_error

definition read_clipboard :: "'s Clip_api \<Rightarrow> HWND \<Rightarrow> 's \<Rightarrow> win_panic + (u32 + Win_offer option) \<times> 's" where
  "read_clipboard api w =
     with_clipboard api w (\<lambda>s.
       and_then (enum_formats api s) (\<lambda>formats.
         Inr (map_sum id (\<lambda>fs.
                if fs = [] then None
                else Some \<lparr>wo_sequence = cl_sequence api s, wo_owner = cl_owner api s, wo_formats = fs\<rparr>) formats, s)))"

definition has_string :: "Win_offer \<Rightarrow> bool" where
  "has_string offer \<longleftrightarrow> CF_UNICODETEXT \<in> set (wo_formats offer)"

definition has_image :: "Win_offer \<Rightarrow> bool" where
  "has_image offer \<longleftrightarrow> CF_DIBV5 \<in> set (wo_formats offer)"

text \<open>\<^verbatim>\<open>receive_handle\<close> and \<^verbatim>\<open>receive_bytes\<close> differ only in what they ask the open clipboard for.\<close>

definition receive_with ::
    "('s \<Rightarrow> (u32 + 'a) \<times> 's) \<Rightarrow> 's Clip_api \<Rightarrow> Win_offer \<Rightarrow> u32 \<Rightarrow> 's \<Rightarrow> win_panic + (Offer_error + 'a) \<times> 's" where
  "receive_with get api offer format s =
     (if format \<notin> set (wo_formats offer) then Inr (Inl FormatNotAvailable, s)
      else with_clipboard api 0 (\<lambda>s.
        Inr (if cl_sequence api s \<noteq> wo_sequence offer then (Inl ClipboardOfferExpired, s)
             else apfst (map_sum Windows_error id) (get s))) s)"

definition receive_handle :: "'s Clip_api \<Rightarrow> Win_offer \<Rightarrow> u32 \<Rightarrow> 's \<Rightarrow> win_panic + (Offer_error + u64) \<times> 's" where
  "receive_handle api offer format = receive_with (cl_get_data api format) api offer format"

definition receive_bytes :: "'s Clip_api \<Rightarrow> Win_offer \<Rightarrow> u32 \<Rightarrow> 's \<Rightarrow> win_panic + (Offer_error + u8 list) \<times> 's" where
  "receive_bytes api offer format = receive_with (clip_receive_buffer api format) api offer format"

definition receive_string :: "'s Clip_api \<Rightarrow> bool \<Rightarrow> Win_offer \<Rightarrow> 's \<Rightarrow> win_panic + (Offer_error + unicode) \<times> 's" where
  "receive_string api odd_address offer s =
     and_then (receive_bytes api offer CF_UNICODETEXT s) (\<lambda>(r, s).
       case r of
         Inl e \<Rightarrow> Inr (Inl e, s)
       | Inr memory \<Rightarrow> and_then (text_of_block odd_address memory) (\<lambda>t. Inr (Inr t, s)))"

text \<open>A bitmap too short for its header, which the source would read past, counts as an image error.\<close>

definition receive_image ::
    "'s Clip_api \<Rightarrow> 'i Image_lib \<Rightarrow> Win_offer \<Rightarrow> 's \<Rightarrow> win_panic + (Offer_error + 'i) \<times> 's" where
  "receive_image api il offer s =
     and_then (receive_bytes api offer CF_DIBV5 s) (\<lambda>(r, s).
       case r of
         Inl e \<Rightarrow> Inr (Inl e, s)
       | Inr mem \<Rightarrow>
           Inr (case Option.bind (bmp_cursor mem) (il_bmp_load il) of
                  None \<Rightarrow> Inl Image_error
                | Some i \<Rightarrow> Inr i, s))"

subsection \<open>The listener\<close>

text \<open>
  The offer that watchers see, how often it was sent, whether there are watchers, and the data promised
  for later, by format; the order of the list is that of the hash map.
\<close>

record Win_clipboard = HotKeys +
  cb_offer :: "Win_offer option"
  cb_version :: nat
  cb_watched :: bool
  cb_renderers :: "(u32 \<times> Renderer) list"

definition insert_renderer :: "u32 \<Rightarrow> Renderer \<Rightarrow> 'a Win_clipboard_scheme \<Rightarrow> 'a Win_clipboard_scheme" where
  "insert_renderer f r s = s\<lparr>cb_renderers := AList.update f r (cb_renderers s)\<rparr>"

definition take_renderer ::
    "u32 \<Rightarrow> 'a Win_clipboard_scheme \<Rightarrow> Renderer option \<times> 'a Win_clipboard_scheme" where
  "take_renderer f s = (map_of (cb_renderers s) f, s\<lparr>cb_renderers := AList.delete f (cb_renderers s)\<rparr>)"

text \<open>\<^verbatim>\<open>WM_CLIPBOARDUPDATE\<close>: sending to a watch channel without receivers fails and changes nothing.\<close>

definition on_clipboard_update ::
    "('a Win_clipboard_scheme) Clip_api \<Rightarrow> HWND \<Rightarrow> 'a Win_clipboard_scheme \<Rightarrow>
      win_panic + (unit + LRESULT option) \<times> 'a Win_clipboard_scheme" where
  "on_clipboard_update api w s =
     and_then (read_clipboard api w s) (\<lambda>(r, s).
       let offer = (case r of Inl _ \<Rightarrow> None | Inr offer \<Rightarrow> offer) in
       Inr (if cb_watched s then (Inr (Some 0), s\<lparr>cb_offer := offer, cb_version := cb_version s + 1\<rparr>)
            else if cb_renderers s = [] then (Inl (), cl_remove_listener api w s)
            else (Inr (Some 0), s)))"

definition on_destroy_clipboard ::
    "('a Win_clipboard_scheme) Clip_api \<Rightarrow> HWND \<Rightarrow> 'a Win_clipboard_scheme \<Rightarrow> 'a Win_clipboard_scheme" where
  "on_destroy_clipboard api w s = (if cl_owner api s \<noteq> w then s\<lparr>cb_renderers := []\<rparr> else s)"

text \<open>What arrived is rendered; that Windows refuses it is ignored.\<close>

definition render_arrived ::
    "'s Clip_api \<Rightarrow> 'i Image_lib \<Rightarrow> 'i Format_data option \<Rightarrow> 's \<Rightarrow> win_panic + 's" where
  "render_arrived api il arrived s =
     (case arrived of
        None \<Rightarrow> Inr s
      | Some data \<Rightarrow> and_then (render api il data s) (\<lambda>(_, s). Inr s))"

definition on_render_format ::
    "('a Win_clipboard_scheme) Clip_api \<Rightarrow> 'i Image_lib \<Rightarrow> ('i, 'a Win_clipboard_scheme) Owners \<Rightarrow> u32 \<Rightarrow>
      'a Win_clipboard_scheme \<Rightarrow> win_panic + 'a Win_clipboard_scheme" where
  "on_render_format api il ow f s =
     (case take_renderer f s of
        (None, s) \<Rightarrow> Inr s
      | (Some r, s) \<Rightarrow> (case delay_render ow r s of (arrived, s) \<Rightarrow> render_arrived api il arrived s))"

text \<open>\<^verbatim>\<open>WM_RENDERALLFORMATS\<close>: all owners are asked before the first answer is rendered.\<close>

fun delay_render_all :: "('i, 's) Owners \<Rightarrow> Renderer list \<Rightarrow> 's \<Rightarrow> 'i Format_data option list \<times> 's" where
  "delay_render_all ow [] s = ([], s)"
| "delay_render_all ow (r # rs) s =
     (let (x, s) = delay_render ow r s; (xs, s) = delay_render_all ow rs s in (x # xs, s))"

definition on_render_all ::
    "('a Win_clipboard_scheme) Clip_api \<Rightarrow> 'i Image_lib \<Rightarrow> ('i, 'a Win_clipboard_scheme) Owners \<Rightarrow> HWND \<Rightarrow>
      'a Win_clipboard_scheme \<Rightarrow> win_panic + 'a Win_clipboard_scheme" where
  "on_render_all api il ow w s =
     and_then (with_clipboard api w (\<lambda>s.
       if cl_owner api s = w then
         let (joined, s) = delay_render_all ow (map snd (cb_renderers s)) (s\<lparr>cb_renderers := []\<rparr>) in
         and_then (for_each_res (render_arrived api il) joined s) (\<lambda>s. Inr ((), s))
       else Inr ((), s)) s) (\<lambda>(_, s). Inr s)"

definition clip_listener ::
    "('a Win_clipboard_scheme) Clip_api \<Rightarrow> 'i Image_lib \<Rightarrow> ('i, 'a Win_clipboard_scheme) Owners \<Rightarrow>
      ('a Win_clipboard_scheme) Listener" where
  "clip_listener api il ow m s =
     (let done = (\<lambda>r. and_then r (\<lambda>s. Inr (Inr (Some 0), s))) in
      if msg_message m = WM_CLIPBOARDUPDATE then on_clipboard_update api (msg_hwnd m) s
      else if msg_message m = WM_DESTROYCLIPBOARD then done (Inr (on_destroy_clipboard api (msg_hwnd m) s))
      else if msg_message m = WM_RENDERFORMAT then done (on_render_format api il ow (ucast (msg_wparam m)) s)
      else if msg_message m = WM_RENDERALLFORMATS then done (on_render_all api il ow (msg_hwnd m) s)
      else Inr (Inr None, s))"

subsection \<open>The owner's side\<close>

text \<open>\<^verbatim>\<open>init\<close>: the current offer, and the callback that registers the listener.\<close>

definition clipboard_init ::
    "('a Win_clipboard_scheme) Clip_api \<Rightarrow> 'a Win_clipboard_scheme \<Rightarrow> win_panic + u32 option \<times> 'a Win_clipboard_scheme" where
  "clipboard_init api s =
     and_then (read_clipboard api 0 s) (\<lambda>(r, s).
       case r of
         Inl e \<Rightarrow> Inr (Some e, s)
       | Inr offer \<Rightarrow> Inr (None, s\<lparr>cb_offer := offer, cb_version := 0, cb_watched := True, cb_renderers := []\<rparr>))"

definition clipboard_callback ::
    "('a Win_clipboard_scheme) Clip_api \<Rightarrow> 'i Image_lib \<Rightarrow> ('i, 'a Win_clipboard_scheme) Owners \<Rightarrow> HWND \<Rightarrow>
      ('a Win_clipboard_scheme) Callback" where
  "clipboard_callback api il ow w s =
     (let (ok, s) = cl_add_listener api w s in
      if ok then Inr ([clip_listener api il ow], s) else Inl Assertion_failed)"

text \<open>\<^verbatim>\<open>send\<close>: the first error ends it; what was put on the clipboard before stays.\<close>

datatype 'i Content = Delay_rendered Renderer | Immediate "'i Format_data"

definition send_content ::
    "('a Win_clipboard_scheme) Clip_api \<Rightarrow> 'i Image_lib \<Rightarrow> 'i Content \<Rightarrow> 'a Win_clipboard_scheme \<Rightarrow>
      win_panic + (u32 + unit) \<times> 'a Win_clipboard_scheme" where
  "send_content api il content s =
     (case content of
        Delay_rendered r \<Rightarrow> Inr (send_delay_rendered api (dr_format r) (insert_renderer (dr_format r) r s))
      | Immediate data \<Rightarrow> render api il data s)"

fun send_contents ::
    "('a Win_clipboard_scheme) Clip_api \<Rightarrow> 'i Image_lib \<Rightarrow> 'i Content list \<Rightarrow> 'a Win_clipboard_scheme \<Rightarrow>
      win_panic + (u32 + unit) \<times> 'a Win_clipboard_scheme" where
  "send_contents api il [] s = Inr (Inr (), s)"
| "send_contents api il (c # cs) s =
     and_then (send_content api il c s) (\<lambda>(r, s).
       case r of Inl e \<Rightarrow> Inr (Inl e, s) | Inr _ \<Rightarrow> send_contents api il cs s)"

definition clipboard_send ::
    "('a Win_clipboard_scheme) Clip_api \<Rightarrow> 'i Image_lib \<Rightarrow> HWND \<Rightarrow> 'i Content list \<Rightarrow> 'a Win_clipboard_scheme \<Rightarrow>
      win_panic + (u32 + unit) \<times> 'a Win_clipboard_scheme" where
  "clipboard_send api il w contents =
     with_clipboard api w (\<lambda>s.
       case cl_empty api s of
         (Some e, s) \<Rightarrow> Inr (Inl e, s)
       | (None, s) \<Rightarrow> send_contents api il contents (s\<lparr>cb_renderers := []\<rparr>))"


subsection \<open>Opening and enumerating\<close>

text \<open>The clipboard after some failed tries.\<close>

definition after_tries :: "'s Clip_api \<Rightarrow> HWND \<Rightarrow> nat \<Rightarrow> 's \<Rightarrow> 's" where
  "after_tries api w n = (\<lambda>s. snd (cl_open api w s)) ^^ n"

lemma open_loop_tries:
  "(\<forall>i<n. \<not> fst (cl_open api w (after_tries api w i s))) \<Longrightarrow>
    open_loop api w s = open_loop api w (after_tries api w n s)"
proof (induction n)
  case 0
  show ?case by (simp add: after_tries_def)
next
  case (Suc n)
  let ?s = "after_tries api w n s"
  from Suc.prems have "open_loop api w ?s = open_loop api w (snd (cl_open api w ?s))"
    by (subst open_loop.simps) (auto split: prod.splits)
  with Suc show ?case by (simp add: after_tries_def)
qed

lemma open_loop_succeeds:
  assumes "open_loop api w s = Some t"
  shows "\<exists>n. fst (cl_open api w (after_tries api w n s)) \<and> t = after_tries api w (Suc n) s"
proof (rule open_loop.raw_induct
    [where P = "\<lambda>api w s t. \<exists>n. fst (cl_open api w (after_tries api w n s)) \<and> t = after_tries api w (Suc n) s", OF _ assms])
  fix loop and api :: "'s Clip_api" and w s t
  assume IH: "\<And>api w s t. loop api w s = Some t \<Longrightarrow>
      \<exists>n. fst (cl_open api w (after_tries api w n s)) \<and> t = after_tries api w (Suc n) s"
    and step: "(case cl_open api w s of (success, s) \<Rightarrow> if success then Some s else loop api w s) = Some t"
  show "\<exists>n. fst (cl_open api w (after_tries api w n s)) \<and> t = after_tries api w (Suc n) s"
  proof (cases "fst (cl_open api w s)")
    case True
    with step show ?thesis by (intro exI [of _ 0]) (auto simp: after_tries_def split: prod.splits)
  next
    case False
    let ?u = "snd (cl_open api w s)"
    from False step have "loop api w ?u = Some t" by (auto split: prod.splits)
    from IH [OF this] obtain n where "fst (cl_open api w (after_tries api w n ?u))" "t = after_tries api w (Suc n) ?u"
      by blast
    then show ?thesis
      by (intro exI [of _ "Suc n"]) (simp only: after_tries_def funpow_Suc_right o_apply simp_thms)
  qed
qed

text \<open>
  Opening the clipboard returns exactly when some try succeeds. While another program keeps the
  clipboard open for good, the caller never gets it back.
\<close>

lemma open_returns_iff:
  "(\<exists>t. clip_open api w s = Inr t) \<longleftrightarrow> (\<exists>n. fst (cl_open api w (after_tries api w n s)))"
proof
  assume "\<exists>n. fst (cl_open api w (after_tries api w n s))"
  then obtain n where n: "fst (cl_open api w (after_tries api w n s))"
    and before: "\<forall>i<n. \<not> fst (cl_open api w (after_tries api w i s))"
    using exists_least_iff [of "\<lambda>n. fst (cl_open api w (after_tries api w n s))"] by auto
  have "open_loop api w s = Some (snd (cl_open api w (after_tries api w n s)))"
    unfolding open_loop_tries [OF before] using n by (subst open_loop.simps) (auto split: prod.splits)
  then show "\<exists>t. clip_open api w s = Inr t" by (simp add: clip_open_def)
next
  assume "\<exists>t. clip_open api w s = Inr t"
  then obtain t where "open_loop api w s = Some t" by (auto simp: clip_open_def split: option.splits)
  then show "\<exists>n. fst (cl_open api w (after_tries api w n s))" by (blast dest: open_loop_succeeds)
qed

text \<open>The formats that Windows hands out one after the other are the list that is collected.\<close>

fun enumerates :: "'s Clip_api \<Rightarrow> 's \<Rightarrow> u32 \<Rightarrow> u32 list \<Rightarrow> bool" where
  "enumerates api s current [] = (cl_next_format api current s = 0)"
| "enumerates api s current (f # fs) = (cl_next_format api current s = f \<and> f \<noteq> 0 \<and> enumerates api s f fs)"

lemma enum_formats_all:
  assumes "enumerates api s 0 fs"
  shows "enum_formats api s = Inr (if cl_last_error api s = 0 then Inr fs else Inl (cl_last_error api s))"
proof -
  have "enum_from api s current = Some (if cl_last_error api s = 0 then Inr fs else Inl (cl_last_error api s))"
    if "enumerates api s current fs" for current
    using that
    by (induction fs arbitrary: current) (subst enum_from.simps; simp)+
  with assms show ?thesis by (simp add: enum_formats_def)
qed

text \<open>An expired offer is refused without asking for its data.\<close>

lemma receive_expired:
  assumes "format \<in> set (wo_formats offer)" and "clip_open api 0 s = Inr u"
    and "cl_sequence api u \<noteq> wo_sequence offer" and "clip_close api u = Inr t"
  shows "receive_bytes api offer format s = Inr (Inl ClipboardOfferExpired, t)"
  using assms by (simp add: receive_bytes_def receive_with_def with_clipboard_def)

text \<open>A clipboard that another program keeps open.\<close>

lemma held_never_opens:
  assumes "\<And>os. held os \<Longrightarrow> \<exists>os'. cl_open api w os = (False, os') \<and> held os'" and "held s"
  shows "clip_open api w s = Inl Never_returns"
proof -
  have "held (after_tries api w n s) \<and> \<not> fst (cl_open api w (after_tries api w n s))" for n
  proof (induction n)
    case 0
    from assms(1) [OF assms(2)] assms(2) show ?case by (auto simp: after_tries_def)
  next
    case (Suc n)
    from Suc assms(1) [of "after_tries api w n s"] obtain os
      where "cl_open api w (after_tries api w n s) = (False, os)" "held os" by blast
    with assms(1) [of os] show ?case by (auto simp: after_tries_def)
  qed
  then have "\<nexists>t. clip_open api w s = Inr t" by (simp add: open_returns_iff)
  then show ?thesis by (auto simp: clip_open_def split: option.splits)
qed


end
