(* ===== verification/Guest_Agent.thy ===== *)
theory Guest_Agent
  imports Win_Clipboard Ga_Protocol
begin

text \<open>
  \<^verbatim>\<open>guest-agent/src/main.rs\<close>: the program inside Windows. Its main thread handles the driver's messages
  one after the other and runs small tasks between them; the thread of the event loop delivers hotkeys
  and asks for clipboard contents that the host has promised.
\<close>

subsection \<open>State\<close>

text \<open>
  Data promised to Windows is fetched by a pair of tasks per type: one waits until Windows asks (\<open>Ph_idle\<close>,
  then \<open>Ph_asked\<close>) and hands a sender to the other (\<open>Ph_passed\<close>), which stores it as the outstanding one
  and sends a request to the driver (\<open>Ph_requested\<close>); what arrives on the sender (\<open>Ph_answered\<close>, no
  bytes when it was dropped) goes to Windows (\<open>Ph_done\<close>). The number of a task is its place in the
  list, and the channel of its renderer.
\<close>

datatype Task_phase =
    Ph_idle
  | Ph_asked
  | Ph_passed
  | Ph_requested
  | Ph_answered "u8 list"
  | Ph_done "u8 list"

record Delay_task =
  dt_type :: ClipboardType
  dt_phase :: Task_phase

datatype Agent_action =
    Suspend_called
  | Shutdown_called
  | Keys_released "u16 list"
  | Console_opened string

text \<open>
  \<open>ag_os\<close> is the state of Windows. \<open>ag_rendering\<close> is what the event loop's thread waits for inside a
  listener, with the clipboard's lock held; \<open>ag_opened\<close> tells whether it also holds the clipboard open.
\<close>

record 'os Agent = Win_clipboard +
  ag_os :: 'os
  ag_forwarders :: "(nat \<times> u32) list"
  ag_tasks :: "Delay_task list"
  ag_outstanding :: "nat option"
  ag_seen :: nat
  ag_rendering :: "Renderer list option"
  ag_opened :: bool
  ag_has_output :: bool
  ag_sent :: "GaCmdIn list"
  ag_actions :: "Agent_action list"

type_synonym 'os Agent_state = "('os Agent) WindowData \<times> 'os Agent"

text \<open>The system the agent runs on. Its calls see the state of Windows and nothing of the program's.\<close>

record ('i, 'os) Agent_system =
  as_win :: "'os Win_api"
  as_clip :: "'os Clip_api"
  as_images :: "'i Image_lib"
  as_hotkeys :: Hotkey_answers
  as_window :: HWND

definition on_os :: "('os \<Rightarrow> 'r \<times> 'os) \<Rightarrow> 'os Agent \<Rightarrow> 'r \<times> 'os Agent" where
  "on_os f s = (let (r, t) = f (ag_os s) in (r, s\<lparr>ag_os := t\<rparr>))"

definition agent_win :: "'os Win_api \<Rightarrow> ('os Agent) Win_api" where
  "agent_win api =
     \<lparr>wa_get_message = on_os (wa_get_message api),
      wa_post_message = (\<lambda>w n. on_os (wa_post_message api w n)),
      wa_post_quit = (\<lambda>s. s\<lparr>ag_os := wa_post_quit api (ag_os s)\<rparr>),
      wa_destroy_window = (\<lambda>w s. map_option (apsnd (\<lambda>t. s\<lparr>ag_os := t\<rparr>)) (wa_destroy_window api w (ag_os s))),
      wa_def_proc = (\<lambda>m. on_os (wa_def_proc api m)),
      wa_exists = (\<lambda>w s. wa_exists api w (ag_os s))\<rparr>"

definition agent_clip :: "'os Clip_api \<Rightarrow> ('os Agent) Clip_api" where
  "agent_clip api =
     \<lparr>cl_open = (\<lambda>w. on_os (cl_open api w)),
      cl_close = on_os (cl_close api),
      cl_empty = on_os (cl_empty api),
      cl_next_format = (\<lambda>f s. cl_next_format api f (ag_os s)),
      cl_last_error = (\<lambda>s. cl_last_error api (ag_os s)),
      cl_get_data = (\<lambda>f. on_os (cl_get_data api f)),
      cl_block = (\<lambda>h s. cl_block api h (ag_os s)),
      cl_set_data = (\<lambda>f h. on_os (cl_set_data api f h)),
      cl_alloc = (\<lambda>b. on_os (cl_alloc api b)),
      cl_destroy = (\<lambda>d h s. s\<lparr>ag_os := cl_destroy api d h (ag_os s)\<rparr>),
      cl_sequence = (\<lambda>s. cl_sequence api (ag_os s)),
      cl_owner = (\<lambda>s. cl_owner api (ag_os s)),
      cl_add_listener = (\<lambda>w. on_os (cl_add_listener api w)),
      cl_remove_listener = (\<lambda>w s. s\<lparr>ag_os := cl_remove_listener api w (ag_os s)\<rparr>)\<rparr>"

text \<open>What else one step finds: the connection, the console, the address of a buffer.\<close>

record Agent_world =
  aw_connected :: bool
  aw_loop_runs :: bool
  aw_alloc_console :: bool
  aw_console_output :: bool
  aw_odd_address :: bool

subsection \<open>Messages of the driver\<close>

text \<open>\<^verbatim>\<open>tx.send(..).await.unwrap()\<close>: the channel to the task that writes to the connection.\<close>

definition agent_send :: "Agent_world \<Rightarrow> GaCmdIn \<Rightarrow> 'os Agent \<Rightarrow> win_panic + 'os Agent" where
  "agent_send aw cmd s = (if aw_connected aw then Inr (s\<lparr>ag_sent := ag_sent s @ [cmd]\<rparr>) else Inl Unwrap_failed)"

text \<open>
  \<^verbatim>\<open>register_hotkey\<close> and its forwarding task. A full channel of callbacks makes the agent wait:
  \<open>agent_ready\<close> below tells when the step can happen.
\<close>

definition handle_register ::
    "('i, 'os) Agent_system \<Rightarrow> Agent_world \<Rightarrow> RegisterHotKey \<Rightarrow> 'os Agent_state \<Rightarrow> win_panic + 'os Agent_state" where
  "handle_register sys aw x ds =
     (let (d, s) = ds in
      and_then (register_hotkey_queue (as_hotkeys sys) s) (\<lambda>(i, c, s).
        case send_callback_queue (aw_loop_runs aw) (register_callback i (rhk_modifiers x) (rhk_key x)) d of
          None \<Rightarrow> Inl Never_returns
        | Some (sent, d) \<Rightarrow>
            if \<not> sent then Inl Unwrap_failed
            else
              let (posted, s) = wake_loop (agent_win (as_win sys)) (as_window sys) s in
              if posted then Inr (d, s\<lparr>ag_forwarders := ag_forwarders s @ [(c, rhk_id x)]\<rparr>)
              else Inl Unwrap_failed))"

text \<open>\<^verbatim>\<open>release_modifiers\<close>: one key release per modifier, left and right.\<close>

definition modifier_keys :: "u16 list" where
  "modifier_keys = [0x10, 0xA0, 0xA1, 0x11, 0xA2, 0xA3, 0x12, 0xA4, 0xA5, 0x5B, 0x5C]"

definition agent_act :: "Agent_action \<Rightarrow> 'os Agent \<Rightarrow> 'os Agent" where
  "agent_act a s = s\<lparr>ag_actions := ag_actions s @ [a]\<rparr>"

text \<open>\<^verbatim>\<open>spawn_delay_renderer_for_type\<close>: a pair of tasks, and the renderer that asks them.\<close>

definition spawn_renderer :: "ClipboardType \<Rightarrow> 'os Agent \<Rightarrow> win_panic + Renderer \<times> 'os Agent" where
  "spawn_renderer t s =
     (let n = length (ag_tasks s); s = s\<lparr>ag_tasks := ag_tasks s @ [\<lparr>dt_type = t, dt_phase = Ph_idle\<rparr>]\<rparr> in
      case t of
        CT_Invalid \<Rightarrow> Inl Unreachable_reached
      | CT_Text \<Rightarrow> Inr (DR_Text n, s)
      | CT_Image \<Rightarrow> Inr (DR_Image n, s))"

fun spawn_renderers :: "ClipboardType list \<Rightarrow> 'os Agent \<Rightarrow> win_panic + Renderer list \<times> 'os Agent" where
  "spawn_renderers [] s = Inr ([], s)"
| "spawn_renderers (t # ts) s =
     and_then (spawn_renderer t s) (\<lambda>(r, s). and_then (spawn_renderers ts s) (\<lambda>(rs, s). Inr (r # rs, s)))"

fun renderer_task :: "Renderer \<Rightarrow> nat" where
  "renderer_task (DR_Text n) = n"
| "renderer_task (DR_Image n) = n"
| "renderer_task (DR_CustomBytes f n) = n"
| "renderer_task (DR_CustomHandle f n) = n"

definition task_done :: "'os Agent \<Rightarrow> nat \<Rightarrow> bool" where
  "task_done s n = (case dt_phase (ag_tasks s ! n) of Ph_done bs \<Rightarrow> True | _ \<Rightarrow> False)"

definition rendering_done :: "'os Agent \<Rightarrow> bool" where
  "rendering_done s = (case ag_rendering s of None \<Rightarrow> True | Some rs \<Rightarrow> \<forall>r\<in>set rs. task_done s (renderer_task r))"

text \<open>
  \<^verbatim>\<open>clipboard.send\<close> takes the lock of the renderers. When the event loop's thread holds it and waits
  for tasks of this thread, neither goes on. Once the tasks are done the lock is given back first.
\<close>

definition handle_grab ::
    "('i, 'os) Agent_system \<Rightarrow> ClipboardTypes \<Rightarrow> 'os Agent \<Rightarrow> win_panic + 'os Agent" where
  "handle_grab sys types s =
     and_then (spawn_renderers (ClipboardTypes_iter types) s) (\<lambda>(rs, s).
       if \<not> rendering_done s then Inl Never_returns
       else
         and_then (clipboard_send (agent_clip (as_clip sys)) (as_images sys) (as_window sys) (map Delay_rendered rs) s)
           (\<lambda>(r, s). case r of Inl _ \<Rightarrow> Inl Unwrap_failed | Inr _ \<Rightarrow> Inr s))"

definition offer_data ::
    "('i, 'os) Agent_system \<Rightarrow> Agent_world \<Rightarrow> ClipboardType \<Rightarrow> Win_offer \<Rightarrow> 'os Agent \<Rightarrow>
      win_panic + u8 list option \<times> 'os Agent" where
  "offer_data sys aw typ offer s =
     (case typ of
        CT_Invalid \<Rightarrow> Inr (None, s)
      | CT_Text \<Rightarrow>
          and_then (receive_string (agent_clip (as_clip sys)) (aw_odd_address aw) offer s) (\<lambda>(r, s).
            Inr (case r of Inl _ \<Rightarrow> None | Inr t \<Rightarrow> Some (utf8_bytes t), s))
      | CT_Image \<Rightarrow>
          and_then (receive_image (agent_clip (as_clip sys)) (as_images sys) offer s) (\<lambda>(r, s).
            Inr (case r of Inl _ \<Rightarrow> None | Inr i \<Rightarrow> il_png_encode (as_images sys) i, s)))"

definition handle_request ::
    "('i, 'os) Agent_system \<Rightarrow> Agent_world \<Rightarrow> i32 \<Rightarrow> 'os Agent \<Rightarrow> win_panic + 'os Agent" where
  "handle_request sys aw typ s =
     and_then
       (case cb_offer s of
          None \<Rightarrow> Inr (None, s)
        | Some offer \<Rightarrow>
            (case ClipboardType_from_i32 typ of
               None \<Rightarrow> Inl Unwrap_failed
             | Some typ \<Rightarrow> offer_data sys aw typ offer s))
       (\<lambda>(data, s).
         agent_send aw (clipboard_to_in (ClipboardContents (case data of None \<Rightarrow> [] | Some bs \<Rightarrow> bs))) s)"

definition set_phase :: "nat \<Rightarrow> Task_phase \<Rightarrow> 'os Agent \<Rightarrow> 'os Agent" where
  "set_phase n p s = s\<lparr>ag_tasks := (ag_tasks s)[n := (ag_tasks s ! n)\<lparr>dt_phase := p\<rparr>]\<rparr>"

text \<open>The outstanding sender is taken; sending fails when its task no longer waits.\<close>

definition handle_contents :: "u8 list \<Rightarrow> 'os Agent \<Rightarrow> win_panic + 'os Agent" where
  "handle_contents m s =
     (case ag_outstanding s of
        None \<Rightarrow> Inr s
      | Some n \<Rightarrow>
          if dt_phase (ag_tasks s ! n) = Ph_requested
          then Inr (set_phase n (Ph_answered m) (s\<lparr>ag_outstanding := None\<rparr>))
          else Inl Unwrap_failed)"

definition handle_console :: "Agent_world \<Rightarrow> string \<Rightarrow> 'os Agent \<Rightarrow> win_panic + 'os Agent" where
  "handle_console aw rust_log s =
     (if ag_has_output s then Inr s
      else if \<not> aw_alloc_console aw then Inl Unwrap_failed
      else if \<not> aw_console_output aw then Inl Assertion_failed
      else Inr (agent_act (Console_opened rust_log) (s\<lparr>ag_has_output := True\<rparr>)))"

definition agent_handle ::
    "('i, 'os) Agent_system \<Rightarrow> Agent_world \<Rightarrow> GaCmdOut \<Rightarrow> 'os Agent_state \<Rightarrow> win_panic + 'os Agent_state" where
  "agent_handle sys aw msg ds =
     (let (d, s) = ds; keep = (\<lambda>r. and_then r (\<lambda>s. Inr (d, s))) in
      case msg of
        Ga_Ping \<Rightarrow> keep (agent_send aw Ga_Pong s)
      | Ga_RegisterHotKey x \<Rightarrow> handle_register sys aw x ds
      | Ga_ReleaseModifiers \<Rightarrow> Inr (d, agent_act (Keys_released modifier_keys) s)
      | Ga_Suspend \<Rightarrow> Inr (d, agent_act Suspend_called s)
      | Ga_Shutdown \<Rightarrow> Inr (d, agent_act Shutdown_called s)
      | Ga_ClipboardOut message \<Rightarrow>
          (case message of
             Some (GrabClipboard types) \<Rightarrow> keep (handle_grab sys types s)
           | Some (RequestClipboardContents typ) \<Rightarrow> keep (handle_request sys aw typ s)
           | Some (ClipboardContents m) \<Rightarrow> keep (handle_contents m s)
           | None \<Rightarrow> Inl Unreachable_reached)
      | Ga_SetMousePosition _ \<Rightarrow> Inr (d, s)
      | Ga_EnableDebugConsole rust_log \<Rightarrow> keep (handle_console aw rust_log s))"

text \<open>
  When the step can happen: there is room for a callback, and nobody holds the lock of the renderers
  who is about to give it back.
\<close>

definition agent_ready :: "GaCmdOut \<Rightarrow> 'os Agent_state \<Rightarrow> bool" where
  "agent_ready msg ds =
     (case msg of
        Ga_RegisterHotKey _ \<Rightarrow> length (wd_callbacks (fst ds)) < callback_capacity
      | Ga_ClipboardOut (Some (GrabClipboard _)) \<Rightarrow> ag_rendering (snd ds) = None \<or> \<not> rendering_done (snd ds)
      | _ \<Rightarrow> True)"

subsection \<open>The other tasks of the main thread\<close>

text \<open>The watcher: an offer of another program is announced to the driver.\<close>

definition grabbed_types :: "Win_offer \<Rightarrow> ClipboardTypes" where
  "grabbed_types offer =
     (let types = ClipboardTypes_default;
          types = (if has_string offer then ClipboardTypes_push CT_Text types else types)
      in if has_image offer then ClipboardTypes_push CT_Image types else types)"

definition watch_clipboard ::
    "('i, 'os) Agent_system \<Rightarrow> Agent_world \<Rightarrow> 'os Agent \<Rightarrow> win_panic + 'os Agent" where
  "watch_clipboard sys aw s =
     (if ag_seen s = cb_version s then Inr s
      else
        let s = s\<lparr>ag_seen := cb_version s\<rparr> in
        case cb_offer s of
          Some offer \<Rightarrow>
            if wo_owner offer \<noteq> as_window sys
            then agent_send aw (clipboard_to_in (GrabClipboard (grabbed_types offer))) s
            else Inr s
        | None \<Rightarrow> Inr s)"

text \<open>
  A forwarding task takes a press. When the connection is gone its \<^verbatim>\<open>unwrap\<close> ends only the task, and
  with it the receiver.
\<close>

definition forward_press :: "Agent_world \<Rightarrow> nat \<times> u32 \<Rightarrow> 'os Agent \<Rightarrow> 'os Agent" where
  "forward_press aw f s =
     (case take_press (fst f) s of
        None \<Rightarrow> s
      | Some s \<Rightarrow> (case agent_send aw (Ga_HotKey (snd f)) s of Inr s \<Rightarrow> s | Inl _ \<Rightarrow> drop_receiver (fst f) s))"

text \<open>
  The turn of a delay task: a dropped outstanding sender answers its task with no bytes. When the
  connection is gone the request is not sent, and the task waits on.
\<close>

definition drop_outstanding :: "'os Agent \<Rightarrow> 'os Agent" where
  "drop_outstanding s =
     (case ag_outstanding s of
        None \<Rightarrow> s
      | Some n \<Rightarrow> set_phase n (Ph_answered []) (s\<lparr>ag_outstanding := None\<rparr>))"

definition task_turn :: "Agent_world \<Rightarrow> nat \<Rightarrow> 'os Agent \<Rightarrow> 'os Agent" where
  "task_turn aw n s =
     (let t = ag_tasks s ! n in
      if \<not> n < length (ag_tasks s) then s
      else case dt_phase t of
        Ph_asked \<Rightarrow> set_phase n Ph_passed s
      | Ph_passed \<Rightarrow>
          let s = set_phase n Ph_requested ((drop_outstanding s)\<lparr>ag_outstanding := Some n\<rparr>);
              request = clipboard_to_in (RequestClipboardContents (ClipboardType_as_i32 (dt_type t))) in
          (case agent_send aw request s of Inr s \<Rightarrow> s | Inl _ \<Rightarrow> s)
      | Ph_answered bs \<Rightarrow> set_phase n (Ph_done bs) s
      | _ \<Rightarrow> s)"

subsection \<open>The thread of the event loop\<close>

text \<open>What a task hands to Windows.\<close>

definition task_data :: "'i Image_lib \<Rightarrow> Delay_task \<Rightarrow> 'i Format_data option" where
  "task_data il t =
     (case dt_phase t of
        Ph_done bs \<Rightarrow>
          Some (if dt_type t = CT_Text then FD_Text (utf8_lossy bs)
                else FD_Image (case il_png_decode il bs of Some i \<Rightarrow> i | None \<Rightarrow> il_empty il))
      | _ \<Rightarrow> None)"

text \<open>
  The listener of the clipboard in two steps, because the main thread works while it waits: the first
  takes the renderers and asks their tasks, the second renders what they answered.
\<close>

definition ask_task :: "Renderer \<Rightarrow> 'os Agent \<Rightarrow> 'os Agent" where
  "ask_task r s = set_phase (renderer_task r) Ph_asked s"

definition begin_render_format :: "u32 \<Rightarrow> 'os Agent \<Rightarrow> 'os Agent" where
  "begin_render_format f s =
     (case take_renderer f s of
        (None, s) \<Rightarrow> s
      | (Some r, s) \<Rightarrow> ask_task r (s\<lparr>ag_rendering := Some [r], ag_opened := False\<rparr>))"

definition begin_render_all :: "('i, 'os) Agent_system \<Rightarrow> 'os Agent \<Rightarrow> win_panic + 'os Agent" where
  "begin_render_all sys s =
     (let api = agent_clip (as_clip sys) in
      and_then (clip_open api (as_window sys) s) (\<lambda>s.
        if cl_owner api s = as_window sys then
          let rs = map snd (cb_renderers s) in
          Inr (fold ask_task rs (s\<lparr>cb_renderers := [], ag_rendering := Some rs, ag_opened := True\<rparr>))
        else clip_close api s))"

definition finish_render :: "('i, 'os) Agent_system \<Rightarrow> 'os Agent \<Rightarrow> win_panic + 'os Agent" where
  "finish_render sys s =
     (let api = agent_clip (as_clip sys) in
      case ag_rendering s of
        None \<Rightarrow> Inr s
      | Some rs \<Rightarrow>
          and_then
            (for_each_res (render_arrived api (as_images sys))
               (map (\<lambda>r. task_data (as_images sys) (ag_tasks s ! renderer_task r)) rs) (s\<lparr>ag_rendering := None\<rparr>))
            (\<lambda>s. if ag_opened s then clip_close api (s\<lparr>ag_opened := False\<rparr>) else Inr s))"

text \<open>
  One message of the window. The listeners are those of the clipboard and of the hotkeys; with
  \<open>no_owners\<close> the one of the clipboard is used for messages that do not wait for a task only.
\<close>

definition no_owners :: "('i, 's) Owners" where
  "no_owners =
     \<lparr>ow_text = (\<lambda>_ s. (None, s)), ow_image = (\<lambda>_ s. (None, s)), ow_bytes = (\<lambda>_ s. (None, s)),
      ow_handle = (\<lambda>_ s. (None, s))\<rparr>"

definition loop_message ::
    "('i, 'os) Agent_system \<Rightarrow> MSG \<Rightarrow> 'os Agent_state \<Rightarrow> win_panic + 'os Agent_state" where
  "loop_message sys m ds =
     (let (d, s) = ds in
      if msg_message m = WM_RENDERFORMAT then Inr (d, begin_render_format (ucast (msg_wparam m)) s)
      else if msg_message m = WM_RENDERALLFORMATS then and_then (begin_render_all sys s) (\<lambda>s. Inr (d, s))
      else and_then (handle_wm (agent_win (as_win sys)) m (d, s)) (\<lambda>(_, d, s). Inr (d, s)))"

subsection \<open>Steps and runs\<close>

text \<open>
  \<open>Ae_windows\<close> is anything Windows and the other programs do. The thread of the loop handles one message
  at a time; while a listener waits, only its end is a step of that thread.
\<close>

datatype 'os Agent_event =
    Ae_message GaCmdOut
  | Ae_watch
  | Ae_forward nat
  | Ae_task nat
  | Ae_window MSG
  | Ae_rendered
  | Ae_windows 'os

definition agent_step ::
    "('i, 'os) Agent_system \<Rightarrow> Agent_world \<times> 'os Agent_event \<Rightarrow> 'os Agent_state \<Rightarrow> win_panic + 'os Agent_state" where
  "agent_step sys we ds =
     (let (aw, e) = we; (d, s) = ds; keep = (\<lambda>r. and_then r (\<lambda>s. Inr (d, s))) in
      case e of
        Ae_message msg \<Rightarrow> if agent_ready msg ds then agent_handle sys aw msg ds else Inr ds
      | Ae_watch \<Rightarrow> keep (watch_clipboard sys aw s)
      | Ae_forward k \<Rightarrow> Inr (d, if k < length (ag_forwarders s) then forward_press aw (ag_forwarders s ! k) s else s)
      | Ae_task n \<Rightarrow> Inr (d, task_turn aw n s)
      | Ae_window m \<Rightarrow> if ag_rendering s = None then loop_message sys m ds else Inr ds
      | Ae_rendered \<Rightarrow> if rendering_done s then keep (finish_render sys s) else Inr ds
      | Ae_windows os \<Rightarrow> Inr (d, s\<lparr>ag_os := os\<rparr>))"

text \<open>
  \<^verbatim>\<open>main\<close> up to its message loop: both components have sent their callbacks, and the boot is reported.
\<close>

definition agent_start ::
    "('i, 'os) Agent_system \<Rightarrow> bool \<Rightarrow> 'os \<Rightarrow> Win_offer option \<Rightarrow> 'os Agent_state" where
  "agent_start sys has_output os offer =
     (\<lparr>wd_listeners = [],
       wd_callbacks =
         [clipboard_callback (agent_clip (as_clip sys)) (as_images sys) no_owners (as_window sys),
          hotkey_callback (as_hotkeys sys)],
       wd_connected = True\<rparr>,
      \<lparr>hk_queues = Map.empty, hk_channels = [], hk_calls = [],
       cb_offer = offer, cb_version = 0, cb_watched = True, cb_renderers = [],
       ag_os = os, ag_forwarders = [], ag_tasks = [], ag_outstanding = None, ag_seen = 0,
       ag_rendering = None, ag_opened = False, ag_has_output = has_output,
       ag_sent = [Ga_ReportBoot], ag_actions = []\<rparr>)"

definition agent_exec ::
    "('i, 'os) Agent_system \<Rightarrow> (Agent_world \<times> 'os Agent_event) list \<Rightarrow> 'os Agent_state \<Rightarrow> win_panic + 'os Agent_state" where
  "agent_exec sys = for_each_res (agent_step sys)"

text \<open>Whatever happened since the start, in any order.\<close>

definition agent_run :: "('i, 'os) Agent_system \<Rightarrow> (Agent_world \<times> 'os Agent_event) list \<Rightarrow> 'os Agent_state \<Rightarrow> bool" where
  "agent_run sys es ds \<longleftrightarrow> (\<exists>has_output os offer. agent_exec sys es (agent_start sys has_output os offer) = Inr ds)"

end
