(* ===== verification/Guest_Lemmas.thy ===== *)
theory Guest_Lemmas
  imports Guest_Agent
begin

text \<open>
  What the steps of the guest agent keep: calls of Windows change nothing of the program's own state,
  no step panics on an acceptable message, and the tasks, the promised data and the hotkeys stay
  consistent.
\<close>

subsection \<open>Panics\<close>

text \<open>A call that may fail to return, but does not panic.\<close>

definition no_panic :: "win_panic + 'a \<Rightarrow> bool" where
  "no_panic r \<longleftrightarrow> (\<forall>p. r = Inl p \<longrightarrow> p = Never_returns)"

lemma no_panic_simps [simp]: "no_panic (Inr x)" "no_panic (Inl p) \<longleftrightarrow> p = Never_returns"
  by (simp_all add: no_panic_def)

lemma no_panic_and_then [intro]:
  "no_panic m \<Longrightarrow> (\<And>x. m = Inr x \<Longrightarrow> no_panic (f x)) \<Longrightarrow> no_panic (and_then m f)"
  by (cases m) (simp_all add: no_panic_def)

lemma no_panic_for_each [intro]:
  "(\<And>x s. x \<in> set xs \<Longrightarrow> no_panic (f x s)) \<Longrightarrow> no_panic (for_each_res f xs s)"
  by (induction xs arbitrary: s) auto

lemma no_panic_run_listeners:
  "(\<forall>il\<in>set ils. \<forall>s. no_panic (snd il m s)) \<Longrightarrow> no_panic (run_listeners m ils s)"
  by (induction m ils s rule: run_listeners.induct) (auto intro!: no_panic_and_then)

lemma no_panic_run_callbacks:
  "(\<forall>cb\<in>set cbs. \<forall>s. no_panic (cb s)) \<Longrightarrow> no_panic (run_callbacks cbs lss)"
  by (induction cbs lss rule: run_callbacks.induct) (auto intro!: no_panic_and_then)

lemma no_panic_handle_wm:
  assumes "wd_connected d" and "\<forall>l\<in>set (wd_listeners d). \<forall>s. no_panic (l m s)"
    and "\<forall>cb\<in>set (wd_callbacks d). \<forall>s. no_panic (cb s)"
  shows "no_panic (handle_wm api m (d, s))"
proof -
  have "\<forall>il\<in>set (rev (enumerate 0 (wd_listeners d))). \<forall>s. no_panic (snd il m s)"
    using assms(2) by (auto simp: enumerate_eq_zip dest!: set_zip_rightD)
  from no_panic_run_listeners [OF this] no_panic_run_callbacks [OF assms(3)] assms(1) show ?thesis
    by (auto simp: handle_wm_def wm_user_def wm_sent_def wm_listeners_def Let_def intro!: no_panic_and_then
        split: prod.split)
qed

lemma no_panic_open [simp]: "no_panic (clip_open api w s)"
  by (simp add: clip_open_def split: option.split)

lemma no_panic_enum [simp]: "no_panic (enum_formats api s)"
  by (simp add: enum_formats_def split: option.split)

lemma no_panic_with_clipboard:
  "(\<forall>s. fst (cl_close api s)) \<Longrightarrow> (\<And>s. no_panic (body s)) \<Longrightarrow> no_panic (with_clipboard api w body s)"
proof -
  assume "\<forall>s. fst (cl_close api s)" and body: "\<And>s. no_panic (body s)"
  then have "no_panic (clip_close api u)" for u
    by (cases "cl_close api u") (auto simp: clip_close_def dest: spec [of _ u])
  with body show ?thesis by (auto simp: with_clipboard_def split: prod.split intro!: no_panic_and_then)
qed

subsection \<open>Calls that change Windows only\<close>

definition os_only :: "'os Agent \<Rightarrow> 'os Agent \<Rightarrow> bool" where
  "os_only s t \<longleftrightarrow> (\<exists>os. t = s\<lparr>ag_os := os\<rparr>)"

lemma os_only_refl [simp]: "os_only s s"
  unfolding os_only_def by (rule exI [of _ "ag_os s"]) simp

lemma os_only_trans [trans]: "os_only s t \<Longrightarrow> os_only t u \<Longrightarrow> os_only s u"
  by (auto simp: os_only_def)

lemma os_only_update [simp]: "os_only s (s\<lparr>ag_os := os\<rparr>)"
  by (auto simp: os_only_def)

lemma os_only_on_os [simp]: "os_only s (snd (on_os f s))"
  by (simp add: on_os_def split: prod.split)

lemma os_only_on_osD: "on_os f s = (r, t) \<Longrightarrow> os_only s t"
  by (metis os_only_on_os snd_conv)

lemma agent_clip_simps [simp]:
  "cl_open (agent_clip api) w = on_os (cl_open api w)" "cl_close (agent_clip api) = on_os (cl_close api)"
  "cl_empty (agent_clip api) = on_os (cl_empty api)" "cl_get_data (agent_clip api) f = on_os (cl_get_data api f)"
  "cl_set_data (agent_clip api) f h = on_os (cl_set_data api f h)" "cl_alloc (agent_clip api) b = on_os (cl_alloc api b)"
  "cl_destroy (agent_clip api) d h s = s\<lparr>ag_os := cl_destroy api d h (ag_os s)\<rparr>"
  "cl_add_listener (agent_clip api) w = on_os (cl_add_listener api w)"
  "cl_remove_listener (agent_clip api) w s = s\<lparr>ag_os := cl_remove_listener api w (ag_os s)\<rparr>"
  "cl_last_error (agent_clip api) s = cl_last_error api (ag_os s)"
  "cl_block (agent_clip api) h s = cl_block api h (ag_os s)"
  by (simp_all add: agent_clip_def)

lemma fst_on_os [simp]: "fst (on_os f s) = fst (f (ag_os s))"
  by (simp add: on_os_def split: prod.split)

lemma os_only_open:
  assumes "clip_open (agent_clip api) w s = Inr t"
  shows "os_only s t"
proof -
  have "os_only s (after_tries (agent_clip api) w n s)" for n
    by (induction n) (auto simp: after_tries_def intro: os_only_trans)
  with assms show ?thesis by (auto simp: clip_open_def split: option.splits dest!: open_loop_succeeds)
qed

lemma os_only_close: "clip_close (agent_clip api) s = Inr t \<Longrightarrow> os_only s t"
  by (auto simp: clip_close_def Let_def split: prod.splits if_splits dest: os_only_on_osD)

lemma os_only_with_clipboard:
  assumes "with_clipboard (agent_clip api) w body s = Inr (r, t)"
    and "\<And>s r t. body s = Inr (r, t) \<Longrightarrow> os_only s t"
  shows "os_only s t"
  using assms(1)
  by (auto simp: with_clipboard_def res_simps dest!: os_only_open os_only_close assms(2) intro: os_only_trans)

lemma os_only_read_clipboard:
  assumes "read_clipboard (agent_clip api) w s = Inr (r, t)"
  shows "os_only s t"
  using assms unfolding read_clipboard_def by (rule os_only_with_clipboard) (auto simp: res_simps)

lemma os_only_receive_bytes:
  assumes "receive_bytes (agent_clip api) offer f s = Inr (r, t)"
  shows "os_only s t"
proof -
  have buf: "os_only s t" if "clip_receive_buffer (agent_clip api) f s = (r, t)" for s t and r :: "u32 + u8 list"
    using that by (auto simp: clip_receive_buffer_def split: prod.splits sum.splits option.splits dest: os_only_on_osD)
  have body: "os_only s t" if "Inr (if cl_sequence (agent_clip api) s \<noteq> wo_sequence offer then (Inl ClipboardOfferExpired, s)
      else apfst (map_sum Windows_error id) (clip_receive_buffer (agent_clip api) f s)) = (Inr (r, t) :: win_panic + (Offer_error + u8 list) \<times> _)"
    for s t and r :: "Offer_error + u8 list"
    using that buf by (cases "clip_receive_buffer (agent_clip api) f s") (auto split: if_splits)
  from assms show ?thesis unfolding receive_bytes_def receive_with_def
    by (auto split: if_splits elim!: os_only_with_clipboard intro: body)
qed

lemma os_only_clip_send: "clip_send (agent_clip api) f h s = (r, t) \<Longrightarrow> os_only s t"
  by (auto simp: clip_send_def Let_def split: prod.splits dest: os_only_on_osD)

lemma os_only_alloc: "alloc_hglobal (agent_clip api) b s = (r, t) \<Longrightarrow> os_only s t"
  by (auto simp: alloc_hglobal_def Let_def split: prod.splits dest: os_only_on_osD)

lemma os_only_render_block: "render_block (agent_clip api) il data s = Inr (f, h, t) \<Longrightarrow> os_only s t"
  by (auto simp: render_block_def Let_def split: Format_data.splits if_splits dest: os_only_alloc os_only_alloc [OF sym])

lemma os_only_render:
  assumes "render (agent_clip api) il data s = Inr (r, t)"
  shows "os_only s t"
proof -
  from assms obtain f h u where u: "render_block (agent_clip api) il data s = Inr (f, h, u)"
    and t: "(case clip_send (agent_clip api) f (dh_handle h) u of
        (Inl e, v) \<Rightarrow> (Inl e, cl_destroy (agent_clip api) (dh_destructor h) (dh_handle h) v) | (Inr _, v) \<Rightarrow> (Inr (), v)) = (r, t)"
    by (auto simp: render_def res_simps)
  obtain r' v where v: "clip_send (agent_clip api) f (dh_handle h) u = (r', v)" by fastforce
  from os_only_render_block [OF u] os_only_clip_send [OF v] have "os_only s v" by (rule os_only_trans)
  with t v show ?thesis by (cases r') (auto intro: os_only_trans)
qed

lemma os_only_render_arrived: "render_arrived (agent_clip api) il x s = Inr t \<Longrightarrow> os_only s t"
  by (auto simp: render_arrived_def res_simps split: option.splits dest: os_only_render)

lemma os_only_for_each_arrived:
  "for_each_res (render_arrived (agent_clip api) il) xs s = Inr t \<Longrightarrow> os_only s t"
  by (erule for_each_res_inv) (auto dest: os_only_render_arrived intro: os_only_trans)

lemma os_only_receive_string:
  assumes "receive_string (agent_clip api) oa offer s = Inr (r, t)"
  shows "os_only s t"
proof -
  from assms obtain q u where q: "receive_bytes (agent_clip api) offer CF_UNICODETEXT s = Inr (q, u)"
    by (auto simp: receive_string_def res_simps)
  with assms have "t = u" by (cases q) (auto simp: receive_string_def res_simps)
  with os_only_receive_bytes [OF q] show ?thesis by simp
qed

lemma os_only_receive_image:
  assumes "receive_image (agent_clip api) il offer s = Inr (r, t)"
  shows "os_only s t"
proof -
  from assms obtain q u where q: "receive_bytes (agent_clip api) offer CF_DIBV5 s = Inr (q, u)"
    by (auto simp: receive_image_def res_simps)
  with assms have "t = u" by (cases q) (auto simp: receive_image_def res_simps)
  with os_only_receive_bytes [OF q] show ?thesis by simp
qed

lemma os_only_offer_data:
  assumes "offer_data sys aw typ offer s = Inr (r, t)"
  shows "os_only s t"
  using assms
  by (cases "typ") (auto simp: offer_data_def res_simps dest: os_only_receive_string os_only_receive_image)

subsection \<open>The invariant\<close>

text \<open>
  A renderer belongs to a task of its type. The outstanding sender belongs to the one task that has
  sent a request and not been answered; promised data has a task that nobody has asked yet, at most
  one per format; only tasks the loop's thread waits for are between asked and done. Forwarding tasks
  read channels that exist.
\<close>

definition renderer_ok :: "Delay_task list \<Rightarrow> Renderer \<Rightarrow> bool" where
  "renderer_ok ts r \<longleftrightarrow>
     (case r of
        DR_Text n \<Rightarrow> n < length (ts) \<and> dt_type (ts ! n) = CT_Text
      | DR_Image n \<Rightarrow> n < length (ts) \<and> dt_type (ts ! n) = CT_Image
      | _ \<Rightarrow> False)"

lemma renderer_ok_task: "renderer_ok ts r \<Longrightarrow> renderer_task r < length ts"
  by (cases r) (simp_all add: renderer_ok_def)

fun phase_active :: "Task_phase \<Rightarrow> bool" where
  "phase_active Ph_idle = False"
| "phase_active (Ph_done bs) = False"
| "phase_active _ = True"

definition outstanding_ok :: "'os Agent \<Rightarrow> bool" where
  "outstanding_ok s \<longleftrightarrow>
     (\<forall>n. ag_outstanding s = Some n \<longleftrightarrow> n < length (ag_tasks s) \<and> dt_phase (ag_tasks s ! n) = Ph_requested)"

definition promised_ok :: "'os Agent \<Rightarrow> bool" where
  "promised_ok s \<longleftrightarrow>
     distinct (map fst (cb_renderers s)) \<and>
     (\<forall>fr\<in>set (cb_renderers s). fst fr = dr_format (snd fr) \<and> renderer_ok (ag_tasks s) (snd fr) \<and>
        dt_phase (ag_tasks s ! renderer_task (snd fr)) = Ph_idle)"

definition awaited :: "'os Agent \<Rightarrow> nat set" where
  "awaited s = (case ag_rendering s of None \<Rightarrow> {} | Some rs \<Rightarrow> renderer_task ` set rs)"

definition rendering_ok :: "'os Agent \<Rightarrow> bool" where
  "rendering_ok s \<longleftrightarrow>
     (\<forall>rs. ag_rendering s = Some rs \<longrightarrow> (\<forall>r\<in>set rs. renderer_ok (ag_tasks s) r)) \<and>
     (\<forall>n<length (ag_tasks s). phase_active (dt_phase (ag_tasks s ! n)) \<longrightarrow> n \<in> awaited s)"

definition forwarders_ok :: "'os Agent \<Rightarrow> bool" where
  "forwarders_ok s \<longleftrightarrow> hotkeys_ok s \<and> (\<forall>f\<in>set (ag_forwarders s). fst f < length (hk_channels s))"

definition agent_inv :: "'os Agent \<Rightarrow> bool" where
  "agent_inv s \<longleftrightarrow> outstanding_ok s \<and> promised_ok s \<and> rendering_ok s \<and> forwarders_ok s"

lemmas agent_inv_defs = agent_inv_def outstanding_ok_def promised_ok_def rendering_ok_def forwarders_ok_def
  awaited_def

text \<open>Fields outside the invariant.\<close>

lemma agent_inv_frame [simp]:
  "agent_inv (s\<lparr>ag_os := os\<rparr>) = agent_inv s" "agent_inv (s\<lparr>ag_sent := cs\<rparr>) = agent_inv s"
  "agent_inv (s\<lparr>ag_seen := k\<rparr>) = agent_inv s" "agent_inv (s\<lparr>ag_opened := b\<rparr>) = agent_inv s"
  "agent_inv (s\<lparr>ag_has_output := b\<rparr>) = agent_inv s" "agent_inv (s\<lparr>ag_actions := as\<rparr>) = agent_inv s"
  "agent_inv (s\<lparr>cb_offer := offer\<rparr>) = agent_inv s" "agent_inv (s\<lparr>cb_version := k\<rparr>) = agent_inv s"
  by (simp_all add: agent_inv_defs hotkeys_ok_def)

lemma agent_inv_os_only: "os_only s t \<Longrightarrow> agent_inv t = agent_inv s"
  by (auto simp: os_only_def)

lemma agent_inv_no_renderers: "agent_inv s \<Longrightarrow> agent_inv (s\<lparr>cb_renderers := []\<rparr>)"
  by (simp add: agent_inv_defs hotkeys_ok_def)

lemma agent_inv_send: "agent_send aw cmd s = Inr t \<Longrightarrow> agent_inv t = agent_inv s"
  by (auto simp: agent_send_def split: if_splits)

text \<open>A task that nobody waits for and that is not promised changes its phase.\<close>

lemma set_phase_fields [simp]:
  "length (ag_tasks (set_phase n p s)) = length (ag_tasks s)"
  "ag_outstanding (set_phase n p s) = ag_outstanding s" "ag_rendering (set_phase n p s) = ag_rendering s"
  "cb_renderers (set_phase n p s) = cb_renderers s" "ag_forwarders (set_phase n p s) = ag_forwarders s"
  "hk_channels (set_phase n p s) = hk_channels s" "hk_queues (set_phase n p s) = hk_queues s"
  "hk_calls (set_phase n p s) = hk_calls s" "ag_sent (set_phase n p s) = ag_sent s"
  "awaited (set_phase n p s) = awaited s"
  by (simp_all add: set_phase_def awaited_def)

lemma set_phase_nth:
  "k < length (ag_tasks s) \<Longrightarrow>
    ag_tasks (set_phase n p s) ! k = (if k = n then (ag_tasks s ! n)\<lparr>dt_phase := p\<rparr> else ag_tasks s ! k)"
  by (simp add: set_phase_def nth_list_update)

lemma dt_phase_update: "dt_phase (t\<lparr>dt_phase := p\<rparr>) = p"
  by simp

lemma set_phase_type [simp]:
  "k < length (ag_tasks s) \<Longrightarrow> dt_type (ag_tasks (set_phase n p s) ! k) = dt_type (ag_tasks s ! k)"
  by (simp add: set_phase_nth)

lemma renderer_ok_set_phase [simp]: "renderer_ok (ag_tasks (set_phase n p s)) r = renderer_ok (ag_tasks s) r"
  by (cases r) (auto simp: renderer_ok_def)

lemma hotkeys_ok_frame:
  "hk_queues t = hk_queues s \<Longrightarrow> hk_channels t = hk_channels s \<Longrightarrow> hk_calls t = hk_calls s \<Longrightarrow> hotkeys_ok t = hotkeys_ok s"
  by (simp add: hotkeys_ok_def)

lemma forwarders_ok_set_phase [simp]: "forwarders_ok (set_phase n p s) = forwarders_ok s"
  by (simp add: forwarders_ok_def hotkeys_ok_def)

text \<open>An asked task moves on; \<open>q\<close> is whether it has the outstanding sender afterwards.\<close>

lemma promised_okD:
  assumes "promised_ok s" and "fr \<in> set (cb_renderers s)"
  shows "fst fr = dr_format (snd fr)" and "renderer_ok (ag_tasks s) (snd fr)"
    and "dt_phase (ag_tasks s ! renderer_task (snd fr)) = Ph_idle"
  using assms unfolding promised_ok_def by blast+

lemma promised_ok_set_phase:
  assumes "promised_ok s" and "dt_phase (ag_tasks s ! n) \<noteq> Ph_idle"
  shows "promised_ok (set_phase n p s)"
  unfolding promised_ok_def
proof (intro conjI ballI)
  show "distinct (map fst (cb_renderers (set_phase n p s)))" using assms(1) by (simp add: promised_ok_def)
next
  fix fr assume "fr \<in> set (cb_renderers (set_phase n p s))"
  then have "fr \<in> set (cb_renderers s)" by simp
  note fr = promised_okD [OF assms(1) this]
  from fr(3) assms(2) have "renderer_task (snd fr) \<noteq> n" by auto
  with fr renderer_ok_task [OF fr(2)]
  show "fst fr = dr_format (snd fr)" "renderer_ok (ag_tasks (set_phase n p s)) (snd fr)"
    "dt_phase (ag_tasks (set_phase n p s) ! renderer_task (snd fr)) = Ph_idle"
    by (simp_all add: set_phase_nth)
qed

lemma rendering_ok_set_phase:
  assumes "rendering_ok s" and "phase_active p \<longrightarrow> n \<in> awaited s"
  shows "rendering_ok (set_phase n p s)"
  using assms by (auto simp: rendering_ok_def set_phase_nth split: if_splits)

lemma agent_inv_move:
  assumes "agent_inv s" and "n < length (ag_tasks s)" and "dt_phase (ag_tasks s ! n) \<noteq> Ph_idle"
    and "dt_phase (ag_tasks s ! n) \<noteq> Ph_requested" and "p \<noteq> Ph_requested"
    and "phase_active p \<longrightarrow> n \<in> awaited s"
  shows "agent_inv (set_phase n p s)"
proof -
  have "(ag_outstanding s = Some k) = (k < length (ag_tasks s) \<and> dt_phase (ag_tasks s ! k) = Ph_requested)" for k
    using assms(1) unfolding agent_inv_def outstanding_ok_def by blast
  with assms(4,5) have "outstanding_ok (set_phase n p s)"
    unfolding outstanding_ok_def by (metis set_phase_fields(1,2) set_phase_nth dt_phase_update)
  with assms promised_ok_set_phase [of s n p] rendering_ok_set_phase [of s p n] show ?thesis
    by (simp add: agent_inv_def)
qed

subsection \<open>The main thread keeps it\<close>

lemma outstanding_okD:
  "outstanding_ok s \<Longrightarrow>
    (ag_outstanding s = Some k) = (k < length (ag_tasks s) \<and> dt_phase (ag_tasks s ! k) = Ph_requested)"
  unfolding outstanding_ok_def by blast

lemma agent_inv_outstanding:
  assumes "agent_inv s" and "ag_outstanding s = Some n"
  shows "n < length (ag_tasks s)" and "dt_phase (ag_tasks s ! n) = Ph_requested" and "n \<in> awaited s"
proof -
  from assms outstanding_okD [of s n] show n: "n < length (ag_tasks s)" "dt_phase (ag_tasks s ! n) = Ph_requested"
    by (simp_all add: agent_inv_def)
  from assms(1) n show "n \<in> awaited s" by (simp add: agent_inv_def rendering_ok_def)
qed

lemma awaited_outstanding [simp]: "awaited (s\<lparr>ag_outstanding := x\<rparr>) = awaited s"
  by (simp add: awaited_def)

text \<open>The outstanding sender is used or dropped, or a task becomes its owner.\<close>

lemma agent_inv_answer:
  assumes "agent_inv s" and "ag_outstanding s = Some n"
  shows "agent_inv (set_phase n (Ph_answered m) (s\<lparr>ag_outstanding := None\<rparr>))"
proof -
  note n = agent_inv_outstanding [OF assms]
  have only: "dt_phase (ag_tasks s ! k) \<noteq> Ph_requested" if "k < length (ag_tasks s)" "k \<noteq> n" for k
    using outstanding_okD [of s k] assms that by (auto simp: agent_inv_def)
  let ?t = "s\<lparr>ag_outstanding := None\<rparr>"
  have "outstanding_ok (set_phase n (Ph_answered m) ?t)"
    unfolding outstanding_ok_def
  proof (intro allI)
    fix k
    show "(ag_outstanding (set_phase n (Ph_answered m) ?t) = Some k) =
      (k < length (ag_tasks (set_phase n (Ph_answered m) ?t)) \<and>
       dt_phase (ag_tasks (set_phase n (Ph_answered m) ?t) ! k) = Ph_requested)"
      using only [of k] by (cases "k < length (ag_tasks s)") (simp_all add: set_phase_nth)
  qed
  moreover have "promised_ok ?t" "rendering_ok ?t" "forwarders_ok ?t"
    using assms(1) by (simp_all add: agent_inv_defs hotkeys_ok_def)
  ultimately show ?thesis
    using promised_ok_set_phase [of ?t n] rendering_ok_set_phase [of ?t] n by (simp add: agent_inv_def)
qed

lemma agent_inv_request:
  assumes "agent_inv s" and "ag_outstanding s = None" and "n < length (ag_tasks s)"
    and "dt_phase (ag_tasks s ! n) = Ph_passed"
  shows "agent_inv (set_phase n Ph_requested (s\<lparr>ag_outstanding := Some n\<rparr>))"
proof -
  have none: "dt_phase (ag_tasks s ! k) \<noteq> Ph_requested" if "k < length (ag_tasks s)" for k
    using outstanding_okD [of s k] assms that by (auto simp: agent_inv_def)
  let ?t = "s\<lparr>ag_outstanding := Some n\<rparr>"
  have "outstanding_ok (set_phase n Ph_requested ?t)"
    unfolding outstanding_ok_def
  proof (intro allI)
    fix k
    show "(ag_outstanding (set_phase n Ph_requested ?t) = Some k) =
      (k < length (ag_tasks (set_phase n Ph_requested ?t)) \<and>
       dt_phase (ag_tasks (set_phase n Ph_requested ?t) ! k) = Ph_requested)"
      using none [of k] assms(3) by (cases "k < length (ag_tasks s)") (auto simp: set_phase_nth)
  qed
  moreover have "promised_ok ?t" "rendering_ok ?t" "forwarders_ok ?t"
    using assms(1) by (simp_all add: agent_inv_defs hotkeys_ok_def)
  moreover have "n \<in> awaited s" using assms(1,3,4) by (simp add: agent_inv_def rendering_ok_def)
  ultimately show ?thesis
    using promised_ok_set_phase [of ?t n] rendering_ok_set_phase [of ?t] assms(4) by (simp add: agent_inv_def)
qed

lemma drop_outstanding_inv:
  assumes "agent_inv s"
  shows "agent_inv (drop_outstanding s)" and "ag_outstanding (drop_outstanding s) = None"
    and "length (ag_tasks (drop_outstanding s)) = length (ag_tasks s)"
    and "n < length (ag_tasks s) \<Longrightarrow> dt_phase (ag_tasks s ! n) \<noteq> Ph_requested \<Longrightarrow>
      ag_tasks (drop_outstanding s) ! n = ag_tasks s ! n"
  using assms agent_inv_answer [OF assms] agent_inv_outstanding(2) [OF assms]
  by (auto simp: drop_outstanding_def set_phase_nth split: option.split)

lemma task_turn_inv:
  assumes "agent_inv s"
  shows "agent_inv (task_turn aw n s)"
proof (cases "n < length (ag_tasks s)")
  case False
  with assms show ?thesis by (simp add: task_turn_def)
next
  case True
  have active: "n \<in> awaited s" if "phase_active (dt_phase (ag_tasks s ! n))"
    using assms True that by (simp add: agent_inv_def rendering_ok_def)
  show ?thesis
  proof (cases "dt_phase (ag_tasks s ! n)")
    case Ph_asked
    with True active agent_inv_move [OF assms True, of Ph_passed] show ?thesis by (simp add: task_turn_def)
  next
    case (Ph_answered bs)
    with True agent_inv_move [OF assms True, of "Ph_done bs"] show ?thesis by (simp add: task_turn_def)
  next
    case Ph_passed
    let ?s = "drop_outstanding s"
    have n: "n < length (ag_tasks ?s)" "dt_phase (ag_tasks ?s ! n) = Ph_passed"
      using drop_outstanding_inv(3,4) [OF assms] True Ph_passed by simp_all
    have "agent_inv (set_phase n Ph_requested (?s\<lparr>ag_outstanding := Some n\<rparr>))"
      using agent_inv_request [OF drop_outstanding_inv(1,2) [OF assms] n] .
    with True Ph_passed show ?thesis
      by (auto simp: task_turn_def Let_def split: sum.split dest: agent_inv_send)
  qed (use assms True in \<open>simp_all add: task_turn_def\<close>)
qed

lemma handle_contents_inv:
  assumes "agent_inv s" and "handle_contents m s = Inr t"
  shows "agent_inv t"
  using assms agent_inv_answer [OF assms(1)]
  by (auto simp: handle_contents_def split: option.splits if_splits)

lemma handle_contents_no_panic: "agent_inv s \<Longrightarrow> no_panic (handle_contents m s)"
  using agent_inv_outstanding(2) [of s] by (auto simp: handle_contents_def split: option.split)

text \<open>New tasks come to the end of the list.\<close>


definition renderer_idle :: "Delay_task list \<Rightarrow> Renderer \<Rightarrow> bool" where
  "renderer_idle ts r \<longleftrightarrow> renderer_ok ts r \<and> dt_phase (ts ! renderer_task r) = Ph_idle"

lemma renderer_ok_append: "renderer_ok ts r \<Longrightarrow> renderer_ok (ts @ us) r"
  by (cases r) (simp_all add: renderer_ok_def nth_append)

lemma renderer_idle_append: "renderer_idle ts r \<Longrightarrow> renderer_idle (ts @ us) r"
  by (simp add: renderer_idle_def renderer_ok_append nth_append renderer_ok_task)

lemma spawn_renderers_tasks:
  assumes "spawn_renderers ts s = Inr (rs, t)"
  shows "t = s\<lparr>ag_tasks := ag_tasks s @ map (\<lambda>t. \<lparr>dt_type = t, dt_phase = Ph_idle\<rparr>) ts\<rparr> \<and>
    (\<forall>r\<in>set rs. renderer_idle (ag_tasks t) r)"
  using assms
proof (induction ts arbitrary: s rs)
  case Nil
  then show ?case by simp
next
  case (Cons x ts)
  then obtain r u rs' where r: "spawn_renderer x s = Inr (r, u)" "spawn_renderers ts u = Inr (rs', t)" "rs = r # rs'"
    by (auto simp: res_simps)
  from r(1) have u: "u = s\<lparr>ag_tasks := ag_tasks s @ [\<lparr>dt_type = x, dt_phase = Ph_idle\<rparr>]\<rparr>"
    and idle: "renderer_idle (ag_tasks u) r"
    by (auto simp: spawn_renderer_def Let_def renderer_idle_def renderer_ok_def split: ClipboardType.splits)
  from Cons.IH [OF r(2)] have t: "t = u\<lparr>ag_tasks := ag_tasks u @ map (\<lambda>t. \<lparr>dt_type = t, dt_phase = Ph_idle\<rparr>) ts\<rparr>"
    and rs': "\<forall>r\<in>set rs'. renderer_idle (ag_tasks t) r" by auto
  from t idle have "renderer_idle (ag_tasks t) r" by (simp add: renderer_idle_append)
  with t u rs' r(3) show ?case by simp
qed

lemma agent_inv_spawned:
  assumes "agent_inv s"
  shows "agent_inv (s\<lparr>ag_tasks := ag_tasks s @ map (\<lambda>t. \<lparr>dt_type = t, dt_phase = Ph_idle\<rparr>) ts\<rparr>)"
proof -
  let ?new = "map (\<lambda>t. \<lparr>dt_type = t, dt_phase = Ph_idle\<rparr>) ts"
  let ?t = "s\<lparr>ag_tasks := ag_tasks s @ ?new\<rparr>"
  have phase: "dt_phase ((ag_tasks s @ ?new) ! k) = (if k < length (ag_tasks s) then dt_phase (ag_tasks s ! k) else Ph_idle)"
    if "k < length (ag_tasks s) + length ts" for k using that by (simp add: nth_append)
  have "outstanding_ok ?t"
    unfolding outstanding_ok_def
  proof (intro allI)
    fix k
    show "(ag_outstanding ?t = Some k) = (k < length (ag_tasks ?t) \<and> dt_phase (ag_tasks ?t ! k) = Ph_requested)"
      using outstanding_okD [of s k] assms phase [of k] by (auto simp: agent_inv_def split: if_splits)
  qed
  moreover have "promised_ok ?t"
    unfolding promised_ok_def
  proof (intro conjI ballI)
    show "distinct (map fst (cb_renderers ?t))" using assms by (simp add: agent_inv_def promised_ok_def)
  next
    fix fr assume "fr \<in> set (cb_renderers ?t)"
    then have "fr \<in> set (cb_renderers s)" by simp
    from promised_okD [OF _ this] assms
    show "fst fr = dr_format (snd fr)" "renderer_ok (ag_tasks ?t) (snd fr)"
      "dt_phase (ag_tasks ?t ! renderer_task (snd fr)) = Ph_idle"
      by (simp_all add: agent_inv_def renderer_ok_append nth_append renderer_ok_task)
  qed
  moreover have "rendering_ok ?t"
    using assms phase by (auto simp: agent_inv_def rendering_ok_def awaited_def renderer_ok_append split: if_splits)
  moreover have "forwarders_ok ?t" using assms by (simp add: agent_inv_def forwarders_ok_def hotkeys_ok_def)
  ultimately show ?thesis by (simp add: agent_inv_def)
qed

text \<open>What \<open>clipboard_send\<close> leaves promised.\<close>

lemma send_contents_renderers:
  assumes "send_contents (agent_clip api) il (map Delay_rendered rs) s = Inr (Inr u, t)"
  shows "os_only (s\<lparr>cb_renderers := fold (\<lambda>r. AList.update (dr_format r) r) rs (cb_renderers s)\<rparr>) t"
  using assms
proof (induction rs arbitrary: s)
  case Nil
  then show ?case by simp
next
  case (Cons r rs)
  let ?s = "insert_renderer (dr_format r) r s"
  from Cons.prems obtain x v where v: "send_delay_rendered (agent_clip api) (dr_format r) ?s = (Inr x, v)"
    and rest: "send_contents (agent_clip api) il (map Delay_rendered rs) v = Inr (Inr u, t)"
    by (cases "send_delay_rendered (agent_clip api) (dr_format r) ?s")
      (auto simp: send_content_def split: sum.splits)
  from v have "os_only ?s v" unfolding send_delay_rendered_def by (rule os_only_clip_send)
  then obtain os where os: "v = ?s\<lparr>ag_os := os\<rparr>" by (auto simp: os_only_def)
  have "os_only (v\<lparr>cb_renderers := fold (\<lambda>r. AList.update (dr_format r) r) rs (cb_renderers v)\<rparr>) t"
    by (rule Cons.IH [OF rest])
  then show ?case by (auto simp: os insert_renderer_def os_only_def)
qed

lemma clipboard_send_renderers:
  assumes "clipboard_send (agent_clip api) il w (map Delay_rendered rs) s = Inr (Inr u, t)"
  shows "os_only (s\<lparr>cb_renderers := fold (\<lambda>r. AList.update (dr_format r) r) rs []\<rparr>) t"
proof -
  from assms obtain a b where a: "clip_open (agent_clip api) w s = Inr a"
    and b: "(case on_os (cl_empty api) a of (Some e, s) \<Rightarrow> Inr (Inl e, s)
        | (None, s) \<Rightarrow> send_contents (agent_clip api) il (map Delay_rendered rs) (s\<lparr>cb_renderers := []\<rparr>)) = Inr (Inr u, b)"
    and t: "clip_close (agent_clip api) b = Inr t"
    by (auto simp: clipboard_send_def with_clipboard_def res_simps)
  obtain e c where c: "on_os (cl_empty api) a = (e, c)" by fastforce
  with b have "send_contents (agent_clip api) il (map Delay_rendered rs) (c\<lparr>cb_renderers := []\<rparr>) = Inr (Inr u, b)"
    by (cases e) simp_all
  from send_contents_renderers [OF this] os_only_open [OF a] os_only_on_osD [OF c] os_only_close [OF t]
  show ?thesis by (auto simp: os_only_def)
qed

lemma set_update_subset: "set (AList.update k v xs) \<subseteq> insert (k, v) (set xs)"
  by (induction xs) auto

lemma fold_update_promised:
  "set (fold (\<lambda>r. AList.update (dr_format r) r) rs xs) \<subseteq> set xs \<union> (\<lambda>r. (dr_format r, r)) ` set rs"
proof (induction rs arbitrary: xs)
  case (Cons r rs)
  have "set (fold (\<lambda>r. AList.update (dr_format r) r) rs (AList.update (dr_format r) r xs)) \<subseteq>
      set (AList.update (dr_format r) r xs) \<union> (\<lambda>r. (dr_format r, r)) ` set rs" by (rule Cons.IH)
  with set_update_subset [of "dr_format r" r xs] show ?case by auto
qed simp

lemma fold_update_distinct:
  "distinct (map fst xs) \<Longrightarrow> distinct (map fst (fold (\<lambda>r. AList.update (dr_format r) r) rs xs))"
  by (induction rs arbitrary: xs) (simp_all add: distinct_update)

lemma handle_grab_inv:
  assumes "agent_inv s" and "handle_grab sys types s = Inr t"
  shows "agent_inv t"
proof -
  from assms(2) obtain rs u r v where u: "spawn_renderers (ClipboardTypes_iter types) s = Inr (rs, u)"
    and v: "clipboard_send (agent_clip (as_clip sys)) (as_images sys) (as_window sys) (map Delay_rendered rs) u = Inr (r, v)"
    and r: "(case r of Inl _ \<Rightarrow> Inl Unwrap_failed | Inr _ \<Rightarrow> Inr v) = Inr t"
    by (auto simp: handle_grab_def res_simps split: if_splits)
  from r v have t: "clipboard_send (agent_clip (as_clip sys)) (as_images sys) (as_window sys) (map Delay_rendered rs) u = Inr (Inr (), t)"
    by (cases r) simp_all
  let ?xs = "fold (\<lambda>r. AList.update (dr_format r) r) rs []"
  from spawn_renderers_tasks [OF u] agent_inv_spawned [OF assms(1)]
  have inv: "agent_inv u" and idle: "\<forall>r\<in>set rs. renderer_idle (ag_tasks u) r" by auto
  have "promised_ok (u\<lparr>cb_renderers := ?xs\<rparr>)"
    unfolding promised_ok_def
  proof (intro conjI ballI)
    show "distinct (map fst (cb_renderers (u\<lparr>cb_renderers := ?xs\<rparr>)))" by (simp add: fold_update_distinct)
  next
    fix fr assume "fr \<in> set (cb_renderers (u\<lparr>cb_renderers := ?xs\<rparr>))"
    with fold_update_promised [of rs "[]"] obtain r where "fr = (dr_format r, r)" "r \<in> set rs" by auto
    with idle show "fst fr = dr_format (snd fr)" "renderer_ok (ag_tasks (u\<lparr>cb_renderers := ?xs\<rparr>)) (snd fr)"
      "dt_phase (ag_tasks (u\<lparr>cb_renderers := ?xs\<rparr>) ! renderer_task (snd fr)) = Ph_idle"
      by (simp_all add: renderer_idle_def)
  qed
  moreover have "outstanding_ok (u\<lparr>cb_renderers := ?xs\<rparr>)" "rendering_ok (u\<lparr>cb_renderers := ?xs\<rparr>)"
    "forwarders_ok (u\<lparr>cb_renderers := ?xs\<rparr>)"
    using inv by (simp_all add: agent_inv_defs hotkeys_ok_def)
  ultimately have "agent_inv (u\<lparr>cb_renderers := ?xs\<rparr>)" by (simp add: agent_inv_def)
  with agent_inv_os_only [OF clipboard_send_renderers [OF t]] show ?thesis by simp
qed

lemma handle_request_inv:
  assumes "agent_inv s" and "handle_request sys aw i s = Inr t"
  shows "agent_inv t"
proof -
  from assms(2) obtain data u where u: "os_only s u"
    and t: "agent_send aw (clipboard_to_in (ClipboardContents data)) u = Inr t"
    by (auto simp: handle_request_def res_simps split: option.splits dest!: os_only_offer_data)
      (blast intro: os_only_refl)+
  from agent_inv_send [OF t] agent_inv_os_only [OF u] assms(1) show ?thesis by simp
qed

lemma forwarders_ok_frame:
  "forwarders_ok s \<Longrightarrow> hotkeys_ok t \<Longrightarrow> length (hk_channels s) \<le> length (hk_channels t) \<Longrightarrow>
    \<forall>f\<in>set (ag_forwarders t). f \<in> set (ag_forwarders s) \<or> fst f < length (hk_channels t) \<Longrightarrow> forwarders_ok t"
  by (force simp: forwarders_ok_def)

text \<open>The hotkey part changes alone.\<close>

lemma agent_inv_hotkeys:
  assumes "agent_inv s" and "forwarders_ok t"
    and "ag_tasks t = ag_tasks s" and "ag_outstanding t = ag_outstanding s" and "ag_rendering t = ag_rendering s"
    and "cb_renderers t = cb_renderers s"
  shows "agent_inv t"
  using assms by (simp add: agent_inv_def outstanding_ok_def promised_ok_def rendering_ok_def awaited_def)

lemma handle_register_inv:
  assumes "agent_inv s" and "handle_register sys aw x (d, s) = Inr (d', t)"
  defines "i \<equiv> ha_atom (as_hotkeys sys) (hk_calls s)"
  shows "agent_inv t \<and>
    d' = d\<lparr>wd_callbacks := wd_callbacks d @ [register_callback i (rhk_modifiers x) (rhk_key x)]\<rparr> \<and>
    hk_queues t = (hk_queues s)(i \<mapsto> length (hk_channels s)) \<and>
    ag_forwarders t = ag_forwarders s @ [(length (hk_channels s), rhk_id x)] \<and>
    length (hk_channels t) = Suc (length (hk_channels s)) \<and> ag_sent t = ag_sent s"
proof -
  from assms(1) have ok: "hotkeys_ok s" by (simp add: agent_inv_def forwarders_ok_def)
  from assms(2) obtain j c u where r: "register_hotkey_queue (as_hotkeys sys) s = Inr (j, c, u)"
    by (auto simp: handle_register_def res_simps)
  with register_hotkey_keeps [OF ok r]
  have u: "register_hotkey_queue (as_hotkeys sys) s = Inr (i, length (hk_channels s), u)" "hotkeys_ok u"
      "hk_queues u = (hk_queues s)(i \<mapsto> length (hk_channels s))"
      "hk_channels u = hk_channels s @ [\<lparr>ch_open = True, ch_waiting = 0\<rparr>]" by (auto simp: i_def)
  have frame: "ag_tasks u = ag_tasks s" "ag_outstanding u = ag_outstanding s" "ag_rendering u = ag_rendering s"
    "cb_renderers u = cb_renderers s" "ag_forwarders u = ag_forwarders s" "ag_sent u = ag_sent s"
    using u(1) by (auto simp: register_hotkey_queue_def Let_def split: if_splits)
  from assms(2) u(1) obtain os where t: "t = u\<lparr>ag_os := os, ag_forwarders := ag_forwarders s @ [(length (hk_channels s), rhk_id x)]\<rparr>"
    and d': "d' = d\<lparr>wd_callbacks := wd_callbacks d @ [register_callback i (rhk_modifiers x) (rhk_key x)]\<rparr>"
    using frame
    by (auto simp: handle_register_def send_callback_queue_def wake_loop_def agent_win_def on_os_def Let_def i_def
        split: if_splits prod.splits)
  have "forwarders_ok t"
    using assms(1) u frame by (auto simp: agent_inv_def forwarders_ok_def t hotkeys_ok_def)
  then have "agent_inv t" by (rule agent_inv_hotkeys [OF assms(1)]) (simp_all add: t frame)
  with t d' u frame show ?thesis by simp
qed

lemma watch_clipboard_inv: "agent_inv s \<Longrightarrow> watch_clipboard sys aw s = Inr t \<Longrightarrow> agent_inv t"
  by (auto simp: watch_clipboard_def Let_def split: if_splits option.splits dest!: agent_inv_send)

text \<open>While the connection lasts, a forwarding task sends on what it takes.\<close>

lemma forward_press_connected:
  assumes "aw_connected aw"
  shows "forward_press aw f s =
    (case take_press (fst f) s of None \<Rightarrow> s | Some s \<Rightarrow> s\<lparr>ag_sent := ag_sent s @ [Ga_HotKey (snd f)]\<rparr>)"
  using assms by (simp add: forward_press_def agent_send_def split: option.split)

lemma forward_press_inv:
  assumes "agent_inv s" and "aw_connected aw"
  shows "agent_inv (forward_press aw f s)"
proof (cases "take_press (fst f) s")
  case None
  with assms show ?thesis by (simp add: forward_press_connected)
next
  case (Some t)
  then obtain ch where t: "t = s\<lparr>hk_channels := (hk_channels s)[fst f := ch]\<rparr>" and ch: "ch_open ch"
    by (auto simp: take_press_def Let_def split: if_splits)
  from assms(1) ch have "forwarders_ok t"
    using set_update_subset_insert [of "hk_channels s" "fst f" ch]
    by (auto simp: agent_inv_def forwarders_ok_def hotkeys_ok_def t)
  then have "agent_inv t" by (rule agent_inv_hotkeys [OF assms(1)]) (simp_all add: t)
  with Some assms(2) show ?thesis by (simp add: forward_press_connected)
qed

subsection \<open>The loop's thread keeps it\<close>

lemma agent_inv_idle:
  assumes "agent_inv s" and "ag_rendering s = None" and "n < length (ag_tasks s)"
  shows "\<not> phase_active (dt_phase (ag_tasks s ! n))"
  using assms by (auto simp: agent_inv_def rendering_ok_def awaited_def)

lemma agent_inv_none_outstanding:
  assumes "agent_inv s" and "ag_rendering s = None"
  shows "ag_outstanding s = None"
  using agent_inv_outstanding(3) [OF assms(1)] assms(2) by (cases "ag_outstanding s") (auto simp: awaited_def)

text \<open>Renderers are taken out of the promised data and their tasks asked.\<close>

lemma ask_task_simps:
  "length (ag_tasks (ask_task r s)) = length (ag_tasks s)"
  "renderer_ok (ag_tasks (ask_task r s)) q = renderer_ok (ag_tasks s) q"
  "k < length (ag_tasks s) \<Longrightarrow>
    dt_phase (ag_tasks (ask_task r s) ! k) = (if k = renderer_task r then Ph_asked else dt_phase (ag_tasks s ! k))"
  "(ask_task r s)\<lparr>ag_tasks := ts\<rparr> = s\<lparr>ag_tasks := ts\<rparr>"
  by (simp_all add: ask_task_def set_phase_nth) (simp add: set_phase_def)

lemma fold_ask_tasks:
  "length (ag_tasks (fold ask_task rs s)) = length (ag_tasks s) \<and>
   fold ask_task rs s = s\<lparr>ag_tasks := ag_tasks (fold ask_task rs s)\<rparr> \<and>
   (\<forall>r. renderer_ok (ag_tasks (fold ask_task rs s)) r = renderer_ok (ag_tasks s) r) \<and>
   (\<forall>k<length (ag_tasks s). dt_phase (ag_tasks (fold ask_task rs s) ! k) =
      (if k \<in> renderer_task ` set rs then Ph_asked else dt_phase (ag_tasks s ! k)))"
proof (induction rs arbitrary: s)
  case Nil
  show ?case by simp
next
  case (Cons r rs)
  from Cons.IH [of "ask_task r s"] have
    1: "length (ag_tasks (fold ask_task rs (ask_task r s))) = length (ag_tasks (ask_task r s))" and
    2: "fold ask_task rs (ask_task r s) = (ask_task r s)\<lparr>ag_tasks := ag_tasks (fold ask_task rs (ask_task r s))\<rparr>" and
    3: "\<forall>q. renderer_ok (ag_tasks (fold ask_task rs (ask_task r s))) q = renderer_ok (ag_tasks (ask_task r s)) q" and
    4: "\<forall>k<length (ag_tasks (ask_task r s)). dt_phase (ag_tasks (fold ask_task rs (ask_task r s)) ! k) =
      (if k \<in> renderer_task ` set rs then Ph_asked else dt_phase (ag_tasks (ask_task r s) ! k))" by blast+
  have "fold ask_task rs (ask_task r s) = s\<lparr>ag_tasks := ag_tasks (fold ask_task rs (ask_task r s))\<rparr>"
    by (subst 2) (simp add: ask_task_simps)
  with 1 3 4 show ?case by (auto simp: ask_task_simps)
qed

lemma agent_inv_begin:
  assumes inv: "agent_inv s" and none: "ag_rendering s = None"
    and sub: "set xs \<subseteq> set (cb_renderers s)" and dist: "distinct (map fst xs)"
    and rs: "set rs \<subseteq> snd ` set (cb_renderers s)" and disj: "fst ` set xs \<inter> dr_format ` set rs = {}"
  shows "agent_inv (fold ask_task rs (s\<lparr>cb_renderers := xs, ag_rendering := Some rs, ag_opened := b\<rparr>))"
proof -
  let ?s = "s\<lparr>cb_renderers := xs, ag_rendering := Some rs, ag_opened := b\<rparr>"
  let ?ts = "ag_tasks (fold ask_task rs ?s)"
  from fold_ask_tasks [of rs ?s] have len: "length ?ts = length (ag_tasks s)"
    and t: "fold ask_task rs ?s = ?s\<lparr>ag_tasks := ?ts\<rparr>"
    and ok: "\<And>r. renderer_ok ?ts r = renderer_ok (ag_tasks s) r"
    and phase: "\<And>k. k < length (ag_tasks s) \<Longrightarrow>
      dt_phase (?ts ! k) = (if k \<in> renderer_task ` set rs then Ph_asked else dt_phase (ag_tasks s ! k))"
    by auto
  have prom: "promised_ok s" using inv by (simp add: agent_inv_def)
  have rs_ok: "renderer_ok (ag_tasks s) r" if "r \<in> set rs" for r
    using that rs promised_okD(2) [OF prom] by fastforce
  have task_format: "dr_format q = dr_format r" if "renderer_ok (ag_tasks s) q" "renderer_ok (ag_tasks s) r"
    "renderer_task q = renderer_task r" for q r
    using that by (cases q; cases r) (simp_all add: renderer_ok_def)
  have "outstanding_ok (?s\<lparr>ag_tasks := ?ts\<rparr>)"
    unfolding outstanding_ok_def
  proof (intro allI)
    fix k
    show "(ag_outstanding (?s\<lparr>ag_tasks := ?ts\<rparr>) = Some k) =
      (k < length (ag_tasks (?s\<lparr>ag_tasks := ?ts\<rparr>)) \<and> dt_phase (ag_tasks (?s\<lparr>ag_tasks := ?ts\<rparr>) ! k) = Ph_requested)"
      using agent_inv_none_outstanding [OF inv none] agent_inv_idle [OF inv none, of k] phase [of k] len by auto
  qed
  moreover have "promised_ok (?s\<lparr>ag_tasks := ?ts\<rparr>)"
    unfolding promised_ok_def
  proof (intro conjI ballI)
    show "distinct (map fst (cb_renderers (?s\<lparr>ag_tasks := ?ts\<rparr>)))" using dist by simp
  next
    fix fr assume "fr \<in> set (cb_renderers (?s\<lparr>ag_tasks := ?ts\<rparr>))"
    then have fr: "fr \<in> set xs" by simp
    then have "fr \<in> set (cb_renderers s)" using sub by auto
    note p = promised_okD [OF prom this]
    have "renderer_task (snd fr) \<notin> renderer_task ` set rs"
    proof
      assume "renderer_task (snd fr) \<in> renderer_task ` set rs"
      then obtain r where r: "r \<in> set rs" "renderer_task (snd fr) = renderer_task r" by auto
      from task_format [OF p(2) rs_ok [OF r(1)] r(2)] p(1) have "fst fr = dr_format r" by simp
      with disj fr r(1) show False by (auto simp: disjoint_iff)
    qed
    with p phase [OF renderer_ok_task [OF p(2)]] ok
    show "fst fr = dr_format (snd fr)" "renderer_ok (ag_tasks (?s\<lparr>ag_tasks := ?ts\<rparr>)) (snd fr)"
      "dt_phase (ag_tasks (?s\<lparr>ag_tasks := ?ts\<rparr>) ! renderer_task (snd fr)) = Ph_idle" by simp_all
  qed
  moreover have "rendering_ok (?s\<lparr>ag_tasks := ?ts\<rparr>)"
    using rs_ok ok phase len agent_inv_idle [OF inv none]
    by (auto simp: rendering_ok_def awaited_def split: if_splits)
  moreover have "forwarders_ok (?s\<lparr>ag_tasks := ?ts\<rparr>)"
    using inv by (simp add: agent_inv_def forwarders_ok_def hotkeys_ok_def)
  ultimately show ?thesis by (subst t) (simp add: agent_inv_def)
qed

lemma begin_render_format_inv:
  assumes "agent_inv s" and "ag_rendering s = None"
  shows "agent_inv (begin_render_format f s)"
proof (cases "map_of (cb_renderers s) f")
  case None
  then have "AList.delete f (cb_renderers s) = cb_renderers s"
    by (simp add: delete_id map_of_eq_None_iff)
  with None assms show ?thesis by (simp add: begin_render_format_def take_renderer_def)
next
  case (Some r)
  then have mem: "(f, r) \<in> set (cb_renderers s)" by (rule map_of_SomeD)
  from assms(1) have prom: "promised_ok s" by (simp add: agent_inv_def)
  from promised_okD(1) [OF prom mem] have f: "dr_format r = f" by simp
  have "agent_inv (fold ask_task [r] (s\<lparr>cb_renderers := AList.delete f (cb_renderers s), ag_rendering := Some [r],
      ag_opened := False\<rparr>))"
  proof (rule agent_inv_begin [OF assms])
    show "set (AList.delete f (cb_renderers s)) \<subseteq> set (cb_renderers s)" by (auto simp: AList.delete_eq)
    show "distinct (map fst (AList.delete f (cb_renderers s)))"
      using prom by (simp add: promised_ok_def distinct_delete)
    show "set [r] \<subseteq> snd ` set (cb_renderers s)" using mem by force
    show "fst ` set (AList.delete f (cb_renderers s)) \<inter> dr_format ` set [r] = {}"
      by (auto simp: f AList.delete_eq)
  qed
  with Some show ?thesis by (simp add: begin_render_format_def take_renderer_def)
qed

lemma begin_render_all_inv:
  assumes "agent_inv s" and "ag_rendering s = None" and "begin_render_all sys s = Inr t"
  shows "agent_inv t"
proof -
  from assms(3) obtain u where u: "clip_open (agent_clip (as_clip sys)) (as_window sys) s = Inr u"
    and t: "(if cl_owner (agent_clip (as_clip sys)) u = as_window sys then
        Inr (fold ask_task (map snd (cb_renderers u))
          (u\<lparr>cb_renderers := [], ag_rendering := Some (map snd (cb_renderers u)), ag_opened := True\<rparr>))
      else clip_close (agent_clip (as_clip sys)) u) = Inr t"
    unfolding begin_render_all_def Let_def by (auto simp: res_simps)
  from agent_inv_os_only [OF os_only_open [OF u]] assms(1) have inv: "agent_inv u" by simp
  from os_only_open [OF u] assms(2) have none: "ag_rendering u = None" by (auto simp: os_only_def)
  show ?thesis
  proof (cases "cl_owner (agent_clip (as_clip sys)) u = as_window sys")
    case True
    with t agent_inv_begin [OF inv none, of "[]" "map snd (cb_renderers u)" True] show ?thesis by auto
  next
    case False
    with t agent_inv_os_only [OF os_only_close] inv show ?thesis by auto
  qed
qed

lemma finish_render_inv:
  assumes "agent_inv s" and "rendering_done s" and "finish_render sys s = Inr t"
  shows "agent_inv t"
proof (cases "ag_rendering s")
  case None
  with assms show ?thesis by (simp add: finish_render_def)
next
  case (Some rs)
  let ?s = "s\<lparr>ag_rendering := None\<rparr>"
  have "rendering_ok ?s"
    unfolding rendering_ok_def
  proof (intro conjI allI impI)
    fix n assume n: "n < length (ag_tasks ?s)" "phase_active (dt_phase (ag_tasks ?s ! n))"
    with assms(1) have "n \<in> awaited s" by (simp add: agent_inv_def rendering_ok_def)
    with Some assms(2) have "task_done s n" by (auto simp: awaited_def rendering_done_def)
    with n(2) show "n \<in> awaited ?s" by (cases "dt_phase (ag_tasks s ! n)") (auto simp: task_done_def)
  qed simp
  with assms(1) have inv: "agent_inv ?s"
    by (simp add: agent_inv_def outstanding_ok_def promised_ok_def forwarders_ok_def hotkeys_ok_def)
  from assms(3) Some obtain u where u: "os_only ?s u"
    and t: "(if ag_opened u then clip_close (agent_clip (as_clip sys)) (u\<lparr>ag_opened := False\<rparr>) else Inr u) = Inr t"
    by (auto simp: finish_render_def Let_def res_simps dest: os_only_for_each_arrived)
  from agent_inv_os_only [OF u] inv have "agent_inv u" by simp
  with t agent_inv_os_only [OF os_only_close] show ?thesis by (fastforce split: if_splits)
qed


text \<open>The listeners and callbacks of the agent.\<close>

definition agent_listeners :: "('i, 'os) Agent_system \<Rightarrow> ('os Agent) Listener set" where
  "agent_listeners sys =
     {clip_listener (agent_clip (as_clip sys)) (as_images sys) no_owners, hotkey_listener (as_hotkeys sys)}"

definition agent_callbacks :: "('i, 'os) Agent_system \<Rightarrow> ('os Agent) Callback set" where
  "agent_callbacks sys =
     {clipboard_callback (agent_clip (as_clip sys)) (as_images sys) no_owners (as_window sys),
      hotkey_callback (as_hotkeys sys)} \<union> {register_callback i modifiers vk | i modifiers vk. True}"

definition agent_data :: "('i, 'os) Agent_system \<Rightarrow> ('os Agent) WindowData \<Rightarrow> bool" where
  "agent_data sys d \<longleftrightarrow>
     wd_connected d \<and> set (wd_listeners d) \<subseteq> agent_listeners sys \<and> set (wd_callbacks d) \<subseteq> agent_callbacks sys"

text \<open>A press that nobody registered, or one more message for a binding's channel.\<close>

lemma hotkey_pressed_inv:
  assumes "agent_inv s"
  shows "agent_inv (hotkey_pressed ha i s)"
proof (cases "hk_queues s i")
  case None
  let ?t = "hotkey_pressed ha i s"
  have ok: "hotkeys_ok s" using assms by (simp add: agent_inv_def forwarders_ok_def)
  have calls: "hk_calls ?t = (hk_calls s @ [Unregister_called i]) @ (if ha_unregistered ha (hk_calls s) i then [Atom_deleted i] else [])"
    using None by (simp add: hotkey_pressed_def channel_open_def Let_def)
  have "dom (hk_queues s) \<subseteq> atoms_in_use (hk_calls ?t)"
  proof (cases "ha_unregistered ha (hk_calls s) i")
    case True
    then have "atoms_in_use (hk_calls ?t) = atoms_in_use (hk_calls s) - {i}"
      unfolding calls by (simp only: if_True atoms_in_use_snoc HotKey_call.case)
    with ok None show ?thesis by (auto simp: hotkeys_ok_def)
  next
    case False
    then have "atoms_in_use (hk_calls ?t) = atoms_in_use (hk_calls s)" by (simp add: calls)
    with ok show ?thesis by (simp add: hotkeys_ok_def)
  qed
  moreover have "atoms_added (hk_calls ?t) = atoms_added (hk_calls s)" by (simp add: calls)
  ultimately have "hotkeys_ok ?t" using hotkey_pressed_unknown [OF None, of ha] ok by (simp add: hotkeys_ok_def)
  moreover have frame: "ag_tasks ?t = ag_tasks s" "ag_outstanding ?t = ag_outstanding s" "ag_rendering ?t = ag_rendering s"
    "cb_renderers ?t = cb_renderers s" "ag_forwarders ?t = ag_forwarders s"
    using None by (simp_all add: hotkey_pressed_def channel_open_def Let_def)
  ultimately have "forwarders_ok ?t"
    using assms hotkey_pressed_unknown [OF None, of ha] by (simp add: agent_inv_def forwarders_ok_def)
  then show ?thesis by (rule agent_inv_hotkeys [OF assms]) (simp_all add: frame)
next
  case (Some c)
  have ok: "hotkeys_ok s" using assms by (simp add: agent_inv_def forwarders_ok_def)
  have frame: "ag_tasks (channel_send c s) = ag_tasks s" "ag_outstanding (channel_send c s) = ag_outstanding s"
    "ag_rendering (channel_send c s) = ag_rendering s" "cb_renderers (channel_send c s) = cb_renderers s"
    "ag_forwarders (channel_send c s) = ag_forwarders s"
    by (simp_all add: channel_send_def Let_def)
  from hotkey_pressed_ok(2) [OF ok Some] assms have "forwarders_ok (channel_send c s)"
    by (simp add: agent_inv_def forwarders_ok_def frame)
  then have "agent_inv (channel_send c s)" by (rule agent_inv_hotkeys [OF assms]) (simp_all add: frame)
  then show ?thesis unfolding hotkey_pressed_ok(1) [OF ok Some] .
qed

lemma agent_listener_keeps:
  assumes "l \<in> agent_listeners sys" and "msg_message m \<noteq> WM_RENDERFORMAT" and "msg_message m \<noteq> WM_RENDERALLFORMATS"
  shows "listener_keeps agent_inv m l"
proof -
  have update: "agent_inv t" if "agent_inv s" "on_clipboard_update (agent_clip (as_clip sys)) w s = Inr (r, t)" for s w r t
  proof -
    from that(2) obtain q u where u: "read_clipboard (agent_clip (as_clip sys)) w s = Inr (q, u)"
      and t: "t = u\<lparr>cb_offer := cb_offer t, cb_version := cb_version t, ag_os := ag_os t\<rparr>"
      by (auto simp: on_clipboard_update_def Let_def res_simps split: if_splits)
    from agent_inv_os_only [OF os_only_read_clipboard [OF u]] that(1) have "agent_inv u" by simp
    then show ?thesis by (subst t) simp
  qed
  have "agent_inv (on_destroy_clipboard (agent_clip (as_clip sys)) w s)" if "agent_inv s" for s w
    using that by (simp add: on_destroy_clipboard_def agent_inv_no_renderers)
  with update assms hotkey_pressed_inv show ?thesis
    unfolding agent_listeners_def listener_keeps_def
    by (auto simp: clip_listener_def hotkey_listener_def Let_def split: if_splits)
qed

lemma agent_callback_keeps:
  assumes "cb \<in> agent_callbacks sys"
  shows "callback_keeps agent_inv (agent_listeners sys) cb"
proof -
  have "agent_inv (s\<lparr>hk_calls := hk_calls s @ [Register_called i m v]\<rparr>)" if "agent_inv s" for s i m v
    using that by (simp add: agent_inv_defs hotkeys_ok_def)
  with assms show ?thesis
    unfolding callback_keeps_def agent_callbacks_def
    by (auto simp: clipboard_callback_def hotkey_callback_def register_callback_def agent_listeners_def Let_def
        agent_inv_os_only dest!: os_only_on_osD split: prod.splits if_splits)
qed

lemma agent_win_simps [simp]:
  "wa_post_quit (agent_win api) s = s\<lparr>ag_os := wa_post_quit api (ag_os s)\<rparr>"
  "wa_def_proc (agent_win api) m = on_os (wa_def_proc api m)"
  "wa_post_message (agent_win api) w n = on_os (wa_post_message api w n)"
  by (simp_all add: agent_win_def)

lemma loop_message_inv:
  assumes "agent_inv s" and "agent_data sys d" and "ag_rendering s = None" and "loop_message sys m (d, s) = Inr (d', t)"
  shows "agent_inv t \<and> agent_data sys d'"
proof -
  consider (format) "msg_message m = WM_RENDERFORMAT" | (all) "msg_message m = WM_RENDERALLFORMATS"
    | (other) "msg_message m \<noteq> WM_RENDERFORMAT" "msg_message m \<noteq> WM_RENDERALLFORMATS" by blast
  then show ?thesis
  proof cases
    case format
    with assms begin_render_format_inv [OF assms(1,3)] show ?thesis by (auto simp: loop_message_def)
  next
    case all
    then have "WM_RENDERALLFORMATS \<noteq> WM_RENDERFORMAT" by (simp add: WM_defs)
    with all assms begin_render_all_inv [OF assms(1,3)] show ?thesis by (auto simp: loop_message_def res_simps)
  next
    case other
    with assms(4) obtain r where r: "handle_wm (agent_win (as_win sys)) m (d, s) = Inr (r, d', t)"
      by (auto simp: loop_message_def res_simps)
    from assms(2) have d: "wd_connected d" "set (wd_listeners d) \<subseteq> agent_listeners sys"
      "set (wd_callbacks d) \<subseteq> agent_callbacks sys" by (simp_all add: agent_data_def)
    have "agent_inv t \<and> wd_connected d' \<and> set (wd_listeners d') \<subseteq> agent_listeners sys \<and>
        set (wd_callbacks d') \<subseteq> set (wd_callbacks d)"
    proof (rule handle_wm_inv [where P = agent_inv, OF r d(1) assms(1) d(2)])
      show "\<forall>l\<in>agent_listeners sys. listener_keeps agent_inv m l"
        using agent_listener_keeps [OF _ other] by blast
      show "\<forall>cb\<in>set (wd_callbacks d). callback_keeps agent_inv (agent_listeners sys) cb"
        using agent_callback_keeps d(3) by blast
    qed (simp_all add: agent_inv_os_only [OF os_only_on_os])
    with d(3) show ?thesis by (auto simp: agent_data_def)
  qed
qed

subsection \<open>Every run keeps it\<close>

definition agent_ok :: "('i, 'os) Agent_system \<Rightarrow> 'os Agent_state \<Rightarrow> bool" where
  "agent_ok sys ds \<longleftrightarrow> agent_data sys (fst ds) \<and> agent_inv (snd ds)"

lemma register_in_callbacks: "register_callback i modifiers vk \<in> agent_callbacks sys"
  by (auto simp: agent_callbacks_def)

lemma agent_handle_ok:
  assumes "agent_ok sys (d, s)" and "agent_handle sys aw msg (d, s) = Inr (d', t)"
  shows "agent_ok sys (d', t)"
proof -
  from assms(1) have d: "agent_data sys d" and s: "agent_inv s" by (simp_all add: agent_ok_def)
  show ?thesis
  proof (cases msg)
    case (Ga_RegisterHotKey x)
    with assms(2) have "handle_register sys aw x (d, s) = Inr (d', t)" by (simp add: agent_handle_def)
    from handle_register_inv [OF s this] d show ?thesis
      by (auto simp: agent_ok_def agent_data_def register_in_callbacks)
  next
    case (Ga_ClipboardOut m)
    show ?thesis
    proof (cases m)
      case None
      with Ga_ClipboardOut assms(2) show ?thesis by (simp add: agent_handle_def)
    next
      case (Some c)
      with Ga_ClipboardOut assms(2) d s show ?thesis
        by (cases c) (auto simp: agent_handle_def agent_ok_def res_simps
            dest: handle_grab_inv handle_request_inv handle_contents_inv)
    qed
  qed (use assms(2) d s in \<open>auto simp: agent_handle_def agent_ok_def agent_act_def handle_console_def res_simps
      agent_inv_send split: if_splits\<close>)
qed

lemma agent_step_ok:
  assumes "agent_ok sys ds" and "aw_connected aw"
    and "agent_step sys (aw, e) ds = Inr ds'"
  shows "agent_ok sys ds'"
proof -
  obtain d s d' t where ds: "ds = (d, s)" "ds' = (d', t)" by (cases ds, cases ds')
  from assms(1) ds have d: "agent_data sys d" and s: "agent_inv s" by (simp_all add: agent_ok_def)
  show ?thesis
  proof (cases e)
    case (Ae_message msg)
    with assms ds agent_handle_ok [of sys d s aw msg d' t] show ?thesis
      by (auto simp: agent_step_def split: if_splits)
  next
    case (Ae_window m)
    with assms(3) ds d s loop_message_inv [OF s d, of m d' t] show ?thesis
      by (auto simp: agent_step_def agent_ok_def split: if_splits)
  qed (use assms ds d s in \<open>auto simp: agent_step_def agent_ok_def task_turn_inv forward_press_inv res_simps
      split: if_splits dest: watch_clipboard_inv finish_render_inv\<close>)
qed

lemma agent_start_ok: "agent_ok sys (agent_start sys b os offer)"
  by (auto simp: agent_start_def agent_ok_def agent_data_def agent_callbacks_def agent_inv_defs hotkeys_ok_def)

lemma agent_run_ok:
  assumes "agent_run sys es ds" and "\<forall>we\<in>set es. aw_connected (fst we)"
  shows "agent_ok sys ds"
proof -
  from assms(1) obtain b os offer where "agent_exec sys es (agent_start sys b os offer) = Inr ds"
    by (auto simp: agent_run_def)
  then have "for_each_res (agent_step sys) es (agent_start sys b os offer) = Inr ds" by (simp add: agent_exec_def)
  from this agent_start_ok show ?thesis
  proof (rule for_each_res_inv)
    fix we and u v :: "'b Agent_state"
    assume "we \<in> set es" "agent_step sys we u = Inr v" "agent_ok sys u"
    with assms(2) show "agent_ok sys v" by (cases we) (auto intro: agent_step_ok)
  qed
qed

subsection \<open>No step panics\<close>

text \<open>
  What the agent relies on in Windows: messages can be posted, the clipboard it opened can be emptied,
  written and closed, a text is never shorter than its terminator, and an encoded bitmap has a file
  header. Of the driver it relies on messages it knows.
\<close>

definition system_ok :: "('i, 'os) Agent_system \<Rightarrow> bool" where
  "system_ok sys \<longleftrightarrow>
     (\<forall>w n os. fst (wa_post_message (as_win sys) w n os)) \<and>
     (\<forall>os. fst (cl_close (as_clip sys) os)) \<and> (\<forall>os. fst (cl_empty (as_clip sys) os) = None) \<and>
     (\<forall>f os. fst (cl_set_data (as_clip sys) f 0 os) \<noteq> 0 \<or>
        cl_last_error (as_clip sys) (snd (cl_set_data (as_clip sys) f 0 os)) = 0) \<and>
     (\<forall>h os os' bs. cl_get_data (as_clip sys) CF_UNICODETEXT os = (Inr h, os') \<longrightarrow>
        cl_block (as_clip sys) h os' = Some bs \<longrightarrow> 3 \<le> length bs) \<and>
     (\<forall>w os. fst (cl_add_listener (as_clip sys) w os)) \<and>
     (\<forall>i. 14 \<le> length (il_bmp_encode (as_images sys) i)) \<and>
     atoms_fresh (as_hotkeys sys)"

definition world_ok :: "Agent_world \<Rightarrow> bool" where
  "world_ok aw \<longleftrightarrow> aw_connected aw \<and> aw_loop_runs aw \<and> aw_alloc_console aw \<and> aw_console_output aw"

lemma spawn_renderers_no_panic: "CT_Invalid \<notin> set ts \<Longrightarrow> no_panic (spawn_renderers ts s)"
  by (induction ts arbitrary: s)
    (auto simp: spawn_renderer_def Let_def intro!: no_panic_and_then split: ClipboardType.split)

lemma send_contents_ok:
  assumes "system_ok sys"
  shows "\<exists>t. send_contents (agent_clip (as_clip sys)) il (map Delay_rendered rs) s = Inr (Inr (), t)"
proof (induction rs arbitrary: s)
  case Nil
  show ?case by simp
next
  case (Cons r rs)
  let ?s = "insert_renderer (dr_format r) r s"
  obtain h os where os: "cl_set_data (as_clip sys) (dr_format r) 0 (ag_os ?s) = (h, os)" by fastforce
  with assms have "h \<noteq> 0 \<or> cl_last_error (as_clip sys) os = 0"
    unfolding system_ok_def by (metis fst_conv snd_conv)
  with os have "send_content (agent_clip (as_clip sys)) il (Delay_rendered r) s = Inr (Inr (), ?s\<lparr>ag_os := os\<rparr>)"
    by (auto simp: send_content_def send_delay_rendered_def clip_send_def on_os_def success_is_good_def)
  with Cons.IH [of "?s\<lparr>ag_os := os\<rparr>"] show ?case by simp
qed

lemma clipboard_send_ok:
  assumes "system_ok sys"
  shows "no_panic (clipboard_send (agent_clip (as_clip sys)) il w (map Delay_rendered rs) s) \<and>
    clipboard_send (agent_clip (as_clip sys)) il w (map Delay_rendered rs) s \<noteq> Inr (Inl e, t)"
proof -
  let ?body = "\<lambda>s. case cl_empty (agent_clip (as_clip sys)) s of
       (Some e, s) \<Rightarrow> Inr (Inl e, s)
     | (None, s) \<Rightarrow> send_contents (agent_clip (as_clip sys)) il (map Delay_rendered rs) (s\<lparr>cb_renderers := []\<rparr>)"
  have body: "\<exists>t. ?body s = Inr (Inr (), t)" for s
  proof -
    obtain e u where u: "cl_empty (agent_clip (as_clip sys)) s = (e, u)" by fastforce
    then have "e = fst (cl_empty (as_clip sys) (ag_os s))" by (metis agent_clip_simps(3) fst_conv fst_on_os)
    with assms have "e = None" by (simp add: system_ok_def)
    with u send_contents_ok [OF assms, of il rs "u\<lparr>cb_renderers := []\<rparr>"] show ?thesis by simp
  qed
  have "no_panic (?body s)" for s using body [of s] by (metis no_panic_simps(1))
  moreover have "\<forall>s. fst (cl_close (agent_clip (as_clip sys)) s)" using assms by (simp add: system_ok_def)
  ultimately have "no_panic (clipboard_send (agent_clip (as_clip sys)) il w (map Delay_rendered rs) s)"
    unfolding clipboard_send_def by (intro no_panic_with_clipboard) auto
  moreover have "clipboard_send (agent_clip (as_clip sys)) il w (map Delay_rendered rs) s \<noteq> Inr (Inl e, t)"
  proof
    assume "clipboard_send (agent_clip (as_clip sys)) il w (map Delay_rendered rs) s = Inr (Inl e, t)"
    then obtain a b where "?body a = Inr (Inl e, b)"
      by (auto simp: clipboard_send_def with_clipboard_def res_simps)
    with body [of a] show False by auto
  qed
  ultimately show ?thesis ..
qed


lemma with_clipboard_body:
  assumes "with_clipboard api w body s = Inr (r, t)"
  obtains a u where "body a = Inr (r, u)"
  using assms unfolding with_clipboard_def by (auto simp: res_simps split: sum.splits prod.splits)

lemma close_no_panic: "system_ok sys \<Longrightarrow> no_panic (clip_close (agent_clip (as_clip sys)) u)"
  unfolding clip_close_def by (cases "cl_close (as_clip sys) (ag_os u)")
    (simp add: on_os_def system_ok_def, metis fst_conv)

lemma receive_bytes_no_panic:
  assumes "system_ok sys"
  shows "no_panic (receive_bytes (agent_clip (as_clip sys)) offer f s)"
proof -
  have "\<forall>s. fst (cl_close (agent_clip (as_clip sys)) s)" using assms by (simp add: system_ok_def)
  then show ?thesis
    unfolding receive_bytes_def receive_with_def by (auto intro!: no_panic_with_clipboard)
qed

lemma receive_bytes_text:
  assumes "system_ok sys" and "receive_bytes (agent_clip (as_clip sys)) offer CF_UNICODETEXT s = Inr (Inr bs, t)"
  shows "3 \<le> length bs"
proof -
  from assms(2) obtain a u where
    "apfst (map_sum Windows_error id) (clip_receive_buffer (agent_clip (as_clip sys)) CF_UNICODETEXT a) = (Inr bs, u)"
    unfolding receive_bytes_def receive_with_def by (auto elim!: with_clipboard_body split: if_splits)
  then obtain r where "clip_receive_buffer (agent_clip (as_clip sys)) CF_UNICODETEXT a = (r, u)"
    and "map_sum Windows_error id r = Inr bs" by (cases "clip_receive_buffer (agent_clip (as_clip sys)) CF_UNICODETEXT a") auto
  then have "clip_receive_buffer (agent_clip (as_clip sys)) CF_UNICODETEXT a = (Inr bs, u)" by (cases r) auto
  then obtain h u where "cl_get_data (agent_clip (as_clip sys)) CF_UNICODETEXT a = (Inr h, u)"
    and bs: "cl_block (as_clip sys) h (ag_os u) = Some bs"
    by (auto simp: clip_receive_buffer_def split: prod.splits sum.splits option.splits)
  then have "cl_get_data (as_clip sys) CF_UNICODETEXT (ag_os a) = (Inr h, ag_os u)"
    by (auto simp: on_os_def split: prod.splits)
  with assms(1) bs show ?thesis unfolding system_ok_def by blast
qed

lemma get_u16s_nonempty: "2 \<le> length bs \<Longrightarrow> get_u16s bs \<noteq> []"
  by (cases bs rule: get_u16s.cases) auto

lemma receive_string_no_panic:
  assumes "system_ok sys"
  shows "no_panic (receive_string (agent_clip (as_clip sys)) oa offer s)"
  unfolding receive_string_def
proof (rule no_panic_and_then [OF receive_bytes_no_panic [OF assms]])
  fix x assume x: "receive_bytes (agent_clip (as_clip sys)) offer CF_UNICODETEXT s = Inr x"
  obtain r t where rt: "x = (r, t)" by (cases x)
  show "no_panic (case x of (r, s) \<Rightarrow> case r of Inl e \<Rightarrow> Inr (Inl e, s)
      | Inr memory \<Rightarrow> and_then (text_of_block oa memory) (\<lambda>t. Inr (Inr t, s)))"
  proof (cases r)
    case (Inl e)
    with rt show ?thesis by simp
  next
    case (Inr bs)
    from receive_bytes_text [OF assms x [unfolded rt Inr]] have "align_to_u16 oa bs \<noteq> []"
      by (simp add: align_to_u16_def get_u16s_nonempty)
    with rt Inr show ?thesis by (simp add: text_of_block_def Let_def)
  qed
qed

lemma receive_image_no_panic:
  assumes "system_ok sys"
  shows "no_panic (receive_image (agent_clip (as_clip sys)) il offer s)"
  unfolding receive_image_def
  by (rule no_panic_and_then [OF receive_bytes_no_panic [OF assms]]) (auto split: sum.split)

lemma agent_send_no_panic: "world_ok aw \<Longrightarrow> no_panic (agent_send aw cmd s)"
  by (simp add: agent_send_def world_ok_def)

lemma handle_request_no_panic:
  assumes "system_ok sys" and "world_ok aw" and "ClipboardType_from_i32 i \<noteq> None"
  shows "no_panic (handle_request sys aw i s)"
proof -
  have "no_panic (offer_data sys aw ct offer s)" for ct offer
    using receive_string_no_panic [OF assms(1)] receive_image_no_panic [OF assms(1)]
    by (cases ct) (auto simp: offer_data_def intro!: no_panic_and_then)
  with assms agent_send_no_panic [OF assms(2)] show ?thesis
    by (auto simp: handle_request_def intro!: no_panic_and_then split: option.split)
qed

lemma handle_grab_no_panic:
  assumes "system_ok sys" and "CT_Invalid \<notin> set (ClipboardTypes_iter types)"
  shows "no_panic (handle_grab sys types s)"
proof -
  have "no_panic (and_then (clipboard_send (agent_clip (as_clip sys)) (as_images sys) (as_window sys) (map Delay_rendered rs) u)
      (\<lambda>(r, s). case r of Inl _ \<Rightarrow> Inl Unwrap_failed | Inr _ \<Rightarrow> Inr s))" for rs u
  proof (rule no_panic_and_then)
    fix x assume x: "clipboard_send (agent_clip (as_clip sys)) (as_images sys) (as_window sys) (map Delay_rendered rs) u = Inr x"
    then obtain t where "x = (Inr (), t)"
      using clipboard_send_ok [OF assms(1)] by (cases x; cases "fst x") fastforce+
    then show "no_panic (case x of (r, s) \<Rightarrow> case r of Inl _ \<Rightarrow> Inl Unwrap_failed | Inr _ \<Rightarrow> Inr s)" by simp
  qed (use clipboard_send_ok [OF assms(1)] in blast)
  with spawn_renderers_no_panic [OF assms(2)] show ?thesis
    unfolding handle_grab_def by (auto intro!: no_panic_and_then)
qed

lemma handle_register_no_panic:
  assumes "system_ok sys" and "world_ok aw" and "agent_inv s" and "length (wd_callbacks d) < callback_capacity"
    and "length (hk_channels s) < atom_count"
  shows "no_panic (handle_register sys aw x (d, s))"
proof -
  from assms(1,3) have "hotkeys_ok s" "atoms_fresh (as_hotkeys sys)"
    by (simp_all add: agent_inv_def forwarders_ok_def system_ok_def)
  from register_hotkey_ok [OF this assms(5)] obtain i c u
    where u: "register_hotkey_queue (as_hotkeys sys) s = Inr (i, c, u)" .
  obtain ok os where os: "wa_post_message (as_win sys) (as_window sys) WM_USER (ag_os u) = (ok, os)" by fastforce
  with assms(1) have ok unfolding system_ok_def by (metis fst_conv)
  with u os assms(2,4) show ?thesis
    by (simp add: handle_register_def send_callback_queue_def world_ok_def wake_loop_def on_os_def Let_def)
qed

lemma agent_handle_no_panic:
  assumes "system_ok sys" and "world_ok aw" and "agent_inv s" and "acceptable msg" and "agent_ready msg (d, s)"
    and "\<And>x. msg = Ga_RegisterHotKey x \<Longrightarrow> length (hk_channels s) < atom_count"
  shows "no_panic (agent_handle sys aw msg (d, s))"
proof (cases msg)
  case (Ga_RegisterHotKey x)
  with assms(5,6) handle_register_no_panic [OF assms(1-3), of d x] show ?thesis
    by (simp add: agent_handle_def agent_ready_def)
next
  case (Ga_ClipboardOut m)
  with assms(4) obtain c where c: "m = Some c" by (cases m) (simp_all add: acceptable_def)
  with Ga_ClipboardOut assms(4) handle_grab_no_panic [OF assms(1)] handle_request_no_panic [OF assms(1,2)]
    handle_contents_no_panic [OF assms(3)] show ?thesis
    by (cases c) (auto simp: agent_handle_def acceptable_def intro!: no_panic_and_then)
next
  case (Ga_EnableDebugConsole l)
  with assms(2) show ?thesis by (simp add: agent_handle_def handle_console_def world_ok_def)
qed (use agent_send_no_panic [OF assms(2)] in \<open>auto simp: agent_handle_def intro!: no_panic_and_then\<close>)

lemma loop_message_no_panic:
  assumes "system_ok sys" and "agent_data sys d"
  shows "no_panic (loop_message sys m (d, s))"
proof -
  have close: "\<forall>s. fst (cl_close (agent_clip (as_clip sys)) s)" using assms(1) by (simp add: system_ok_def)
  have closed: "no_panic (clip_close (agent_clip (as_clip sys)) u)" for u by (rule close_no_panic [OF assms(1)])
  have "no_panic (read_clipboard (agent_clip (as_clip sys)) w u)" for w u
    unfolding read_clipboard_def by (rule no_panic_with_clipboard [OF close]) (auto intro!: no_panic_and_then)
  then have update: "no_panic (on_clipboard_update (agent_clip (as_clip sys)) w u)" for w u
    unfolding on_clipboard_update_def by (rule no_panic_and_then) auto
  show ?thesis
  proof (cases "msg_message m = WM_RENDERFORMAT \<or> msg_message m = WM_RENDERALLFORMATS")
    case True
    moreover have "no_panic (begin_render_all sys s)"
      unfolding begin_render_all_def Let_def using closed by (auto intro!: no_panic_and_then)
    ultimately show ?thesis by (auto simp: loop_message_def intro!: no_panic_and_then)
  next
    case False
    have "\<forall>l\<in>set (wd_listeners d). \<forall>s. no_panic (l m s)"
    proof (intro ballI allI)
      fix l and s :: "'b Agent" assume "l \<in> set (wd_listeners d)"
      with assms(2) have "l = clip_listener (agent_clip (as_clip sys)) (as_images sys) no_owners
          \<or> l = hotkey_listener (as_hotkeys sys)"
        by (auto simp: agent_data_def agent_listeners_def)
      with False update show "no_panic (l m s)"
        by (auto simp: clip_listener_def hotkey_listener_def Let_def)
    qed
    moreover have "\<forall>cb\<in>set (wd_callbacks d). \<forall>s. no_panic (cb s)"
    proof (intro ballI allI)
      fix cb and s :: "'b Agent" assume "cb \<in> set (wd_callbacks d)"
      with assms(2) have "cb \<in> agent_callbacks sys" by (auto simp: agent_data_def)
      moreover obtain ok os where os: "cl_add_listener (as_clip sys) (as_window sys) (ag_os s) = (ok, os)" by fastforce
      moreover from assms(1) os have ok unfolding system_ok_def by (metis fst_conv)
      ultimately show "no_panic (cb s)"
        by (auto simp: agent_callbacks_def clipboard_callback_def hotkey_callback_def register_callback_def on_os_def Let_def)
    qed
    ultimately have "no_panic (handle_wm (agent_win (as_win sys)) m (d, s))"
      using assms(2) by (intro no_panic_handle_wm) (simp_all add: agent_data_def)
    with False show ?thesis by (auto simp: loop_message_def intro!: no_panic_and_then)
  qed
qed

lemma finish_render_no_panic:
  assumes "system_ok sys"
  shows "no_panic (finish_render sys s)"
proof -
  have block: "no_panic (render_block api (as_images sys) data u)" for api :: "'b Agent Clip_api" and data u
    using assms by (cases data) (auto simp: render_block_def system_ok_def Let_def dest: leD)
  have "no_panic (render_arrived api (as_images sys) x u)" for api :: "'b Agent Clip_api" and x u
    unfolding render_arrived_def render_def using block by (auto intro!: no_panic_and_then split: option.split)
  moreover note close_no_panic [OF assms]
  ultimately show ?thesis
    by (auto simp: finish_render_def Let_def intro!: no_panic_and_then no_panic_for_each split: option.split)
qed

lemma agent_step_no_panic:
  assumes "system_ok sys" and "world_ok aw" and "agent_ok sys ds"
    and "\<And>msg. e = Ae_message msg \<Longrightarrow> acceptable msg"
    and "\<And>x. e = Ae_message (Ga_RegisterHotKey x) \<Longrightarrow> length (hk_channels (snd ds)) < atom_count"
  shows "no_panic (agent_step sys (aw, e) ds)"
proof -
  obtain d s where ds: "ds = (d, s)" by (cases ds)
  with assms(3) have d: "agent_data sys d" and s: "agent_inv s" by (simp_all add: agent_ok_def)
  show ?thesis
  proof (cases e)
    case (Ae_message msg)
    with ds assms(4,5) agent_handle_no_panic [OF assms(1,2) s] show ?thesis by (simp add: agent_step_def)
  next
    case (Ae_window m)
    with ds loop_message_no_panic [OF assms(1) d] show ?thesis by (simp add: agent_step_def)
  next
    case Ae_watch
    with ds agent_send_no_panic [OF assms(2)] show ?thesis
      by (auto simp: agent_step_def watch_clipboard_def Let_def intro!: no_panic_and_then split: option.split)
  next
    case Ae_rendered
    with ds finish_render_no_panic [OF assms(1)] show ?thesis
      by (auto simp: agent_step_def intro!: no_panic_and_then)
  qed (simp_all add: agent_step_def ds)
qed


end
