(* ===== verification/Guest_Hotkeys.thy ===== *)
theory Guest_Hotkeys
  imports Guest_Lemmas
begin

text \<open>
  The hotkeys of the guest agent over a whole run: only a registration changes the table of bindings
  and the forwarding tasks, so a binding goes on to mean what it was registered for.
\<close>

subsection \<open>What steps leave alone\<close>

definition hotkey_frame :: "'os Agent \<Rightarrow> 'os Agent \<Rightarrow> bool" where
  "hotkey_frame s t \<longleftrightarrow>
     hk_queues t = hk_queues s \<and> ag_forwarders t = ag_forwarders s \<and>
     length (hk_channels t) = length (hk_channels s)"

lemma hotkey_frame_refl [simp]: "hotkey_frame s s"
  by (simp add: hotkey_frame_def)

lemma hotkey_frame_trans: "hotkey_frame s t \<Longrightarrow> hotkey_frame t u \<Longrightarrow> hotkey_frame s u"
  by (simp add: hotkey_frame_def)

lemma hotkey_frame_updates [simp]:
  "hotkey_frame s (t\<lparr>ag_os := os\<rparr>) = hotkey_frame s t" "hotkey_frame s (t\<lparr>ag_sent := cs\<rparr>) = hotkey_frame s t"
  "hotkey_frame s (t\<lparr>ag_seen := k\<rparr>) = hotkey_frame s t" "hotkey_frame s (t\<lparr>ag_opened := b\<rparr>) = hotkey_frame s t"
  "hotkey_frame s (t\<lparr>ag_has_output := b\<rparr>) = hotkey_frame s t" "hotkey_frame s (t\<lparr>ag_actions := as\<rparr>) = hotkey_frame s t"
  "hotkey_frame s (t\<lparr>cb_offer := offer\<rparr>) = hotkey_frame s t" "hotkey_frame s (t\<lparr>cb_version := k\<rparr>) = hotkey_frame s t"
  "hotkey_frame s (t\<lparr>cb_renderers := rs\<rparr>) = hotkey_frame s t" "hotkey_frame s (t\<lparr>ag_rendering := r\<rparr>) = hotkey_frame s t"
  "hotkey_frame s (t\<lparr>ag_outstanding := n\<rparr>) = hotkey_frame s t" "hotkey_frame s (t\<lparr>ag_tasks := ts\<rparr>) = hotkey_frame s t"
  "hotkey_frame s (t\<lparr>hk_calls := cs'\<rparr>) = hotkey_frame s t"
  by (simp_all add: hotkey_frame_def)

lemma hotkey_frame_set_phase [simp]: "hotkey_frame s (set_phase n p t) = hotkey_frame s t"
  by (simp add: hotkey_frame_def set_phase_def)

lemma hotkey_frame_os_only: "os_only t u \<Longrightarrow> hotkey_frame s u = hotkey_frame s t"
  by (auto simp: os_only_def)

lemma hotkey_frame_send: "agent_send aw cmd t = Inr u \<Longrightarrow> hotkey_frame s u = hotkey_frame s t"
  by (auto simp: agent_send_def split: if_splits)

lemma hotkey_frame_ask: "hotkey_frame s (fold ask_task rs t) = hotkey_frame s t"
  by (induction rs arbitrary: t) (simp_all add: ask_task_def)

lemma hotkey_frame_task_turn: "hotkey_frame s (task_turn aw n s)"
  by (auto simp: task_turn_def drop_outstanding_def Let_def agent_send_def split: Task_phase.split option.split)

lemma hotkey_frame_contents: "handle_contents m s = Inr t \<Longrightarrow> hotkey_frame s t"
  by (auto simp: handle_contents_def split: option.splits if_splits)

lemma hotkey_frame_request:
  assumes "handle_request sys aw i s = Inr t"
  shows "hotkey_frame s t"
proof -
  from assms obtain data u where u: "os_only s u"
    and t: "agent_send aw (clipboard_to_in (ClipboardContents data)) u = Inr t"
    by (auto simp: handle_request_def res_simps split: option.splits dest!: os_only_offer_data)
      (blast intro: os_only_refl)+
  from hotkey_frame_send [OF t] hotkey_frame_os_only [OF u] show ?thesis by simp
qed

lemma hotkey_frame_grab:
  assumes "handle_grab sys types s = Inr t"
  shows "hotkey_frame s t"
proof -
  from assms obtain rs u r v where u: "spawn_renderers (ClipboardTypes_iter types) s = Inr (rs, u)"
    and v: "clipboard_send (agent_clip (as_clip sys)) (as_images sys) (as_window sys) (map Delay_rendered rs) u = Inr (r, v)"
    and r: "(case r of Inl _ \<Rightarrow> Inl Unwrap_failed | Inr _ \<Rightarrow> Inr v) = Inr t"
    by (auto simp: handle_grab_def res_simps split: if_splits)
  from r v have t: "clipboard_send (agent_clip (as_clip sys)) (as_images sys) (as_window sys) (map Delay_rendered rs) u = Inr (Inr (), t)"
    by (cases r) simp_all
  from spawn_renderers_tasks [OF u] obtain ts where "u = s\<lparr>ag_tasks := ts\<rparr>" by blast
  with hotkey_frame_os_only [OF clipboard_send_renderers [OF t]] show ?thesis by simp
qed

lemma hotkey_frame_watch: "watch_clipboard sys aw s = Inr t \<Longrightarrow> hotkey_frame s t"
  by (auto simp: watch_clipboard_def Let_def hotkey_frame_send split: if_splits option.splits)

lemma hotkey_frame_forward: "hotkey_frame s (forward_press aw f s)"
  by (auto simp: forward_press_def take_press_def drop_receiver_def agent_send_def Let_def hotkey_frame_def
      split: option.split if_splits)

lemma hotkey_frame_begin_format: "hotkey_frame s (begin_render_format f s)"
  by (auto simp: begin_render_format_def take_renderer_def ask_task_def Let_def split: option.split prod.split)

lemma hotkey_frame_begin_all:
  assumes "begin_render_all sys s = Inr t"
  shows "hotkey_frame s t"
proof -
  from assms obtain u where u: "clip_open (agent_clip (as_clip sys)) (as_window sys) s = Inr u"
    and t: "(if cl_owner (agent_clip (as_clip sys)) u = as_window sys then
        Inr (fold ask_task (map snd (cb_renderers u))
          (u\<lparr>cb_renderers := [], ag_rendering := Some (map snd (cb_renderers u)), ag_opened := True\<rparr>))
      else clip_close (agent_clip (as_clip sys)) u) = Inr t"
    unfolding begin_render_all_def Let_def by (auto simp: res_simps)
  from hotkey_frame_os_only [OF os_only_open [OF u]] have "hotkey_frame s u" by simp
  with t hotkey_frame_os_only [OF os_only_close] show ?thesis
    by (auto simp: hotkey_frame_ask split: if_splits)
qed

lemma hotkey_frame_finish:
  assumes "finish_render sys s = Inr t"
  shows "hotkey_frame s t"
proof (cases "ag_rendering s")
  case (Some rs)
  with assms obtain u where u: "os_only (s\<lparr>ag_rendering := None\<rparr>) u"
    and t: "(if ag_opened u then clip_close (agent_clip (as_clip sys)) (u\<lparr>ag_opened := False\<rparr>) else Inr u) = Inr t"
    by (auto simp: finish_render_def Let_def res_simps dest: os_only_for_each_arrived)
  from hotkey_frame_os_only [OF u] have "hotkey_frame s u" by simp
  with t hotkey_frame_os_only [OF os_only_close] show ?thesis by (fastforce split: if_splits)
qed (use assms in \<open>simp add: finish_render_def\<close>)

text \<open>
  Most messages of the window pass by a part of the agent that is none of the listeners' business.
\<close>

locale loop_part =
  fixes part :: "'os Agent \<Rightarrow> 'p"
  assumes part_os: "part (s\<lparr>ag_os := os\<rparr>) = part s"
    and part_clipboard: "part (s\<lparr>cb_offer := offer, cb_version := k\<rparr>) = part s"
    and part_promised: "part (s\<lparr>cb_renderers := []\<rparr>) = part s"
    and part_pressed: "part (hotkey_pressed ha i s) = part s"
    and part_calls: "part (s\<lparr>hk_calls := calls\<rparr>) = part s"
begin

lemma part_os_only: "os_only s t \<Longrightarrow> part t = part s"
  by (auto simp: os_only_def part_os)

lemma part_listener:
  assumes "l \<in> agent_listeners sys" and "msg_message m \<noteq> WM_RENDERFORMAT" and "msg_message m \<noteq> WM_RENDERALLFORMATS"
  shows "listener_keeps (\<lambda>t. part t = p) m l"
proof -
  have update: "part t = part u" if "on_clipboard_update (agent_clip (as_clip sys)) w u = Inr (r, t)" for u w r t
  proof -
    from that obtain q v where v: "read_clipboard (agent_clip (as_clip sys)) w u = Inr (q, v)"
      and t: "t = v\<lparr>cb_offer := cb_offer t, cb_version := cb_version t\<rparr> \<or> os_only v t"
      by (auto simp: on_clipboard_update_def Let_def res_simps os_only_def split: if_splits)
    from t have "part t = part v"
    proof
      assume "t = v\<lparr>cb_offer := cb_offer t, cb_version := cb_version t\<rparr>"
      then show "part t = part v" by (metis part_clipboard)
    qed (rule part_os_only)
    with part_os_only [OF os_only_read_clipboard [OF v]] show ?thesis by simp
  qed
  have "part (on_destroy_clipboard (agent_clip (as_clip sys)) w u) = part u" for u w
    by (simp add: on_destroy_clipboard_def part_promised)
  with update assms part_pressed show ?thesis
    unfolding agent_listeners_def listener_keeps_def
    by (auto simp: clip_listener_def hotkey_listener_def Let_def split: if_splits)
qed

lemma part_callback:
  assumes "cb \<in> agent_callbacks sys"
  shows "callback_keeps (\<lambda>t. part t = p) (agent_listeners sys) cb"
  using assms unfolding callback_keeps_def agent_callbacks_def
  by (auto simp: clipboard_callback_def hotkey_callback_def register_callback_def agent_listeners_def Let_def
      part_os_only part_calls dest!: os_only_on_osD split: prod.splits if_splits)

lemma part_loop:
  assumes "agent_data sys d" and "loop_message sys m (d, s) = Inr (d', t)"
    and "msg_message m \<noteq> WM_RENDERFORMAT" and "msg_message m \<noteq> WM_RENDERALLFORMATS"
  shows "part t = part s"
proof -
  from assms(2-) obtain r where r: "handle_wm (agent_win (as_win sys)) m (d, s) = Inr (r, d', t)"
    by (auto simp: loop_message_def res_simps)
  from assms(1) have d: "wd_connected d" "set (wd_listeners d) \<subseteq> agent_listeners sys"
    "set (wd_callbacks d) \<subseteq> agent_callbacks sys" by (simp_all add: agent_data_def)
  have "part t = part s \<and> wd_connected d' \<and> set (wd_listeners d') \<subseteq> agent_listeners sys \<and>
      set (wd_callbacks d') \<subseteq> set (wd_callbacks d)"
  proof (rule handle_wm_inv [where P = "\<lambda>t. part t = part s", OF r d(1) refl d(2)])
    show "\<forall>l\<in>agent_listeners sys. listener_keeps (\<lambda>t. part t = part s) m l"
      using part_listener [OF _ assms(3,4)] by blast
    show "\<forall>cb\<in>set (wd_callbacks d). callback_keeps (\<lambda>t. part t = part s) (agent_listeners sys) cb"
      using part_callback d(3) by blast
  qed (simp_all add: part_os part_os_only [OF os_only_on_os])
  then show ?thesis ..
qed

end

definition hotkey_part :: "'os Agent \<Rightarrow> (u16 \<rightharpoonup> nat) \<times> (nat \<times> u32) list \<times> nat" where
  "hotkey_part s = (hk_queues s, ag_forwarders s, length (hk_channels s))"

interpretation hotkeys: loop_part hotkey_part
  by unfold_locales (simp_all add: hotkey_part_def hotkey_pressed_def channel_send_def Let_def)

lemma hotkey_frame_loop:
  assumes "agent_data sys d" and "loop_message sys m (d, s) = Inr (d', t)"
  shows "hotkey_frame s t"
proof -
  consider (format) "msg_message m = WM_RENDERFORMAT" | (all) "msg_message m = WM_RENDERALLFORMATS"
    | (other) "msg_message m \<noteq> WM_RENDERFORMAT" "msg_message m \<noteq> WM_RENDERALLFORMATS" by blast
  then show ?thesis
  proof cases
    case format
    with assms(2) hotkey_frame_begin_format show ?thesis by (auto simp: loop_message_def)
  next
    case all
    then have "WM_RENDERALLFORMATS \<noteq> WM_RENDERFORMAT" by (simp add: WM_defs)
    with all assms(2) hotkey_frame_begin_all show ?thesis by (auto simp: loop_message_def res_simps)
  next
    case other
    from hotkeys.part_loop [OF assms other] show ?thesis by (simp add: hotkey_frame_def hotkey_part_def)
  qed
qed

fun is_register :: "'os Agent_event \<Rightarrow> bool" where
  "is_register (Ae_message (Ga_RegisterHotKey x)) = True"
| "is_register _ = False"

lemma hotkey_frame_step:
  assumes "agent_step sys (aw, e) (d, s) = Inr (d', t)" and "agent_data sys d" and "\<not> is_register e"
  shows "hotkey_frame s t"
proof (cases e)
  case (Ae_message msg)
  have handle: "hotkey_frame s t" if "agent_handle sys aw msg (d, s) = Inr (d', t)"
  proof (cases msg)
    case (Ga_ClipboardOut m)
    show ?thesis
    proof (cases m)
      case (Some c)
      with Ga_ClipboardOut that show ?thesis
        by (cases c) (auto simp: agent_handle_def res_simps
            dest: hotkey_frame_grab hotkey_frame_request hotkey_frame_contents)
    qed (use Ga_ClipboardOut that in \<open>simp add: agent_handle_def\<close>)
  qed (use Ae_message assms(3) that in \<open>auto simp: agent_handle_def agent_act_def handle_console_def res_simps
      hotkey_frame_send split: if_splits\<close>)
  from assms(1) Ae_message have "t = s \<or> agent_handle sys aw msg (d, s) = Inr (d', t)"
    by (auto simp: agent_step_def split: if_splits)
  with handle show ?thesis by auto
next
  case (Ae_window m)
  with assms(1,2) hotkey_frame_loop show ?thesis by (auto simp: agent_step_def split: if_splits)
qed (use assms(1) in \<open>auto simp: agent_step_def hotkey_frame_task_turn hotkey_frame_forward res_simps
      split: if_splits dest: hotkey_frame_watch hotkey_frame_finish\<close>)

subsection \<open>Registrations\<close>

text \<open>How often a run asks for a hotkey bounds the channels there are.\<close>

definition registrations :: "(Agent_world \<times> 'os Agent_event) list \<Rightarrow> nat" where
  "registrations es = length (filter (\<lambda>we. is_register (snd we)) es)"

lemma registrations_simps [simp]:
  "registrations [] = 0"
  "registrations (we # es) = (if is_register (snd we) then Suc (registrations es) else registrations es)"
  by (simp_all add: registrations_def)

lemma register_step:
  assumes "agent_step sys (aw, Ae_message (Ga_RegisterHotKey x)) (d, s) = Inr (d', t)"
  shows "(d', t) = (d, s) \<or> handle_register sys aw x (d, s) = Inr (d', t)"
  using assms by (auto simp: agent_step_def agent_handle_def split: if_splits)

lemma is_register_cases: "is_register e \<Longrightarrow> (\<And>x. e = Ae_message (Ga_RegisterHotKey x) \<Longrightarrow> P) \<Longrightarrow> P"
  by (cases e rule: is_register.cases) auto

lemma agent_step_channels:
  assumes "agent_step sys (aw, e) (d, s) = Inr (d', t)" and "agent_ok sys (d, s)"
  shows "length (hk_channels t) \<le> length (hk_channels s) + (if is_register e then 1 else 0)"
proof (cases "is_register e")
  case False
  with hotkey_frame_step [OF assms(1)] assms(2) show ?thesis by (simp add: agent_ok_def hotkey_frame_def)
next
  case True
  then obtain x where e: "e = Ae_message (Ga_RegisterHotKey x)" by (rule is_register_cases)
  from register_step [OF assms(1) [unfolded e]] show ?thesis
    using handle_register_inv [of s sys aw x d d' t] assms(2) True by (auto simp: agent_ok_def)
qed

text \<open>What the run's messages and environment must be like for the agent to go on.\<close>

definition events_ok :: "(Agent_world \<times> 'os Agent_event) list \<Rightarrow> bool" where
  "events_ok es \<longleftrightarrow> (\<forall>we\<in>set es. world_ok (fst we) \<and> (\<forall>msg. snd we = Ae_message msg \<longrightarrow> acceptable msg))"

lemma agent_exec_no_panic:
  assumes "system_ok sys" and "agent_ok sys ds" and "events_ok es"
    and "length (hk_channels (snd ds)) + registrations es \<le> atom_count"
  shows "case agent_exec sys es ds of Inl p \<Rightarrow> p = Never_returns | Inr ds' \<Rightarrow> agent_ok sys ds'"
  using assms(2-)
proof (induction es arbitrary: ds)
  case Nil
  then show ?case by (simp add: agent_exec_def)
next
  case (Cons we es)
  obtain aw e where we: "we = (aw, e)" by (cases we)
  from Cons.prems(2) we have ok: "world_ok aw" "\<And>msg. e = Ae_message msg \<Longrightarrow> acceptable msg" "events_ok es"
    by (auto simp: events_ok_def)
  have room: "length (hk_channels (snd ds)) < atom_count" if "e = Ae_message (Ga_RegisterHotKey x)" for x
    using Cons.prems(3) that we by simp
  have np: "no_panic (agent_step sys (aw, e) ds)"
    using assms(1) ok(1) Cons.prems(1) ok(2) room by (rule agent_step_no_panic)
  show ?case
  proof (cases "agent_step sys (aw, e) ds")
    case (Inl p)
    with np we show ?thesis by (simp add: agent_exec_def)
  next
    case (Inr ds')
    have conn: "aw_connected aw" using ok(1) by (simp add: world_ok_def)
    from agent_step_ok [OF Cons.prems(1) conn Inr] have ok': "agent_ok sys ds'" .
    have "length (hk_channels (snd ds')) \<le> length (hk_channels (snd ds)) + (if is_register e then 1 else 0)"
      using agent_step_channels [of sys aw e "fst ds" "snd ds" "fst ds'" "snd ds'"] Inr Cons.prems(1) by simp
    with Cons.prems(3) we have "length (hk_channels (snd ds')) + registrations es \<le> atom_count"
      by (simp split: if_splits)
    from Cons.IH [OF ok' ok(3) this] Inr we show ?thesis by (simp add: agent_exec_def)
  qed
qed

subsection \<open>Bindings last\<close>

definition hotkey_extends :: "'os Agent \<Rightarrow> 'os Agent \<Rightarrow> bool" where
  "hotkey_extends s t \<longleftrightarrow>
     hk_queues s \<subseteq>\<^sub>m hk_queues t \<and> (\<exists>fs. ag_forwarders t = ag_forwarders s @ fs)"

lemma hotkey_extends_refl [simp]: "hotkey_extends s s"
  by (simp add: hotkey_extends_def)

lemma hotkey_extends_trans: "hotkey_extends s t \<Longrightarrow> hotkey_extends t u \<Longrightarrow> hotkey_extends s u"
  unfolding hotkey_extends_def by (auto intro: map_le_trans)

lemma register_extends:
  assumes "handle_register sys aw x (d, s) = Inr (d', t)" and "agent_inv s"
  shows "hotkey_extends s t"
proof -
  from assms(1) have free: "hk_queues s (ha_atom (as_hotkeys sys) (hk_calls s)) = None"
    by (auto simp: handle_register_def register_hotkey_queue_def Let_def split: if_splits)
  from handle_register_inv [OF assms(2,1)] free show ?thesis
    by (auto simp: hotkey_extends_def map_le_def)
qed

lemma agent_step_extends:
  assumes "agent_step sys (aw, e) (d, s) = Inr (d', t)" and "agent_ok sys (d, s)"
  shows "hotkey_extends s t"
proof (cases "is_register e")
  case False
  with hotkey_frame_step [OF assms(1)] assms(2) show ?thesis
    by (simp add: agent_ok_def hotkey_frame_def hotkey_extends_def)
next
  case True
  then obtain x where e: "e = Ae_message (Ga_RegisterHotKey x)" by (rule is_register_cases)
  from register_step [OF assms(1) [unfolded e]] show ?thesis
    using register_extends assms(2) by (auto simp: agent_ok_def)
qed

lemma agent_exec_extends:
  assumes "agent_exec sys es (d, s) = Inr (d', t)" and "agent_ok sys (d, s)" and "\<forall>we\<in>set es. aw_connected (fst we)"
  shows "agent_ok sys (d', t) \<and> hotkey_extends s t"
  using assms
proof (induction es arbitrary: d s)
  case Nil
  then show ?case by (simp add: agent_exec_def)
next
  case (Cons we es)
  obtain aw e where we: "we = (aw, e)" by (cases we)
  from Cons.prems(1) we obtain d1 s1 where 1: "agent_step sys (aw, e) (d, s) = Inr (d1, s1)"
    and 2: "agent_exec sys es (d1, s1) = Inr (d', t)"
    by (auto simp: agent_exec_def and_then_eq_Inr)
  from Cons.prems(3) we have conn: "aw_connected aw" and rest: "\<forall>we\<in>set es. aw_connected (fst we)" by simp_all
  from agent_step_ok [OF Cons.prems(2) conn 1] have ok: "agent_ok sys (d1, s1)" .
  from Cons.IH [OF 2 ok rest] agent_step_extends [OF 1 Cons.prems(2)] show ?case
    by (blast intro: hotkey_extends_trans)
qed

subsection \<open>A press\<close>

text \<open>The message of a hotkey adds to the channel of its binding and changes no other part of the agent.\<close>

definition hotkey_message :: "HWND \<Rightarrow> u16 \<Rightarrow> MSG" where
  "hotkey_message w i = \<lparr>msg_hwnd = w, msg_message = WM_HOTKEY, msg_wparam = ucast i, msg_lparam = 0\<rparr>"

lemma hotkey_message_fields [simp]:
  "msg_message (hotkey_message w i) = WM_HOTKEY" "ucast (msg_wparam (hotkey_message w i)) = i"
  by (simp_all add: hotkey_message_def ucast_up_ucast_id is_up)

definition pressed :: "nat \<Rightarrow> nat \<Rightarrow> 'os Agent \<Rightarrow> 'os Agent \<Rightarrow> bool" where
  "pressed c n s t \<longleftrightarrow>
     hotkeys_ok t \<and>
     (\<exists>chs. t = s\<lparr>hk_channels := chs\<rparr> \<and> length chs = length (hk_channels s) \<and>
        ch_waiting (hk_channels s ! c) + n \<le> ch_waiting (chs ! c))"

lemma pressed_refl: "hotkeys_ok s \<Longrightarrow> pressed c 0 s s"
  unfolding pressed_def by (auto intro!: exI [of _ "hk_channels s"])

lemma pressed_trans: "pressed c n s t \<Longrightarrow> pressed c k t u \<Longrightarrow> pressed c (n + k) s u"
  by (auto simp: pressed_def)

lemma pressed_once:
  assumes "hotkeys_ok s" and "hk_queues s i = Some c"
  shows "pressed c 1 s (hotkey_pressed ha i s)"
proof -
  from assms have c: "c < length (hk_channels s)" by (auto simp: hotkeys_ok_def)
  have "channel_send c s = s\<lparr>hk_channels := hk_channels (channel_send c s)\<rparr>" by (simp add: channel_send_def Let_def)
  with hotkey_pressed_ok(1) [OF assms, of ha] hotkey_pressed_ok(2) [OF assms] c channel_send_waiting [of c s c]
  show ?thesis
    unfolding pressed_def by (intro conjI exI [of _ "hk_channels (channel_send c s)"]) simp_all
qed

lemma press_listeners:
  assumes "snd ` set ils \<subseteq> agent_listeners sys" and "hotkeys_ok s" and "hk_queues s i = Some c"
  shows "\<exists>rs t. run_listeners (hotkey_message w i) ils s = Inr (rs, t) \<and>
    pressed c (if hotkey_listener (as_hotkeys sys) \<in> snd ` set ils then 1 else 0) s t"
  using assms
proof (induction ils arbitrary: s)
  case Nil
  then show ?case by (simp add: pressed_refl)
next
  case (Cons kl ils)
  obtain k l where kl: "kl = (k, l)" by (cases kl)
  let ?m = "hotkey_message w i" and ?h = "hotkey_listener (as_hotkeys sys)"
  have l: "l = clip_listener (agent_clip (as_clip sys)) (as_images sys) no_owners" if "l \<noteq> ?h"
    using Cons.prems(1) kl that by (auto simp: agent_listeners_def)
  obtain r u n where u: "l ?m s = Inr (r, u)" "pressed c n s u" "l = ?h \<Longrightarrow> n = 1"
  proof (cases "l = ?h")
    case True
    with pressed_once [OF Cons.prems(2,3)] that show ?thesis by (auto simp: hotkey_listener_def)
  next
    case False
    from l [OF this] have "l ?m s = Inr (Inr None, s)" by (simp add: clip_listener_def WM_defs)
    with False pressed_refl [OF Cons.prems(2), of c] that show ?thesis by blast
  qed
  from u(2) Cons.prems(3) have "hotkeys_ok u" "hk_queues u i = Some c" by (auto simp: pressed_def)
  with Cons.IH [of u] Cons.prems(1) obtain rs t where t: "run_listeners ?m ils u = Inr (rs, t)"
    "pressed c (if ?h \<in> snd ` set ils then 1 else 0) u t" by auto
  from pressed_trans [OF u(2) t(2)] have more: "pressed c (n + (if ?h \<in> snd ` set ils then 1 else 0)) s t" .
  have "pressed c (if ?h \<in> snd ` set (kl # ils) then 1 else 0) s t"
    using more u(3) kl unfolding pressed_def by (auto split: if_splits)
  with t(1) u(1) kl show ?case by simp
qed

lemma snd_set_enumerate: "snd ` set (rev (enumerate k xs)) = set xs"
  by (simp add: enumerate_eq_zip) (metis length_upt add_diff_cancel_left' map_snd_zip set_map)

lemma press_message:
  assumes "agent_ok sys (d, s)" and "hk_queues s i = Some c" and "hotkey_listener (as_hotkeys sys) \<in> set (wd_listeners d)"
  obtains d' t os where "loop_message sys (hotkey_message w i) (d, s) = Inr (d', t\<lparr>ag_os := os\<rparr>)" and "pressed c 1 s t"
proof -
  let ?m = "hotkey_message w i"
  from assms(1) have ok: "hotkeys_ok s" and sub: "snd ` set (rev (enumerate 0 (wd_listeners d))) \<subseteq> agent_listeners sys"
    by (simp_all add: agent_ok_def agent_data_def agent_inv_def forwarders_ok_def snd_set_enumerate del: set_rev)
  from press_listeners [OF sub ok assms(2), of w] assms(3) obtain rs t
    where t: "run_listeners ?m (rev (enumerate 0 (wd_listeners d))) s = Inr (rs, t)" "pressed c 1 s t"
    by (auto simp: snd_set_enumerate simp del: set_rev)
  obtain result ls where res: "collect_results rs (None, wd_listeners d) = (result, ls)" by fastforce
  have "\<exists>d' os. loop_message sys ?m (d, s) = Inr (d', t\<lparr>ag_os := os\<rparr>)"
  proof (cases result)
    case None
    obtain r os where "wa_def_proc (as_win sys) ?m (ag_os t) = (r, os)" by fastforce
    with None t(1) res show ?thesis
      by (auto simp: loop_message_def handle_wm_def wm_sent_def wm_listeners_def WM_defs on_os_def agent_win_def)
  next
    case (Some r)
    with t(1) res have "loop_message sys ?m (d, s) = Inr (d\<lparr>wd_listeners := ls\<rparr>, t\<lparr>ag_os := ag_os t\<rparr>)"
      by (simp add: loop_message_def handle_wm_def wm_sent_def wm_listeners_def WM_defs)
    then show ?thesis by blast
  qed
  with t(2) that show ?thesis by blast
qed

text \<open>The forwarding task then tells the driver.\<close>

lemma forward_pressed:
  assumes "hotkeys_ok s" and "c < length (hk_channels s)" and "0 < ch_waiting (hk_channels s ! c)" and "aw_connected aw"
  shows "ag_sent (forward_press aw (c, n) s) = ag_sent s @ [Ga_HotKey n]"
proof -
  from assms(1,2) have "ch_open (hk_channels s ! c)" by (auto simp: hotkeys_ok_def)
  with assms(2-4) show ?thesis by (simp add: forward_press_connected take_press_def Let_def)
qed

end
