(* ===== verification/Guest_Pastes.thy ===== *)
theory Guest_Pastes
  imports Guest_Hotkeys
begin

text \<open>
  Pasting what the host has copied: Windows asks for promised data, a task of the guest agent requests
  it from the driver, and the driver's next clipboard contents are its answer. Only the order tells
  which request an answer belongs to.
\<close>

subsection \<open>Requests and answers\<close>

fun request_of :: "GaCmdIn \<Rightarrow> i32 option" where
  "request_of (Ga_ClipboardIn (Some (RequestClipboardContents i))) = Some i"
| "request_of _ = None"

definition requests :: "'os Agent \<Rightarrow> i32 list" where
  "requests s = List.map_filter request_of (ag_sent s)"

fun answer_of :: "'os Agent_event \<Rightarrow> u8 list option" where
  "answer_of (Ae_message (Ga_ClipboardOut (Some (ClipboardContents bs)))) = Some bs"
| "answer_of _ = None"

definition answers :: "(Agent_world \<times> 'os Agent_event) list \<Rightarrow> u8 list list" where
  "answers es = List.map_filter (\<lambda>we. answer_of (snd we)) es"

lemma answers_snoc [simp]:
  "answers [] = []"
  "answers (es @ [we]) = answers es @ (case answer_of (snd we) of None \<Rightarrow> [] | Some bs \<Rightarrow> [bs])"
  by (simp_all add: answers_def map_filter_def split: option.split)

text \<open>What of the agent a paste is about.\<close>

definition paste_part :: "'os Agent \<Rightarrow> GaCmdIn list \<times> nat option \<times> Renderer list option \<times> Delay_task list" where
  "paste_part s = (ag_sent s, ag_outstanding s, ag_rendering s, ag_tasks s)"

interpretation pastes: loop_part paste_part
  by unfold_locales (simp_all add: paste_part_def hotkey_pressed_def channel_send_def Let_def)

text \<open>
  At most one task is being asked; \<open>q\<close> is how many answers there were and \<open>a\<close> the last of them.
  The outstanding request is the last one sent, and what the task was given is the last answer.
\<close>

definition phase_fits :: "u8 list list \<Rightarrow> i32 list \<Rightarrow> Delay_task \<Rightarrow> bool" where
  "phase_fits ans req t \<longleftrightarrow>
     (case dt_phase t of
        Ph_requested \<Rightarrow> req \<noteq> [] \<and> last req = ClipboardType_as_i32 (dt_type t)
      | Ph_answered bs \<Rightarrow> req \<noteq> [] \<and> last req = ClipboardType_as_i32 (dt_type t) \<and> ans \<noteq> [] \<and> bs = last ans
      | Ph_done bs \<Rightarrow> req \<noteq> [] \<and> last req = ClipboardType_as_i32 (dt_type t) \<and> ans \<noteq> [] \<and> bs = last ans
      | _ \<Rightarrow> True)"

definition paste_ok :: "u8 list list \<Rightarrow> 'os Agent \<Rightarrow> bool" where
  "paste_ok ans s \<longleftrightarrow>
     length (requests s) = length ans + (if ag_outstanding s = None then 0 else 1) \<and>
     (\<forall>rs. ag_rendering s = Some rs \<longrightarrow>
        (\<exists>r. rs = [r] \<and> phase_fits ans (requests s) (ag_tasks s ! renderer_task r)))"

lemma paste_ok_part: "paste_ok ans s \<Longrightarrow> paste_part t = paste_part s \<Longrightarrow> paste_ok ans t"
  by (simp add: paste_ok_def paste_part_def requests_def)

lemma paste_ok_sent:
  assumes "request_of cmd = None"
  shows "paste_ok ans (s\<lparr>ag_sent := ag_sent s @ [cmd]\<rparr>) = paste_ok ans s"
proof -
  have "requests (s\<lparr>ag_sent := ag_sent s @ [cmd]\<rparr>) = requests s"
    using assms by (simp add: requests_def map_filter_def)
  then show ?thesis by (simp add: paste_ok_def)
qed

lemma paste_ok_idle:
  "ag_rendering s = None \<Longrightarrow>
    paste_ok ans s = (length (requests s) = length ans + (if ag_outstanding s = None then 0 else 1))"
  by (simp add: paste_ok_def)

subsection \<open>Steps\<close>

lemma paste_awaited:
  assumes "agent_inv s" and "n < length (ag_tasks s)" and "phase_active (dt_phase (ag_tasks s ! n))" and "paste_ok ans s"
  obtains r where "ag_rendering s = Some [r]" and "n = renderer_task r"
proof -
  from assms(1-3) have "n \<in> awaited s" by (simp add: agent_inv_def rendering_ok_def)
  with assms(4) that show ?thesis by (auto simp: awaited_def paste_ok_def split: option.splits)
qed

lemma paste_task_turn:
  assumes inv: "agent_inv s" and ok: "paste_ok ans s" and conn: "aw_connected aw"
  shows "paste_ok ans (task_turn aw n s)"
proof (cases "n < length (ag_tasks s) \<and> phase_active (dt_phase (ag_tasks s ! n))")
  case False
  then show ?thesis using ok by (auto simp: task_turn_def Let_def split: Task_phase.split)
next
  case True
  then obtain r where r: "ag_rendering s = Some [r]" "n = renderer_task r"
    using paste_awaited [OF inv _ _ ok] by blast
  from ok r have fits: "phase_fits ans (requests s) (ag_tasks s ! n)"
    and len: "length (requests s) = length ans + (if ag_outstanding s = None then 0 else 1)"
    by (auto simp: paste_ok_def)
  have phase: "paste_ok ans (set_phase n p s)"
    if "phase_fits ans (requests s) ((ag_tasks s ! n)\<lparr>dt_phase := p\<rparr>)" for p
    using that r len True by (simp add: paste_ok_def set_phase_def requests_def)
  show ?thesis
  proof (cases "dt_phase (ag_tasks s ! n)")
    case Ph_passed
    have none: "ag_outstanding s = None"
    proof (rule ccontr)
      assume "ag_outstanding s \<noteq> None"
      then obtain k where k: "ag_outstanding s = Some k" by blast
      from agent_inv_outstanding [OF inv k] r have "k = n" "dt_phase (ag_tasks s ! k) = Ph_requested"
        by (auto simp: awaited_def)
      with Ph_passed show False by simp
    qed
    let ?cmd = "clipboard_to_in (RequestClipboardContents (ClipboardType_as_i32 (dt_type (ag_tasks s ! n))))"
    let ?t = "(set_phase n Ph_requested (s\<lparr>ag_outstanding := Some n\<rparr>))\<lparr>ag_sent := ag_sent s @ [?cmd]\<rparr>"
    have "task_turn aw n s = ?t"
      using True Ph_passed none conn
      by (simp add: task_turn_def drop_outstanding_def agent_send_def Let_def set_phase_def)
    moreover have "requests ?t = requests s @ [ClipboardType_as_i32 (dt_type (ag_tasks s ! n))]"
      by (simp add: requests_def map_filter_def clipboard_to_in_def)
    ultimately show ?thesis
      using r len none True by (simp add: paste_ok_def phase_fits_def set_phase_def)
  qed (use True fits phase ok in \<open>auto simp: task_turn_def phase_fits_def\<close>)
qed

lemma paste_contents:
  assumes inv: "agent_inv s" and ok: "paste_ok ans s" and more: "length ans < length (requests s)"
    and t: "handle_contents bs s = Inr t"
  shows "paste_ok (ans @ [bs]) t"
proof -
  from ok more obtain n where n: "ag_outstanding s = Some n"
    and len: "length (requests s) = length ans + 1" by (auto simp: paste_ok_def split: if_splits)
  note o = agent_inv_outstanding [OF inv n]
  from o(1,2) ok obtain r where r: "ag_rendering s = Some [r]" "n = renderer_task r"
    using paste_awaited [OF inv o(1) _ ok] by auto
  with ok o(2) have "requests s \<noteq> []" "last (requests s) = ClipboardType_as_i32 (dt_type (ag_tasks s ! n))"
    by (auto simp: paste_ok_def phase_fits_def)
  moreover from t n o(2) have "t = set_phase n (Ph_answered bs) (s\<lparr>ag_outstanding := None\<rparr>)"
    by (simp add: handle_contents_def)
  ultimately show ?thesis
    using r len o(1) by (simp add: paste_ok_def phase_fits_def set_phase_def requests_def)
qed

lemma paste_grab:
  assumes inv: "agent_inv s" and ok: "paste_ok ans s" and ready: "ag_rendering s = None \<or> \<not> rendering_done s"
    and t: "handle_grab sys types s = Inr t"
  shows "paste_ok ans t"
proof -
  from t obtain rs u r v where u: "spawn_renderers (ClipboardTypes_iter types) s = Inr (rs, u)"
    and dn: "rendering_done u"
    and v: "clipboard_send (agent_clip (as_clip sys)) (as_images sys) (as_window sys) (map Delay_rendered rs) u = Inr (r, v)"
    and r: "(case r of Inl _ \<Rightarrow> Inl Unwrap_failed | Inr _ \<Rightarrow> Inr v) = Inr t"
    by (auto simp: handle_grab_def res_simps split: if_splits)
  from spawn_renderers_tasks [OF u] obtain ts where ts: "u = s\<lparr>ag_tasks := ag_tasks s @ ts\<rparr>" by blast
  have none: "ag_rendering s = None"
  proof (rule ccontr)
    assume n: "ag_rendering s \<noteq> None"
    with inv have old: "\<forall>r\<in>set (the (ag_rendering s)). renderer_task r < length (ag_tasks s)"
      by (auto simp: agent_inv_def rendering_ok_def intro: renderer_ok_task)
    with dn ts n have "rendering_done s"
      by (auto simp: rendering_done_def task_done_def nth_append)
    with n ready show False by simp
  qed
  from r v have "clipboard_send (agent_clip (as_clip sys)) (as_images sys) (as_window sys) (map Delay_rendered rs) u = Inr (Inr (), t)"
    by (cases r) simp_all
  from clipboard_send_renderers [OF this] ts ok none show ?thesis
    by (auto simp: os_only_def paste_ok_def requests_def)
qed

lemma paste_request:
  assumes "paste_ok ans s" and "handle_request sys aw i s = Inr t"
  shows "paste_ok ans t"
proof -
  from assms(2) obtain data u where u: "os_only s u"
    and t: "agent_send aw (clipboard_to_in (ClipboardContents data)) u = Inr t"
    by (auto simp: handle_request_def res_simps split: option.splits dest!: os_only_offer_data)
      (blast intro: os_only_refl)+
  from paste_ok_part [OF assms(1) pastes.part_os_only [OF u]] have "paste_ok ans u" .
  with t show ?thesis by (auto simp: agent_send_def paste_ok_sent clipboard_to_in_def split: if_splits)
qed

lemma paste_send:
  "paste_ok ans s \<Longrightarrow> agent_send aw cmd s = Inr t \<Longrightarrow> request_of cmd = None \<Longrightarrow> paste_ok ans t"
  by (auto simp: agent_send_def paste_ok_sent split: if_splits)

lemma paste_register:
  assumes "handle_register sys aw x (d, s) = Inr (d', t)"
  shows "paste_part t = paste_part s"
  using assms by (auto simp: handle_register_def register_hotkey_queue_def send_callback_queue_def wake_loop_def
      agent_win_def on_os_def Let_def paste_part_def split: if_splits prod.splits)

lemma paste_watch:
  assumes "paste_ok ans s" and "watch_clipboard sys aw s = Inr t"
  shows "paste_ok ans t"
proof -
  have seen: "paste_ok ans (s\<lparr>ag_seen := k\<rparr>)" for k
    by (rule paste_ok_part [OF assms(1)]) (simp add: paste_part_def)
  from assms show ?thesis
    by (auto simp: watch_clipboard_def Let_def seen clipboard_to_in_def split: if_splits option.splits
        elim!: paste_send [OF seen])
qed

lemma paste_forward:
  assumes "paste_ok ans s"
  shows "paste_ok ans (forward_press aw f s)"
proof (cases "take_press (fst f) s")
  case None
  with assms show ?thesis by (simp add: forward_press_def)
next
  case (Some t)
  then have "paste_part t = paste_part s" by (auto simp: take_press_def Let_def paste_part_def split: if_splits)
  with assms have t: "paste_ok ans t" by (rule paste_ok_part)
  have "paste_ok ans (drop_receiver c t)" for c
    by (rule paste_ok_part [OF t]) (simp add: drop_receiver_def paste_part_def)
  with t Some show ?thesis by (simp add: forward_press_def paste_ok_sent agent_send_def)
qed

lemma paste_finish:
  assumes "paste_ok ans s" and "finish_render sys s = Inr t"
  shows "paste_ok ans t"
proof (cases "ag_rendering s")
  case (Some rs)
  with assms(2) obtain u where u: "os_only (s\<lparr>ag_rendering := None\<rparr>) u"
    and t: "(if ag_opened u then clip_close (agent_clip (as_clip sys)) (u\<lparr>ag_opened := False\<rparr>) else Inr u) = Inr t"
    by (auto simp: finish_render_def Let_def res_simps dest: os_only_for_each_arrived)
  have "paste_ok ans (s\<lparr>ag_rendering := None\<rparr>)" using assms(1) by (simp add: paste_ok_def requests_def)
  from paste_ok_part [OF this pastes.part_os_only [OF u]] have ok: "paste_ok ans u" .
  have "paste_part t = paste_part u"
    using t pastes.part_os_only [OF os_only_close] by (fastforce simp: paste_part_def split: if_splits)
  with ok show ?thesis by (rule paste_ok_part)
qed (use assms in \<open>simp add: finish_render_def\<close>)

lemma paste_begin:
  assumes inv: "agent_inv s" and none: "ag_rendering s = None" and ok: "paste_ok ans s"
  shows "paste_ok ans (begin_render_format f s)"
proof (cases "map_of (cb_renderers s) f")
  case None
  show ?thesis
    by (rule paste_ok_part [OF ok]) (simp add: begin_render_format_def take_renderer_def paste_part_def None)
next
  case (Some r)
  then have "(f, r) \<in> set (cb_renderers s)" by (rule map_of_SomeD)
  with inv have "renderer_task r < length (ag_tasks s)"
    by (force simp: agent_inv_def promised_ok_def intro: renderer_ok_task)
  with Some ok none show ?thesis
    by (simp add: begin_render_format_def take_renderer_def ask_task_def set_phase_def paste_ok_def requests_def
        phase_fits_def)
qed

subsection \<open>Runs\<close>

text \<open>
  No program leaves with promised data behind, and contents come as answers only: not before as many
  requests have been sent.
\<close>

definition renders_all :: "'os Agent_event \<Rightarrow> bool" where
  "renders_all e \<longleftrightarrow> (case e of Ae_window m \<Rightarrow> msg_message m = WM_RENDERALLFORMATS | _ \<Rightarrow> False)"

lemma paste_loop:
  assumes "agent_ok sys (d, s)" and "ag_rendering s = None" and "paste_ok ans s" and "\<not> renders_all (Ae_window m)"
    and "loop_message sys m (d, s) = Inr (d', t)"
  shows "paste_ok ans t"
proof (cases "msg_message m = WM_RENDERFORMAT")
  case True
  with assms paste_begin show ?thesis by (auto simp: loop_message_def agent_ok_def)
next
  case False
  with assms(1,4,5) have "paste_part t = paste_part s"
    by (intro pastes.part_loop) (auto simp: agent_ok_def renders_all_def)
  with assms(3) show ?thesis by (rule paste_ok_part)
qed

lemma paste_handle:
  assumes ok: "agent_ok sys (d, s)" and paste: "paste_ok ans s" and ready: "agent_ready msg (d, s)"
    and more: "answer_of (Ae_message msg :: 'os Agent_event) \<noteq> None \<longrightarrow> length ans < length (requests s)"
    and t: "agent_handle sys aw msg (d, s :: 'os Agent) = Inr (d', t)"
  shows "paste_ok (ans @ (case answer_of (Ae_message msg :: 'os Agent_event) of None \<Rightarrow> [] | Some bs \<Rightarrow> [bs])) t"
proof -
  from ok have inv: "agent_inv s" by (simp add: agent_ok_def)
  have acts: "paste_ok ans (s\<lparr>ag_actions := as\<rparr>)" "paste_ok ans (s\<lparr>ag_has_output := b, ag_actions := as\<rparr>)" for as b
    by (rule paste_ok_part [OF paste], simp add: paste_part_def)+
  show ?thesis
  proof (cases msg)
    case (Ga_ClipboardOut m)
    show ?thesis
    proof (cases m)
      case None
      with Ga_ClipboardOut t show ?thesis by (simp add: agent_handle_def)
    next
      case (Some c)
      show ?thesis
      proof (cases c)
        case (GrabClipboard types)
        with Ga_ClipboardOut Some t ready paste_grab [OF inv paste] show ?thesis
          by (auto simp: agent_handle_def agent_ready_def res_simps)
      next
        case (RequestClipboardContents i)
        with Ga_ClipboardOut Some t paste_request [OF paste] show ?thesis by (auto simp: agent_handle_def res_simps)
      next
        case (ClipboardContents bs)
        with Ga_ClipboardOut Some t more paste_contents [OF inv paste] show ?thesis
          by (auto simp: agent_handle_def res_simps)
      qed
    qed
  next
    case (Ga_RegisterHotKey x)
    with t have "paste_part t = paste_part s" by (intro paste_register) (simp add: agent_handle_def)
    from paste_ok_part [OF paste this] Ga_RegisterHotKey show ?thesis by simp
  qed (use t paste acts in \<open>auto simp: agent_handle_def agent_act_def handle_console_def res_simps
      intro: paste_send split: if_splits\<close>)
qed

definition answers_follow :: "('i, 'os) Agent_system \<Rightarrow> (Agent_world \<times> 'os Agent_event) list \<Rightarrow> 'os Agent_state \<Rightarrow> bool" where
  "answers_follow sys es ds \<longleftrightarrow>
     (\<forall>k<length es. answer_of (snd (es ! k)) \<noteq> None \<longrightarrow>
        (case agent_exec sys (take k es) ds of
           Inl p \<Rightarrow> True
         | Inr ds' \<Rightarrow> length (answers (take k es)) < length (requests (snd ds'))))"

lemma answers_follow_snoc:
  assumes "answers_follow sys (es @ [we]) ds"
  shows "answers_follow sys es ds"
    and "answer_of (snd we) \<noteq> None \<Longrightarrow> agent_exec sys es ds = Inr (d, s) \<Longrightarrow> length (answers es) < length (requests s)"
proof -
  show "answers_follow sys es ds"
    unfolding answers_follow_def
  proof (intro allI impI)
    fix k assume k: "k < length es" "answer_of (snd (es ! k)) \<noteq> None"
    then have same: "take k (es @ [we]) = take k es" "(es @ [we]) ! k = es ! k" and "k < length (es @ [we])"
      by (simp_all add: nth_append)
    from assms [unfolded answers_follow_def, THEN spec, of k, unfolded same] this(3) k(2)
    show "case agent_exec sys (take k es) ds of Inl p \<Rightarrow> True
      | Inr ds' \<Rightarrow> length (answers (take k es)) < length (requests (snd ds'))" by blast
  qed
  show "answer_of (snd we) \<noteq> None \<Longrightarrow> agent_exec sys es ds = Inr (d, s) \<Longrightarrow> length (answers es) < length (requests s)"
    using assms [unfolded answers_follow_def, THEN spec, of "length es"] by simp
qed

lemma paste_step:
  assumes ok: "agent_ok sys (d, s)" and paste: "paste_ok ans s" and conn: "aw_connected aw" and all: "\<not> renders_all e"
    and more: "answer_of e \<noteq> None \<Longrightarrow> length ans < length (requests s)"
    and t: "agent_step sys (aw, e) (d, s) = Inr (d', t)"
  shows "paste_ok (ans @ (case answer_of e of None \<Rightarrow> [] | Some bs \<Rightarrow> [bs])) t"
proof (cases e)
  case (Ae_message msg)
  show ?thesis
  proof (cases "agent_ready msg (d, s)")
    case True
    with Ae_message t more show ?thesis by (auto simp: agent_step_def intro: paste_handle [OF ok paste])
  next
    case False
    with Ae_message t have "t = s" "answer_of e = None"
      by (auto simp: agent_step_def agent_ready_def split: GaCmdOut.splits option.splits ClipboardMessage.splits)
    with paste show ?thesis by simp
  qed
next
  case (Ae_window m)
  with t all paste paste_loop [OF ok _ paste, of m d' t] show ?thesis
    by (auto simp: agent_step_def split: if_splits)
next
  case (Ae_windows os)
  have "paste_ok ans (s\<lparr>ag_os := os\<rparr>)" by (rule paste_ok_part [OF paste]) (simp add: paste_part_def)
  with Ae_windows t show ?thesis by (auto simp: agent_step_def)
qed (use ok t paste conn in \<open>auto simp: agent_step_def agent_ok_def res_simps paste_task_turn paste_forward
    dest: paste_watch paste_finish split: if_splits\<close>)

lemma paste_run:
  assumes "agent_exec sys es (agent_start sys b os offer) = Inr (d, s)" and "\<forall>we\<in>set es. aw_connected (fst we)"
    and "\<forall>we\<in>set es. \<not> renders_all (snd we)" and "answers_follow sys es (agent_start sys b os offer)"
  shows "agent_ok sys (d, s) \<and> paste_ok (answers es) s"
  using assms
proof (induction es arbitrary: d s rule: rev_induct)
  case Nil
  then have "agent_start sys b os offer = (d, s)" by (simp add: agent_exec_def)
  with agent_start_ok [of sys b os offer] show ?case
    by (auto simp: agent_start_def paste_ok_def requests_def map_filter_def)
next
  case (snoc we es)
  obtain aw e where we: "we = (aw, e)" by (cases we)
  from snoc.prems(1) we obtain d1 s1 where 1: "agent_exec sys es (agent_start sys b os offer) = Inr (d1, s1)"
    and 2: "agent_step sys (aw, e) (d1, s1) = Inr (d, s)"
    by (auto simp: agent_exec_def for_each_res_append and_then_eq_Inr)
  from snoc.prems(2,3) we have conn: "aw_connected aw" "\<not> renders_all e" by auto
  have IH: "agent_ok sys (d1, s1)" "paste_ok (answers es) s1"
    using snoc.IH [OF 1] snoc.prems(2,3) answers_follow_snoc(1) [OF snoc.prems(4)] by auto
  have more: "answer_of e \<noteq> None \<Longrightarrow> length (answers es) < length (requests s1)"
    using answers_follow_snoc(2) [OF snoc.prems(4) _ 1] we by simp
  from agent_step_ok [OF IH(1) conn(1) 2] paste_step [OF IH conn more 2] we show ?case by simp
qed

end
