(* ===== verification/Controller_Effects.thy ===== *)
theory Controller_Effects
  imports Controller_Frames Controller_Safety
begin

text \<open>
  Which effects the calls of the controller have: only \<^verbatim>\<open>suspend\<close>, \<^verbatim>\<open>qemu_suspended\<close> and the two
  backup calls make, complete or hand over a one-shot channel. So only \<^verbatim>\<open>qemu_suspended\<close> tells
  waiting callers, and the channels of all snapshot commands ever sent are different.
\<close>

subsection \<open>Plain effects\<close>

text \<open>The one-shot channel a command carries.\<close>

fun command_ack :: "QmpCommand \<Rightarrow> nat option" where
  "command_ack (TakeSnapshot i f a) = Some a"
| "command_ack (CommitSnapshot i f a) = Some a"
| "command_ack _ = None"

fun effect_ack :: "Effect \<Rightarrow> nat option" where
  "effect_ack (To_monitor cmd) = command_ack cmd"
| "effect_ack _ = None"

fun plain_effect :: "Effect \<Rightarrow> bool" where
  "plain_effect (To_monitor cmd) = (command_ack cmd = None)"
| "plain_effect (Suspend_waits t) = False"
| "plain_effect (Suspend_done t) = False"
| "plain_effect (Wait_for_acks acks a) = False"
| "plain_effect _ = True"

definition ack_numbers :: "Effect list \<Rightarrow> nat list" where
  "ack_numbers tr = List.map_filter effect_ack tr"

lemma ack_numbers_simps [simp]:
  "ack_numbers [] = []"
  "ack_numbers (e # es) = (case effect_ack e of None \<Rightarrow> ack_numbers es | Some a \<Rightarrow> a # ack_numbers es)"
  by (simp_all add: ack_numbers_def map_filter_def split: option.split)

lemma ack_numbers_append [simp]: "ack_numbers (tr @ es) = ack_numbers tr @ ack_numbers es"
  by (induction tr) (simp_all split: option.split)

lemma set_ack_numbers: "a \<in> set (ack_numbers tr) \<longleftrightarrow> (\<exists>e\<in>set tr. effect_ack e = Some a)"
  by (induction tr) (auto split: option.split)

lemma plain_effects:
  "list_all plain_effect es \<Longrightarrow> ack_numbers es = [] \<and> suspend_resolved es = []"
proof (induction es)
  case (Cons e es)
  then show ?case by (cases e) (simp_all)
qed simp

text \<open>
  Most of what the controller does is quiet: it neither makes nor completes a channel, and tells the
  guest agent nothing about the clipboard.
\<close>

fun quiet_effect :: "Effect \<Rightarrow> bool" where
  "quiet_effect (To_ga cmd) = (case cmd of Ga_ClipboardOut m \<Rightarrow> False | _ \<Rightarrow> True)"
| "quiet_effect e = plain_effect e"

lemma hotplug_add_ack: "hotplug_add u e = Some cmd \<Longrightarrow> command_ack cmd = None"
  by (auto simp: hotplug_add_def split: option.splits prod.splits sum.splits)

lemma quiet_effect_li: "only_li_effects es \<Longrightarrow> list_all quiet_effect es"
  unfolding only_li_effects_def list_all_iff by force

subsection \<open>Calls with effects of one kind\<close>

text \<open>A call moves the controller by effects of one kind and makes no channel.\<close>

definition effect_move :: "(Effect \<Rightarrow> bool) \<Rightarrow> Controller \<Rightarrow> Controller \<Rightarrow> bool" where
  "effect_move ok c c' \<longleftrightarrow>
     c_next c' = c_next c \<and> (\<exists>es. c_trace c' = c_trace c @ es \<and> list_all ok es)"

text \<open>The calls with quiet effects only.\<close>

definition quiet_call :: "Ctl_call \<Rightarrow> bool" where
  "quiet_call e \<longleftrightarrow>
     (case e of
        Call_suspend \<Rightarrow> False | Call_qemu_suspended \<Rightarrow> False
      | Call_enter_backup_mode a \<Rightarrow> False | Call_leave_backup_mode a \<Rightarrow> False
      | Call_grab_win_clipboard ts \<Rightarrow> False | Call_read_win_clipboard ev \<Rightarrow> False
      | Call_respond_win_clipboard b \<Rightarrow> False | _ \<Rightarrow> True)"

text \<open>A kind of effects that all quiet ones are of.\<close>

locale effect_class =
  fixes ok :: "Effect \<Rightarrow> bool"
  assumes quiet_ok: "quiet_effect e \<Longrightarrow> ok e"
begin

lemma ok_simps [simp]:
  "ok (To_x11_response r)" "ok (To_x11_grabber ts)" "ok (To_x11_reader t)" "ok (Shell cmd)"
  "ok (Notify_systemd b x)" "ok (Li_add h)" "ok (Li_accel h n)" "ok (Li_remove h)" "ok (To_control k out)"
  "ok (To_ga Ga_Ping)" "ok (To_ga Ga_ReleaseModifiers)" "ok (To_ga Ga_Suspend)" "ok (To_ga (Ga_RegisterHotKey hk))"
  "ok (To_ga (Ga_SetMousePosition pt))" "ok (To_ga Ga_Shutdown)" "ok (To_ga (Ga_EnableDebugConsole l))"
  by (simp_all add: quiet_ok)

lemma ok_monitor [simp]: "command_ack cmd = None \<Longrightarrow> ok (To_monitor cmd)"
  by (simp add: quiet_ok)

lemma ok_lists [simp]:
  "list_all ok (hook_effects w h)"
  "list_all ok (entry_effects w c)"
  "list_all ok (hello_effects w c)"
  "list_all ok (map Li_remove hs)"
  "list_all ok (map (\<lambda>i. To_monitor (DeviceDel i)) is)"
  by (auto simp: hook_effects_def entry_effects_def hello_effects_def list_all_iff split: option.splits)

lemma ok_adds [simp]: "list_all ok (map To_monitor (hotplug_adds u ds))"
  by (auto simp: list_all_iff hotplug_adds_def map_filter_def hotplug_add_ack)

lemma ok_li: "only_li_effects es \<Longrightarrow> list_all ok es"
  by (drule quiet_effect_li) (auto simp: list_all_iff quiet_ok)

lemma move_refl [simp]: "effect_move ok c c"
  by (simp add: effect_move_def)

lemma move_trans: "effect_move ok c d \<Longrightarrow> effect_move ok d e \<Longrightarrow> effect_move ok c e"
  by (auto simp: effect_move_def list_all_append)

lemma move_emit [simp]:
  "c_trace d = c_trace c \<Longrightarrow> c_next d = c_next c \<Longrightarrow> effect_move ok c (emit es d) \<longleftrightarrow> list_all ok es"
  by (simp add: effect_move_def)

lemma move_updates [simp]:
  "effect_move ok c (d\<lparr>c_ga := g\<rparr>) \<longleftrightarrow> effect_move ok c d"
  "effect_move ok c (d\<lparr>c_io_state := io\<rparr>) \<longleftrightarrow> effect_move ok c d"
  "effect_move ok (c\<lparr>c_ga := g\<rparr>) d \<longleftrightarrow> effect_move ok c d"
  by (simp_all add: effect_move_def)

lemma move_force_attach: "io_force_attach w c = Inr c' \<Longrightarrow> effect_move ok c c'"
  by (drule io_force_attach_Inr)
    (auto simp: effect_move_def release_input_def list_all_append split: IoState.splits)

lemma move_detach: "io_detach w c = Inr c' \<Longrightarrow> effect_move ok c c'"
  by (drule io_detach_Inr) (auto simp: effect_move_def release_input_def list_all_append split: IoState.splits)

lemma move_light:
  assumes "light_attach w c = Inr c'"
  shows "effect_move ok c c'"
  using assms
proof (cases rule: light_attach_cases)
  case (entry inp es)
  from input_resume_inv [OF entry(4) refl] ok_li [of es] have "list_all ok es" by auto
  with entry(5) show ?thesis by (simp add: effect_move_def list_all_append)
qed (simp_all add: effect_move_def)

lemma move_attach:
  assumes "io_attach w c = Inr c'"
  shows "effect_move ok c c'"
proof (cases "c_ga c")
  case St_Down
  with assms obtain d where d: "light_attach w c = Inr d" "c' = d\<lparr>c_io_state := Io_AwaitingUpgrade\<rparr>"
    by (auto simp: io_attach_def res_simps)
  from move_light [OF d(1)] d(2) show ?thesis by simp
qed (use assms in \<open>auto simp: io_attach_def res_simps ctl_returns intro: move_force_attach\<close>)

lemma move_exit: "temporary_exit w c = Inr c' \<Longrightarrow> effect_move ok c c'"
  by (auto simp: temporary_exit_def intro: move_detach split: IoState.splits)

lemma move_ping:
  assumes "ga_ping w c = Inr (b, c')"
  shows "effect_move ok c c'"
proof (cases "c_ga c = St_Pinging")
  case True
  with assms have "(case c_io_state c of Io_FullEntry \<Rightarrow> io_detach w (c\<lparr>c_ga := St_Down\<rparr>)
      | Io_TemporaryLightEntry _ \<Rightarrow> temporary_exit w (c\<lparr>c_ga := St_Down\<rparr>)
      | _ \<Rightarrow> Inr (c\<lparr>c_ga := St_Down\<rparr>)) = Inr c'"
    by (simp add: ga_ping_def Let_def res_simps)
  then show ?thesis
    using move_detach [of w "c\<lparr>c_ga := St_Down\<rparr>" c'] move_exit [of w "c\<lparr>c_ga := St_Down\<rparr>" c']
    by (cases "c_io_state c") auto
next
  case False
  with assms show ?thesis
    by (auto simp: ga_ping_def Let_def res_simps ctl_returns split: if_splits)
qed

lemma move_hello:
  assumes "ga_hello w c = Inr (b, c')"
  shows "effect_move ok c c'"
proof -
  let ?c = "emit (hello_effects w c) (c\<lparr>c_ga := St_Up\<rparr>)"
  from ga_hello_Inr [OF assms] obtain d where
    1: "(if c_io_state c = Io_AwaitingUpgrade then io_attach w ?c else Inr ?c) = Inr d" and
    2: "(case c_ga c of St_Resuming full \<Rightarrow> if full then io_force_attach w d else light_attach w d
      | _ \<Rightarrow> Inr d) = Inr c'"
    by blast
  have "effect_move ok c ?c" by simp
  moreover from 1 have "effect_move ok ?c d" by (auto intro: move_attach split: if_splits)
  moreover from 2 have "effect_move ok d c'"
    by (auto intro: move_force_attach move_light split: State.splits if_splits)
  ultimately show ?thesis by (blast intro: move_trans)
qed

lemma move_entry:
  assumes "temporary_entry w s x y c = Inr (b, c')"
  shows "effect_move ok c c'"
proof -
  have l: "effect_move ok c d" if "light_attach w (emit [To_ga (Ga_SetMousePosition pt)] c) = Inr d" for d pt
    using move_trans [OF _ move_light [OF that]] by simp
  from assms show ?thesis
    by (auto simp: temporary_entry_def res_simps ctl_returns split: if_splits dest!: l)
qed

lemma move_hotkey: "ga_hotkey w i c = Inr c' \<Longrightarrow> effect_move ok c c'"
  by (erule ga_hotkey_cases)
    (auto intro: move_attach move_force_attach move_detach)

lemma controller_call_move:
  assumes "controller_call w e c = Inr c'" and "quiet_call e"
  shows "effect_move ok c c'"
proof (cases e)
  case Call_try_attach
  with assms(1) show ?thesis by (auto simp: try_attach_def intro: move_force_attach split: if_splits)
next
  case Call_ga_suspending
  with assms(1) show ?thesis by (auto simp: ga_suspending_def res_simps intro: move_detach)
next
  case Call_ga_pong
  with assms(1) show ?thesis by (auto simp: ga_pong_def)
next
  case (Call_mouse_edged x y)
  with assms(1) show ?thesis
    by (auto simp: mouse_edged_def ctl_returns split: IoState.splits)
qed (use assms in \<open>auto simp: ctl_returns res_simps shutdown_def quiet_call_def
    grab_x11_clipboard_def read_x11_clipboard_def respond_x11_clipboard_def Let_def
    intro: move_ping move_hello move_hotkey move_attach
      move_exit move_light move_force_attach move_detach move_entry
    split: if_splits option.splits\<close>)

end

text \<open>Plain effects are of this kind, and so is what the guest agent can deal with.\<close>

interpretation plain: effect_class plain_effect
proof
  fix e assume "quiet_effect e"
  then show "plain_effect e" by (cases e) simp_all
qed

fun known_effect :: "Effect \<Rightarrow> bool" where
  "known_effect (To_ga cmd) = acceptable cmd"
| "known_effect _ = True"

interpretation known: effect_class known_effect
proof
  fix e assume "quiet_effect e"
  then show "known_effect e" by (cases e) (auto simp: acceptable_def split: GaCmdOut.splits)
qed

definition plain_call :: "Ctl_call \<Rightarrow> bool" where
  "plain_call e \<longleftrightarrow>
     e \<noteq> Call_suspend \<and> e \<noteq> Call_qemu_suspended \<and>
     (\<forall>a. e \<noteq> Call_enter_backup_mode a \<and> e \<noteq> Call_leave_backup_mode a)"

lemma controller_call_plain:
  assumes "controller_call w e c = Inr c'" and "plain_call e"
  shows "effect_move plain_effect c c'"
proof (cases "quiet_call e")
  case True
  with assms(1) show ?thesis by (rule plain.controller_call_move)
next
  case False
  then show ?thesis
    using assms by (cases e) (auto simp: quiet_call_def plain_call_def res_simps ctl_returns effect_move_def
      grab_win_clipboard_def read_win_clipboard_def respond_win_clipboard_def)
qed

text \<open>What the guest agent is told, it knows, when the types of a grab are known ones.\<close>

fun known_types :: "Ctl_call \<Rightarrow> bool" where
  "known_types (Call_grab_win_clipboard ts) = (CT_Invalid \<notin> set (ClipboardTypes_iter ts))"
| "known_types _ = True"

lemma known_suspend: "suspend w c = Inr (f, c') \<Longrightarrow> list_all known_effect (c_trace c) \<Longrightarrow> list_all known_effect (c_trace c')"
  by (auto simp: suspend_def res_simps ctl_returns Let_def acceptable_def split: if_splits)

lemma controller_call_known:
  assumes "controller_call w e c = Inr c'" and "known_types e" and "list_all known_effect (c_trace c)"
  shows "list_all known_effect (c_trace c')"
proof (cases "quiet_call e")
  case True
  with assms(1,3) known.controller_call_move show ?thesis by (fastforce simp: effect_move_def)
next
  case False
  have adds: "list_all known_effect (map To_monitor cmds)" for cmds by (simp add: list_all_iff)
  from False show ?thesis
  proof (cases e)
    case Call_suspend
    with assms show ?thesis by (auto simp: ctl_returns intro: known_suspend)
  next
    case (Call_enter_backup_mode a)
    with assms(1) have "enter_backup_mode w a c = Inr c'" by simp
    from backup_mode_Inr [OF this [unfolded enter_backup_mode_def]] assms(3) adds show ?thesis by simp
  next
    case (Call_leave_backup_mode a)
    with assms(1) have "leave_backup_mode w a c = Inr c'" by simp
    from backup_mode_Inr [OF this [unfolded leave_backup_mode_def]] assms(3) adds show ?thesis by simp
  qed (use assms in \<open>auto simp: quiet_call_def res_simps ctl_returns grab_win_clipboard_def
      read_win_clipboard_def respond_win_clipboard_def qemu_suspended_def clipboard_to_out_def acceptable_def
      list_all_iff\<close>)
qed

subsection \<open>Who tells waiting callers\<close>

text \<open>Only \<^verbatim>\<open>qemu_suspended\<close> does.\<close>

definition tells_nobody :: "Controller \<Rightarrow> Controller \<Rightarrow> bool" where
  "tells_nobody c c' \<longleftrightarrow> suspend_resolved (c_trace c') = suspend_resolved (c_trace c)"

lemma tells_nobody_suspend: "suspend w c = Inr (f, c') \<Longrightarrow> tells_nobody c c'"
  by (auto simp: suspend_def res_simps ctl_returns Let_def tells_nobody_def split: if_splits)

lemma suspend_resolved_monitor [simp]: "suspend_resolved (map To_monitor cmds) = []"
  by (induction cmds) simp_all

lemma controller_call_tells_nobody:
  assumes "controller_call w e c = Inr c'" and "e \<noteq> Call_qemu_suspended"
  shows "tells_nobody c c'"
proof (cases "plain_call e")
  case True
  from controller_call_plain [OF assms(1) True] show ?thesis
    by (auto simp: effect_move_def tells_nobody_def dest: plain_effects)
next
  case False
  with assms show ?thesis
    by (auto simp: plain_call_def ctl_returns enter_backup_mode_def leave_backup_mode_def
        tells_nobody_def dest!: backup_mode_Inr tells_nobody_suspend [unfolded tells_nobody_def])
qed

subsection \<open>The channels of snapshot commands\<close>

text \<open>Every one is made afresh.\<close>

definition acks_ok :: "Controller \<Rightarrow> bool" where
  "acks_ok c \<longleftrightarrow> distinct (ack_numbers (c_trace c)) \<and> (\<forall>a\<in>set (ack_numbers (c_trace c)). a < c_next c)"

lemma ack_numbers_commands:
  assumes "\<And>i f a. command_ack (mk i f a) = Some a"
  shows "ack_numbers (map To_monitor (snapshot_commands mk ds n)) = [n..<n + length ds]"
proof (induction ds arbitrary: n)
  case (Cons d ds)
  then show ?case
    by (cases d) (simp add: snapshot_commands_def assms upt_rec)
qed (simp add: snapshot_commands_def)

lemma acks_ok_backup:
  assumes "acks_ok c" and "\<And>i f a. command_ack (mk i f a) = Some a"
  shows "acks_ok (emit (map To_monitor (snapshot_commands mk ds (c_next c)) @ [Wait_for_acks acks a])
    (c\<lparr>c_next := c_next c + length ds\<rparr>))"
proof -
  have "ack_numbers [Wait_for_acks acks a] = []" by simp
  with assms(1) show ?thesis
    by (auto simp: acks_ok_def ack_numbers_commands [of mk, OF assms(2)])
qed

lemma acks_ok_call:
  assumes "controller_call w e c = Inr c'" and "acks_ok c"
  shows "acks_ok c'"
proof (cases "plain_call e")
  case True
  from controller_call_plain [OF assms(1) True] assms(2) show ?thesis
    by (auto simp: effect_move_def acks_ok_def dest: plain_effects)
next
  case False
  then consider "e = Call_suspend" | "e = Call_qemu_suspended" | a where "e = Call_enter_backup_mode a"
    | a where "e = Call_leave_backup_mode a"
    by (auto simp: plain_call_def)
  then show ?thesis
  proof cases
    case 1
    with assms show ?thesis
      by (auto simp: ctl_returns suspend_def res_simps Let_def acks_ok_def
          less_SucI split: if_splits)
  next
    case 2
    have "ack_numbers (map Suspend_done ts) = []" for ts by (induction ts) simp_all
    with 2 assms show ?thesis by (auto simp: qemu_suspended_def acks_ok_def)
  next
    case 3
    with assms(1) have "enter_backup_mode w a c = Inr c'" by simp
    from backup_mode_Inr [OF this [unfolded enter_backup_mode_def]] acks_ok_backup [OF assms(2), of TakeSnapshot]
    show ?thesis by simp
  next
    case 4
    with assms(1) have "leave_backup_mode w a c = Inr c'" by simp
    from backup_mode_Inr [OF this [unfolded leave_backup_mode_def]] acks_ok_backup [OF assms(2), of CommitSnapshot]
    show ?thesis by simp
  qed
qed

lemma reachable_acks: "reachable mc hooks c \<Longrightarrow> acks_ok c"
proof (induction rule: reachable.induct)
  case reachable_new
  show ?case by (simp add: acks_ok_def Controller_new_def)
next
  case (reachable_call c w e c')
  from acks_ok_call [OF reachable_call(2,3)] show ?case .
qed

text \<open>So a channel belongs to one command.\<close>

lemma ack_command_unique:
  assumes "acks_ok c" and "To_monitor cmd \<in> set (c_trace c)" and "To_monitor cmd' \<in> set (c_trace c)"
    and "command_ack cmd = Some a" and "command_ack cmd' = Some a"
  shows "cmd' = cmd"
proof (rule ccontr)
  assume n: "cmd' \<noteq> cmd"
  from assms(2) obtain xs ys where tr: "c_trace c = xs @ To_monitor cmd # ys" by (meson split_list)
  with assms(3) n have "To_monitor cmd' \<in> set xs \<or> To_monitor cmd' \<in> set ys" by auto
  then have "a \<in> set (ack_numbers xs) \<or> a \<in> set (ack_numbers ys)"
    using assms(5) by (force simp: set_ack_numbers)
  moreover have "distinct (ack_numbers xs @ a # ack_numbers ys)"
    using assms(1,4) tr by (simp add: acks_ok_def)
  ultimately show False by auto
qed

end
