(* ===== verification/Dbus.thy ===== *)
theory Dbus
  imports Udev
begin

text \<open>
  \<^verbatim>\<open>driver/src/dbus.rs\<close>: the stream of items of a D-Bus connection. It keeps the descriptors that
  the connection wants watched, and a queue of items not yet handed out. The connection and the
  readiness of descriptors are parameters: what \<^verbatim>\<open>watch_handle\<close> answers for a descriptor during
  one poll. The lemmas show that the vector of descriptors is the map from descriptors to the
  interest announced last, and that no item is lost, repeated or reordered.
\<close>

subsection \<open>Readiness\<close>

record Ready =
  rd_readable :: bool
  rd_writable :: bool
  rd_hup :: bool
  rd_error :: bool

definition Ready_empty :: Ready where
  "Ready_empty = \<lparr>rd_readable = False, rd_writable = False, rd_hup = False, rd_error = False\<rparr>"

record Watch =
  wa_fd :: i32
  wa_readable :: bool
  wa_writable :: bool

definition to_ready :: "Watch \<Rightarrow> Ready" where
  "to_ready w = Ready_empty\<lparr>rd_readable := wa_readable w, rd_writable := wa_writable w\<rparr>"

text \<open>The values of the D-Bus crate's \<^verbatim>\<open>WatchEvent\<close>.\<close>

record WatchEvents =
  we_readable :: u32
  we_writable :: u32
  we_hangup :: u32
  we_error :: u32

definition from_ready :: "WatchEvents \<Rightarrow> Ready \<Rightarrow> u32" where
  "from_ready we r =
     (let ret = 0;
          ret = (if rd_readable r then ret OR we_readable we else ret);
          ret = (if rd_writable r then ret OR we_writable we else ret);
          ret = (if rd_hup r then ret OR we_hangup we else ret)
      in (if rd_error r then ret OR we_error we else ret))"

subsection \<open>The stream\<close>

text \<open>
  What a connection delivers: a change of the watched descriptors, a signal with its interface,
  member and first argument read as a boolean, or anything else.
\<close>

datatype ConnectionItem =
    WatchFd Watch
  | Signal "string option" "string option" "bool option"
  | Other_item

record Fd =
  fd_io :: i32
  fd_interest :: Ready

record DBusItems =
  di_fds :: "Fd list"
  di_pending_items :: "ConnectionItem list"

text \<open>\<open>ok\<close> tells whether a descriptor can be registered with the reactor.\<close>

definition DBusItems_new :: "(i32 \<Rightarrow> bool) \<Rightarrow> Watch list \<Rightarrow> panic + DBusItems" where
  "DBusItems_new ok watches =
     (if list_all (\<lambda>w. ok (wa_fd w)) watches then
        Inr \<lparr>di_fds = map (\<lambda>w. \<lparr>fd_io = wa_fd w, fd_interest = to_ready w\<rparr>) watches,
             di_pending_items = []\<rparr>
      else Inl Watch_failed)"

text \<open>The reactor answers whether a descriptor can be read and written.\<close>

definition Fd_poll :: "(i32 \<Rightarrow> bool \<times> bool) \<Rightarrow> Fd \<Rightarrow> Ready option" where
  "Fd_poll io fd =
     (let ready = Ready_empty\<lparr>rd_readable := rd_readable (fd_interest fd) \<and> fst (io (fd_io fd)),
                              rd_writable := rd_writable (fd_interest fd) \<and> snd (io (fd_io fd))\<rparr>
      in if ready = Ready_empty then None else Some ready)"

definition take_item ::
    "(i32 \<Rightarrow> bool) \<Rightarrow> ConnectionItem \<Rightarrow> ConnectionItem list \<times> Fd list \<Rightarrow> panic + ConnectionItem list \<times> Fd list" where
  "take_item ok ci s =
     (let (items, fds) = s in
      case ci of
        WatchFd w \<Rightarrow>
          (let ready = to_ready w; pos = position (\<lambda>x. fd_io x = wa_fd w) fds in
           if ready = Ready_empty then
             Inr (items, case pos of Some i \<Rightarrow> take i fds @ drop (i + 1) fds | None \<Rightarrow> fds)
           else
             (case pos of
                Some i \<Rightarrow> Inr (items, fds[i := (fds ! i)\<lparr>fd_interest := ready\<rparr>])
              | None \<Rightarrow>
                  if ok (wa_fd w) then Inr (items, fds @ [\<lparr>fd_io = wa_fd w, fd_interest = ready\<rparr>])
                  else Inl Watch_failed))
      | _ \<Rightarrow> Inr (items @ [ci], fds))"

text \<open>The environment of one poll: the reactor, the connection, and which descriptors register.\<close>

record Dbus_env =
  de_io :: "i32 \<Rightarrow> bool \<times> bool"
  de_watch_handle :: "i32 \<Rightarrow> u32 \<Rightarrow> ConnectionItem list"
  de_register_ok :: "i32 \<Rightarrow> bool"

definition poll_results :: "Dbus_env \<Rightarrow> Fd list \<Rightarrow> (i32 \<times> Ready) list" where
  "poll_results e fds = List.map_filter (\<lambda>fd. map_option (Pair (fd_io fd)) (Fd_poll (de_io e) fd)) fds"

definition handled_items :: "WatchEvents \<Rightarrow> Dbus_env \<Rightarrow> Fd list \<Rightarrow> ConnectionItem list" where
  "handled_items we e fds =
     concat (map (\<lambda>(fd, r). de_watch_handle e fd (from_ready we r)) (poll_results e fds))"

definition poll_next :: "WatchEvents \<Rightarrow> Dbus_env \<Rightarrow> DBusItems \<Rightarrow> panic + ConnectionItem option \<times> DBusItems" where
  "poll_next we e d =
     (case di_pending_items d of
        x # xs \<Rightarrow> Inr (Some x, d\<lparr>di_pending_items := xs\<rparr>)
      | [] \<Rightarrow>
          and_then (for_each_res (take_item (de_register_ok e)) (handled_items we e (di_fds d)) ([], di_fds d))
            (\<lambda>(items, fds).
              Inr (case items of
                     x # xs \<Rightarrow> (Some x, d\<lparr>di_fds := fds, di_pending_items := xs\<rparr>)
                   | [] \<Rightarrow> (None, d\<lparr>di_fds := fds\<rparr>))))"

subsection \<open>The watched descriptors\<close>

text \<open>The interest in each descriptor that a vector stands for, and what an item does to it.\<close>

definition interests :: "Fd list \<Rightarrow> i32 \<Rightarrow> Ready option" where
  "interests fds = map_of (map (\<lambda>fd. (fd_io fd, fd_interest fd)) fds)"

fun announce :: "ConnectionItem \<Rightarrow> (i32 \<Rightarrow> Ready option) \<Rightarrow> i32 \<Rightarrow> Ready option" where
  "announce (WatchFd w) m =
     (if wa_readable w \<or> wa_writable w then m(wa_fd w \<mapsto> to_ready w) else m(wa_fd w := None))"
| "announce _ m = m"

fun is_watch :: "ConnectionItem \<Rightarrow> bool" where
  "is_watch (WatchFd w) = True"
| "is_watch _ = False"

definition fds_ok :: "Fd list \<Rightarrow> bool" where
  "fds_ok fds \<longleftrightarrow> distinct (map fd_io fds)"

lemma to_ready_empty [simp]: "to_ready w = Ready_empty \<longleftrightarrow> \<not> wa_readable w \<and> \<not> wa_writable w"
  by (simp add: to_ready_def Ready_empty_def)

lemma interests_remove:
  "fds_ok (xs @ x # ys) \<Longrightarrow> interests (xs @ ys) = (interests (xs @ x # ys))(fd_io x := None)"
  by (rule ext) (auto simp: interests_def fds_ok_def map_add_def map_of_eq_None_iff image_iff
      split: option.split dest: map_of_SomeD)

lemma interests_set:
  "fds_ok (xs @ x # ys) \<Longrightarrow>
     interests (xs @ x\<lparr>fd_interest := r\<rparr> # ys) = (interests (xs @ x # ys))(fd_io x \<mapsto> r)"
  by (rule ext) (auto simp: interests_def fds_ok_def map_add_def map_of_eq_None_iff image_iff
      split: option.split dest: map_of_SomeD)

lemma interests_push:
  "fd_io x \<notin> fd_io ` set fds \<Longrightarrow> interests (fds @ [x]) = (interests fds)(fd_io x \<mapsto> fd_interest x)"
  by (induction fds) (auto simp: interests_def fun_upd_twist)

lemma take_item_watch:
  assumes "take_item ok ci (items, fds) = Inr (items', fds')" and "fds_ok fds"
  shows "fds_ok fds' \<and> interests fds' = announce ci (interests fds) \<and>
    items' = items @ (if is_watch ci then [] else [ci])"
proof (cases ci)
  case (WatchFd w)
  let ?pos = "position (\<lambda>x. fd_io x = wa_fd w) fds"
  show ?thesis
  proof (cases ?pos)
    case None
    then have new: "wa_fd w \<notin> fd_io ` set fds" by (auto simp: position_None)
    then have "interests fds (wa_fd w) = None"
      by (auto simp: interests_def map_of_eq_None_iff image_iff)
    then have "(interests fds)(wa_fd w := None) = interests fds" by auto
    with assms WatchFd None new interests_push [of "\<lparr>fd_io = wa_fd w, fd_interest = to_ready w\<rparr>" fds]
    show ?thesis by (auto simp: take_item_def Let_def fds_ok_def split: if_splits)
  next
    case (Some i)
    from position_Some [OF Some] have i: "i < length fds" "fd_io (fds ! i) = wa_fd w" by auto
    let ?xs = "take i fds" and ?x = "fds ! i" and ?ys = "drop (Suc i) fds"
    have fds: "fds = ?xs @ ?x # ?ys" using i(1) by (rule id_take_nth_drop)
    have d: "fds_ok (?xs @ ?x # ?ys)" using assms(2) fds by simp
    have upd: "fds[i := y] = ?xs @ y # ?ys" for y using i(1) by (rule upd_conv_take_nth_drop)
    show ?thesis
    proof (cases "to_ready w = Ready_empty")
      case True
      with assms(1) WatchFd Some have r: "items' = items" "fds' = ?xs @ ?ys" by (auto simp: take_item_def)
      from d have "fds_ok (?xs @ ?ys)" by (simp add: fds_ok_def)
      moreover from interests_remove [OF d] fds i(2) have "interests (?xs @ ?ys) = (interests fds)(wa_fd w := None)"
        by simp
      ultimately show ?thesis using r True WatchFd by simp
    next
      case False
      with assms(1) WatchFd Some have r: "items' = items" "fds' = fds[i := ?x\<lparr>fd_interest := to_ready w\<rparr>]"
        by (auto simp: take_item_def Let_def)
      from d have "fds_ok (?xs @ ?x\<lparr>fd_interest := to_ready w\<rparr> # ?ys)" by (simp add: fds_ok_def)
      moreover from interests_set [OF d] fds i(2)
      have "interests (?xs @ ?x\<lparr>fd_interest := to_ready w\<rparr> # ?ys) = (interests fds)(wa_fd w \<mapsto> to_ready w)"
        by simp
      ultimately show ?thesis using r False WatchFd upd by auto
    qed
  qed
qed (use assms in \<open>auto simp: take_item_def\<close>)

lemma take_items_watch:
  "for_each_res (take_item ok) cis (items, fds) = Inr (items', fds') \<Longrightarrow> fds_ok fds \<Longrightarrow>
     fds_ok fds' \<and> interests fds' = fold announce cis (interests fds) \<and>
     items' = items @ filter (\<lambda>ci. \<not> is_watch ci) cis"
proof (induction cis arbitrary: items fds)
  case (Cons ci cis)
  from Cons.prems(1) obtain items1 fds1 where 1: "take_item ok ci (items, fds) = Inr (items1, fds1)"
      "for_each_res (take_item ok) cis (items1, fds1) = Inr (items', fds')"
    by (auto simp: res_simps)
  from take_item_watch [OF 1(1) Cons.prems(2)] Cons.IH [OF 1(2)] show ?case by auto
qed simp

subsection \<open>Polls\<close>

text \<open>The stream after some polls: what it handed out, all it was given, and its state.\<close>

definition dbus_poll ::
    "WatchEvents \<Rightarrow> Dbus_env \<Rightarrow> ConnectionItem list \<times> ConnectionItem list \<times> DBusItems \<Rightarrow>
      panic + ConnectionItem list \<times> ConnectionItem list \<times> DBusItems" where
  "dbus_poll we e s =
     (let (out, given, d) = s in
      and_then (poll_next we e d) (\<lambda>(r, d').
        Inr (out @ (case r of Some x \<Rightarrow> [x] | None \<Rightarrow> []),
             given @ (if di_pending_items d = [] then handled_items we e (di_fds d) else []), d')))"

definition dbus_ok ::
    "(i32 \<Rightarrow> Ready option) \<Rightarrow> ConnectionItem list \<times> ConnectionItem list \<times> DBusItems \<Rightarrow> bool" where
  "dbus_ok m s \<longleftrightarrow>
     (let (out, given, d) = s in
      fds_ok (di_fds d) \<and> interests (di_fds d) = fold announce given m \<and>
      out @ di_pending_items d = filter (\<lambda>ci. \<not> is_watch ci) given)"

lemma dbus_poll_ok:
  assumes "dbus_poll we e s = Inr s'" and "dbus_ok m s"
  shows "dbus_ok m s'"
proof -
  obtain out given d where s: "s = (out, given, d)" by (cases s)
  from assms(1) obtain r d' where p: "poll_next we e d = Inr (r, d')"
    and s': "s' = (out @ (case r of Some x \<Rightarrow> [x] | None \<Rightarrow> []),
      given @ (if di_pending_items d = [] then handled_items we e (di_fds d) else []), d')"
    by (auto simp: dbus_poll_def s res_simps)
  show ?thesis
  proof (cases "di_pending_items d")
    case (Cons x xs)
    with p have "r = Some x" "d' = d\<lparr>di_pending_items := xs\<rparr>" by (simp_all add: poll_next_def)
    with assms(2) Cons show ?thesis by (simp add: s s' dbus_ok_def)
  next
    case Nil
    with p obtain items fds where t: "for_each_res (take_item (de_register_ok e))
          (handled_items we e (di_fds d)) ([], di_fds d) = Inr (items, fds)"
      and rd: "(r, d') = (case items of x # xs \<Rightarrow> (Some x, d\<lparr>di_fds := fds, di_pending_items := xs\<rparr>)
        | [] \<Rightarrow> (None, d\<lparr>di_fds := fds\<rparr>))"
      by (auto simp: poll_next_def res_simps)
    have "fds_ok (di_fds d)" using assms(2) by (simp add: s dbus_ok_def)
    from take_items_watch [OF t this]
    have fds: "fds_ok fds" "interests fds = fold announce (handled_items we e (di_fds d)) (interests (di_fds d))"
        "filter (\<lambda>ci. \<not> is_watch ci) (handled_items we e (di_fds d)) = items" by simp_all
    have "di_fds d' = fds" "(case r of Some x \<Rightarrow> [x] | None \<Rightarrow> []) @ di_pending_items d' = items"
      using rd Nil by (cases items; simp)+
    with fds assms(2) Nil show ?thesis by (simp add: s s' dbus_ok_def)
  qed
qed

lemma interests_new: "interests (map (\<lambda>w. \<lparr>fd_io = wa_fd w, fd_interest = to_ready w\<rparr>) ws) =
    map_of (map (\<lambda>w. (wa_fd w, to_ready w)) ws)"
  by (simp add: interests_def comp_def)

subsection \<open>Properties\<close>

text \<open>
  C38: Refinement: whatever the connection announces, and in whichever polls, the watched
  descriptors are those announced last with their last interest, and the items handed out,
  followed by those still queued, are all items it gave except the announcements, in order.
\<close>

theorem dbus_items_in_order:
  assumes "DBusItems_new ok ws = Inr d" and "distinct (map wa_fd ws)"
    and "for_each_res (dbus_poll we) es ([], [], d) = Inr (out, given, d')"
  shows "interests (di_fds d') = fold announce given (map_of (map (\<lambda>w. (wa_fd w, to_ready w)) ws)) \<and>
    out @ di_pending_items d' = filter (\<lambda>ci. \<not> is_watch ci) given"
proof -
  from assms(1) have d: "d = \<lparr>di_fds = map (\<lambda>w. \<lparr>fd_io = wa_fd w, fd_interest = to_ready w\<rparr>) ws,
      di_pending_items = []\<rparr>"
    by (auto simp: DBusItems_new_def split: if_splits)
  have "dbus_ok (map_of (map (\<lambda>w. (wa_fd w, to_ready w)) ws)) ([], [], d)"
    using assms(2) by (simp add: dbus_ok_def d interests_new fds_ok_def comp_def)
  then have "dbus_ok (map_of (map (\<lambda>w. (wa_fd w, to_ready w)) ws)) (out, given, d')"
    by (rule for_each_res_inv [OF assms(3)]) (rule dbus_poll_ok)
  then show ?thesis by (simp add: dbus_ok_def)
qed

definition demo_dbus_env :: Dbus_env where
  "demo_dbus_env =
     \<lparr>de_io = (\<lambda>_. (True, False)),
      de_watch_handle = (\<lambda>fd flags. if fd = 3 \<and> flags = 1 then
          [WatchFd \<lparr>wa_fd = 4, wa_readable = True, wa_writable = False\<rparr>, Other_item,
           WatchFd \<lparr>wa_fd = 3, wa_readable = False, wa_writable = False\<rparr>, Signal None None None] else []),
      de_register_ok = (\<lambda>_. True)\<rparr>"

theorem dbus_items_in_order_witness:
  "\<exists>d d'. DBusItems_new (\<lambda>_. True) [\<lparr>wa_fd = 3, wa_readable = True, wa_writable = True\<rparr>] = Inr d \<and>
     for_each_res (dbus_poll \<lparr>we_readable = 1, we_writable = 2, we_hangup = 8, we_error = 4\<rparr>)
       [demo_dbus_env] ([], [], d) = Inr ([Other_item],
         [WatchFd \<lparr>wa_fd = 4, wa_readable = True, wa_writable = False\<rparr>, Other_item,
          WatchFd \<lparr>wa_fd = 3, wa_readable = False, wa_writable = False\<rparr>, Signal None None None], d') \<and>
     interests (di_fds d') 3 = None \<and> interests (di_fds d') 4 \<noteq> None \<and>
     di_pending_items d' = [Signal None None None]"
proof -
  let ?ws = "[\<lparr>wa_fd = 3, wa_readable = True, wa_writable = True\<rparr> :: Watch]"
  let ?we = "\<lparr>we_readable = 1, we_writable = 2, we_hangup = 8, we_error = 4\<rparr> :: WatchEvents"
  obtain d where d: "DBusItems_new (\<lambda>_. True) ?ws = Inr d" by (simp add: DBusItems_new_def)
  obtain d' where d': "for_each_res (dbus_poll ?we) [demo_dbus_env] ([], [], d) = Inr ([Other_item],
         [WatchFd \<lparr>wa_fd = 4, wa_readable = True, wa_writable = False\<rparr>, Other_item,
          WatchFd \<lparr>wa_fd = 3, wa_readable = False, wa_writable = False\<rparr>, Signal None None None], d')"
    using d by (auto simp: DBusItems_new_def dbus_poll_def poll_next_def handled_items_def poll_results_def
        demo_dbus_env_def Fd_poll_def from_ready_def to_ready_def Ready_empty_def take_item_def
        List.map_filter_def)
  from dbus_items_in_order [OF d _ d'] d d' show ?thesis by auto
qed

text \<open>
  Only reading and writing are ever reported to the connection: the flags of a hang-up or an error,
  though they are translated, are never set.
\<close>

lemma poll_flags:
  "(fd, r) \<in> set (poll_results e fds) \<Longrightarrow>
     from_ready we r \<in> {we_readable we, we_writable we, we_readable we OR we_writable we}"
  by (auto simp: poll_results_def List.map_filter_def Fd_poll_def Let_def from_ready_def Ready_empty_def
      split: if_splits)

end
