(* ===== verification/Sleep_Inhibitor.thy ===== *)
theory Sleep_Inhibitor
  imports Controller_Effects Dbus Demo
begin

text \<open>
  \<^verbatim>\<open>driver/src/sleep_inhibitor.rs\<close>: the driver holds a delay lock of logind. When the host is about
  to sleep it asks Windows to suspend, and drops the lock when the controller says that it has;
  after the sleep it takes the lock again. D-Bus itself is a parameter: the items it delivers and
  whether the call that takes the lock succeeds. The lemmas show that the lock outlives the suspend
  it waits for, and what happens to the signals that come meanwhile.
\<close>

subsection \<open>The inhibitor\<close>

text \<open>The lock (\<^verbatim>\<open>fd\<close>), and the suspend that the handler of a signal waits for.\<close>

record Inhibitor =
  ih_fd :: bool
  ih_waits :: "nat option"

text \<open>\<open>ok\<close> tells whether logind answers \<^verbatim>\<open>Inhibit\<close> with a lock.\<close>

definition inhibit :: "bool \<Rightarrow> panic + bool" where
  "inhibit ok = (if ok then Inr True else Inl Inhibit_failed)"

definition sleep_inhibitor :: "bool \<Rightarrow> panic + Inhibitor" where
  "sleep_inhibitor ok = and_then (inhibit ok) (\<lambda>fd. Inr \<lparr>ih_fd = fd, ih_waits = None\<rparr>)"

text \<open>\<^verbatim>\<open>PrepareForSleep\<close>: the guard of the match arm, and the argument of the signal.\<close>

definition prepare_for_sleep :: "ConnectionItem \<Rightarrow> panic + bool option" where
  "prepare_for_sleep ci =
     (case ci of
        Signal interface member starting \<Rightarrow>
          (case interface of
             None \<Rightarrow> Inl Bad_signal
           | Some i \<Rightarrow>
               if i = ''org.freedesktop.login1.Manager'' then
                 (case member of
                    None \<Rightarrow> Inl Bad_signal
                  | Some m \<Rightarrow>
                      if m = ''PrepareForSleep'' then
                        (case starting of None \<Rightarrow> Inl Bad_signal | Some b \<Rightarrow> Inr (Some b))
                      else Inr None)
               else Inr None)
      | _ \<Rightarrow> Inr None)"

definition inhibitor_item ::
    "World \<Rightarrow> bool \<Rightarrow> ConnectionItem \<Rightarrow> Inhibitor \<times> Controller \<Rightarrow> panic + Inhibitor \<times> Controller" where
  "inhibitor_item w ok ci s =
     (let (ih, c) = s in
      and_then (prepare_for_sleep ci) (\<lambda>sig.
        case sig of
          Some True \<Rightarrow>
            and_then (suspend w c) (\<lambda>(fut, c).
              Inr (case fut of
                     Resolved \<Rightarrow> (ih\<lparr>ih_fd := False\<rparr>, c)
                   | Waiting t \<Rightarrow> (ih\<lparr>ih_waits := Some t\<rparr>, c)))
        | Some False \<Rightarrow> and_then (inhibit ok) (\<lambda>fd. Inr (ih\<lparr>ih_fd := fd\<rparr>, c))
        | None \<Rightarrow> Inr (ih, c)))"

text \<open>The suspend is done: the lock is dropped and the next item can be read.\<close>

definition inhibitor_wake :: "Inhibitor \<times> Controller \<Rightarrow> Inhibitor \<times> Controller" where
  "inhibitor_wake s =
     (let (ih, c) = s in
      case ih_waits ih of
        Some t \<Rightarrow>
          if t \<in> set (suspend_resolved (c_trace c)) then (ih\<lparr>ih_fd := False, ih_waits := None\<rparr>, c) else s
      | None \<Rightarrow> s)"

text \<open>
  Events: the next item of the connection, which \<^verbatim>\<open>for_each\<close> only takes when it waits for nothing;
  the suspend that is done; and calls of the rest of the driver.
\<close>

datatype Sleep_event =
    Sl_item bool ConnectionItem
  | Sl_wake
  | Sl_elsewhere Ctl_call

fun sleep_step :: "World \<times> Sleep_event \<Rightarrow> Inhibitor \<times> Controller \<Rightarrow> panic + Inhibitor \<times> Controller" where
  "sleep_step (w, Sl_item ok ci) s = (if ih_waits (fst s) = None then inhibitor_item w ok ci s else Inr s)"
| "sleep_step (w, Sl_wake) s = Inr (inhibitor_wake s)"
| "sleep_step (w, Sl_elsewhere e) s = and_then (controller_call w e (snd s)) (\<lambda>c. Inr (fst s, c))"

definition sleep_run :: "(World \<times> Sleep_event) list \<Rightarrow> Inhibitor \<times> Controller \<Rightarrow> panic + Inhibitor \<times> Controller" where
  "sleep_run = for_each_res sleep_step"

text \<open>The signal of logind.\<close>

definition PrepareForSleep :: "bool \<Rightarrow> ConnectionItem" where
  "PrepareForSleep starting =
     Signal (Some ''org.freedesktop.login1.Manager'') (Some ''PrepareForSleep'') (Some starting)"

lemma prepare_for_sleep_signal [simp]: "prepare_for_sleep (PrepareForSleep b) = Inr (Some b)"
  by (simp add: prepare_for_sleep_def PrepareForSleep_def)

subsection \<open>Waiting\<close>

text \<open>The handler waits for a suspend that is not done, with the lock in hand.\<close>

definition sleep_pending :: "nat \<Rightarrow> Inhibitor \<times> Controller \<Rightarrow> bool" where
  "sleep_pending t s \<longleftrightarrow>
     ih_fd (fst s) \<and> ih_waits (fst s) = Some t \<and> t \<notin> set (suspend_resolved (c_trace (snd s)))"

lemma sleep_step_pending:
  assumes "sleep_step (w, e) s = Inr s'" and "sleep_pending t s" and "e \<noteq> Sl_elsewhere Call_qemu_suspended"
  shows "sleep_pending t s' \<and> fst s' = fst s"
proof (cases e)
  case (Sl_elsewhere c)
  with assms(1) obtain d where d: "controller_call w c (snd s) = Inr d" "s' = (fst s, d)"
    by (auto simp: res_simps simp del: controller_call.simps)
  from Sl_elsewhere assms(3) have "c \<noteq> Call_qemu_suspended" by simp
  from controller_call_tells_nobody [OF d(1) this] d(2) assms(2) show ?thesis
    by (simp add: sleep_pending_def tells_nobody_def)
qed (use assms in \<open>auto simp: sleep_pending_def inhibitor_wake_def split: prod.splits\<close>)

lemma sleep_run_pending:
  "sleep_run es s = Inr s' \<Longrightarrow> sleep_pending t s \<Longrightarrow> Sl_elsewhere Call_qemu_suspended \<notin> snd ` set es \<Longrightarrow>
     sleep_pending t s' \<and> fst s' = fst s"
proof (induction es arbitrary: s)
  case (Cons e es)
  obtain w ev where e: "e = (w, ev)" by (cases e)
  from Cons.prems(1) obtain u where u: "sleep_step (w, ev) s = Inr u" "sleep_run es u = Inr s'"
    by (auto simp: sleep_run_def res_simps e)
  have "ev \<noteq> Sl_elsewhere Call_qemu_suspended" using Cons.prems(3) by (auto simp: e)
  from sleep_step_pending [OF u(1) Cons.prems(2) this] Cons.IH [OF u(2), of] Cons.prems(3)
  show ?case by auto
qed (simp add: sleep_run_def)

text \<open>A signal before the sleep either finds the guest suspended or starts the wait.\<close>

lemma sleep_signal_pending:
  assumes "inhibitor_item w ok (PrepareForSleep True) (ih, c) = Inr s" and "ih_fd ih" and "ih_waits ih = None"
    and "reachable mc hooks c" and "c_ga c \<noteq> St_Suspended"
  shows "sleep_pending (c_next c) s"
proof -
  from reachable_ok [OF assms(4)] have ok: "\<forall>t\<in>set (suspend_resolved (c_trace c)). t < c_next c"
    by (simp add: controller_ok_def suspend_ok_def)
  from assms(1,5) obtain c' where "suspend w c = Inr (Waiting (c_next c), c')"
      "s = (ih\<lparr>ih_waits := Some (c_next c)\<rparr>, c')"
    by (auto simp: inhibitor_item_def suspend_def res_simps ctl_returns Let_def split: if_splits)
  with tells_nobody_suspend [of w c "Waiting (c_next c)" c'] ok assms(2) show ?thesis
    by (auto simp: sleep_pending_def tells_nobody_def)
qed

subsection \<open>Properties\<close>

text \<open>
  Safety: when the host is about to sleep and Windows is not suspended, the driver keeps its
  delay lock, whatever its other components do, until QEMU reports that Windows has suspended. It
  also reads no other signal of D-Bus until then: where the guest agent is down and Windows never
  suspends, the end of the sleep and all later sleeps of the host go unnoticed.
\<close>

lemma sleep_waits_for_windows:
  assumes "reachable mc hooks c" and "ih_fd ih" and "ih_waits ih = None" and "c_ga c \<noteq> St_Suspended"
    and "sleep_run ((w, Sl_item ok (PrepareForSleep True)) # es) (ih, c) = Inr (ih', c')"
    and "Sl_elsewhere Call_qemu_suspended \<notin> snd ` set es"
  shows "ih_fd ih' \<and> ih_waits ih' = Some (c_next c)"
proof -
  from assms(3,5) obtain s where s: "inhibitor_item w ok (PrepareForSleep True) (ih, c) = Inr s"
      "sleep_run es s = Inr (ih', c')"
    by (auto simp: sleep_run_def res_simps)
  have "sleep_pending (c_next c) s" by (rule sleep_signal_pending [OF s(1) assms(2,3,1,4)])
  from sleep_run_pending [OF s(2) this assms(6)] have "sleep_pending (c_next c) (ih', c')" by blast
  then show ?thesis by (simp add: sleep_pending_def)
qed

lemma sleep_waits_for_windows_witness:
  "\<exists>ih c. sleep_run [(demo_world, Sl_item True (PrepareForSleep True)),
       (demo_world, Sl_elsewhere Call_ga_suspending), (demo_world, Sl_wake),
       (demo_world, Sl_item True (PrepareForSleep False))]
     (\<lparr>ih_fd = True, ih_waits = None\<rparr>, demo_controller) = Inr (ih, c) \<and>
     ih_fd ih \<and> ih_waits ih = Some 0"
proof -
  let ?es = "[(demo_world, Sl_elsewhere Call_ga_suspending), (demo_world, Sl_wake),
       (demo_world, Sl_item True (PrepareForSleep False))]"
  let ?ih = "\<lparr>ih_fd = True, ih_waits = None\<rparr>"
  obtain c1 where c1: "suspend demo_world demo_controller = Inr (Waiting 0, c1)"
    by (simp add: suspend_def demo_controller_def Controller_new_def Let_def write_ga_def demo_world_def)
  obtain c2 where c2: "controller_call demo_world Call_ga_suspending c1 = Inr c2"
    using demo_run_returns [of "[Call_ga_suspending]" c1] by (auto simp: res_simps)
  have n: "suspend_resolved (c_trace c2) = suspend_resolved (c_trace demo_controller)"
    using controller_call_tells_nobody [OF c2] tells_nobody_suspend [OF c1] by (simp add: tells_nobody_def)
  have r: "sleep_run ((demo_world, Sl_item True (PrepareForSleep True)) # ?es) (?ih, demo_controller) =
      Inr (?ih\<lparr>ih_waits := Some 0\<rparr>, c2)"
    using c1 c2 n by (simp add: sleep_run_def inhibitor_item_def inhibitor_wake_def demo_controller_def
        Controller_new_def del: controller_call.simps)
  have "ih_fd (?ih\<lparr>ih_waits := Some 0\<rparr>) \<and> ih_waits (?ih\<lparr>ih_waits := Some 0\<rparr>) = Some (c_next demo_controller)"
    by (rule sleep_waits_for_windows [OF _ _ _ _ r, of demo_machine HooksConfig_default])
      (simp_all add: demo_controller_def reachable_new, simp add: Controller_new_def)
  moreover have "c_next demo_controller = 0" by (simp add: demo_controller_def Controller_new_def)
  ultimately show ?thesis using r by metis
qed

text \<open>
  Liveness: once QEMU reports that Windows has suspended, the lock is dropped as soon as the
  inhibitor runs, so the host can sleep; and the next signal is read again.
\<close>

lemma sleep_lock_released:
  assumes "reachable mc hooks c" and "ih_waits ih = Some t" and "t \<in> set (suspend_awaited (c_trace c))"
    and "sleep_run [(w, Sl_elsewhere Call_qemu_suspended), (w', Sl_wake)] (ih, c) = Inr (ih', c')"
  shows "\<not> ih_fd ih' \<and> ih_waits ih' = None"
proof -
  have "suspend_ok (qemu_suspended c)" "c_ga (qemu_suspended c) = St_Suspended"
    using qemu_suspended_ok [OF reachable_ok [OF assms(1)]]
    by (simp_all add: controller_ok_def qemu_suspended_def)
  then have "suspend_resolved (c_trace (qemu_suspended c)) = suspend_awaited (c_trace (qemu_suspended c))"
    by (simp add: suspend_ok_def)
  moreover have "t \<in> set (suspend_awaited (c_trace (qemu_suspended c)))"
    using assms(3) by (simp add: qemu_suspended_def)
  ultimately show ?thesis
    using assms(2,4) by (auto simp: sleep_run_def inhibitor_wake_def)
qed

lemma sleep_lock_released_witness:
  "\<exists>ih c ih' c'. sleep_run [(demo_world, Sl_item True (PrepareForSleep True))]
       (\<lparr>ih_fd = True, ih_waits = None\<rparr>, demo_controller) = Inr (ih, c) \<and> ih_fd ih \<and>
     sleep_run [(demo_world, Sl_elsewhere Call_qemu_suspended), (demo_world, Sl_wake)] (ih, c) = Inr (ih', c') \<and>
     \<not> ih_fd ih' \<and> ih_waits ih' = None"
proof -
  let ?ih = "\<lparr>ih_fd = True, ih_waits = None\<rparr>"
  obtain c where c: "suspend demo_world demo_controller = Inr (Waiting 0, c)"
    and a: "suspend_awaited (c_trace c) = [0]"
    by (simp add: suspend_def demo_controller_def Controller_new_def Let_def write_ga_def demo_world_def emit_def)
  have r: "reachable demo_machine HooksConfig_default c"
    by (rule reachable_call [OF reachable_new, where w = demo_world and e = Call_suspend])
      (use c in \<open>simp add: demo_controller_def drop_result_def\<close>)
  let ?ih' = "?ih\<lparr>ih_waits := Some 0\<rparr>"
  have 1: "sleep_run [(demo_world, Sl_item True (PrepareForSleep True))] (?ih, demo_controller) = Inr (?ih', c)"
    using c by (simp add: sleep_run_def inhibitor_item_def)
  obtain s where s: "sleep_run [(demo_world, Sl_elsewhere Call_qemu_suspended), (demo_world, Sl_wake)] (?ih', c) = Inr s"
    by (simp add: sleep_run_def)
  obtain ih2 c2 where s2: "s = (ih2, c2)" by (cases s)
  have "\<not> ih_fd ih2 \<and> ih_waits ih2 = None"
    by (rule sleep_lock_released [OF r _ _ s [unfolded s2], of 0]) (simp_all add: a)
  moreover have "ih_fd ?ih'" by simp
  ultimately show ?thesis using 1 s unfolding s2 by blast
qed

end
