(* ===== verification/Monitor.thy ===== *)
theory Monitor
  imports Controller_Lemmas
begin

text \<open>
  \<^verbatim>\<open>driver/src/monitor/mod.rs\<close>: the task that executes the queued commands over QMP, and the one
  that reads QEMU's events. The QAPI client is a parameter: what it answers to each request. The
  lemmas show that the keys held down in the guest are those the task remembers, that a snapshot
  file is only removed once its commit is complete, and when the channels of a backup are answered.
\<close>

subsection \<open>QAPI\<close>

text \<open>The requests and the arguments the driver fills in; all others are \<^verbatim>\<open>None\<close>.\<close>

datatype QmpArg = Arg_string string | Arg_number u64

datatype QmpRequest =
    Device_add string string string "(string \<times> QmpArg) list"
  | Device_del string
  | System_powerdown
  | System_wakeup
  | Input_send_event "QmpInputEvent list"
  | Blockdev_snapshot_sync string string string string
  | Block_commit string string
  | Block_job_complete string
  | Blockdev_del string

text \<open>\<^verbatim>\<open>ExecuteError::Io\<close>, and every other error.\<close>

datatype Exec_result = Exec_ok | Exec_io_error | Exec_refused

text \<open>
  The client while one command runs: its answers, the names of its enumerations of axes and key
  codes, the order in which a \<^verbatim>\<open>HashSet\<close> of keys is drained, and whether a file can be removed.
\<close>

record Qapi =
  qa_result :: "QmpRequest \<Rightarrow> Exec_result"
  qa_axes :: "string set"
  qa_qkeycodes :: "string set"
  qa_drain :: "KeyValue set \<Rightarrow> KeyValue list"
  qa_remove_ok :: "string \<Rightarrow> bool"

subsection \<open>State\<close>

text \<open>\<open>Ack_sent\<close> answers the one-shot channel of a command; dropping its sender is no effect.\<close>

datatype Monitor_effect =
    Executed QmpRequest Exec_result
  | File_removed string
  | Ack_sent nat

record Monitor =
  mn_held_keys :: "KeyValue set"
  mn_pending :: "string \<Rightarrow> (string \<times> nat) option"
  mn_running :: bool
  mn_log :: "Monitor_effect list"

definition Monitor_new :: Monitor where
  "Monitor_new = \<lparr>mn_held_keys = {}, mn_pending = Map.empty, mn_running = True, mn_log = []\<rparr>"

definition mn_emit :: "Monitor_effect list \<Rightarrow> Monitor \<Rightarrow> Monitor" where
  "mn_emit es m = m\<lparr>mn_log := mn_log m @ es\<rparr>"

definition mn_execute :: "Qapi \<Rightarrow> QmpRequest \<Rightarrow> Monitor \<Rightarrow> Exec_result \<times> Monitor" where
  "mn_execute q req m = (qa_result q req, mn_emit [Executed req (qa_result q req)] m)"

subsection \<open>Commands\<close>

text \<open>The keys held down after an event, and the events as QAPI has them.\<close>

fun hold_key :: "InputEvent \<Rightarrow> KeyValue set \<Rightarrow> KeyValue set" where
  "hold_key (KeyEvent key True) K = insert key K"
| "hold_key (KeyEvent key False) K = K - {key}"
| "hold_key _ K = K"

fun convert_events :: "Qapi \<Rightarrow> InputEvent list \<Rightarrow> panic + QmpInputEvent list" where
  "convert_events q [] = Inr []"
| "convert_events q (e # es) =
     (case InputEvent_into (qa_axes q) (qa_qkeycodes q) e of
        None \<Rightarrow> Inl Unknown_input_name
      | Some i \<Rightarrow> and_then (convert_events q es) (\<lambda>is. Inr (i # is)))"

definition send_events :: "Qapi \<Rightarrow> InputEvent list \<Rightarrow> Monitor \<Rightarrow> panic + Exec_result \<times> Monitor" where
  "send_events q events m =
     and_then (convert_events q events) (\<lambda>is. Inr (mn_execute q (Input_send_event is) m))"

definition disk_name :: "usize \<Rightarrow> string" where
  "disk_name i = ''disk'' @ decimal i"

definition snap_name :: "string \<Rightarrow> string" where
  "snap_name disk = disk @ ''_snap''"

definition take_snapshot :: "Qapi \<Rightarrow> usize \<Rightarrow> string \<Rightarrow> nat \<Rightarrow> Monitor \<Rightarrow> Exec_result \<times> Monitor" where
  "take_snapshot q i file ack m =
     (let (res, m) = mn_execute q
            (Blockdev_snapshot_sync (disk_name i) file (snap_name (disk_name i)) ''qcow2'') m in
      (res, if res = Exec_ok then mn_emit [Ack_sent ack] m else m))"

definition commit_snapshot :: "Qapi \<Rightarrow> usize \<Rightarrow> string \<Rightarrow> nat \<Rightarrow> Monitor \<Rightarrow> Exec_result \<times> Monitor" where
  "commit_snapshot q i file ack m =
     (let jobid = disk_name i in
      mn_execute q (Block_commit jobid (snap_name (disk_name i)))
        (m\<lparr>mn_pending := (mn_pending m)(jobid \<mapsto> (file, ack))\<rparr>))"

definition job_ready :: "Qapi \<Rightarrow> string \<Rightarrow> Monitor \<Rightarrow> panic + Exec_result \<times> Monitor" where
  "job_ready q device m =
     (case mn_pending m device of
        None \<Rightarrow> Inl Unknown_job
      | Some (file, ack) \<Rightarrow>
          (let (res, m) = mn_execute q (Block_job_complete device)
                 (m\<lparr>mn_pending := (mn_pending m)(device := None)\<rparr>) in
           if res = Exec_ok then
             (let (_, m) = mn_execute q (Blockdev_del (snap_name device)) m in
              if qa_remove_ok q file then Inr (res, mn_emit [File_removed file, Ack_sent ack] m)
              else Inl Remove_file_failed)
           else Inr (res, m)))"

definition monitor_command :: "Qapi \<Rightarrow> QmpCommand \<Rightarrow> Monitor \<Rightarrow> panic + Exec_result \<times> Monitor" where
  "monitor_command q cmd m =
     (case cmd of
        DeviceAdd driver i bus port hostbus hostaddr \<Rightarrow>
          Inr (mn_execute q (Device_add driver i bus
            [(''port'', Arg_string (decimal port)), (''hostbus'', Arg_number hostbus),
             (''hostaddr'', Arg_number hostaddr)]) m)
      | DeviceDel i \<Rightarrow> Inr (mn_execute q (Device_del i) m)
      | SystemPowerdown \<Rightarrow> Inr (mn_execute q System_powerdown m)
      | SystemWakeup \<Rightarrow> Inr (mn_execute q System_wakeup m)
      | InputSendEvent events \<Rightarrow>
          send_events q events (m\<lparr>mn_held_keys := fold hold_key events (mn_held_keys m)\<rparr>)
      | ReleaseAllKeys \<Rightarrow>
          send_events q (map (\<lambda>key. KeyEvent key False) (qa_drain q (mn_held_keys m)))
            (m\<lparr>mn_held_keys := {}\<rparr>)
      | TakeSnapshot i file ack \<Rightarrow> Inr (take_snapshot q i file ack m)
      | CommitSnapshot i file ack \<Rightarrow> Inr (commit_snapshot q i file ack m)
      | JobReady device \<Rightarrow> job_ready q device m)"

text \<open>
  One turn of the loop. An I/O error ends the task, and with it the queue and the pending commits.
\<close>

definition monitor_step :: "Qapi \<Rightarrow> QmpCommand \<Rightarrow> Monitor \<Rightarrow> panic + Monitor" where
  "monitor_step q cmd m =
     (if mn_running m then
        and_then (monitor_command q cmd m) (\<lambda>(res, m).
          Inr (if res = Exec_io_error then m\<lparr>mn_running := False, mn_pending := Map.empty\<rparr> else m))
      else Inr m)"

text \<open>The loop over the queue, each command with what the client answers while it runs.\<close>

definition monitor_run :: "(Qapi \<times> QmpCommand) list \<Rightarrow> Monitor \<Rightarrow> panic + Monitor" where
  "monitor_run = for_each_res (\<lambda>(q, cmd). monitor_step q cmd)"

text \<open>
  What has become of the one-shot channel of a command: answered, still held by a pending commit or
  by a command in the queue of a running task, or dropped.
\<close>

definition holds_ack :: "nat \<Rightarrow> QmpCommand \<Rightarrow> bool" where
  "holds_ack a cmd \<longleftrightarrow> (\<exists>i f. cmd = TakeSnapshot i f a \<or> cmd = CommitSnapshot i f a)"

definition monitor_answer :: "QmpCommand list \<Rightarrow> Monitor \<Rightarrow> nat \<Rightarrow> bool option" where
  "monitor_answer queue m a =
     (if Ack_sent a \<in> set (mn_log m) then Some True
      else if mn_running m \<and> ((\<exists>cmd\<in>set queue. holds_ack a cmd) \<or> a \<in> snd ` ran (mn_pending m)) then None
      else Some False)"

subsection \<open>Events\<close>

text \<open>The events the driver looks at: a suspend, and a block job that is ready.\<close>

datatype QapiEvent = SUSPEND | BLOCK_JOB_READY string | Other_event

text \<open>A ready job is queued as a command for the other task, if it still runs.\<close>

definition monitor_event :: "QapiEvent \<Rightarrow> QmpCommand list \<times> Controller \<Rightarrow> QmpCommand list \<times> Controller" where
  "monitor_event e s =
     (let (queue, c) = s in
      case e of
        SUSPEND \<Rightarrow> (queue, qemu_suspended c)
      | BLOCK_JOB_READY device \<Rightarrow> (queue @ [JobReady device], c)
      | Other_event \<Rightarrow> s)"

subsection \<open>Reading the log\<close>

text \<open>The keys the guest has down after the events that were delivered.\<close>

fun guest_key :: "QmpInputEvent \<Rightarrow> string set \<Rightarrow> string set" where
  "guest_key (Qmp_key s True) K = insert s K"
| "guest_key (Qmp_key s False) K = K - {s}"
| "guest_key _ K = K"

fun guest_after :: "Monitor_effect \<Rightarrow> string set \<Rightarrow> string set" where
  "guest_after (Executed (Input_send_event is) Exec_ok) K = fold guest_key is K"
| "guest_after _ K = K"

definition guest_keys :: "Monitor_effect list \<Rightarrow> string set" where
  "guest_keys log = fold guest_after log {}"

primrec key_name :: "KeyValue \<Rightarrow> string" where
  "key_name (Qcode s) = s"

subsection \<open>Held keys\<close>

text \<open>Every input event is delivered, and a set of keys is drained to its elements.\<close>

definition input_works :: "Qapi \<Rightarrow> bool" where
  "input_works q \<longleftrightarrow>
     (\<forall>is. qa_result q (Input_send_event is) = Exec_ok) \<and> (\<forall>K. finite K \<longrightarrow> set (qa_drain q K) = K)"

definition keys_ok :: "Monitor \<Rightarrow> bool" where
  "keys_ok m \<longleftrightarrow> finite (mn_held_keys m) \<and> guest_keys (mn_log m) = key_name ` mn_held_keys m"

lemma key_name_inj: "inj key_name"
proof (rule injI)
  fix k l assume "key_name k = key_name l"
  then show "k = l" by (cases k; cases l) simp
qed

lemma convert_events_keys:
  "convert_events q es = Inr is \<Longrightarrow> fold guest_key is (key_name ` K) = key_name ` fold hold_key es K"
proof (induction es arbitrary: "is" K)
  case (Cons e es)
  then obtain i js where i: "InputEvent_into (qa_axes q) (qa_qkeycodes q) e = Some i"
      "convert_events q es = Inr js" "is = i # js"
    by (auto simp: res_simps split: option.splits)
  have "guest_key i (key_name ` K) = key_name ` hold_key e K"
  proof (cases e)
    case (KeyEvent key down)
    then obtain s where "key = Qcode s" "i = Qmp_key s down" using i(1) by (cases key) (auto split: if_splits)
    with KeyEvent show ?thesis
      using image_set_diff [OF key_name_inj, of K "{Qcode s}"] by (cases down) simp_all
  qed (use i(1) in \<open>auto split: if_splits\<close>)
  with Cons.IH [OF i(2)] i(3) show ?case by simp
qed simp

lemma hold_key_finite: "finite K \<Longrightarrow> finite (fold hold_key es K)"
proof (induction es arbitrary: K)
  case (Cons e es)
  have "finite (hold_key e K)" using Cons.prems by (induction e K rule: hold_key.induct) simp_all
  with Cons.IH show ?case by simp
qed simp

lemma guest_keys_append [simp]: "guest_keys (log @ es) = fold guest_after es (guest_keys log)"
  by (simp add: guest_keys_def)

lemma mn_execute_simps [simp]:
  "fst (mn_execute q req m) = qa_result q req"
  "snd (mn_execute q req m) = mn_emit [Executed req (qa_result q req)] m"
  by (simp_all add: mn_execute_def)

lemma mn_emit_fields [simp]:
  "mn_held_keys (mn_emit es m) = mn_held_keys m" "mn_pending (mn_emit es m) = mn_pending m"
  "mn_running (mn_emit es m) = mn_running m" "mn_log (mn_emit es m) = mn_log m @ es"
  by (simp_all add: mn_emit_def)

lemma send_events_keys:
  assumes "send_events q es m = Inr (res, m')" and "input_works q"
    and "guest_keys (mn_log m) = key_name ` K"
  shows "mn_held_keys m' = mn_held_keys m" and "guest_keys (mn_log m') = key_name ` fold hold_key es K"
proof -
  from assms(1) obtain "is" where i: "convert_events q es = Inr is"
      "m' = mn_emit [Executed (Input_send_event is) (qa_result q (Input_send_event is))] m"
    by (auto simp: send_events_def res_simps mn_execute_def)
  with assms(2,3) convert_events_keys [OF i(1), of K]
  show "mn_held_keys m' = mn_held_keys m" "guest_keys (mn_log m') = key_name ` fold hold_key es K"
    by (simp_all add: input_works_def)
qed

lemma hold_key_release: "fold hold_key (map (\<lambda>k. KeyEvent k False) ks) K = K - set ks"
  by (induction ks arbitrary: K) auto

text \<open>Requests other than input events leave the guest's keys alone.\<close>

lemma guest_after_other:
  "\<forall>is. req \<noteq> Input_send_event is \<Longrightarrow> guest_after (Executed req r) K = K"
  by (cases req; cases r) auto

lemma monitor_command_keys:
  assumes "monitor_command q cmd m = Inr (res, m')" and "input_works q" and "keys_ok m"
  shows "keys_ok m'" and "cmd = ReleaseAllKeys \<Longrightarrow> mn_held_keys m' = {}"
proof -
  have "keys_ok m' \<and> (cmd = ReleaseAllKeys \<longrightarrow> mn_held_keys m' = {})"
  proof (cases cmd)
    case (InputSendEvent es)
    let ?m = "m\<lparr>mn_held_keys := fold hold_key es (mn_held_keys m)\<rparr>"
    from InputSendEvent assms(1) have "send_events q es ?m = Inr (res, m')" by (simp add: monitor_command_def)
    from send_events_keys [OF this assms(2), of "mn_held_keys m"] assms(3) InputSendEvent show ?thesis
      by (simp add: keys_ok_def hold_key_finite)
  next
    case ReleaseAllKeys
    let ?ks = "qa_drain q (mn_held_keys m)"
    have ks: "set ?ks = mn_held_keys m" using assms(2,3) by (simp add: input_works_def keys_ok_def)
    from ReleaseAllKeys assms(1) have
      "send_events q (map (\<lambda>key. KeyEvent key False) ?ks) (m\<lparr>mn_held_keys := {}\<rparr>) = Inr (res, m')"
      by (simp add: monitor_command_def)
    from send_events_keys [OF this assms(2), of "mn_held_keys m"] assms(3) ks show ?thesis
      by (simp add: keys_ok_def hold_key_release)
  next
    case (JobReady device)
    with assms(1,3) show ?thesis
      by (auto simp: monitor_command_def job_ready_def keys_ok_def mn_execute_def guest_after_other Let_def
          split: option.splits if_splits)
  next
    case (TakeSnapshot i f a)
    with assms(1,3) show ?thesis
      by (auto simp: monitor_command_def take_snapshot_def keys_ok_def mn_execute_def guest_after_other Let_def
          split: if_splits)
  qed (use assms(1,3) in \<open>auto simp: monitor_command_def keys_ok_def mn_execute_def commit_snapshot_def
      guest_after_other Let_def\<close>)
  then show "keys_ok m'" "cmd = ReleaseAllKeys \<Longrightarrow> mn_held_keys m' = {}" by blast+
qed

lemma monitor_step_keys:
  assumes "monitor_step q cmd m = Inr m'" and "input_works q" and "keys_ok m"
  shows "keys_ok m'"
proof (cases "mn_running m")
  case True
  with assms(1) obtain res m1 where m1: "monitor_command q cmd m = Inr (res, m1)"
      "m' = (if res = Exec_io_error then m1\<lparr>mn_running := False, mn_pending := Map.empty\<rparr> else m1)"
    by (auto simp: monitor_step_def res_simps)
  from monitor_command_keys(1) [OF m1(1) assms(2,3)] m1(2) show ?thesis by (simp add: keys_ok_def)
qed (use assms in \<open>simp add: monitor_step_def\<close>)

lemma monitor_run_keys:
  assumes "monitor_run cmds m = Inr m'" and "\<forall>(q, _)\<in>set cmds. input_works q" and "keys_ok m"
  shows "keys_ok m'"
  using assms(1) [unfolded monitor_run_def] assms(3)
  by (rule for_each_res_inv) (use assms(2) in \<open>auto intro: monitor_step_keys\<close>)

subsection \<open>Snapshot files\<close>

definition commit_done :: "Monitor_effect list \<Rightarrow> bool" where
  "commit_done log \<longleftrightarrow>
     (\<exists>i r. Executed (Block_commit (disk_name i) (snap_name (disk_name i))) r \<in> set log \<and>
        Executed (Block_job_complete (disk_name i)) Exec_ok \<in> set log)"

definition removals_ok :: "Monitor_effect list \<Rightarrow> bool" where
  "removals_ok log \<longleftrightarrow> (\<forall>xs f ys. log = xs @ File_removed f # ys \<longrightarrow> commit_done xs)"

text \<open>A pending commit was asked for.\<close>

definition pending_ok :: "Monitor \<Rightarrow> bool" where
  "pending_ok m \<longleftrightarrow>
     (\<forall>d p. mn_pending m d = Some p \<longrightarrow>
       (\<exists>i r. d = disk_name i \<and> Executed (Block_commit d (snap_name d)) r \<in> set (mn_log m)))"

lemma removals_ok_snoc:
  "removals_ok (log @ [e]) \<longleftrightarrow> removals_ok log \<and> (\<forall>f. e = File_removed f \<longrightarrow> commit_done log)"
proof
  assume a: "removals_ok (log @ [e])"
  have "commit_done xs" if "log = xs @ File_removed f # ys" for xs f ys
    using a that by (auto simp: removals_ok_def)
  moreover have "commit_done log" if "e = File_removed f" for f
    using a that unfolding removals_ok_def by blast
  ultimately show "removals_ok log \<and> (\<forall>f. e = File_removed f \<longrightarrow> commit_done log)"
    by (auto simp: removals_ok_def)
next
  assume a: "removals_ok log \<and> (\<forall>f. e = File_removed f \<longrightarrow> commit_done log)"
  show "removals_ok (log @ [e])"
    unfolding removals_ok_def
  proof (intro allI impI)
    fix xs f ys assume eq: "log @ [e] = xs @ File_removed f # ys"
    with a show "commit_done xs" by (cases ys rule: rev_cases) (auto simp: removals_ok_def)
  qed
qed

lemma pending_ok_mono:
  "pending_ok m \<Longrightarrow> mn_pending m' = mn_pending m \<Longrightarrow> set (mn_log m) \<subseteq> set (mn_log m') \<Longrightarrow> pending_ok m'"
  unfolding pending_ok_def by (metis subsetD)

lemma removals_ok_snoc2:
  "removals_ok (log @ [e, f]) \<longleftrightarrow> removals_ok (log @ [e]) \<and> (\<forall>g. f = File_removed g \<longrightarrow> commit_done (log @ [e]))"
  using removals_ok_snoc [of "log @ [e]" f] by simp

definition commits_ok :: "Monitor \<Rightarrow> bool" where
  "commits_ok m \<longleftrightarrow> removals_ok (mn_log m) \<and> pending_ok m"

lemma commits_ok_execute:
  assumes "commits_ok m"
  shows "commits_ok (mn_emit [Executed req r] m)"
  using assms by (fastforce simp: commits_ok_def pending_ok_def removals_ok_snoc)

lemma commits_ok_removed:
  assumes "commits_ok n" and "commit_done (mn_log n)"
  shows "commits_ok (mn_emit [File_removed snap, Ack_sent ack] n)"
  unfolding commits_ok_def
proof
  show "removals_ok (mn_log (mn_emit [File_removed snap, Ack_sent ack] n))"
    using assms by (simp add: commits_ok_def removals_ok_snoc2 removals_ok_snoc)
  show "pending_ok (mn_emit [File_removed snap, Ack_sent ack] n)"
    by (rule pending_ok_mono [of n]) (use assms(1) in \<open>auto simp: commits_ok_def\<close>)
qed

lemma job_ready_commits:
  assumes "job_ready q device m = Inr (res, m')" and "commits_ok m"
  shows "commits_ok m'"
proof -
  from assms(1) obtain snap ack where p: "mn_pending m device = Some (snap, ack)"
    by (auto simp: job_ready_def split: option.splits)
  from assms(2) have "pending_ok m" by (simp add: commits_ok_def)
  with p obtain i r where i: "device = disk_name i"
      "Executed (Block_commit device (snap_name device)) r \<in> set (mn_log m)"
    unfolding pending_ok_def by blast
  let ?m = "m\<lparr>mn_pending := (mn_pending m)(device := None)\<rparr>"
  have "commits_ok ?m" using assms(2) by (auto simp: commits_ok_def pending_ok_def)
  note 1 = commits_ok_execute [OF this, of "Block_job_complete device" "qa_result q (Block_job_complete device)"]
  note 2 = commits_ok_execute [OF this, of "Blockdev_del (snap_name device)" "qa_result q (Blockdev_del (snap_name device))"]
  show ?thesis
  proof (cases "qa_result q (Block_job_complete device) = Exec_ok")
    case False
    with p assms(1) 1 show ?thesis by (auto simp: job_ready_def mn_execute_def)
  next
    case True
    let ?n = "mn_emit [Executed (Blockdev_del (snap_name device)) (qa_result q (Blockdev_del (snap_name device)))]
      (mn_emit [Executed (Block_job_complete device) (qa_result q (Block_job_complete device))] ?m)"
    have "commit_done (mn_log ?n)" using i True by (auto simp: commit_done_def)
    with 2 have "commits_ok (mn_emit [File_removed snap, Ack_sent ack] ?n)" by (rule commits_ok_removed)
    moreover from True p assms(1) have "m' = mn_emit [File_removed snap, Ack_sent ack] ?n"
      by (auto simp: job_ready_def mn_execute_def Let_def split: if_splits)
    ultimately show ?thesis by simp
  qed
qed

lemma send_events_commits:
  "send_events q es m = Inr (res, m') \<Longrightarrow> commits_ok m \<Longrightarrow> commits_ok m'"
  by (auto simp: send_events_def res_simps mn_execute_def intro: commits_ok_execute)

lemma monitor_command_commits:
  assumes "monitor_command q cmd m = Inr (res, m')" and "commits_ok m"
  shows "commits_ok m'"
proof (cases cmd)
  case (InputSendEvent es)
  have "commits_ok (m\<lparr>mn_held_keys := K\<rparr>)" for K
    using assms(2) by (simp add: commits_ok_def pending_ok_def)
  with InputSendEvent assms(1) show ?thesis
    by (auto simp: monitor_command_def intro: send_events_commits)
next
  case ReleaseAllKeys
  have "commits_ok (m\<lparr>mn_held_keys := K\<rparr>)" for K
    using assms(2) by (simp add: commits_ok_def pending_ok_def)
  with ReleaseAllKeys assms(1) show ?thesis
    by (auto simp: monitor_command_def intro: send_events_commits)
next
  case (TakeSnapshot i f a)
  have "commits_ok (mn_emit [Ack_sent a] n)" if "commits_ok n" for n
    using that by (fastforce simp: commits_ok_def pending_ok_def removals_ok_snoc)
  with TakeSnapshot assms show ?thesis
    by (auto simp: monitor_command_def take_snapshot_def mn_execute_def Let_def intro: commits_ok_execute
        split: if_splits)
next
  case (CommitSnapshot i f a)
  let ?d = "disk_name i"
  let ?r = "Executed (Block_commit ?d (snap_name ?d)) (qa_result q (Block_commit ?d (snap_name ?d)))"
  from CommitSnapshot assms(1) have "mn_log m' = mn_log m @ [?r]" "mn_pending m' = (mn_pending m)(?d \<mapsto> (f, a))"
    by (auto simp: monitor_command_def commit_snapshot_def mn_execute_def Let_def)
  with assms(2) show ?thesis
    by (auto simp: commits_ok_def pending_ok_def removals_ok_snoc)
next
  case (JobReady d)
  with assms show ?thesis by (auto simp: monitor_command_def intro: job_ready_commits)
qed (use assms in \<open>auto simp: monitor_command_def mn_execute_def intro: commits_ok_execute\<close>)

lemma monitor_run_commits:
  assumes "monitor_run cmds m = Inr m'" and "commits_ok m"
  shows "commits_ok m'"
  using assms(1) [unfolded monitor_run_def] assms(2)
proof (rule for_each_res_inv)
  fix x n n' assume "(case x of (q, cmd) \<Rightarrow> monitor_step q cmd) n = Inr n'" "commits_ok n"
  moreover have "commits_ok (m1\<lparr>mn_running := False, mn_pending := Map.empty\<rparr>)" if "commits_ok m1" for m1
    using that by (simp add: commits_ok_def pending_ok_def)
  ultimately show "commits_ok n'"
    by (cases x) (auto simp: monitor_step_def res_simps dest: monitor_command_commits split: if_splits)
qed

end
