(* ===== verification/Monitor_Properties.thy ===== *)
theory Monitor_Properties
  imports Monitor Demo "HOL-Library.List_Lexorder" "HOL-Library.Char_ord"
begin

text \<open>
  What the monitor task guarantees, alone and together with the controller that feeds it.
\<close>

definition demo_qapi :: Qapi where
  "demo_qapi =
     \<lparr>qa_result = (\<lambda>_. Exec_ok), qa_axes = {''x'', ''y''}, qa_qkeycodes = {''a'', ''b''},
      qa_drain = (\<lambda>K. map Qcode (sorted_list_of_set (key_name ` K))), qa_remove_ok = (\<lambda>_. True)\<rparr>"

lemma Qcode_key_name [simp]: "Qcode (key_name k) = k"
  by (cases k) simp

lemma demo_input_works: "input_works demo_qapi"
  by (auto simp: input_works_def demo_qapi_def image_image)

text \<open>
  C23: Invariant: while QEMU takes the input events, the keys that are down in the guest are
  exactly those the task remembers; so after \<^verbatim>\<open>ReleaseAllKeys\<close> no key is left hanging.
\<close>

theorem no_hung_keys:
  assumes "monitor_run cmds Monitor_new = Inr m" and "\<forall>(q, _)\<in>set cmds. input_works q"
  shows "guest_keys (mn_log m) = key_name ` mn_held_keys m \<and>
    (\<forall>q m'. input_works q \<and> mn_running m \<and> monitor_step q ReleaseAllKeys m = Inr m' \<longrightarrow>
      guest_keys (mn_log m') = {})"
proof -
  have "keys_ok Monitor_new" by (simp add: keys_ok_def Monitor_new_def guest_keys_def)
  from monitor_run_keys [OF assms this] have k: "keys_ok m" .
  moreover have "guest_keys (mn_log m') = {}"
    if q: "input_works q" and "mn_running m" and "monitor_step q ReleaseAllKeys m = Inr m'" for q m'
  proof -
    from that obtain res m1 where m1: "monitor_command q ReleaseAllKeys m = Inr (res, m1)"
        "m' = (if res = Exec_io_error then m1\<lparr>mn_running := False, mn_pending := Map.empty\<rparr> else m1)"
      by (auto simp: monitor_step_def res_simps)
    from monitor_command_keys [OF m1(1) q k] m1(2) show ?thesis by (simp add: keys_ok_def)
  qed
  ultimately show ?thesis unfolding keys_ok_def by blast
qed

theorem no_hung_keys_witness:
  "\<exists>m m'. monitor_run [(demo_qapi, InputSendEvent [KeyEvent (Qcode ''a'') True]),
       (demo_qapi, InputSendEvent [Rel ''x'' 4, KeyEvent (Qcode ''b'') True])] Monitor_new = Inr m \<and>
     guest_keys (mn_log m) = {''a'', ''b''} \<and>
     monitor_step demo_qapi ReleaseAllKeys m = Inr m' \<and> guest_keys (mn_log m') = {}"
proof -
  let ?cmds = "[(demo_qapi, InputSendEvent [KeyEvent (Qcode ''a'') True]),
       (demo_qapi, InputSendEvent [Rel ''x'' 4, KeyEvent (Qcode ''b'') True])]"
  have "\<exists>m. monitor_run ?cmds Monitor_new = Inr m \<and> mn_running m \<and> mn_held_keys m = {Qcode ''a'', Qcode ''b''}"
    by (auto simp: monitor_run_def monitor_step_def monitor_command_def send_events_def
        mn_execute_def mn_emit_def Monitor_new_def demo_qapi_def Let_def)
  then obtain m where m: "monitor_run ?cmds Monitor_new = Inr m" "mn_running m"
      "mn_held_keys m = {Qcode ''a'', Qcode ''b''}"
    by (elim exE conjE)
  have works: "\<forall>(q, _)\<in>set ?cmds. input_works q" by (simp add: demo_input_works)
  have "set (qa_drain demo_qapi (mn_held_keys m)) = {Qcode ''a'', Qcode ''b''}"
    using demo_input_works m(3) by (simp add: input_works_def)
  then have "set (map (\<lambda>key. KeyEvent key False) (qa_drain demo_qapi (mn_held_keys m))) \<subseteq>
      {KeyEvent (Qcode ''a'') False, KeyEvent (Qcode ''b'') False}" by auto
  moreover have "\<exists>is. convert_events demo_qapi es = Inr is"
    if "set es \<subseteq> {KeyEvent (Qcode ''a'') False, KeyEvent (Qcode ''b'') False}" for es
    using that by (induction es) (auto simp: demo_qapi_def)
  ultimately obtain "is" where "convert_events demo_qapi
      (map (\<lambda>key. KeyEvent key False) (qa_drain demo_qapi (mn_held_keys m))) = Inr is" by blast
  with m(2) obtain m' where m': "monitor_step demo_qapi ReleaseAllKeys m = Inr m'"
    by (simp add: monitor_step_def monitor_command_def send_events_def mn_execute_def)
  from no_hung_keys [OF m(1) works] m m' demo_input_works show ?thesis by auto
qed



text \<open>
  A ready job that no pending commit belongs to, such as the second report of one or a job
  another QMP client started, panics the driver.
\<close>

lemma foreign_job_panics:
  assumes "mn_running m" and "mn_pending m device = None"
  shows "monitor_step q (JobReady device) m = Inl Unknown_job"
  using assms by (simp add: monitor_step_def monitor_command_def job_ready_def)

lemma foreign_job_panics_witness:
  "monitor_run [(demo_qapi, CommitSnapshot 0 ''s.qcow2'' 7), (demo_qapi, JobReady (disk_name 0)),
     (demo_qapi, JobReady (disk_name 0))] Monitor_new = Inl Unknown_job"
proof -
  have "\<exists>m. monitor_run [(demo_qapi, CommitSnapshot 0 ''s.qcow2'' 7), (demo_qapi, JobReady (disk_name 0))] Monitor_new = Inr m \<and>
      mn_running m \<and> mn_pending m (disk_name 0) = None"
    by (simp add: monitor_run_def monitor_step_def monitor_command_def commit_snapshot_def job_ready_def
        mn_execute_def mn_emit_def Monitor_new_def demo_qapi_def Let_def)
  then obtain m where m: "monitor_run [(demo_qapi, CommitSnapshot 0 ''s.qcow2'' 7), (demo_qapi, JobReady (disk_name 0))] Monitor_new = Inr m"
      "mn_running m" "mn_pending m (disk_name 0) = None"
    by (elim exE conjE)
  from foreign_job_panics [OF m(2,3), of demo_qapi] m(1) show ?thesis
    using for_each_res_append [of "\<lambda>(q, cmd). monitor_step q cmd"
        "[(demo_qapi, CommitSnapshot 0 ''s.qcow2'' 7), (demo_qapi, JobReady (disk_name 0))]"
        "[(demo_qapi, JobReady (disk_name 0))]" Monitor_new]
    by (simp add: monitor_run_def)
qed

subsection \<open>Backups\<close>

lemma set_enumerate_iff: "(k, d) \<in> set (enumerate n ds) \<longleftrightarrow> (\<exists>j<length ds. k = n + j \<and> d = ds ! j)"
proof
  assume "(k, d) \<in> set (enumerate n ds)"
  then show "\<exists>j<length ds. k = n + j \<and> d = ds ! j"
    by (intro exI [of _ "k - n"]) (auto simp: in_set_enumerate_eq)
qed (auto simp: in_set_enumerate_eq)

definition snapshot_request :: "usize \<Rightarrow> string \<Rightarrow> QmpRequest" where
  "snapshot_request i f = Blockdev_snapshot_sync (disk_name i) f (snap_name (disk_name i)) ''qcow2''"

text \<open>Executing a list of snapshot commands: each is answered when it and all before it went well.\<close>

lemma take_snapshots_run:
  "\<exists>m'. monitor_run (map (\<lambda>(k, (i, f)). (q, TakeSnapshot i f k)) ds) m = Inr m' \<and>
     (\<forall>a. Ack_sent a \<in> set (mn_log m') \<longrightarrow> Ack_sent a \<in> set (mn_log m) \<or>
        (\<exists>(k, (i, f))\<in>set ds. a = k \<and> qa_result q (snapshot_request i f) = Exec_ok)) \<and>
     (mn_running m \<and> (\<forall>(k, (i, f))\<in>set ds. qa_result q (snapshot_request i f) = Exec_ok) \<longrightarrow>
        (\<forall>(k, (i, f))\<in>set ds. Ack_sent k \<in> set (mn_log m'))) \<and>
     set (mn_log m) \<subseteq> set (mn_log m')"
proof (induction ds arbitrary: m)
  case (Cons d ds)
  obtain k i f where d: "d = (k, (i, f))" by (cases d) auto
  let ?r = "qa_result q (snapshot_request i f)"
  obtain m1 where m1: "monitor_step q (TakeSnapshot i f k) m = Inr m1"
      "\<forall>a. Ack_sent a \<in> set (mn_log m1) \<longrightarrow> Ack_sent a \<in> set (mn_log m) \<or> (a = k \<and> ?r = Exec_ok)"
      "mn_running m \<and> ?r = Exec_ok \<longrightarrow> Ack_sent k \<in> set (mn_log m1) \<and> mn_running m1"
      "set (mn_log m) \<subseteq> set (mn_log m1)"
    by (cases "mn_running m"; cases ?r)
      (auto simp: monitor_step_def monitor_command_def take_snapshot_def mn_execute_def snapshot_request_def Let_def)
  from Cons.IH [of m1] obtain m' where m': "monitor_run (map (\<lambda>(k, (i, f)). (q, TakeSnapshot i f k)) ds) m1 = Inr m'"
      "\<forall>a. Ack_sent a \<in> set (mn_log m') \<longrightarrow> Ack_sent a \<in> set (mn_log m1) \<or>
        (\<exists>(k, (i, f))\<in>set ds. a = k \<and> qa_result q (snapshot_request i f) = Exec_ok)"
      "mn_running m1 \<and> (\<forall>(k, (i, f))\<in>set ds. qa_result q (snapshot_request i f) = Exec_ok) \<longrightarrow>
        (\<forall>(k, (i, f))\<in>set ds. Ack_sent k \<in> set (mn_log m'))"
      "set (mn_log m1) \<subseteq> set (mn_log m')"
    by (elim exE conjE)
  have "monitor_run (map (\<lambda>(k, (i, f)). (q, TakeSnapshot i f k)) (d # ds)) m = Inr m'"
    using m1(1) m'(1) by (simp add: monitor_run_def d)
  moreover have "Ack_sent a \<in> set (mn_log m) \<or>
      (\<exists>(k, (i, f))\<in>set (d # ds). a = k \<and> qa_result q (snapshot_request i f) = Exec_ok)"
    if "Ack_sent a \<in> set (mn_log m')" for a
    using that m1(2) m'(2) d by (auto 0 3)
  moreover have "\<forall>(k, (i, f))\<in>set (d # ds). Ack_sent k \<in> set (mn_log m')"
    if "mn_running m" "\<forall>(k, (i, f))\<in>set (d # ds). qa_result q (snapshot_request i f) = Exec_ok"
    using that m1(3) m'(3,4) d by auto
  ultimately show ?case using m1(4) m'(4) by blast
qed (simp add: monitor_run_def)

text \<open>
  C9: Functional: the client of \<^verbatim>\<open>backup start\<close> gets its acknowledgement exactly when QEMU has taken
  the snapshot of every disk that needed one; the controller, its waiting task and the monitor
  together.
\<close>

theorem backup_acked_iff_snapshotted:
  assumes "enter_backup_mode w ack c = Inr c'" and "mn_running m"
    and "\<forall>a. c_next c \<le> a \<longrightarrow> Ack_sent a \<notin> set (mn_log m)"
  shows "\<exists>cmds acks m'. c_trace c' = c_trace c @ map To_monitor cmds @ [Wait_for_acks acks ack] \<and>
    monitor_run (map (Pair q) cmds) m = Inr m' \<and>
    (await_acks (monitor_answer [] m') acks = Some True \<longleftrightarrow>
      (\<forall>i f. i < length (mc_storage (c_machine_config c)) \<and>
        sto_snapshot_file (mc_storage (c_machine_config c) ! i) = Some f \<and> \<not> w_path_exists w f \<longrightarrow>
        qa_result q (snapshot_request i f) = Exec_ok))"
proof -
  let ?ds = "snapshot_disks (\<lambda>s. \<not> w_path_exists w s) (mc_storage (c_machine_config c))"
  let ?n = "c_next c"
  let ?cmds = "snapshot_commands TakeSnapshot ?ds ?n" and ?acks = "[?n..<?n + length ?ds]"
  have trace: "c_trace c' = c_trace c @ map To_monitor ?cmds @ [Wait_for_acks ?acks ack]"
    using backup_mode_Inr [OF assms(1) [unfolded enter_backup_mode_def]] by simp
  have cmds: "map (Pair q) ?cmds = map (\<lambda>(k, (i, f)). (q, TakeSnapshot i f k)) (enumerate ?n ?ds)"
    by (simp add: snapshot_commands_def split_def comp_def)
  obtain m' where m': "monitor_run (map (Pair q) ?cmds) m = Inr m'"
      "\<forall>a. Ack_sent a \<in> set (mn_log m') \<longrightarrow> Ack_sent a \<in> set (mn_log m) \<or>
        (\<exists>(k, (i, f))\<in>set (enumerate ?n ?ds). a = k \<and> qa_result q (snapshot_request i f) = Exec_ok)"
      "mn_running m \<and> (\<forall>(k, (i, f))\<in>set (enumerate ?n ?ds). qa_result q (snapshot_request i f) = Exec_ok) \<longrightarrow>
        (\<forall>(k, (i, f))\<in>set (enumerate ?n ?ds). Ack_sent k \<in> set (mn_log m'))"
    using take_snapshots_run [of q "enumerate ?n ?ds" m] unfolding cmds by (elim exE conjE)
  let ?ok = "\<lambda>(i, f). qa_result q (snapshot_request i f) = Exec_ok"
  note enum = set_enumerate_iff [of _ _ ?n ?ds]
  have "await_acks (monitor_answer [] m') ?acks = Some True \<longleftrightarrow> (\<forall>j<length ?ds. ?ok (?ds ! j))"
  proof
    assume "await_acks (monitor_answer [] m') ?acks = Some True"
    then have sent: "Ack_sent (?n + j) \<in> set (mn_log m')" if "j < length ?ds" for j
      using that by (auto simp: await_acks_iff monitor_answer_def split: if_splits)
    show "\<forall>j<length ?ds. ?ok (?ds ! j)"
    proof (intro allI impI)
      fix j assume j: "j < length ?ds"
      with sent have "Ack_sent (?n + j) \<in> set (mn_log m')" by blast
      moreover have "Ack_sent (?n + j) \<notin> set (mn_log m)" using assms(3) by simp
      ultimately obtain x where "x \<in> set (enumerate ?n ?ds)"
          "case x of (k, (i, f)) \<Rightarrow> ?n + j = k \<and> qa_result q (snapshot_request i f) = Exec_ok"
        using m'(2) by blast
      then have "(?n + j, snd x) \<in> set (enumerate ?n ?ds)" "?ok (snd x)" by (auto split: prod.splits)
      then show "?ok (?ds ! j)" unfolding enum by auto
    qed
  next
    assume ok: "\<forall>j<length ?ds. ?ok (?ds ! j)"
    then have "\<forall>(k, (i, f))\<in>set (enumerate ?n ?ds). qa_result q (snapshot_request i f) = Exec_ok"
      by (force simp: enum)
    with m'(3) assms(2) have sent: "\<forall>(k, (i, f))\<in>set (enumerate ?n ?ds). Ack_sent k \<in> set (mn_log m')" by blast
    have "Ack_sent (?n + j) \<in> set (mn_log m')" if "j < length ?ds" for j
      using sent that enum [of "?n + j" "?ds ! j"] by (cases "?ds ! j") auto
    then show "await_acks (monitor_answer [] m') ?acks = Some True"
      by (auto simp: await_acks_iff monitor_answer_def le_iff_add)
  qed
  also have "\<dots> \<longleftrightarrow> (\<forall>i f. (i, f) \<in> set ?ds \<longrightarrow> ?ok (i, f))"
    by (metis in_set_conv_nth surj_pair)
  finally show ?thesis using trace m'(1) by (auto simp: set_snapshot_disks)
qed

theorem backup_acked_iff_snapshotted_witness:
  "\<exists>c' cmds acks m'. enter_backup_mode demo_world 9 demo_controller = Inr c' \<and>
     c_trace c' = map To_monitor cmds @ [Wait_for_acks acks 9] \<and>
     monitor_run (map (Pair demo_qapi) cmds) Monitor_new = Inr m' \<and>
     await_acks (monitor_answer [] m') acks = Some True"
proof -
  obtain c' where c': "enter_backup_mode demo_world 9 demo_controller = Inr c'"
    using returns_backup [OF demo_healthy, of 9 demo_controller] by (auto simp: returns_def)
  have m: "mn_running Monitor_new" "\<forall>a. c_next demo_controller \<le> a \<longrightarrow> Ack_sent a \<notin> set (mn_log Monitor_new)"
    by (simp_all add: Monitor_new_def)
  have "qa_result demo_qapi r = Exec_ok" for r by (simp add: demo_qapi_def)
  with backup_acked_iff_snapshotted [OF c' m, of demo_qapi] c' show ?thesis
    by (auto simp: demo_controller_def Controller_new_def)
qed

end
