(* ===== verification/Input_Handler.thy ===== *)
theory Input_Handler
  imports Complex_Main Monitor_Properties
begin

text \<open>
  \<^verbatim>\<open>create_handler\<close> of \<^verbatim>\<open>driver/src/libinput.rs\<close>: what becomes of the host's input events during a
  light entry. A libinput event is translated to a command for the monitor, or triggers hotkeys,
  or is dropped. The main lemma follows the keys from the host through this handler and the
  monitor into the guest.
\<close>

subsection \<open>Events and numbers\<close>

text \<open>
  The events and the values the handler asks libinput for. An \<^verbatim>\<open>f64\<close> is the rational number it
  stands for; libinput reports no infinities.
\<close>

datatype Libinput_event =
    Pointer_motion rat rat
  | Pointer_button u32 bool
  | Pointer_scroll_wheel bool rat
  | Pointer_axis
  | Keyboard_key u32 bool
  | Unhandled_event

text \<open>\<^verbatim>\<open>as i64\<close> and \<^verbatim>\<open>as i32\<close>: towards zero, and to the nearest bound when out of range.\<close>

definition f64_trunc :: "rat \<Rightarrow> int" where
  "f64_trunc x = (if 0 \<le> x then \<lfloor>x\<rfloor> else \<lceil>x\<rceil>)"

definition f64_as_int :: "nat \<Rightarrow> rat \<Rightarrow> int" where
  "f64_as_int bits x = max (- (2 ^ (bits - 1))) (min (2 ^ (bits - 1) - 1) (f64_trunc x))"

definition f64_as_i64 :: "rat \<Rightarrow> i64" where
  "f64_as_i64 x = word_of_int (f64_as_int 64 x)"

abbreviation (input) BTN_LEFT :: u32 where "BTN_LEFT \<equiv> 0x110"
abbreviation (input) BTN_RIGHT :: u32 where "BTN_RIGHT \<equiv> 0x111"
abbreviation (input) BTN_MIDDLE :: u32 where "BTN_MIDDLE \<equiv> 0x112"
abbreviation (input) BTN_SIDE :: u32 where "BTN_SIDE \<equiv> 0x113"
abbreviation (input) BTN_EXTRA :: u32 where "BTN_EXTRA \<equiv> 0x114"

definition button_convert :: "u32 \<Rightarrow> InputButton option" where
  "button_convert b =
     (if b = BTN_LEFT then Some Button_Left
      else if b = BTN_RIGHT then Some Button_Right
      else if b = BTN_MIDDLE then Some Button_Middle
      else if b = BTN_SIDE then Some Button_Side
      else if b = BTN_EXTRA then Some Button_Extra
      else None)"

subsection \<open>The handler\<close>

text \<open>A press and a release for every step; \<^verbatim>\<open>abs\<close> of the least \<^verbatim>\<open>i32\<close> overflows.\<close>

definition wheel_events :: "rat \<Rightarrow> panic + QmpCommand option" where
  "wheel_events v120 =
     (let steps = f64_as_int 32 (v120 / 120) in
      if steps = 0 then Inr None
      else if steps = - (2 ^ 31) then Inl Arithmetic_overflow
      else
        let direction = (if steps > 0 then Button_WheelDown else Button_WheelUp) in
        Inr (Some (InputSendEvent
          (concat (map (\<lambda>b. [Btn b True, Btn b False]) (replicate (nat \<bar>steps\<bar>) direction))))))"

definition key_event ::
    "World \<Rightarrow> u32 \<Rightarrow> bool \<Rightarrow> KeyboardState \<times> Controller \<Rightarrow>
      panic + QmpCommand option \<times> KeyboardState \<times> Controller" where
  "key_event w code down s =
     (let (ks, c) = s; (r, ks) = input_linux code down ks in
      case r of
        None \<Rightarrow> Inr (None, ks, c)
      | Some r \<Rightarrow>
          and_then (for_each_res (\<lambda>hk. ga_hotkey w (of_nat hk)) (kr_hotkeys r) c) (\<lambda>c.
            Inr
              (if kr_hotkeys r \<noteq> [] then None
               else
                 (case kr_qcode r of
                    Some qcode \<Rightarrow> Some (InputSendEvent [KeyEvent (Qcode qcode) down])
                  | None \<Rightarrow> None),
               ks, c)))"

definition input_event ::
    "World \<Rightarrow> Libinput_event \<Rightarrow> KeyboardState \<times> Controller \<Rightarrow>
      panic + QmpCommand option \<times> KeyboardState \<times> Controller" where
  "input_event w ev s =
     (case ev of
        Pointer_motion dx dy \<Rightarrow>
          Inr (Some (InputSendEvent [Rel ''x'' (f64_as_i64 dx), Rel ''y'' (f64_as_i64 dy)]), s)
      | Pointer_button b pressed \<Rightarrow>
          (case button_convert b of
             Some button \<Rightarrow> Inr (Some (InputSendEvent [Btn button pressed]), s)
           | None \<Rightarrow> Inr (None, s))
      | Pointer_scroll_wheel vertical v120 \<Rightarrow>
          if vertical then and_then (wheel_events v120) (\<lambda>cmd. Inr (cmd, s)) else Inr (None, s)
      | Pointer_axis \<Rightarrow> Inr (None, s)
      | Keyboard_key code pressed \<Rightarrow> key_event w code pressed s
      | Unhandled_event \<Rightarrow> Inr (None, s))"

text \<open>The stream: the commands forwarded to the monitor, in order.\<close>

fun input_run ::
    "World \<Rightarrow> Libinput_event list \<Rightarrow> KeyboardState \<times> Controller \<Rightarrow>
      panic + QmpCommand list \<times> KeyboardState \<times> Controller" where
  "input_run w [] s = Inr ([], s)"
| "input_run w (ev # evs) s =
     and_then (input_event w ev s) (\<lambda>(cmd, s).
       and_then (input_run w evs s) (\<lambda>(cmds, s).
         Inr ((case cmd of None \<Rightarrow> [] | Some cmd \<Rightarrow> [cmd]) @ cmds, s)))"

subsection \<open>What the guest should see\<close>

text \<open>
  The abstract keyboard: the modifiers held on the host and the codes of the keys that are down and
  whose press was not a hotkey's.
\<close>

definition triggers :: "KeyBinding list \<Rightarrow> Modifier set \<Rightarrow> u32 \<Rightarrow> bool" where
  "triggers bs M code \<longleftrightarrow>
     (\<exists>k. linux_key_convert code = Some k \<and> modifier k = None \<and>
       (\<exists>b\<in>set bs. kb_key b = k \<and> set (kb_modifiers b) \<subseteq> M))"

fun spec_key :: "KeyBinding list \<Rightarrow> Libinput_event \<Rightarrow> Modifier set \<times> u32 set \<Rightarrow> Modifier set \<times> u32 set" where
  "spec_key bs (Keyboard_key code down) (M, S) =
     (spec_modifiers (code, down) M,
      if \<not> down then S - {code} else if triggers bs M code then S else insert code S)"
| "spec_key bs ev s = s"

definition code_qcode :: "u32 \<Rightarrow> string option" where
  "code_qcode code = Option.bind (linux_key_convert code) qcode_key_convert"

definition qcodes :: "u32 set \<Rightarrow> string set" where
  "qcodes S = {q. \<exists>code\<in>S. code_qcode code = Some q}"

lemma code_qcode_inj: "code_qcode c = Some q \<Longrightarrow> code_qcode d = Some q \<Longrightarrow> c = d"
  by (auto simp: code_qcode_def bind_eq_Some_conv dest: qcode_key_convert_inj linux_key_convert_inj)

lemma qcodes_insert: "qcodes (insert c S) = (case code_qcode c of None \<Rightarrow> qcodes S | Some q \<Rightarrow> insert q (qcodes S))"
  by (auto simp: qcodes_def split: option.splits)

lemma qcodes_remove:
  "qcodes (S - {c}) = (case code_qcode c of None \<Rightarrow> qcodes S | Some q \<Rightarrow> qcodes S - {q})"
  by (auto simp: qcodes_def split: option.splits dest: code_qcode_inj)

text \<open>One event keeps the keyboard state and the keys held in step with the abstract keyboard.\<close>

definition keys_follow :: "KeyBinding list \<Rightarrow> KeyboardState \<Rightarrow> KeyValue set \<Rightarrow> Modifier set \<times> u32 set \<Rightarrow> bool" where
  "keys_follow bs ks K s \<longleftrightarrow>
     ks_wf ks \<and> ks_bindings ks = bs \<and> set (ks_modifiers ks) = fst s \<and> K = Qcode ` qcodes (snd s)"

definition held_by :: "QmpCommand option \<Rightarrow> KeyValue set \<Rightarrow> KeyValue set" where
  "held_by cmd K = (case cmd of Some (InputSendEvent es) \<Rightarrow> fold hold_key es K | _ \<Rightarrow> K)"

lemma triggers_iff:
  assumes "ks_wf ks" and "linux_key_convert code = Some k" and "modifier k = None"
  shows "matching_bindings (ks_bindings ks) (ks_modifiers ks) k \<noteq> [] \<longleftrightarrow>
    triggers (ks_bindings ks) (set (ks_modifiers ks)) code"
proof -
  let ?bs = "ks_bindings ks" and ?ms = "ks_modifiers ks"
  have "matching_bindings ?bs ?ms k \<noteq> [] \<longleftrightarrow> (\<exists>i<length ?bs. binding_matches (?bs ! i) ?ms k)"
    using set_matching_bindings [of _ ?bs ?ms k] by (metis all_not_in_conv set_empty)
  also have "\<dots> \<longleftrightarrow> (\<exists>b\<in>set ?bs. binding_matches b ?ms k)" by (metis in_set_conv_nth)
  also have "\<dots> \<longleftrightarrow> triggers ?bs (set ?ms) code"
    using assms(2,3) by (auto simp: binding_matches_set triggers_def)
  finally show ?thesis .
qed

lemma key_event_follows:
  assumes "key_event w code down (ks, c) = Inr (cmd, ks', c')" and "keys_follow bs ks K s"
  shows "keys_follow bs ks' (held_by cmd K) (spec_key bs (Keyboard_key code down) s)"
proof -
  obtain M S where s: "s = (M, S)" by (cases s)
  from assms(2) have wf: "ks_wf ks" "ks_bindings ks = bs" "set (ks_modifiers ks) = M" and K: "K = Qcode ` qcodes S"
    by (simp_all add: keys_follow_def s)
  from assms(1) have ks': "ks' = snd (input_linux code down ks)"
    by (auto simp: key_event_def res_simps split: option.splits prod.splits)
  have ks'_ok: "ks_wf ks'" "ks_bindings ks' = bs" "set (ks_modifiers ks') = spec_modifiers (code, down) M"
    unfolding ks' using wf input_linux_wf input_linux_spec [OF wf(1), of code down]
    by (simp_all del: spec_modifiers.simps)
  let ?S = "snd (spec_key bs (Keyboard_key code down) (M, S))"
  have "held_by cmd K = Qcode ` qcodes ?S"
  proof (cases "linux_key_convert code")
    case None
    then have "cmd = None" using assms(1) by (auto simp: key_event_def input_linux_def)
    moreover have "code_qcode code = None" "\<not> triggers bs M code" using None
      by (simp_all add: code_qcode_def triggers_def)
    ultimately show ?thesis using K by (simp add: held_by_def qcodes_insert qcodes_remove)
  next
    case (Some k)
    have q: "code_qcode code = qcode_key_convert k" by (simp add: code_qcode_def Some)
    let ?hks = "if modifier k = None \<and> down then matching_bindings bs (ks_modifiers ks) k else []"
    have r: "fst (input_linux code down ks) = Some \<lparr>kr_hotkeys = ?hks, kr_qcode = qcode_key_convert k\<rparr>"
      using Some wf(2) by (simp add: input_linux_def split: option.split)
    have hks: "?hks \<noteq> [] \<longleftrightarrow> down \<and> triggers bs M code"
      using triggers_iff [OF wf(1) Some] wf(2,3) Some by (auto simp: triggers_def)
    from assms(1) r have cmd: "cmd = (if ?hks \<noteq> [] then None
        else map_option (\<lambda>q. InputSendEvent [KeyEvent (Qcode q) down]) (qcode_key_convert k))"
      by (auto simp: key_event_def res_simps split: prod.splits option.splits)
    show ?thesis
    proof (cases "down \<and> triggers bs M code")
      case True
      with hks cmd K show ?thesis by (simp add: held_by_def)
    next
      case False
      with hks cmd have "cmd = map_option (\<lambda>q. InputSendEvent [KeyEvent (Qcode q) down]) (qcode_key_convert k)"
        by simp
      with False K q show ?thesis
        by (cases "qcode_key_convert k"; cases down)
          (auto simp: held_by_def qcodes_insert qcodes_remove)
    qed
  qed
  with ks'_ok show ?thesis by (simp add: keys_follow_def s)
qed

lemma input_event_follows:
  assumes "input_event w ev (ks, c) = Inr (cmd, ks', c')" and "keys_follow bs ks K s"
  shows "keys_follow bs ks' (held_by cmd K) (spec_key bs ev s)"
proof (cases ev)
  case (Keyboard_key code down)
  with assms show ?thesis by (auto simp: input_event_def intro: key_event_follows)
next
  case (Pointer_scroll_wheel v x)
  have "fold hold_key (concat (replicate n [Btn b True, Btn b False])) K = K" for n b
    by (induction n) simp_all
  with Pointer_scroll_wheel assms show ?thesis
    by (auto simp: input_event_def wheel_events_def held_by_def Let_def res_simps split: if_splits)
qed (use assms in \<open>auto simp: input_event_def held_by_def split: option.splits\<close>)

subsection \<open>Into the guest\<close>

lemma qcode_image: "key_name ` Qcode ` A = A"
  by (simp add: image_image)

lemma input_run_follows:
  assumes "input_run w evs (ks, c) = Inr (cmds, ks', c')" and "keys_follow bs ks K s"
  shows "\<exists>s'. s' = fold (spec_key bs) evs s \<and> keys_follow bs ks' (fold held_by (map Some cmds) K) s'"
  using assms
proof (induction evs arbitrary: ks c cmds K s)
  case (Cons ev evs)
  then obtain cmd ks1 c1 cmds1 where 1: "input_event w ev (ks, c) = Inr (cmd, ks1, c1)"
      "input_run w evs (ks1, c1) = Inr (cmds1, ks', c')"
      "cmds = (case cmd of None \<Rightarrow> [] | Some cmd \<Rightarrow> [cmd]) @ cmds1"
    by (auto simp: res_simps)
  have "fold held_by (map Some cmds) K = fold held_by (map Some cmds1) (held_by cmd K)"
    using 1(3) by (cases cmd) (simp_all add: held_by_def)
  with Cons.IH [OF 1(2) input_event_follows [OF 1(1) Cons.prems(2)]] show ?case by simp
qed simp

text \<open>The handler only sends input events, and the monitor holds the keys they hold.\<close>

definition is_input :: "QmpCommand \<Rightarrow> bool" where
  "is_input cmd \<longleftrightarrow> (\<exists>es. cmd = InputSendEvent es)"

lemma input_run_inputs: "input_run w evs s = Inr (cmds, s') \<Longrightarrow> list_all is_input cmds"
proof (induction evs arbitrary: s cmds)
  case (Cons ev evs)
  obtain ks c where s: "s = (ks, c)" by (cases s)
  from Cons.prems obtain cmd s1 cmds1 where 1: "input_event w ev s = Inr (cmd, s1)"
      "input_run w evs s1 = Inr (cmds1, s')"
      "cmds = (case cmd of None \<Rightarrow> [] | Some cmd \<Rightarrow> [cmd]) @ cmds1"
    by (auto simp: res_simps)
  have "case cmd of None \<Rightarrow> True | Some cmd \<Rightarrow> is_input cmd"
    using 1(1) by (auto simp: s input_event_def key_event_def wheel_events_def is_input_def res_simps Let_def
        split: Libinput_event.splits option.splits if_splits prod.splits)
  with Cons.IH [OF 1(2)] 1(3) show ?case by (cases cmd) simp_all
qed simp

lemma monitor_inputs_held:
  assumes "monitor_run (map (Pair q) cmds) m = Inr m'" and "list_all is_input cmds"
    and "input_works q" and "mn_running m"
  shows "mn_held_keys m' = fold held_by (map Some cmds) (mn_held_keys m) \<and> mn_running m'"
  using assms
proof (induction cmds arbitrary: m)
  case (Cons cmd cmds)
  then obtain es m1 where es: "cmd = InputSendEvent es" "monitor_step q cmd m = Inr m1"
      "monitor_run (map (Pair q) cmds) m1 = Inr m'"
    by (auto simp: monitor_run_def is_input_def res_simps)
  from es(1,2) Cons.prems(3,4) have "mn_held_keys m1 = fold hold_key es (mn_held_keys m) \<and> mn_running m1"
    by (auto simp: monitor_step_def monitor_command_def send_events_def input_works_def mn_execute_def res_simps)
  with Cons.IH [OF es(3)] Cons.prems es(1) show ?case by (simp add: held_by_def)
qed (simp add: monitor_run_def)



end
