(* ===== verification/Clipboard.thy ===== *)
theory Clipboard
  imports Demo
begin

text \<open>
  \<^verbatim>\<open>driver/src/clipboard.rs\<close>: the host's side of the shared clipboard. Three tasks run between the
  controller and the Wayland clipboard: one offers foreign selections to Windows, one claims the
  selection for Windows and fetches contents, one delivers what Windows answers. The Wayland
  clipboard is a parameter. The lemmas show that a selection does not echo between the two sides,
  which answer goes where, and that a second paste takes the answer of the first.
\<close>

definition OUR_MIME_MARKER :: string where
  "OUR_MIME_MARKER = ''application/from-windows''"

text \<open>\<^verbatim>\<open>grab_clipboard\<close> and \<^verbatim>\<open>read_clipboard\<close> queue these.\<close>

datatype Cmd =
    Cmd_Grab ClipboardTypes
  | Cmd_Read ClipboardType

text \<open>
  An offer of another client: its MIME types, and what it answers (\<open>None\<close> is an error) when asked
  for text or for the bytes of a type.
\<close>

record ClipboardOffer =
  of_mime_types :: "string set"
  of_string :: "u8 list option"
  of_bytes :: "string \<Rightarrow> u8 list option"

subsection \<open>The listener\<close>

definition offered_types :: "ClipboardOffer \<Rightarrow> ClipboardTypes" where
  "offered_types offer =
     (let types = ClipboardTypes_default;
          types = (if ''text/plain;charset=utf-8'' \<in> of_mime_types offer
                   then ClipboardTypes_push CT_Text types else types)
      in (if ''image/png'' \<in> of_mime_types offer then ClipboardTypes_push CT_Image types else types))"

lemma offered_types_known [simp]: "CT_Invalid \<notin> set (ClipboardTypes_iter (offered_types offer))"
  by (auto simp: offered_types_def ClipboardTypes_iter_def ClipboardTypes_push_def ClipboardTypes_default_def ClipboardType_from_i32_def
      Let_def split: if_splits)

definition clipboard_listener :: "World \<Rightarrow> ClipboardOffer option \<Rightarrow> Controller \<Rightarrow> panic + Controller" where
  "clipboard_listener w offer c =
     (case offer of
        None \<Rightarrow> Inr c
      | Some offer \<Rightarrow>
          if OUR_MIME_MARKER \<notin> of_mime_types offer then grab_win_clipboard w (offered_types offer) c
          else Inr c)"

subsection \<open>The responder\<close>

text \<open>The pipe written to and the bytes; a failed write is only reported.\<close>

definition clipboard_respond :: "ClipboardRequestResponse \<Rightarrow> nat \<times> u8 list" where
  "clipboard_respond r =
     (case crr_response r of Data buf \<Rightarrow> (cr_target (cre_req (crr_event r)), buf))"

subsection \<open>The command handler\<close>

definition claim_mime_types :: "ClipboardTypes \<Rightarrow> string list" where
  "claim_mime_types types =
     [OUR_MIME_MARKER] @
     concat (map (\<lambda>t. case t of
         CT_Invalid \<Rightarrow> []
       | CT_Text \<Rightarrow> PLAINTEXT_MIME_TYPES
       | CT_Image \<Rightarrow> [CLIPBOARD_MIME_PNG]) (ClipboardTypes_iter types))"

definition clipboard_contents :: "ClipboardOffer option \<Rightarrow> ClipboardType \<Rightarrow> u8 list" where
  "clipboard_contents offer typ =
     (case (case offer of
              Some offer \<Rightarrow>
                (case typ of
                   CT_Invalid \<Rightarrow> None
                 | CT_Text \<Rightarrow> of_string offer
                 | CT_Image \<Rightarrow> of_bytes offer CLIPBOARD_MIME_PNG)
            | None \<Rightarrow> None) of
        Some contents \<Rightarrow> contents
      | None \<Rightarrow> [])"

text \<open>
  One command: a claim is made with these MIME types, and its requests then come to
  \<^verbatim>\<open>read_win_clipboard\<close>; a read is answered.
\<close>

definition clipboard_cmd ::
    "World \<Rightarrow> ClipboardOffer option \<Rightarrow> Cmd \<Rightarrow> Controller \<Rightarrow> panic + string list option \<times> Controller" where
  "clipboard_cmd w current cmd c =
     (case cmd of
        Cmd_Grab types \<Rightarrow> Inr (Some (claim_mime_types types), c)
      | Cmd_Read typ \<Rightarrow>
          and_then (respond_win_clipboard w (clipboard_contents current typ) c) (\<lambda>c. Inr (None, c)))"

definition claim_request :: "World \<Rightarrow> ClipboardRequest \<Rightarrow> Controller \<Rightarrow> panic + Controller" where
  "claim_request w req c = read_win_clipboard w \<lparr>cre_req = req\<rparr> c"

subsection \<open>Reading a trace\<close>

text \<open>The commands the controller has queued for the handler, and the answers it gave.\<close>

definition x11_commands :: "Effect list \<Rightarrow> Cmd list" where
  "x11_commands tr = List.map_filter (\<lambda>e. case e of
       To_x11_grabber types \<Rightarrow> Some (Cmd_Grab types)
     | To_x11_reader kind \<Rightarrow> Some (Cmd_Read kind)
     | _ \<Rightarrow> None) tr"

definition delivered :: "Effect list \<Rightarrow> (nat \<times> u8 list) list" where
  "delivered tr = List.map_filter (\<lambda>e. case e of
       To_x11_response r \<Rightarrow> Some (clipboard_respond r) | _ \<Rightarrow> None) tr"

lemma delivered_append [simp]: "delivered (tr @ es) = delivered tr @ delivered es"
  by (induction tr) (simp_all add: delivered_def List.map_filter_def)

lemma delivered_simps [simp]:
  "delivered [] = []" "delivered (To_ga cmd # es) = delivered es"
  "delivered (To_x11_response r # es) = clipboard_respond r # delivered es"
  by (simp_all add: delivered_def List.map_filter_def)

subsection \<open>Properties\<close>

text \<open>
  Safety: a selection that Windows grabbed is not offered back to Windows, and the types it was
  claimed for map back to the types Windows is asked for.
\<close>

lemma clipboard_no_echo:
  assumes "of_mime_types offer = set (claim_mime_types types)"
  shows "clipboard_listener w (Some offer) c = Inr c \<and>
    (\<forall>m\<in>set (claim_mime_types types). m \<noteq> OUR_MIME_MARKER \<longrightarrow>
      desired_type \<lparr>cre_req = \<lparr>cr_mime_type = m, cr_target = t\<rparr>\<rparr> \<in> set (ClipboardTypes_iter types))"
proof
  have "OUR_MIME_MARKER \<in> of_mime_types offer" using assms by (simp add: claim_mime_types_def)
  then show "clipboard_listener w (Some offer) c = Inr c" by (simp add: clipboard_listener_def)
  have png: "CLIPBOARD_MIME_PNG \<notin> set PLAINTEXT_MIME_TYPES"
    by (simp add: CLIPBOARD_MIME_PNG_def PLAINTEXT_MIME_TYPES_def)
  show "\<forall>m\<in>set (claim_mime_types types). m \<noteq> OUR_MIME_MARKER \<longrightarrow>
      desired_type \<lparr>cre_req = \<lparr>cr_mime_type = m, cr_target = t\<rparr>\<rparr> \<in> set (ClipboardTypes_iter types)"
  proof (intro ballI impI)
    fix m assume "m \<in> set (claim_mime_types types)" "m \<noteq> OUR_MIME_MARKER"
    then obtain ty where ty: "ty \<in> set (ClipboardTypes_iter types)"
        "m \<in> set (case ty of CT_Invalid \<Rightarrow> [] | CT_Text \<Rightarrow> PLAINTEXT_MIME_TYPES | CT_Image \<Rightarrow> [CLIPBOARD_MIME_PNG])"
      by (auto simp: claim_mime_types_def)
    from ty(2) have "desired_type \<lparr>cre_req = \<lparr>cr_mime_type = m, cr_target = t\<rparr>\<rparr> = ty"
      using png by (cases ty) (auto simp: desired_type_def list_ex_iff)
    with ty(1) show "desired_type \<lparr>cre_req = \<lparr>cr_mime_type = m, cr_target = t\<rparr>\<rparr> \<in> set (ClipboardTypes_iter types)"
      by simp
  qed
qed

lemma clipboard_no_echo_witness:
  "clipboard_listener demo_world
     (Some \<lparr>of_mime_types = set (claim_mime_types \<lparr>ct_types = [1, 2]\<rparr>), of_string = None, of_bytes = (\<lambda>_. None)\<rparr>)
     demo_controller = Inr demo_controller"
  using clipboard_no_echo [of "\<lparr>of_mime_types = set (claim_mime_types \<lparr>ct_types = [1, 2]\<rparr>), of_string = None, of_bytes = (\<lambda>_. None)\<rparr>"
      "\<lparr>ct_types = [1, 2]\<rparr>" demo_world demo_controller 0] by simp

text \<open>
  A second paste on the host before Windows has answered the first takes over: the first answer
  goes to the second request, whatever type that asked for, and the first request gets nothing,
  not even from the second answer.
\<close>

lemma second_paste_takes_answer:
  assumes "claim_request w1 r1 c = Inr c1" and "claim_request w2 r2 c1 = Inr c2"
    and "respond_x11_clipboard w3 a1 c2 = Inr c3" and "respond_x11_clipboard w4 a2 c3 = Inr c4"
  shows "delivered (c_trace c4) = delivered (c_trace c) @ [(cr_target r2, a1)]"
proof -
  have 2: "c_win_clipboard_request c2 = Some \<lparr>cre_req = r2\<rparr>" "delivered (c_trace c2) = delivered (c_trace c)"
    using assms(1,2) by (auto simp: claim_request_def read_win_clipboard_def res_simps ctl_returns)
  with assms(3) have 3: "c_win_clipboard_request c3 = None"
      "delivered (c_trace c3) = delivered (c_trace c) @ [(cr_target r2, a1)]"
    by (auto simp: respond_x11_clipboard_def ctl_returns reply_data_def clipboard_respond_def)
  with assms(4) show ?thesis by (simp add: respond_x11_clipboard_def)
qed

lemma second_paste_takes_answer_witness:
  "\<exists>c1 c2 c3 c4.
     claim_request demo_world \<lparr>cr_mime_type = ''UTF8_STRING'', cr_target = 10\<rparr> demo_controller = Inr c1 \<and>
     claim_request demo_world \<lparr>cr_mime_type = ''image/png'', cr_target = 11\<rparr> c1 = Inr c2 \<and>
     respond_x11_clipboard demo_world [104, 105] c2 = Inr c3 \<and> respond_x11_clipboard demo_world [137, 80] c3 = Inr c4 \<and>
     delivered (c_trace c4) = [(11, [104, 105])]"
proof -
  let ?r1 = "\<lparr>cr_mime_type = ''UTF8_STRING'', cr_target = 10\<rparr>"
  let ?r2 = "\<lparr>cr_mime_type = ''image/png'', cr_target = 11\<rparr>"
  have w: "w_clientpipe_open demo_world" "w_x11_open demo_world" by (simp_all add: demo_world_def)
  obtain c1 where 1: "claim_request demo_world ?r1 demo_controller = Inr c1"
    using w by (simp add: claim_request_def read_win_clipboard_def write_ga_def)
  obtain c2 where 2: "claim_request demo_world ?r2 c1 = Inr c2"
    using w by (simp add: claim_request_def read_win_clipboard_def write_ga_def)
  obtain c3 where 3: "respond_x11_clipboard demo_world [104, 105] c2 = Inr c3"
    using w by (cases "c_win_clipboard_request c2") (simp_all add: respond_x11_clipboard_def send_x11_def)
  obtain c4 where 4: "respond_x11_clipboard demo_world [137, 80] c3 = Inr c4"
    using w by (cases "c_win_clipboard_request c3") (simp_all add: respond_x11_clipboard_def send_x11_def)
  have "delivered (c_trace demo_controller) = []" by (simp add: demo_controller_def Controller_new_def)
  with second_paste_takes_answer [OF 1 2 3 4] 1 2 3 4 show ?thesis by simp
qed

end
