(* ===== verification/Driver.thy ===== *)
theory Driver
  imports Sleep_Inhibitor Clientpipe Control_Server Monitor_Properties Input_Handler Clipboard
begin

text \<open>
  \<^verbatim>\<open>driver/src/lib.rs\<close>: the running driver, which joins the futures of all components over one
  controller and the channels between them. A step is one event of one component; the executor
  picks the order. The lemmas project a run of the driver to a run of each component, so what the
  component theories show holds for all of them at once.
\<close>

subsection \<open>State\<close>

text \<open>
  The server holds the controller. \<open>dr_queue\<close> is the channel to the monitor task, which the
  controller, the input handler and the event handler write to; \<open>dr_clip\<close> is the channel to the
  clipboard task; \<open>dr_input_open\<close> tells whether the input handler still runs.
\<close>

record Driver =
  dr_server :: Server
  dr_buf :: "u8 list"
  dr_timers :: nat
  dr_inhibitor :: Inhibitor
  dr_keyboard :: KeyboardState
  dr_input_open :: bool
  dr_monitor :: Monitor
  dr_queue :: "QmpCommand list"
  dr_clip :: "Cmd list"

definition dr_ctl :: "Driver \<Rightarrow> Controller" where
  "dr_ctl d = sv_controller (dr_server d)"

definition Driver_new :: "MachineConfig \<Rightarrow> HooksConfig \<Rightarrow> Inhibitor \<Rightarrow> Driver" where
  "Driver_new mc hooks ih =
     \<lparr>dr_server = Server_new (Controller_new mc hooks), dr_buf = [], dr_timers = 0,
      dr_inhibitor = ih, dr_keyboard = KeyboardState_new (map hk_key (mc_hotkeys mc)),
      dr_input_open = True, dr_monitor = Monitor_new, dr_queue = [], dr_clip = []\<rparr>"

text \<open>The receiver of the monitor's channel lives as long as its task.\<close>

definition driver_world :: "Driver \<Rightarrow> World \<Rightarrow> World" where
  "driver_world d w = server_world (dr_server d) (w\<lparr>w_monitor_open := mn_running (dr_monitor d)\<rparr>)"

definition monitor_sent :: "Effect list \<Rightarrow> QmpCommand list" where
  "monitor_sent tr = List.map_filter (\<lambda>e. case e of To_monitor cmd \<Rightarrow> Some cmd | _ \<Rightarrow> None) tr"

text \<open>What the controller sent in its latest calls goes to the ends of the channels.\<close>

definition put_server :: "Server \<Rightarrow> Driver \<Rightarrow> Driver" where
  "put_server s d =
     (let es = drop (length (c_trace (dr_ctl d))) (c_trace (sv_controller s)) in
      d\<lparr>dr_server := s, dr_queue := dr_queue d @ monitor_sent es, dr_clip := dr_clip d @ x11_commands es\<rparr>)"

definition put_ctl :: "Controller \<Rightarrow> Driver \<Rightarrow> Driver" where
  "put_ctl c d = put_server ((dr_server d)\<lparr>sv_controller := c\<rparr>) d"

subsection \<open>Steps\<close>

text \<open>
  An input event: \<^verbatim>\<open>forward\<close> ends the handler when the monitor task is gone, and then the
  listener's next send panics.
\<close>

definition driver_input :: "World \<Rightarrow> Libinput_event \<Rightarrow> Driver \<Rightarrow> panic + Driver" where
  "driver_input w ev d =
     (if \<not> dr_input_open d then Inl Channel_closed
      else
        and_then (input_event (driver_world d w) ev (dr_keyboard d, dr_ctl d)) (\<lambda>(cmd, ks, c).
          let d = (put_ctl c d)\<lparr>dr_keyboard := ks\<rparr> in
          Inr (case cmd of
                 None \<Rightarrow> d
               | Some cmd \<Rightarrow>
                   if mn_running (dr_monitor d) then d\<lparr>dr_queue := dr_queue d @ [cmd]\<rparr>
                   else d\<lparr>dr_input_open := False\<rparr>)))"

text \<open>The monitor task takes the next command; once it has ended the channel is gone.\<close>

definition driver_monitor :: "Qapi \<Rightarrow> Driver \<Rightarrow> panic + Driver" where
  "driver_monitor q d =
     (case dr_queue d of
        [] \<Rightarrow> Inr d
      | cmd # queue \<Rightarrow>
          if mn_running (dr_monitor d) then
            and_then (monitor_step q cmd (dr_monitor d)) (\<lambda>m.
              Inr (d\<lparr>dr_monitor := m, dr_queue := if mn_running m then queue else []\<rparr>))
          else Inr d)"

definition driver_qemu :: "QapiEvent \<Rightarrow> Driver \<Rightarrow> Driver" where
  "driver_qemu e d =
     (let (queue, c) = monitor_event e (dr_queue d, dr_ctl d) in
      put_ctl c (if mn_running (dr_monitor d) then d\<lparr>dr_queue := queue\<rparr> else d))"

text \<open>
  The clipboard task takes a command. Grabs and reads come through two channels, so the first of
  either kind may be next.
\<close>

definition is_grab :: "Cmd \<Rightarrow> bool" where
  "is_grab cmd \<longleftrightarrow> (\<exists>types. cmd = Cmd_Grab types)"

definition driver_clip :: "World \<Rightarrow> bool \<Rightarrow> ClipboardOffer option \<Rightarrow> Driver \<Rightarrow> panic + Driver" where
  "driver_clip w grab offer d =
     (case position (\<lambda>cmd. is_grab cmd = grab) (dr_clip d) of
        None \<Rightarrow> Inr d
      | Some i \<Rightarrow>
          and_then (clipboard_cmd (driver_world d w) offer (dr_clip d ! i) (dr_ctl d)) (\<lambda>(claim, c).
            Inr (put_ctl c (d\<lparr>dr_clip := take i (dr_clip d) @ drop (i + 1) (dr_clip d)\<rparr>))))"

text \<open>What the task that waits for the answers of a backup has found, by the number of its request.\<close>

definition waiting_acks :: "Effect list \<Rightarrow> nat \<Rightarrow> nat list option" where
  "waiting_acks tr a =
     (case List.map_filter (\<lambda>e. case e of Wait_for_acks acks b \<Rightarrow> if b = a then Some acks else None | _ \<Rightarrow> None) tr of
        [] \<Rightarrow> None
      | acks # _ \<Rightarrow> Some acks)"

definition ack_result :: "Driver \<Rightarrow> nat \<Rightarrow> bool option" where
  "ack_result d a =
     (case waiting_acks (c_trace (dr_ctl d)) a of
        None \<Rightarrow> None
      | Some acks \<Rightarrow> await_acks (monitor_answer (dr_queue d) (dr_monitor d)) acks)"

text \<open>
  An event of the control socket that can happen: an acknowledgement is there when its task is
  done. \<open>Ev_elsewhere\<close> stands in the server's own theory for the rest of the driver, which is all
  here.
\<close>

definition control_enabled :: "Driver \<Rightarrow> Server_event \<Rightarrow> bool" where
  "control_enabled d ev \<longleftrightarrow>
     (case ev of
        Ev_ack k ok \<Rightarrow>
          k < length (sv_acks (dr_server d)) \<and> ack_result d (fst (sv_acks (dr_server d) ! k)) = Some ok
      | Ev_elsewhere _ \<Rightarrow> False
      | _ \<Rightarrow> True)"

datatype Driver_event =
    Dr_control Server_event
  | Dr_agent "u8 list"
  | Dr_tick
  | Dr_sleep bool ConnectionItem
  | Dr_sleep_done
  | Dr_qemu QapiEvent
  | Dr_monitor Qapi
  | Dr_input Libinput_event
  | Dr_offer "ClipboardOffer option"
  | Dr_claim ClipboardRequest
  | Dr_clip bool "ClipboardOffer option"
  | Dr_terminate

text \<open>One event. \<open>Dr_terminate\<close> is \<^verbatim>\<open>SIGINT\<close> or \<^verbatim>\<open>SIGTERM\<close>.\<close>

fun driver_step :: "GaCmdIn Prost \<Rightarrow> World \<times> Driver_event \<Rightarrow> Driver \<Rightarrow> panic + Driver" where
  "driver_step pb (w, Dr_control ev) d =
     (if control_enabled d ev then
        and_then (server_step (driver_world d w) ev (dr_server d)) (\<lambda>s. Inr (put_server s d))
      else Inr d)"
| "driver_step pb (w, Dr_agent chunk) d =
     and_then (clientpipe_receive (driver_world d w) pb chunk (dr_buf d, dr_timers d, dr_ctl d))
       (\<lambda>(buf, timers, c). Inr ((put_ctl c d)\<lparr>dr_buf := buf, dr_timers := timers\<rparr>))"
| "driver_step pb (w, Dr_tick) d =
     (if dr_timers d = 0 then Inr d
      else
        and_then (ping_tick (driver_world d w) (dr_timers d, dr_ctl d))
          (\<lambda>(timers, c). Inr ((put_ctl c d)\<lparr>dr_timers := timers\<rparr>)))"
| "driver_step pb (w, Dr_sleep ok ci) d =
     and_then (sleep_step (driver_world d w, Sl_item ok ci) (dr_inhibitor d, dr_ctl d))
       (\<lambda>(ih, c). Inr ((put_ctl c d)\<lparr>dr_inhibitor := ih\<rparr>))"
| "driver_step pb (w, Dr_sleep_done) d =
     Inr (d\<lparr>dr_inhibitor := fst (inhibitor_wake (dr_inhibitor d, dr_ctl d))\<rparr>)"
| "driver_step pb (w, Dr_qemu e) d = Inr (driver_qemu e d)"
| "driver_step pb (w, Dr_monitor q) d = driver_monitor q d"
| "driver_step pb (w, Dr_input ev) d = driver_input w ev d"
| "driver_step pb (w, Dr_offer offer) d =
     and_then (clipboard_listener (driver_world d w) offer (dr_ctl d)) (\<lambda>c. Inr (put_ctl c d))"
| "driver_step pb (w, Dr_claim req) d =
     and_then (claim_request (driver_world d w) req (dr_ctl d)) (\<lambda>c. Inr (put_ctl c d))"
| "driver_step pb (w, Dr_clip grab offer) d = driver_clip w grab offer d"
| "driver_step pb (w, Dr_terminate) d =
     and_then (shutdown (driver_world d w) (dr_ctl d)) (\<lambda>c. Inr (put_ctl c d))"

definition driver_exec :: "GaCmdIn Prost \<Rightarrow> (World \<times> Driver_event) list \<Rightarrow> Driver \<Rightarrow> panic + Driver" where
  "driver_exec pb = for_each_res (driver_step pb)"

text \<open>The driver starts with the lock of the inhibitor in hand.\<close>

definition driver_run :: "GaCmdIn Prost \<Rightarrow> MachineConfig \<Rightarrow> HooksConfig \<Rightarrow> Driver \<Rightarrow> bool" where
  "driver_run pb mc hooks d \<longleftrightarrow>
     (\<exists>es. driver_exec pb es (Driver_new mc hooks \<lparr>ih_fd = True, ih_waits = None\<rparr>) = Inr d)"

subsection \<open>The calls of a step\<close>

text \<open>Calls of the controller in a row, each in its environment.\<close>

definition calls_run :: "(World \<times> Ctl_call) list \<Rightarrow> Controller \<Rightarrow> panic + Controller" where
  "calls_run = for_each_res (\<lambda>(w, e). controller_call w e)"

lemma put_server_simps [simp]:
  "dr_server (put_server s d) = s" "dr_buf (put_server s d) = dr_buf d"
  "dr_timers (put_server s d) = dr_timers d" "dr_inhibitor (put_server s d) = dr_inhibitor d"
  "dr_keyboard (put_server s d) = dr_keyboard d" "dr_monitor (put_server s d) = dr_monitor d"
  "dr_input_open (put_server s d) = dr_input_open d"
  by (simp_all add: put_server_def Let_def)

lemma put_ctl_simps [simp]:
  "dr_ctl (put_ctl c d) = c" "dr_server (put_ctl c d) = (dr_server d)\<lparr>sv_controller := c\<rparr>"
  "dr_buf (put_ctl c d) = dr_buf d" "dr_timers (put_ctl c d) = dr_timers d"
  "dr_inhibitor (put_ctl c d) = dr_inhibitor d" "dr_keyboard (put_ctl c d) = dr_keyboard d"
  "dr_monitor (put_ctl c d) = dr_monitor d" "dr_input_open (put_ctl c d) = dr_input_open d"
  by (simp_all add: put_ctl_def dr_ctl_def)

lemma dr_ctl_put_server [simp]: "dr_ctl (put_server s d) = sv_controller s"
  by (simp add: dr_ctl_def)

lemma dr_ctl_updates [simp]:
  "dr_ctl (d\<lparr>dr_inhibitor := ih\<rparr>) = dr_ctl d" "dr_ctl (d\<lparr>dr_queue := queue\<rparr>) = dr_ctl d"
  "dr_ctl (d\<lparr>dr_clip := clip\<rparr>) = dr_ctl d" "dr_ctl (d\<lparr>dr_keyboard := ks\<rparr>) = dr_ctl d"
  "dr_ctl (d\<lparr>dr_buf := buf\<rparr>) = dr_ctl d" "dr_ctl (d\<lparr>dr_timers := n\<rparr>) = dr_ctl d"
  "dr_ctl (d\<lparr>dr_monitor := m\<rparr>) = dr_ctl d" "dr_ctl (d\<lparr>dr_input_open := b\<rparr>) = dr_ctl d"
  by (simp_all add: dr_ctl_def)

lemma calls_run_Nil [simp]: "calls_run [] c = Inr c"
  by (simp add: calls_run_def)

lemma calls_run_append: "calls_run (xs @ ys) c = and_then (calls_run xs c) (calls_run ys)"
  unfolding calls_run_def by (rule for_each_res_append)

lemma calls_run_one: "controller_call w e c = Inr c' \<Longrightarrow> calls_run [(w, e)] c = Inr c'"
  by (simp add: calls_run_def)

text \<open>An invariant of the calls made is one of the whole row.\<close>

lemma calls_run_inv:
  assumes "calls_run (map (Pair w) es) c = Inr c'" and "P c"
    and "\<And>e c c'. e \<in> set es \<Longrightarrow> controller_call w e c = Inr c' \<Longrightarrow> P c \<Longrightarrow> P c'"
  shows "P c'"
  using assms
proof (induction es arbitrary: c)
  case (Cons e es)
  from Cons.prems(1) obtain d where d: "controller_call w e c = Inr d" "calls_run (map (Pair w) es) d = Inr c'"
    by (auto simp: calls_run_def res_simps simp del: controller_call.simps)
  have "P d" by (rule Cons.prems(3) [OF _ d(1) Cons.prems(2)]) simp
  with Cons.prems(3) show ?case by (intro Cons.IH [OF d(2)]) auto
qed simp

text \<open>
  The calls that a part of the driver may make: \<open>ms\<close> that it makes temporary entries, \<open>hp\<close> that it
  greets or pings the agent, \<open>qs\<close> that it reports a suspend. Only known types are ever announced.
\<close>

definition calls_within :: "bool \<Rightarrow> bool \<Rightarrow> bool \<Rightarrow> Ctl_call list \<Rightarrow> bool" where
  "calls_within ms hp qs es \<longleftrightarrow>
     (\<forall>e\<in>set es. (makes_channel e \<longrightarrow> ms) \<and> (e = Call_ga_hello \<or> e = Call_ga_ping \<longrightarrow> hp) \<and>
        (e = Call_qemu_suspended \<longrightarrow> qs) \<and> known_types e)"

lemma calls_within_Nil [simp]: "calls_within ms hp qs []"
  by (simp add: calls_within_def)

lemma calls_within_append [simp]:
  "calls_within ms hp qs (xs @ ys) \<longleftrightarrow> calls_within ms hp qs xs \<and> calls_within ms hp qs ys"
  by (auto simp: calls_within_def)

definition ctl_moves :: "World \<Rightarrow> bool \<Rightarrow> bool \<Rightarrow> bool \<Rightarrow> Controller \<Rightarrow> Controller \<Rightarrow> bool" where
  "ctl_moves w ms hp qs c c' \<longleftrightarrow>
     (\<exists>es. calls_run (map (Pair w) es) c = Inr c' \<and> calls_within ms hp qs es)"

lemma ctl_moves_refl [simp]: "ctl_moves w ms hp qs c c"
  unfolding ctl_moves_def by (rule exI [of _ "[]"]) simp

lemma ctl_moves_call:
  "controller_call w e c = Inr c' \<Longrightarrow> calls_within ms hp qs [e] \<Longrightarrow> ctl_moves w ms hp qs c c'"
  unfolding ctl_moves_def by (rule exI [of _ "[e]"]) (simp add: calls_run_one)

lemma ctl_moves_trans:
  assumes "ctl_moves w ms hp qs c d" and "ctl_moves w ms hp qs d e"
  shows "ctl_moves w ms hp qs c e"
proof -
  from assms obtain xs ys where "calls_run (map (Pair w) xs) c = Inr d" "calls_run (map (Pair w) ys) d = Inr e"
      "calls_within ms hp qs xs" "calls_within ms hp qs ys"
    unfolding ctl_moves_def by blast
  then show ?thesis
    unfolding ctl_moves_def by (intro exI [of _ "xs @ ys"]) (simp add: calls_run_append)
qed

lemma ctl_moves_weaken:
  "ctl_moves w ms hp qs c c' \<Longrightarrow> (ms \<longrightarrow> ms') \<Longrightarrow> (hp \<longrightarrow> hp') \<Longrightarrow> (qs \<longrightarrow> qs') \<Longrightarrow> ctl_moves w ms' hp' qs' c c'"
  unfolding ctl_moves_def calls_within_def by blast

lemma ctl_moves_inv:
  assumes "ctl_moves w ms hp qs c c'" and "P c"
    and "\<And>e c c'. controller_call w e c = Inr c' \<Longrightarrow> calls_within ms hp qs [e] \<Longrightarrow> P c \<Longrightarrow> P c'"
  shows "P c'"
proof -
  from assms(1) obtain es where es: "calls_run (map (Pair w) es) c = Inr c'" "calls_within ms hp qs es"
    unfolding ctl_moves_def by blast
  from es(1) assms(2) show ?thesis
    by (rule calls_run_inv [where P = P]) (use es(2) assms(3) in \<open>auto simp: calls_within_def\<close>)
qed

text \<open>The calls of each part.\<close>

lemma clientpipe_handle_moves:
  assumes "clientpipe_handle w cmd (n, c) = Inr (n', c')"
  shows "ctl_moves w False True False c c'"
proof (cases "cmd = Ga_ReportBoot")
  case True
  with assms obtain b where "ga_hello w c = Inr (b, c')" by (auto simp: clientpipe_handle_def res_simps)
  then have "controller_call w Call_ga_hello c = Inr c'" by (simp add: ctl_returns)
  then show ?thesis by (rule ctl_moves_call) (simp add: calls_within_def makes_channel_def)
next
  case False
  from clientpipe_handle_agent_call [OF assms False] show ?thesis
  proof (elim conjE disjE exE)
    fix e assume e: "controller_call w e c = Inr c'" "agent_call e"
    from e(2) have "calls_within False True False [e]"
      by (cases e) (simp_all add: calls_within_def makes_channel_def)
    with e(1) show ?thesis by (rule ctl_moves_call)
  qed simp
qed

lemma clientpipe_messages_moves:
  "for_each_res (clientpipe_handle w) cmds (n, c) = Inr (n', c') \<Longrightarrow> ctl_moves w False True False c c'"
proof (induction cmds arbitrary: n c)
  case (Cons cmd cmds)
  from Cons.prems obtain m d where d: "clientpipe_handle w cmd (n, c) = Inr (m, d)"
      "for_each_res (clientpipe_handle w) cmds (m, d) = Inr (n', c')"
    by (auto simp: res_simps)
  from ctl_moves_trans [OF clientpipe_handle_moves [OF d(1)] Cons.IH [OF d(2)]] show ?case .
qed simp

lemma clientpipe_receive_moves:
  assumes "clientpipe_receive w pb chunk (buf, n, c) = Inr (buf', n', c')"
  shows "ctl_moves w False True False c c'"
  using assms by (auto simp: clientpipe_receive_def res_simps split: prod.splits
      intro: clientpipe_messages_moves)

lemma ping_tick_moves:
  assumes "ping_tick w (n, c) = Inr (n', c')"
  shows "ctl_moves w False True False c c'"
proof -
  from assms obtain b where "ga_ping w c = Inr (b, c')" by (auto simp: ping_tick_def res_simps)
  then have "controller_call w Call_ga_ping c = Inr c'" by (simp add: ctl_returns)
  then show ?thesis by (rule ctl_moves_call) (simp add: calls_within_def makes_channel_def)
qed

lemma sleep_item_moves:
  assumes "sleep_step (w, Sl_item ok ci) (ih, c) = Inr (ih', c')"
  shows "ctl_moves w False False False c c'"
proof -
  have "c' = c \<or> (\<exists>f. suspend w c = Inr (f, c'))"
  proof (cases "ih_waits ih = None")
    case True
    with assms obtain sig where "prepare_for_sleep ci = Inr sig" and
      sig: "(case sig of Some True \<Rightarrow> and_then (suspend w c) (\<lambda>(fut, c).
              Inr (case fut of Resolved \<Rightarrow> (ih\<lparr>ih_fd := False\<rparr>, c) | Waiting t \<Rightarrow> (ih\<lparr>ih_waits := Some t\<rparr>, c)))
        | Some False \<Rightarrow> and_then (inhibit ok) (\<lambda>fd. Inr (ih\<lparr>ih_fd := fd\<rparr>, c))
        | None \<Rightarrow> Inr (ih, c)) = Inr (ih', c')"
      by (auto simp: inhibitor_item_def and_then_eq_Inr)
    show ?thesis
    proof (cases "sig = Some True")
      case True
      with sig obtain fut d where d: "suspend w c = Inr (fut, d)" and
          "(case fut of Resolved \<Rightarrow> (ih\<lparr>ih_fd := False\<rparr>, d) | Waiting t \<Rightarrow> (ih\<lparr>ih_waits := Some t\<rparr>, d)) = (ih', c')"
        by (auto simp: and_then_eq_Inr)
      then have "d = c'" by (cases fut) simp_all
      with d show ?thesis by blast
    next
      case False
      with sig show ?thesis by (auto simp: and_then_eq_Inr split: option.split_asm if_split_asm)
    qed
  qed (use assms in auto)
  then show ?thesis
  proof
    assume "\<exists>f. suspend w c = Inr (f, c')"
    then have "controller_call w Call_suspend c = Inr c'" by (auto simp: ctl_returns)
    then show ?thesis by (rule ctl_moves_call) (simp add: calls_within_def makes_channel_def)
  qed simp
qed

lemma key_event_moves:
  assumes "key_event w code down (ks, c) = Inr (cmd, ks', c')"
  shows "ctl_moves w False False False c c'"
proof -
  have hks: "ctl_moves w False False False c c'" if "for_each_res (\<lambda>hk. ga_hotkey w (of_nat hk)) hks c = Inr c'" for hks
    using that
  proof (induction hks arbitrary: c)
    case (Cons hk hks)
    then obtain d where d: "ga_hotkey w (of_nat hk) c = Inr d" "ctl_moves w False False False d c'"
      by (auto simp: res_simps)
    from d(1) have "controller_call w (Call_ga_hotkey (of_nat hk)) c = Inr d" by simp
    then have "ctl_moves w False False False c d"
      by (rule ctl_moves_call) (simp add: calls_within_def makes_channel_def)
    with d(2) show ?case by (blast intro: ctl_moves_trans)
  qed simp
  from assms hks show ?thesis
    by (auto simp: key_event_def Let_def res_simps split: prod.splits option.splits)
qed

lemma input_event_moves:
  assumes "input_event w ev (ks, c) = Inr (cmd, ks', c')"
  shows "ctl_moves w False False False c c'"
  using assms key_event_moves
  by (auto simp: input_event_def res_simps split: Libinput_event.splits option.splits if_splits)

text \<open>Everything the control socket does to the controller is at most one call.\<close>

lemma moves_of_call:
  "controller_call w e c = Inr c' \<Longrightarrow> calls_within ms hp qs [e] \<Longrightarrow> \<exists>w. ctl_moves w ms hp qs c c'"
  using ctl_moves_call by blast

lemma conn_fields [simp]:
  "sv_controller (close_conn i s) = sv_controller s" "sv_controller (conn_push i cmd s) = sv_controller s"
  "sv_controller (conn_try_send i cmd s) = sv_controller s"
  by (simp_all add: close_conn_def conn_push_def conn_try_send_def)

lemma control_request_moves:
  assumes "control_request_step w i req s = Inr s'"
  shows "\<exists>w. ctl_moves w True False False (sv_controller s) (sv_controller s')"
proof -
  let ?w = "server_world s w" and ?c = "sv_controller s" and ?c' = "sv_controller s'"
  have "\<exists>e. controller_call ?w e ?c = Inr ?c' \<and> calls_within True False False [e]"
  proof (cases "cn_temp_entry (sv_conns s ! i)")
    case True
    with assms have "temporary_request ?w i req s = Inr s'" by (simp add: control_request_step_def Let_def)
    then have "temporary_exit ?w ?c = Inr ?c'"
      by (cases req) (auto simp: temporary_request_def and_then_eq_Inr Let_def)
    then show ?thesis
      by (intro exI [of _ Call_temporary_exit]) (simp add: calls_within_def makes_channel_def)
  next
    case False
    note step = assms [unfolded control_request_step_def Let_def if_not_P [OF False]]
    have call: "\<exists>e. controller_call ?w e ?c = Inr ?c' \<and> calls_within True False False [e]"
      if "and_then (controller_call ?w e ?c) (put_controller s) = Inr s'"
        "e \<noteq> Call_ga_hello" "e \<noteq> Call_ga_ping" "e \<noteq> Call_qemu_suspended" "known_types e" for e
      using that by (intro exI [of _ e])
        (auto simp: put_controller_def res_simps calls_within_def simp del: controller_call.simps)
    have direct: "\<exists>e. controller_call ?w e ?c = Inr ?c' \<and> calls_within True False False [e]"
      if "controller_call ?w e ?c = Inr ?c'" "e \<noteq> Call_ga_hello" "e \<noteq> Call_ga_ping" "e \<noteq> Call_qemu_suspended" "known_types e" for e
      using that by (intro exI [of _ e]) (auto simp: calls_within_def simp del: controller_call.simps)
    show ?thesis
    proof (cases req)
      case Ctl_IoEntry
      with step call [of Call_io_attach] show ?thesis by simp
    next
      case Ctl_TryIoEntry
      with step call [of Call_try_attach] show ?thesis by simp
    next
      case Ctl_LightEntry
      with step call [of Call_light_attach] show ?thesis by simp
    next
      case Ctl_Shutdown
      with step call [of Call_shutdown] show ?thesis by simp
    next
      case Ctl_ForceIoEntry
      with step call [of Call_io_force_attach] show ?thesis by simp
    next
      case Ctl_IoExit
      with step call [of Call_io_detach] show ?thesis by simp
    next
      case Ctl_Suspend
      with step direct [of Call_suspend] show ?thesis by (auto simp: suspend_request_def res_simps ctl_returns)
    next
      case (Ctl_TemporaryLightEntry x y)
      with step obtain b c where "temporary_entry ?w (sv_next s) x y ?c = Inr (b, c)" "?c' = c"
        by (auto simp: start_temporary_entry_def Let_def res_simps conn_send_def split: if_splits)
      with direct [of "Call_temporary_entry (sv_next s) x y"] show ?thesis by (simp add: ctl_returns)
    next
      case Ctl_EnterBackupMode
      with step direct [of "Call_enter_backup_mode (sv_next s)"] show ?thesis
        by (auto simp: backup_request_def res_simps Let_def)
    next
      case Ctl_LeaveBackupMode
      with step direct [of "Call_leave_backup_mode (sv_next s)"] show ?thesis
        by (auto simp: backup_request_def res_simps Let_def)
    qed
  qed
  then show ?thesis by (blast intro: moves_of_call)
qed

lemma forward_moves:
  assumes "forward_step w k s = Inr s'"
  shows "\<exists>w. ctl_moves w True False False (sv_controller s) (sv_controller s')"
proof -
  have ends: "\<exists>w. ctl_moves w True False False (sv_controller s) (sv_controller s')"
    if "end_forwarder w k i s = Inr s'" for i
  proof -
    from that obtain w' where "controller_call w' Call_temporary_exit (sv_controller s) = Inr (sv_controller s')"
      by (auto simp: end_forwarder_def Let_def res_simps)
    then show ?thesis by (rule moves_of_call) (simp add: calls_within_def)
  qed
  have stays: ?thesis if "sv_controller s' = sv_controller s"
    unfolding that by (intro exI [of _ w] ctl_moves_refl)
  from assms ends stays show ?thesis
    by (auto simp: forward_step_def Let_def split: prod.splits if_splits)
qed

lemma server_step_moves:
  assumes "server_step w ev s = Inr s'" and "\<forall>e. ev \<noteq> Ev_elsewhere e"
  shows "\<exists>w. ctl_moves w True False False (sv_controller s) (sv_controller s')"
proof -
  have stays: ?thesis if "sv_controller s' = sv_controller s"
    unfolding that by (intro exI [of _ w] ctl_moves_refl)
  show ?thesis
  proof (cases ev)
    case (Ev_request i req)
    with assms(1) stays control_request_moves show ?thesis by (auto split: if_splits)
  next
    case (Ev_forward k)
    with assms(1) stays forward_moves show ?thesis by (auto split: if_splits)
  next
    case (Ev_ack k ok)
    with assms(1) have "sv_controller s' = sv_controller s"
      by (auto simp: ack_step_def Let_def split: if_splits prod.splits)
    with stays show ?thesis by simp
  qed (use assms stays in \<open>auto split: if_splits\<close>)
qed

text \<open>What each event of the driver does to the controller, and that only the socket's change the server.\<close>

definition ev_greets :: "Driver_event \<Rightarrow> bool" where
  "ev_greets ev \<longleftrightarrow> (\<exists>chunk. ev = Dr_agent chunk) \<or> ev = Dr_tick"

definition ev_control :: "Driver_event \<Rightarrow> bool" where
  "ev_control ev \<longleftrightarrow> (\<exists>e. ev = Dr_control e)"

lemma driver_control_moves:
  assumes "driver_step pb (w, Dr_control e) d = Inr d'"
  shows "\<exists>w. ctl_moves w True False False (dr_ctl d) (dr_ctl d')"
proof (cases "control_enabled d e")
  case True
  with assms obtain s where s: "server_step (driver_world d w) e (dr_server d) = Inr s" "d' = put_server s d"
    by (auto simp: res_simps)
  have "\<forall>c. e \<noteq> Ev_elsewhere c" using True by (auto simp: control_enabled_def)
  from server_step_moves [OF s(1) this] s(2) show ?thesis by (simp add: dr_ctl_def)
next
  case False
  with assms have "d' = d" by simp
  then show ?thesis by (metis ctl_moves_refl)
qed

lemma driver_step_server:
  "driver_step pb (w, ev) d = Inr d' \<Longrightarrow> \<not> ev_control ev \<Longrightarrow>
     dr_server d' = (dr_server d)\<lparr>sv_controller := dr_ctl d'\<rparr>"
  by (cases ev) (auto simp: ev_control_def and_then_eq_Inr driver_input_def driver_monitor_def driver_qemu_def
      driver_clip_def dr_ctl_def put_ctl_def Let_def simp del: sleep_step.simps
      split: if_split_asm option.split_asm list.split_asm prod.split_asm)

lemma driver_step_moves:
  assumes "driver_step pb (w, ev) d = Inr d'" and "\<not> ev_control ev"
  shows "ctl_moves (driver_world d w) False (ev_greets ev) (ev = Dr_qemu SUSPEND) (dr_ctl d) (dr_ctl d')"
proof -
  let ?w = "driver_world d w"
  let ?goal = "ctl_moves ?w False (ev_greets ev) (ev = Dr_qemu SUSPEND) (dr_ctl d)"
  have quiet: "?goal c'" if "ctl_moves ?w False False False (dr_ctl d) c'" for c'
    using ctl_moves_weaken [OF that] by blast
  have call: "?goal c'" if "controller_call ?w e (dr_ctl d) = Inr c'" "calls_within False False False [e]" for e c'
    by (rule quiet) (rule ctl_moves_call [OF that])
  note assms = assms(1)
  show ?thesis
  proof (cases ev)
    case (Dr_control e)
    with \<open>\<not> ev_control ev\<close> show ?thesis by (simp add: ev_control_def)
  next
    case (Dr_agent chunk)
    with assms obtain buf n c where r: "clientpipe_receive ?w pb chunk (dr_buf d, dr_timers d, dr_ctl d) = Inr (buf, n, c)"
        "d' = (put_ctl c d)\<lparr>dr_buf := buf, dr_timers := n\<rparr>" by (auto simp: res_simps)
    from clientpipe_receive_moves [OF r(1)] r(2) Dr_agent show ?thesis
      by (auto simp: ev_greets_def dr_ctl_def put_ctl_def)
  next
    case Dr_tick
    with assms quiet [OF ctl_moves_refl] show ?thesis
      by (auto simp: res_simps ev_greets_def dr_ctl_def put_ctl_def
          dest!: ping_tick_moves split: if_splits)
  next
    case (Dr_sleep ok ci)
    with assms obtain ih c where r: "sleep_step (?w, Sl_item ok ci) (dr_inhibitor d, dr_ctl d) = Inr (ih, c)"
        "d' = (put_ctl c d)\<lparr>dr_inhibitor := ih\<rparr>" by (auto simp: and_then_eq_Inr)
    from quiet [OF sleep_item_moves [OF r(1)]] r(2) show ?thesis by (simp add: dr_ctl_def put_ctl_def)
  next
    case Dr_sleep_done
    with assms quiet [OF ctl_moves_refl] show ?thesis by (auto simp: dr_ctl_def)
  next
    case (Dr_qemu e)
    show ?thesis
    proof (cases e)
      case SUSPEND
      have "controller_call ?w Call_qemu_suspended (dr_ctl d) = Inr (qemu_suspended (dr_ctl d))" by simp
      then have "ctl_moves ?w False False True (dr_ctl d) (qemu_suspended (dr_ctl d))"
        by (rule ctl_moves_call) (simp add: calls_within_def makes_channel_def)
      with assms Dr_qemu SUSPEND show ?thesis
        by (auto simp: driver_qemu_def monitor_event_def ev_greets_def)
    next
      case (BLOCK_JOB_READY device)
      with assms Dr_qemu have "dr_ctl d' = dr_ctl d" by (auto simp: driver_qemu_def monitor_event_def)
      with quiet [OF ctl_moves_refl] show ?thesis by simp
    next
      case Other_event
      with assms Dr_qemu have "dr_ctl d' = dr_ctl d" by (auto simp: driver_qemu_def monitor_event_def)
      with quiet [OF ctl_moves_refl] show ?thesis by simp
    qed
  next
    case (Dr_monitor q)
    with assms quiet [OF ctl_moves_refl] show ?thesis
      by (auto simp: driver_monitor_def res_simps dr_ctl_def split: list.splits if_splits)
  next
    case (Dr_input e)
    with assms obtain cmd ks c where r: "input_event ?w e (dr_keyboard d, dr_ctl d) = Inr (cmd, ks, c)"
        "dr_ctl d' = c"
      by (auto simp: driver_input_def res_simps Let_def dr_ctl_def put_ctl_def split: if_splits option.splits)
    from quiet [OF input_event_moves [OF r(1)]] r(2) show ?thesis by simp
  next
    case (Dr_offer offer)
    with assms have "dr_ctl d' = dr_ctl d \<or>
        (\<exists>x. controller_call ?w (Call_grab_win_clipboard (offered_types x)) (dr_ctl d) = Inr (dr_ctl d'))"
      by (auto simp: clipboard_listener_def res_simps split: option.splits if_splits)
    then show ?thesis
    proof (elim disjE exE)
      fix x assume "controller_call ?w (Call_grab_win_clipboard (offered_types x)) (dr_ctl d) = Inr (dr_ctl d')"
      then show ?thesis by (rule call) (simp add: calls_within_def makes_channel_def)
    qed (use quiet [OF ctl_moves_refl] in simp)
  next
    case (Dr_claim req)
    with assms obtain c where c: "claim_request ?w req (dr_ctl d) = Inr c" "d' = put_ctl c d"
      by (auto simp: res_simps)
    with call [of "Call_read_win_clipboard \<lparr>cre_req = req\<rparr>"] show ?thesis
      by (auto simp: claim_request_def calls_within_def makes_channel_def)
  next
    case (Dr_clip grab offer)
    with assms have "dr_ctl d' = dr_ctl d \<or>
        (\<exists>bs. controller_call ?w (Call_respond_win_clipboard bs) (dr_ctl d) = Inr (dr_ctl d'))"
      by (auto simp: driver_clip_def clipboard_cmd_def res_simps split: option.splits Cmd.splits)
    then show ?thesis
    proof (elim disjE exE)
      fix bs assume "controller_call ?w (Call_respond_win_clipboard bs) (dr_ctl d) = Inr (dr_ctl d')"
      then show ?thesis by (rule call) (simp add: calls_within_def makes_channel_def)
    qed (use quiet [OF ctl_moves_refl] in simp)
  next
    case Dr_terminate
    with assms call [of Call_shutdown] show ?thesis by (auto simp: res_simps calls_within_def makes_channel_def)
  qed
qed

end
