(* ===== verification/Driver_Properties.thy ===== *)
theory Driver_Properties
  imports Driver
begin

text \<open>
  What holds of the running driver of \<^verbatim>\<open>Driver\<close>: its runs are runs of every component, none of its
  events makes it panic in a healthy environment, and the properties that take several components
  at once: the host's sleep and the acknowledgement of a backup.
\<close>

subsection \<open>Projections\<close>

lemma server_world_twice [simp]:
  "server_world (s\<lparr>sv_controller := c\<rparr>) w = server_world s w"
  "server_world s (server_world s w) = server_world s w"
  by (simp_all add: server_world_def)

lemma server_run_moves:
  assumes "server_run mc hooks s" and "ctl_moves (server_world s w) False hp qs (sv_controller s) c"
  shows "server_run mc hooks (s\<lparr>sv_controller := c\<rparr>)"
proof (rule ctl_moves_inv [where P = "\<lambda>c. server_run mc hooks (s\<lparr>sv_controller := c\<rparr>)", OF assms(2)])
  fix e c c'
  assume "controller_call (server_world s w) e c = Inr c'" "calls_within False hp qs [e]"
    and r: "server_run mc hooks (s\<lparr>sv_controller := c\<rparr>)"
  then have "server_step (server_world s w) (Ev_elsewhere e) (s\<lparr>sv_controller := c\<rparr>) = Inr (s\<lparr>sv_controller := c'\<rparr>)"
    by (simp add: calls_within_def put_controller_def del: controller_call.simps)
  with r show "server_run mc hooks (s\<lparr>sv_controller := c'\<rparr>)" by (rule server_more)
qed (use assms(1) in simp)

lemma driver_step_server_run:
  assumes "driver_step pb (w, ev) d = Inr d'" and "server_run mc hooks (dr_server d)"
  shows "server_run mc hooks (dr_server d')"
proof (cases "ev_control ev")
  case True
  then obtain e where ev: "ev = Dr_control e" by (auto simp: ev_control_def)
  with assms show ?thesis by (auto simp: and_then_eq_Inr intro: server_more split: if_split_asm)
next
  case False
  have "dr_server d' = (dr_server d)\<lparr>sv_controller := dr_ctl d'\<rparr>"
    by (rule driver_step_server [OF assms(1) False])
  moreover have "ctl_moves (server_world (dr_server d) (w\<lparr>w_monitor_open := mn_running (dr_monitor d)\<rparr>)) False
      (ev_greets ev) (ev = Dr_qemu SUSPEND) (sv_controller (dr_server d)) (dr_ctl d')"
    using driver_step_moves [OF assms(1) False] by (simp add: driver_world_def dr_ctl_def)
  ultimately show ?thesis using server_run_moves [OF assms(2)] by simp
qed

text \<open>The pipe of the guest agent.\<close>

lemma pipe_run_moves:
  assumes "pipe_run False s (n, c)" and "ctl_moves w ms False qs c c'"
  shows "pipe_run False s (n, c')"
proof (rule ctl_moves_inv [where P = "\<lambda>c. pipe_run False s (n, c)", OF assms(2,1)])
  fix e c c'
  assume "controller_call w e c = Inr c'" "calls_within ms False qs [e]" "pipe_run False s (n, c)"
  then show "pipe_run False s (n, c')" by (auto simp: calls_within_def intro: pipe_other)
qed

lemma pipe_run_messages:
  "for_each_res (clientpipe_handle w) cmds t = Inr u \<Longrightarrow> pipe_run False s t \<Longrightarrow> pipe_run False s u"
  by (rule for_each_res_inv) (auto intro: pipe_message)

lemma driver_step_timers:
  assumes "driver_step pb (w, ev) d = Inr d'" and "\<not> ev_greets ev"
  shows "dr_timers d' = dr_timers d"
  using assms
  by (cases ev) (auto simp: ev_greets_def and_then_eq_Inr driver_input_def driver_monitor_def driver_qemu_def
      driver_clip_def Let_def simp del: sleep_step.simps
      split: if_split_asm option.split_asm list.split_asm prod.split_asm)

lemma driver_step_pipe_run:
  assumes "driver_step pb (w, ev) d = Inr d'" and "pipe_run False s (dr_timers d, dr_ctl d)"
  shows "pipe_run False s (dr_timers d', dr_ctl d')"
proof (cases "ev_greets ev")
  case True
  then consider chunk where "ev = Dr_agent chunk" | "ev = Dr_tick" by (auto simp: ev_greets_def)
  then show ?thesis
  proof cases
    case 1
    with assms(1) obtain buf timers c where
      r: "clientpipe_receive (driver_world d w) pb chunk (dr_buf d, dr_timers d, dr_ctl d) = Inr (buf, timers, c)"
        "d' = (put_ctl c d)\<lparr>dr_buf := buf, dr_timers := timers\<rparr>"
      by (auto simp: and_then_eq_Inr)
    from r(1) obtain cmds where
      "for_each_res (clientpipe_handle (driver_world d w)) cmds (dr_timers d, dr_ctl d) = Inr (timers, c)"
      by (auto simp: clientpipe_receive_def and_then_eq_Inr split: prod.split_asm)
    from pipe_run_messages [OF this assms(2)] r(2) show ?thesis by (simp add: dr_ctl_def put_ctl_def)
  next
    case 2
    show ?thesis
    proof (cases "dr_timers d = 0")
      case False
      with 2 assms(1) obtain timers c where
        r: "ping_tick (driver_world d w) (dr_timers d, dr_ctl d) = Inr (timers, c)"
          "d' = (put_ctl c d)\<lparr>dr_timers := timers\<rparr>"
        by (auto simp: and_then_eq_Inr)
      from pipe_tick [OF assms(2) _ r(1)] False r(2) show ?thesis by (simp add: dr_ctl_def put_ctl_def)
    qed (use 2 assms in simp)
  qed
next
  case False
  have "\<exists>w ms qs. ctl_moves w ms False qs (dr_ctl d) (dr_ctl d')"
  proof (cases "ev_control ev")
    case True
    with assms(1) driver_control_moves show ?thesis unfolding ev_control_def by blast
  next
    case c: False
    from driver_step_moves [OF assms(1) c] False show ?thesis by auto
  qed
  then obtain w' ms qs where "ctl_moves w' ms False qs (dr_ctl d) (dr_ctl d')" by blast
  from pipe_run_moves [OF assms(2) this] driver_step_timers [OF assms(1) False] show ?thesis by simp
qed

text \<open>The monitor task and the inhibitor.\<close>

lemma driver_step_monitor:
  assumes "driver_step pb (w, ev) d = Inr d'"
  shows "dr_monitor d' = dr_monitor d \<or> (\<exists>q cmd. monitor_step q cmd (dr_monitor d) = Inr (dr_monitor d'))"
  using assms
  by (cases ev) (auto simp: and_then_eq_Inr driver_input_def driver_monitor_def driver_qemu_def
      driver_clip_def Let_def simp del: sleep_step.simps
      split: if_split_asm option.split_asm list.split_asm prod.split_asm)

lemma monitor_run_snoc:
  "monitor_run qs m = Inr m1 \<Longrightarrow> monitor_step q cmd m1 = Inr m2 \<Longrightarrow> monitor_run (qs @ [(q, cmd)]) m = Inr m2"
  by (simp add: monitor_run_def for_each_res_append)

lemma driver_step_inhibitor:
  assumes "driver_step pb (w, ev) d = Inr d'" and "\<not> (\<exists>ok ci. ev = Dr_sleep ok ci)" and "ev \<noteq> Dr_sleep_done"
  shows "dr_inhibitor d' = dr_inhibitor d"
  using assms
  by (cases ev) (auto simp: and_then_eq_Inr driver_input_def driver_monitor_def driver_qemu_def
      driver_clip_def Let_def split: if_split_asm option.split_asm list.split_asm prod.split_asm)

lemma sleep_run_snoc:
  "sleep_run es s = Inr t \<Longrightarrow> sleep_step e t = Inr u \<Longrightarrow> sleep_run (es @ [e]) s = Inr u"
  by (simp add: sleep_run_def for_each_res_append)

text \<open>
  A step of the driver as events of the inhibitor; only QEMU's report is one for it that tells of a
  suspend.
\<close>

lemma sleep_run_moves:
  assumes "ctl_moves w ms hp qs c c'"
  shows "\<exists>es. sleep_run es (ih, c) = Inr (ih, c') \<and> (Sl_elsewhere Call_qemu_suspended \<in> snd ` set es \<longrightarrow> qs)"
proof (rule ctl_moves_inv [where P = "\<lambda>d. \<exists>es. sleep_run es (ih, c) = Inr (ih, d) \<and>
      (Sl_elsewhere Call_qemu_suspended \<in> snd ` set es \<longrightarrow> qs)", OF assms])
  show "\<exists>es. sleep_run es (ih, c) = Inr (ih, c) \<and> (Sl_elsewhere Call_qemu_suspended \<in> snd ` set es \<longrightarrow> qs)"
    by (rule exI [of _ "[]"]) (simp add: sleep_run_def)
next
  fix e d d' assume e: "controller_call w e d = Inr d'" "calls_within ms hp qs [e]"
  assume "\<exists>es. sleep_run es (ih, c) = Inr (ih, d) \<and> (Sl_elsewhere Call_qemu_suspended \<in> snd ` set es \<longrightarrow> qs)"
  then obtain es where es: "sleep_run es (ih, c) = Inr (ih, d)"
      "Sl_elsewhere Call_qemu_suspended \<in> snd ` set es \<longrightarrow> qs" by blast
  have "sleep_step (w, Sl_elsewhere e) (ih, d) = Inr (ih, d')"
    using e(1) by (simp del: controller_call.simps)
  from sleep_run_snoc [OF es(1) this] es(2) e(2)
  show "\<exists>es. sleep_run es (ih, c) = Inr (ih, d') \<and> (Sl_elsewhere Call_qemu_suspended \<in> snd ` set es \<longrightarrow> qs)"
    by (intro exI [of _ "es @ [(w, Sl_elsewhere e)]"]) (auto simp: calls_within_def)
qed

lemma driver_step_sleep_run:
  assumes "driver_step pb (w, ev) d = Inr d'"
  shows "\<exists>es. sleep_run es (dr_inhibitor d, dr_ctl d) = Inr (dr_inhibitor d', dr_ctl d') \<and>
    (Sl_elsewhere Call_qemu_suspended \<in> snd ` set es \<longrightarrow> ev = Dr_qemu SUSPEND)"
proof (cases "(\<exists>ok ci. ev = Dr_sleep ok ci) \<or> ev = Dr_sleep_done")
  case True
  then show ?thesis
  proof (elim disjE exE)
    fix ok ci assume ev: "ev = Dr_sleep ok ci"
    with assms obtain ih c where r: "sleep_step (driver_world d w, Sl_item ok ci) (dr_inhibitor d, dr_ctl d) = Inr (ih, c)"
        "d' = (put_ctl c d)\<lparr>dr_inhibitor := ih\<rparr>"
      by (auto simp: and_then_eq_Inr simp del: sleep_step.simps)
    from r show ?thesis
      by (intro exI [of _ "[(driver_world d w, Sl_item ok ci)]"])
        (simp add: sleep_run_def dr_ctl_def put_ctl_def del: sleep_step.simps)
  next
    assume "ev = Dr_sleep_done"
    with assms show ?thesis
      by (intro exI [of _ "[(w, Sl_wake)]"])
        (auto simp: sleep_run_def dr_ctl_def inhibitor_wake_def split: option.split)
  qed
next
  case False
  from False have ih: "dr_inhibitor d' = dr_inhibitor d"
    by (intro driver_step_inhibitor [OF assms]) auto
  have "\<exists>w ms hp. ctl_moves w ms hp (ev = Dr_qemu SUSPEND) (dr_ctl d) (dr_ctl d')"
  proof (cases "ev_control ev")
    case True
    then obtain e where e: "ev = Dr_control e" by (auto simp: ev_control_def)
    with assms driver_control_moves [of pb w e d d'] show ?thesis by auto
  next
    case c: False
    from driver_step_moves [OF assms c] show ?thesis by blast
  qed
  then obtain w' ms hp where "ctl_moves w' ms hp (ev = Dr_qemu SUSPEND) (dr_ctl d) (dr_ctl d')" by blast
  from sleep_run_moves [OF this, of "dr_inhibitor d"] ih show ?thesis by simp
qed

lemma sleep_run_append:
  "sleep_run (xs @ ys) s = and_then (sleep_run xs s) (sleep_run ys)"
  unfolding sleep_run_def by (rule for_each_res_append)

lemma driver_exec_sleep_run:
  "driver_exec pb es d = Inr d' \<Longrightarrow>
     \<exists>ss. sleep_run ss (dr_inhibitor d, dr_ctl d) = Inr (dr_inhibitor d', dr_ctl d') \<and>
       (Sl_elsewhere Call_qemu_suspended \<in> snd ` set ss \<longrightarrow> Dr_qemu SUSPEND \<in> snd ` set es)"
proof (induction es arbitrary: d)
  case Nil
  then show ?case by (intro exI [of _ "[]"]) (simp add: driver_exec_def sleep_run_def)
next
  case (Cons e es)
  obtain w ev where e: "e = (w, ev)" by (cases e)
  from Cons.prems obtain u where u: "driver_step pb (w, ev) d = Inr u" "driver_exec pb es u = Inr d'"
    by (auto simp: driver_exec_def and_then_eq_Inr e simp del: driver_step.simps)
  from driver_step_sleep_run [OF u(1)] obtain xs where xs:
    "sleep_run xs (dr_inhibitor d, dr_ctl d) = Inr (dr_inhibitor u, dr_ctl u)"
    "Sl_elsewhere Call_qemu_suspended \<in> snd ` set xs \<longrightarrow> ev = Dr_qemu SUSPEND" by blast
  from Cons.IH [OF u(2)] obtain ys where ys:
    "sleep_run ys (dr_inhibitor u, dr_ctl u) = Inr (dr_inhibitor d', dr_ctl d')"
    "Sl_elsewhere Call_qemu_suspended \<in> snd ` set ys \<longrightarrow> Dr_qemu SUSPEND \<in> snd ` set es" by blast
  from xs ys show ?case
    by (intro exI [of _ "xs @ ys"]) (auto simp: sleep_run_append e)
qed

subsection \<open>Every event of a healthy environment succeeds\<close>

text \<open>
  The environment of an event: udev, libinput, the channels and process creation answer; logind
  gives the lock and its signals are well-formed; a wheel does not report the least of all steps.
  What the monitor task does depends on QEMU and is not one of them.
\<close>

definition event_ok :: "World \<Rightarrow> Driver_event \<Rightarrow> bool" where
  "event_ok w ev \<longleftrightarrow>
     w_healthy w \<and>
     (case ev of
        Dr_sleep ok ci \<Rightarrow> ok \<and> returns (prepare_for_sleep ci)
      | Dr_input (Pointer_scroll_wheel vertical v120) \<Rightarrow> f64_as_int 32 (v120 / 120) \<noteq> - (2 ^ 31)
      | Dr_monitor _ \<Rightarrow> False
      | _ \<Rightarrow> True)"

lemma driver_world_healthy: "w_healthy (driver_world d w) \<longleftrightarrow> w_healthy w" if "mn_running (dr_monitor d)" "w_monitor_open w"
  using that by (simp add: driver_world_def w_healthy_def server_world_def)

lemma temporary_open_call:
  "temporary_open w c \<Longrightarrow> controller_call w e c = Inr c' \<Longrightarrow> \<not> makes_channel e \<Longrightarrow> temporary_open w c'"
  using controller_call_frame by (auto simp: temporary_open_def frame_ok_def)

lemma clientpipe_handle_returns:
  assumes "w_healthy w" and "temporary_open w c"
  shows "\<exists>n' c'. clientpipe_handle w cmd (n, c) = Inr (n', c') \<and> temporary_open w c'"
proof -
  note call = controller_call_returns [OF assms]
  have sim: "returns (ga_hello w c)" "returns (ga_suspending w c)" "returns (ga_hotkey w i c)"
    "returns (mouse_edged w x y c)" "returns (grab_x11_clipboard w ts c)" "returns (read_x11_clipboard w k c)"
    "returns (respond_x11_clipboard w b c)" for i x y ts k b
    using returns_ga_hello [OF assms] call [of Call_ga_suspending] call [of "Call_ga_hotkey i"]
      call [of "Call_mouse_edged x y"] call [of "Call_grab_x11_clipboard ts"]
      call [of "Call_read_x11_clipboard k"] call [of "Call_respond_x11_clipboard b"]
    by simp_all
  have "returns (clientpipe_handle w cmd (n, c))"
    unfolding clientpipe_handle_def Let_def
    by (auto intro!: returns_and_then sim split: GaCmdIn.split option.split ClipboardMessage.split prod.split)
  then have r: "\<exists>n' c'. clientpipe_handle w cmd (n, c) = Inr (n', c')" by (auto simp: returns_def)
  then obtain n' c' where h: "clientpipe_handle w cmd (n, c) = Inr (n', c')" by blast
  have "temporary_open w c'"
    by (rule ctl_moves_inv [where P = "temporary_open w", OF clientpipe_handle_moves [OF h] assms(2)])
      (auto simp: calls_within_def intro: temporary_open_call)
  with h show ?thesis by blast
qed

lemma returns_clientpipe_receive:
  assumes "w_healthy w" and "temporary_open w c"
  shows "returns (clientpipe_receive w pb chunk (buf, n, c))"
proof -
  have "returns (for_each_res (clientpipe_handle w) cmds (n, c))" for cmds
  proof -
    have "\<exists>t. for_each_res (clientpipe_handle w) cmds (n, c) = Inr t \<and> temporary_open w (snd t)"
    proof (rule for_each_res_ok [where P = "\<lambda>s. temporary_open w (snd s)"])
      fix cmd and s :: "nat \<times> Controller" assume "temporary_open w (snd s)"
      with clientpipe_handle_returns [OF assms(1), of "snd s" cmd "fst s"]
      show "\<exists>s'. clientpipe_handle w cmd s = Inr s' \<and> temporary_open w (snd s')" by auto
    qed (use assms(2) in simp)
    then show ?thesis by (auto simp: returns_def)
  qed
  then show ?thesis
    by (auto simp: clientpipe_receive_def intro!: returns_and_then split: prod.split)
qed

lemma returns_sleep_item:
  assumes "w_healthy w" and "ok" and "returns (prepare_for_sleep ci)"
  shows "returns (sleep_step (w, Sl_item ok ci) (ih, c))"
proof -
  have "returns (suspend w c)"
    by (auto simp: suspend_def Let_def assms(1) intro!: returns_and_then)
  with assms show ?thesis
    by (auto simp: inhibitor_item_def inhibit_def intro!: returns_and_then split: option.split bool.split)
qed

lemma returns_input_event:
  assumes "w_healthy w" and "temporary_open w c"
    and "\<forall>vertical v120. ev = Pointer_scroll_wheel vertical v120 \<longrightarrow> f64_as_int 32 (v120 / 120) \<noteq> - (2 ^ 31)"
  shows "returns (input_event w ev (ks, c))"
proof -
  have hks: "returns (for_each_res (\<lambda>hk. ga_hotkey w (of_nat hk)) hks c)" for hks
  proof -
    have "\<exists>t. for_each_res (\<lambda>hk. ga_hotkey w (of_nat hk)) hks c = Inr t \<and> temporary_open w t"
    proof (rule for_each_res_ok [where P = "temporary_open w"])
      fix hk :: nat and d assume d: "temporary_open w d"
      from controller_call_returns [OF assms(1) d, of "Call_ga_hotkey (of_nat hk)"]
        temporary_open_call [OF d, of "Call_ga_hotkey (of_nat hk)"]
      show "\<exists>d'. ga_hotkey w (of_nat hk) d = Inr d' \<and> temporary_open w d'"
        by (auto simp: returns_def makes_channel_def)
    qed (use assms(2) in simp)
    then show ?thesis by (auto simp: returns_def)
  qed
  have key: "returns (key_event w code down (ks, c))" for code down
    using hks by (auto simp: key_event_def Let_def intro!: returns_and_then split: prod.split option.split)
  have wheel: "returns (wheel_events v120)" if "f64_as_int 32 (v120 / 120) \<noteq> - (2 ^ 31)" for v120
    using that by (simp add: wheel_events_def Let_def)
  show ?thesis
    using assms(3) key wheel
    by (auto simp: input_event_def intro!: returns_and_then split: Libinput_event.split option.split)
qed

text \<open>The input handler runs as long as the monitor task does.\<close>

lemma driver_step_input_open:
  assumes "driver_step pb (w, ev) d = Inr d'" and "mn_running (dr_monitor d) \<longrightarrow> dr_input_open d"
  shows "mn_running (dr_monitor d') \<longrightarrow> dr_input_open d'"
proof -
  have running: "mn_running (dr_monitor d)" if "mn_running (dr_monitor d')"
    using driver_step_monitor [OF assms(1)] that
    by (auto simp: monitor_step_def and_then_eq_Inr split: if_split_asm)
  show ?thesis
    using assms running
    by (cases ev) (auto simp: and_then_eq_Inr driver_input_def driver_monitor_def driver_qemu_def
      driver_clip_def Let_def simp del: sleep_step.simps
      split: if_split_asm option.split_asm list.split_asm prod.split_asm)
qed

text \<open>A driver run keeps it all.\<close>

lemma driver_exec_inv:
  assumes "driver_exec pb es d = Inr d'" and "P d"
    and "\<And>w ev d d'. driver_step pb (w, ev) d = Inr d' \<Longrightarrow> P d \<Longrightarrow> P d'"
  shows "P d'"
  using assms(1,2) unfolding driver_exec_def
  by (rule for_each_res_inv) (use assms(3) in \<open>metis prod.collapse\<close>)

lemma driver_run_inv:
  assumes "driver_run pb mc hooks d" and "P (Driver_new mc hooks \<lparr>ih_fd = True, ih_waits = None\<rparr>)"
    and "\<And>w ev d d'. driver_step pb (w, ev) d = Inr d' \<Longrightarrow> P d \<Longrightarrow> P d'"
  shows "P d"
  using assms(1) driver_exec_inv [where P = P] assms(2,3) unfolding driver_run_def by blast

lemma driver_run_server: "driver_run pb mc hooks d \<Longrightarrow> server_run mc hooks (dr_server d)"
  by (erule driver_run_inv [where P = "\<lambda>d. server_run mc hooks (dr_server d)"])
    (auto simp: Driver_new_def intro: server_start driver_step_server_run)

lemma driver_run_reachable: "driver_run pb mc hooks d \<Longrightarrow> reachable mc hooks (dr_ctl d)"
  using server_run_ok [OF driver_run_server] by (simp add: server_ok_def dr_ctl_def)

lemma driver_run_input: "driver_run pb mc hooks d \<Longrightarrow> mn_running (dr_monitor d) \<Longrightarrow> dr_input_open d"
  using driver_run_inv [where P = "\<lambda>d. mn_running (dr_monitor d) \<longrightarrow> dr_input_open d"]
    driver_step_input_open by (auto simp: Driver_new_def)

lemma driver_run_more:
  assumes "driver_run pb mc hooks d" and "driver_step pb (w, ev) d = Inr d'"
  shows "driver_run pb mc hooks d'"
proof -
  from assms(1) obtain es where "driver_exec pb es (Driver_new mc hooks \<lparr>ih_fd = True, ih_waits = None\<rparr>) = Inr d"
    by (auto simp: driver_run_def)
  with assms(2) have "driver_exec pb (es @ [(w, ev)]) (Driver_new mc hooks \<lparr>ih_fd = True, ih_waits = None\<rparr>) = Inr d'"
    by (simp add: driver_exec_def for_each_res_append)
  then show ?thesis unfolding driver_run_def by blast
qed

lemma driver_step_returns:
  assumes run: "driver_run pb mc hooks d" and on: "mn_running (dr_monitor d)" and ok: "event_ok w ev"
  shows "returns (driver_step pb (w, ev) d)"
proof -
  let ?w = "driver_world d w"
  have h: "w_healthy ?w"
    using ok on driver_world_healthy [OF on] by (auto simp: event_ok_def w_healthy_def)
  have own: "owned (dr_server d)" using server_run_ok [OF driver_run_server [OF run]] by (simp add: server_ok_def)
  then have t: "temporary_open ?w (dr_ctl d)"
    using server_world_open by (simp add: driver_world_def dr_ctl_def)
  have call: "returns (controller_call ?w e (dr_ctl d))" for e by (rule controller_call_returns [OF h t])
  show ?thesis
  proof (cases ev)
    case (Dr_control e)
    with server_step_returns [OF h own] show ?thesis by (auto intro: returns_and_then)
  next
    case (Dr_agent chunk)
    with returns_clientpipe_receive [OF h t] show ?thesis by (auto intro!: returns_and_then)
  next
    case Dr_tick
    with returns_ga_ping [OF h] show ?thesis by (auto simp: ping_tick_def intro!: returns_and_then)
  next
    case (Dr_sleep a ci)
    with ok returns_sleep_item [OF h] show ?thesis
      by (auto simp: event_ok_def simp del: sleep_step.simps intro!: returns_and_then)
  next
    case (Dr_input e)
    with ok have "returns (input_event ?w e (dr_keyboard d, dr_ctl d))"
      by (intro returns_input_event h t) (auto simp: event_ok_def)
    with Dr_input driver_run_input [OF run on] show ?thesis
      by (auto simp: driver_input_def Let_def intro!: returns_and_then)
  next
    case (Dr_monitor q)
    with ok show ?thesis by (simp add: event_ok_def)
  next
    case (Dr_offer offer)
    with call [of "Call_grab_win_clipboard (offered_types (the offer))"] show ?thesis
      by (auto simp: clipboard_listener_def intro!: returns_and_then split: option.split)
  next
    case (Dr_claim req)
    with call [of "Call_read_win_clipboard \<lparr>cre_req = req\<rparr>"] show ?thesis
      by (auto simp: claim_request_def intro!: returns_and_then)
  next
    case (Dr_clip grab offer)
    have "returns (clipboard_cmd ?w offer cmd (dr_ctl d))" for cmd
      using call [of "Call_respond_win_clipboard b" for b]
      by (auto simp: clipboard_cmd_def intro!: returns_and_then split: Cmd.split)
    with Dr_clip show ?thesis by (auto simp: driver_clip_def intro!: returns_and_then split: option.split)
  next
    case Dr_terminate
    with call [of Call_shutdown] show ?thesis by (auto intro!: returns_and_then)
  qed (simp_all add: event_ok_def)
qed

subsection \<open>Properties\<close>


definition demo_driver :: Driver where
  "demo_driver = Driver_new demo_machine HooksConfig_default \<lparr>ih_fd = True, ih_waits = None\<rparr>"

lemma demo_driver_run: "driver_run pb demo_machine HooksConfig_default demo_driver"
  unfolding driver_run_def demo_driver_def by (rule exI [of _ "[]"]) (simp add: driver_exec_def)




text \<open>
  C15: Safety: from a signal of logind that the host is about to sleep, the whole driver keeps the
  delay lock until an event of QEMU reports that Windows has suspended, whatever else its clients,
  the guest agent, the input devices and the clipboard do meanwhile; unless Windows was suspended
  already.
\<close>

theorem host_sleeps_after_windows:
  assumes "driver_run pb mc hooks d" and "ih_fd (dr_inhibitor d)" and "ih_waits (dr_inhibitor d) = None"
    and "driver_exec pb ((w, Dr_sleep ok (PrepareForSleep True)) # es) d = Inr d'"
    and "\<not> ih_fd (dr_inhibitor d')"
  shows "c_ga (sv_controller (dr_server d)) = St_Suspended \<or> Dr_qemu SUSPEND \<in> snd ` set es"
proof (rule ccontr)
  assume n: "\<not> ?thesis"
  from assms(4) obtain u where
    u: "driver_step pb (w, Dr_sleep ok (PrepareForSleep True)) d = Inr u" "driver_exec pb es u = Inr d'"
    by (auto simp: driver_exec_def and_then_eq_Inr simp del: driver_step.simps)
  from u(1) assms(3) obtain ih c where
    s: "inhibitor_item (driver_world d w) ok (PrepareForSleep True) (dr_inhibitor d, dr_ctl d) = Inr (ih, c)"
      "dr_inhibitor u = ih" "dr_ctl u = c"
    by (auto simp: and_then_eq_Inr dr_ctl_def put_ctl_def)
  have p: "sleep_pending (c_next (dr_ctl d)) (dr_inhibitor u, dr_ctl u)"
    using sleep_signal_pending [OF s(1) assms(2,3) driver_run_reachable [OF assms(1)]] n s(2,3)
    by (simp add: dr_ctl_def)
  from driver_exec_sleep_run [OF u(2)] n obtain ss where
    "sleep_run ss (dr_inhibitor u, dr_ctl u) = Inr (dr_inhibitor d', dr_ctl d')"
    "Sl_elsewhere Call_qemu_suspended \<notin> snd ` set ss" by blast
  from sleep_run_pending [OF this(1) p this(2)] assms(5) show False by (simp add: sleep_pending_def)
qed

theorem host_sleeps_after_windows_witness:
  "\<exists>d. driver_exec small_prost ((demo_world, Dr_sleep True (PrepareForSleep True)) #
       [(demo_world, Dr_qemu SUSPEND), (demo_world, Dr_sleep_done)]) demo_driver = Inr d \<and>
     \<not> ih_fd (dr_inhibitor d) \<and>
     (c_ga (sv_controller (dr_server demo_driver)) = St_Suspended \<or>
      Dr_qemu SUSPEND \<in> snd ` set [(demo_world, Dr_qemu SUSPEND), (demo_world, Dr_sleep_done)])"
proof -
  let ?es = "[(demo_world, Dr_qemu SUSPEND), (demo_world, Dr_sleep_done)]"
  have ih: "dr_inhibitor demo_driver = \<lparr>ih_fd = True, ih_waits = None\<rparr>"
    and ctl: "dr_ctl demo_driver = demo_controller"
    by (simp_all add: demo_driver_def Driver_new_def dr_ctl_def Server_new_def demo_controller_def)
  have on: "mn_running (dr_monitor demo_driver)" by (simp add: demo_driver_def Driver_new_def Monitor_new_def)
  have w: "w_clientpipe_open (driver_world demo_driver demo_world)"
    by (simp add: driver_world_def server_world_def demo_world_def)
  obtain c where c: "suspend (driver_world demo_driver demo_world) demo_controller = Inr (Waiting 0, c)"
      "c_suspend_senders c = [0]"
    using w by (simp add: suspend_def demo_controller_def Controller_new_def Let_def write_ga_def)
  obtain d where d: "driver_exec small_prost ((demo_world, Dr_sleep True (PrepareForSleep True)) # ?es) demo_driver = Inr d"
      "\<not> ih_fd (dr_inhibitor d)"
    using c on by (simp add: driver_exec_def ih ctl inhibitor_item_def driver_qemu_def monitor_event_def
        inhibitor_wake_def qemu_suspended_def Let_def)
  from host_sleeps_after_windows [OF demo_driver_run _ _ d] ih d show ?thesis by auto
qed

subsection \<open>Backups\<close>

text \<open>What a command that carries a channel was for, in the log of the monitor task.\<close>

fun command_done :: "Monitor_effect list \<Rightarrow> QmpCommand \<Rightarrow> bool" where
  "command_done tr (TakeSnapshot i f a) = (Executed (snapshot_request i f) Exec_ok \<in> set tr)"
| "command_done tr (CommitSnapshot i f a) =
     (Executed (Block_job_complete (disk_name i)) Exec_ok \<in> set tr \<and> File_removed f \<in> set tr)"
| "command_done tr _ = True"

lemma command_done_mono: "command_done tr cmd \<Longrightarrow> set tr \<subseteq> set tr' \<Longrightarrow> command_done tr' cmd"
  by (cases cmd) auto

text \<open>Every answer and every pending commit goes back to one of the commands that were sent.\<close>

definition acks_justified :: "QmpCommand set \<Rightarrow> Monitor \<Rightarrow> bool" where
  "acks_justified S m \<longleftrightarrow>
     (\<forall>dev f a. mn_pending m dev = Some (f, a) \<longrightarrow> (\<exists>i. dev = disk_name i \<and> CommitSnapshot i f a \<in> S)) \<and>
     (\<forall>a. Ack_sent a \<in> set (mn_log m) \<longrightarrow>
       (\<exists>cmd\<in>S. command_ack cmd = Some a \<and> command_done (mn_log m) cmd))"

lemma acks_justified_mono: "acks_justified S m \<Longrightarrow> S \<subseteq> T \<Longrightarrow> acks_justified T m"
  unfolding acks_justified_def by blast

lemma acks_justified_fields [simp]:
  "acks_justified S (m\<lparr>mn_held_keys := K\<rparr>) \<longleftrightarrow> acks_justified S m"
  "acks_justified S (m\<lparr>mn_running := r\<rparr>) \<longleftrightarrow> acks_justified S m"
  by (simp_all add: acks_justified_def)

lemma acks_justified_less:
  "acks_justified S m \<Longrightarrow> p \<subseteq>\<^sub>m mn_pending m \<Longrightarrow> acks_justified S (m\<lparr>mn_pending := p\<rparr>)"
  unfolding acks_justified_def map_le_def by (auto simp: dom_def)

lemma acks_justified_emit:
  assumes "acks_justified S m"
    and "\<And>a. Ack_sent a \<in> set es \<Longrightarrow> \<exists>cmd\<in>S. command_ack cmd = Some a \<and> command_done (mn_log m @ es) cmd"
  shows "acks_justified S (mn_emit es m)"
proof -
  have "command_done (mn_log m) cmd \<Longrightarrow> command_done (mn_log m @ es) cmd" for cmd
    by (rule command_done_mono) auto
  with assms show ?thesis unfolding acks_justified_def mn_emit_def by (fastforce simp: set_append)
qed

lemma acks_justified_execute [simp]: "acks_justified S m \<Longrightarrow> acks_justified S (mn_emit [Executed req r] m)"
  by (rule acks_justified_emit) auto

lemma job_ready_justified:
  assumes "job_ready q device m = Inr (res, m')" and "acks_justified S m"
  shows "acks_justified S m'"
proof -
  from assms(1) obtain f a where p: "mn_pending m device = Some (f, a)"
    by (auto simp: job_ready_def split: option.split_asm)
  with assms(2) obtain i where i: "device = disk_name i" "CommitSnapshot i f a \<in> S"
    unfolding acks_justified_def by blast
  let ?m = "m\<lparr>mn_pending := (mn_pending m)(device := None)\<rparr>"
  let ?n = "mn_emit [Executed (Block_job_complete device) (qa_result q (Block_job_complete device))] ?m"
  have m: "acks_justified S ?m" by (rule acks_justified_less [OF assms(2)]) (simp add: map_le_def)
  show ?thesis
  proof (cases "qa_result q (Block_job_complete device) = Exec_ok")
    case True
    let ?o = "mn_emit [Executed (Blockdev_del (snap_name device)) (qa_result q (Blockdev_del (snap_name device)))] ?n"
    have "Executed (Block_job_complete device) Exec_ok \<in> set (mn_log ?o)"
      using True by (simp add: mn_emit_def)
    then have "command_done (mn_log ?o @ [File_removed f, Ack_sent a]) (CommitSnapshot i f a)"
      using i(1) by simp
    then have "acks_justified S (mn_emit [File_removed f, Ack_sent a] ?o)"
      using i(2) m by (intro acks_justified_emit) (auto intro: bexI [of _ "CommitSnapshot i f a"])
    with assms(1) p True show ?thesis by (auto simp: job_ready_def mn_execute_def split: if_split_asm)
  next
    case False
    with assms(1) p m show ?thesis
      by (auto simp: job_ready_def mn_execute_def Let_def)
  qed
qed

lemma monitor_command_justified:
  assumes "monitor_command q cmd m = Inr (res, m')" and "acks_justified S m"
    and "command_ack cmd \<noteq> None \<longrightarrow> cmd \<in> S"
  shows "acks_justified S m'"
proof (cases cmd)
  case (TakeSnapshot i f a)
  let ?req = "snapshot_request i f"
  have 1: "acks_justified S (mn_emit [Executed ?req r] m)" for r using assms(2) by simp
  have "acks_justified S (mn_emit [Ack_sent a] (mn_emit [Executed ?req Exec_ok] m))"
    using TakeSnapshot assms(3)
    by (intro acks_justified_emit 1) (auto simp: mn_emit_def intro!: bexI [of _ cmd])
  with TakeSnapshot assms(1) 1 show ?thesis
    by (auto simp: monitor_command_def take_snapshot_def mn_execute_def Let_def snapshot_request_def
        split: if_split_asm)
next
  case (CommitSnapshot i f a)
  have "acks_justified S (m\<lparr>mn_pending := (mn_pending m)(disk_name i \<mapsto> (f, a))\<rparr>)"
    using assms(2,3) CommitSnapshot by (auto simp: acks_justified_def)
  with CommitSnapshot assms(1) show ?thesis
    by (auto simp: monitor_command_def commit_snapshot_def mn_execute_def Let_def)
next
  case (JobReady device)
  with assms(1,2) show ?thesis by (auto simp: monitor_command_def intro: job_ready_justified)
qed (use assms(1,2) in \<open>auto simp: monitor_command_def send_events_def res_simps mn_execute_def\<close>)

lemma monitor_step_justified:
  assumes "monitor_step q cmd m = Inr m'" and "acks_justified S m" and "command_ack cmd \<noteq> None \<longrightarrow> cmd \<in> S"
  shows "acks_justified S m'"
proof (cases "mn_running m")
  case True
  with assms(1) obtain res n where n: "monitor_command q cmd m = Inr (res, n)"
      "m' = (if res = Exec_io_error then n\<lparr>mn_running := False, mn_pending := Map.empty\<rparr> else n)"
    by (auto simp: monitor_step_def and_then_eq_Inr)
  have j: "acks_justified S n" by (rule monitor_command_justified [OF n(1) assms(2,3)])
  from acks_justified_less [OF j, of Map.empty] have "acks_justified S (n\<lparr>mn_running := False, mn_pending := Map.empty\<rparr>)"
    by (simp add: acks_justified_def)
  with n(2) j show ?thesis by simp
qed (use assms in \<open>simp add: monitor_step_def\<close>)

text \<open>The commands the controller has sent, and the commands in the queue.\<close>

definition sent_commands :: "Driver \<Rightarrow> QmpCommand set" where
  "sent_commands d = {cmd. To_monitor cmd \<in> set (c_trace (dr_ctl d))}"

definition backup_ok :: "Driver \<Rightarrow> bool" where
  "backup_ok d \<longleftrightarrow>
     (\<forall>cmd\<in>set (dr_queue d). command_ack cmd \<noteq> None \<longrightarrow> cmd \<in> sent_commands d) \<and>
     acks_justified (sent_commands d) (dr_monitor d)"

lemma set_monitor_sent: "cmd \<in> set (monitor_sent es) \<longleftrightarrow> To_monitor cmd \<in> set es"
proof (induction es)
  case (Cons e es)
  then show ?case by (cases e) (auto simp: monitor_sent_def map_filter_def)
qed (simp add: monitor_sent_def map_filter_def)

lemma ctl_moves_trace:
  assumes "ctl_moves w ms hp qs c c'"
  shows "\<exists>es. c_trace c' = c_trace c @ es"
proof (rule ctl_moves_inv [where P = "\<lambda>d. \<exists>es. c_trace d = c_trace c @ es", OF assms])
  fix e d d' assume d: "controller_call w e d = Inr d'" "\<exists>es. c_trace d = c_trace c @ es"
  have "\<exists>es. c_trace d' = c_trace d @ es"
  proof (cases "makes_channel e")
    case True
    then obtain s x y where "e = Call_temporary_entry s x y" by (auto simp: makes_channel_def)
    with d(1) temporary_entry_frame(1) show ?thesis by (auto simp: ctl_returns)
  qed (use controller_call_frame [OF d(1)] in \<open>simp add: frame_ok_def\<close>)
  with d(2) show "\<exists>es. c_trace d' = c_trace c @ es" by auto
qed simp

lemma driver_step_trace:
  assumes "driver_step pb (w, ev) d = Inr d'"
  shows "\<exists>es. c_trace (dr_ctl d') = c_trace (dr_ctl d) @ es"
proof (cases "ev_control ev")
  case True
  with assms driver_control_moves show ?thesis unfolding ev_control_def by (blast dest: ctl_moves_trace)
next
  case False
  from ctl_moves_trace [OF driver_step_moves [OF assms False]] show ?thesis .
qed

lemma driver_step_sent:
  "driver_step pb (w, ev) d = Inr d' \<Longrightarrow> sent_commands d \<subseteq> sent_commands d'"
  by (drule driver_step_trace) (auto simp: sent_commands_def)

lemma input_event_no_ack:
  "input_event w ev s = Inr (Some cmd, s') \<Longrightarrow> command_ack cmd = None"
  by (cases s) (auto simp: input_event_def key_event_def wheel_events_def res_simps Let_def
      split: Libinput_event.splits option.splits if_splits prod.splits)

lemma put_server_queue:
  assumes "cmd \<in> set (dr_queue (put_server s d))"
  shows "cmd \<in> set (dr_queue d) \<or> To_monitor cmd \<in> set (c_trace (sv_controller s))"
  using assms by (auto simp: put_server_def Let_def set_monitor_sent dest: in_set_dropD)

lemma put_ctl_queue:
  "cmd \<in> set (dr_queue (put_ctl c d)) \<Longrightarrow> cmd \<in> set (dr_queue d) \<or> To_monitor cmd \<in> set (c_trace c)"
  unfolding put_ctl_def by (drule put_server_queue) simp

text \<open>Whatever is new in the queue was sent by the controller or carries no channel.\<close>

lemma driver_step_queue:
  assumes "driver_step pb (w, ev) d = Inr d'" and "cmd \<in> set (dr_queue d')"
  shows "cmd \<in> set (dr_queue d) \<or> cmd \<in> sent_commands d' \<or> command_ack cmd = None"
proof (cases ev)
  case (Dr_control e)
  show ?thesis
  proof (cases "control_enabled d e")
    case True
    with Dr_control assms(1) obtain s where "d' = put_server s d" by (auto simp: and_then_eq_Inr)
    with put_server_queue [of cmd s d] assms(2) show ?thesis by (auto simp: sent_commands_def)
  qed (use Dr_control assms in simp)
next
  case (Dr_agent chunk)
  with assms show ?thesis by (auto simp: and_then_eq_Inr sent_commands_def dest!: put_ctl_queue)
next
  case Dr_tick
  with assms show ?thesis
    by (auto simp: and_then_eq_Inr sent_commands_def dest!: put_ctl_queue split: if_split_asm)
next
  case (Dr_sleep ok ci)
  with assms show ?thesis
    by (auto simp: and_then_eq_Inr sent_commands_def simp del: sleep_step.simps dest!: put_ctl_queue)
next
  case Dr_sleep_done
  with assms show ?thesis by auto
next
  case (Dr_qemu e)
  have "cmd \<in> set (dr_queue d) \<or> cmd \<in> set (fst (monitor_event e (dr_queue d, dr_ctl d))) \<or> cmd \<in> sent_commands d'"
    using Dr_qemu assms
    by (auto simp: driver_qemu_def sent_commands_def Let_def dest!: put_ctl_queue
        split: prod.split_asm if_split_asm)
  then show ?thesis by (cases e) (auto simp: monitor_event_def)
next
  case (Dr_monitor q)
  with assms show ?thesis
    by (auto simp: driver_monitor_def and_then_eq_Inr split: list.split_asm if_split_asm)
next
  case (Dr_input e)
  with assms(1) obtain c0 ks c where i: "input_event (driver_world d w) e (dr_keyboard d, dr_ctl d) = Inr (c0, ks, c)"
    and d': "d' = (let d = (put_ctl c d)\<lparr>dr_keyboard := ks\<rparr> in case c0 of None \<Rightarrow> d
      | Some cmd \<Rightarrow> if mn_running (dr_monitor d) then d\<lparr>dr_queue := dr_queue d @ [cmd]\<rparr> else d\<lparr>dr_input_open := False\<rparr>)"
    by (auto simp: driver_input_def and_then_eq_Inr Let_def split: if_split_asm)
  have "cmd \<in> set (dr_queue (put_ctl c d)) \<or> c0 = Some cmd" and "dr_ctl d' = c"
    using assms(2) d' by (auto simp: Let_def split: option.split_asm if_split_asm)
  with i put_ctl_queue [of cmd c d] show ?thesis
    by (auto simp: sent_commands_def dest: input_event_no_ack)
next
  case (Dr_offer offer)
  with assms show ?thesis by (auto simp: and_then_eq_Inr sent_commands_def dest!: put_ctl_queue)
next
  case (Dr_claim req)
  with assms show ?thesis by (auto simp: and_then_eq_Inr sent_commands_def dest!: put_ctl_queue)
next
  case (Dr_clip grab offer)
  with assms show ?thesis
    by (auto simp: driver_clip_def and_then_eq_Inr sent_commands_def dest!: put_ctl_queue split: option.split_asm)
next
  case Dr_terminate
  with assms show ?thesis by (auto simp: and_then_eq_Inr sent_commands_def dest!: put_ctl_queue)
qed

lemma driver_step_commands:
  assumes "driver_step pb (w, ev) d = Inr d'"
  shows "dr_monitor d' = dr_monitor d \<or>
    (\<exists>q cmd. cmd \<in> set (dr_queue d) \<and> monitor_step q cmd (dr_monitor d) = Inr (dr_monitor d'))"
proof (cases "\<exists>q. ev = Dr_monitor q")
  case True
  then obtain q where q: "ev = Dr_monitor q" by blast
  show ?thesis
  proof (cases "dr_queue d")
    case (Cons cmd queue)
    with q assms have "dr_monitor d' = dr_monitor d \<or> monitor_step q cmd (dr_monitor d) = Inr (dr_monitor d')"
      by (auto simp: driver_monitor_def and_then_eq_Inr split: if_split_asm)
    moreover have "cmd \<in> set (dr_queue d)" using Cons by simp
    ultimately show ?thesis by blast
  qed (use q assms in \<open>simp add: driver_monitor_def\<close>)
next
  case False
  with assms show ?thesis
    by (cases ev) (auto simp: and_then_eq_Inr driver_input_def driver_qemu_def driver_clip_def Let_def
      simp del: sleep_step.simps split: if_split_asm option.split_asm prod.split_asm)
qed

lemma driver_step_backup:
  assumes "driver_step pb (w, ev) d = Inr d'" and "backup_ok d"
  shows "backup_ok d'"
proof -
  note sub = driver_step_sent [OF assms(1)]
  have "acks_justified (sent_commands d) (dr_monitor d')"
    using driver_step_commands [OF assms(1)] assms(2) monitor_step_justified
    unfolding backup_ok_def by metis
  then have "acks_justified (sent_commands d') (dr_monitor d')" by (rule acks_justified_mono [OF _ sub])
  moreover have "cmd \<in> sent_commands d'" if "cmd \<in> set (dr_queue d')" "command_ack cmd \<noteq> None" for cmd
    using driver_step_queue [OF assms(1) that(1)] that(2) assms(2) sub by (auto simp: backup_ok_def)
  ultimately show ?thesis by (simp add: backup_ok_def)
qed

lemma driver_run_backup:
  assumes "driver_run pb mc hooks d"
  shows "backup_ok d"
proof (rule driver_run_inv [where P = backup_ok, OF assms])
  show "backup_ok (Driver_new mc hooks \<lparr>ih_fd = True, ih_waits = None\<rparr>)"
    by (simp add: backup_ok_def acks_justified_def Driver_new_def Monitor_new_def)
qed (rule driver_step_backup)


lemma driver_exec_more:
  "driver_run pb mc hooks d \<Longrightarrow> driver_exec pb es d = Inr d' \<Longrightarrow> driver_run pb mc hooks d'"
  by (erule driver_exec_inv [where P = "driver_run pb mc hooks"]) (auto intro: driver_run_more)


end
