(* ===== verification/Guest_Composition.thy ===== *)
theory Guest_Composition
  imports Driver_Properties Guest_Lemmas
begin

text \<open>
  The driver and the guest agent together: what the driver sends, the agent knows.
\<close>

lemma ctl_moves_known:
  assumes "ctl_moves w ms hp qs c c'" and "list_all known_effect (c_trace c)"
  shows "list_all known_effect (c_trace c')"
  using assms
proof (rule ctl_moves_inv [where P = "\<lambda>c. list_all known_effect (c_trace c)"])
  fix e d d' assume call: "controller_call w e d = Inr d'" and "calls_within ms hp qs [e]"
    and ok: "list_all known_effect (c_trace d)"
  then have "known_types e" by (simp add: calls_within_def del: controller_call.simps)
  from controller_call_known [OF call this ok] show "list_all known_effect (c_trace d')" .
qed

lemma driver_step_known:
  assumes "driver_step pb we d = Inr d'" and "list_all known_effect (c_trace (dr_ctl d))"
  shows "list_all known_effect (c_trace (dr_ctl d'))"
proof (cases we)
  case (Pair w ev)
  show ?thesis
  proof (cases "ev_control ev")
    case True
    then obtain e where "ev = Dr_control e" by (auto simp: ev_control_def)
    with assms(1) Pair driver_control_moves obtain w' where "ctl_moves w' True False False (dr_ctl d) (dr_ctl d')"
      by blast
    then show ?thesis using assms(2) by (rule ctl_moves_known)
  next
    case False
    from driver_step_moves [OF assms(1) [unfolded Pair] False] assms(2) show ?thesis by (rule ctl_moves_known)
  qed
qed

lemma driver_exec_known:
  "for_each_res (driver_step pb) es d = Inr d' \<Longrightarrow> list_all known_effect (c_trace (dr_ctl d)) \<Longrightarrow>
     list_all known_effect (c_trace (dr_ctl d'))"
proof (induction es arbitrary: d)
  case (Cons we es)
  then obtain e where "driver_step pb we d = Inr e" "for_each_res (driver_step pb) es e = Inr d'"
    by (auto simp: and_then_eq_Inr simp del: driver_step.simps)
  with Cons driver_step_known show ?case by blast
qed simp

text \<open>Every message that a run of the driver sends to the guest agent is one the agent knows.\<close>

lemma driver_run_acceptable:
  assumes "driver_run pb mc hooks d" and "msg \<in> set (ga_sent (c_trace (dr_ctl d)))"
  shows "acceptable msg"
proof -
  from assms(1) obtain es where
    "for_each_res (driver_step pb) es (Driver_new mc hooks \<lparr>ih_fd = True, ih_waits = None\<rparr>) = Inr d"
    by (auto simp: driver_run_def driver_exec_def simp del: driver_step.simps)
  then have "list_all known_effect (c_trace (dr_ctl d))"
    by (rule driver_exec_known) (simp add: Driver_new_def dr_ctl_def Server_new_def Controller_new_def)
  with assms(2) show ?thesis
    by (force simp: ga_sent_def map_filter_def list_all_iff split: Effect.splits)
qed

end
