(* ===== verification/Guest_Properties.thy ===== *)
theory Guest_Properties
  imports Guest_Pastes Guest_Composition
begin

text \<open>
  The properties of the guest agent, with the driver or without it, and a small Windows on which they
  are applied.
\<close>

subsection \<open>A small Windows\<close>

text \<open>Every call succeeds, and the clipboard belongs to the agent's window and is empty.\<close>

definition small_windows :: "unit Win_api" where
  "small_windows =
     \<lparr>wa_get_message = (\<lambda>s. (None, s)), wa_post_message = (\<lambda>_ _ s. (True, s)), wa_post_quit = (\<lambda>s. s),
      wa_destroy_window = (\<lambda>_ s. Some ([], s)), wa_def_proc = (\<lambda>_ s. (0, s)), wa_exists = (\<lambda>_ _. True)\<rparr>"

definition small_clipboard :: "unit Clip_api" where
  "small_clipboard =
     \<lparr>cl_open = (\<lambda>_ s. (True, s)), cl_close = (\<lambda>s. (True, s)), cl_empty = (\<lambda>s. (None, s)),
      cl_next_format = (\<lambda>_ _. 0), cl_last_error = (\<lambda>_. 0), cl_get_data = (\<lambda>_ s. (Inl 1, s)),
      cl_block = (\<lambda>_ _. None), cl_set_data = (\<lambda>_ h s. (h, s)), cl_alloc = (\<lambda>_ s. (1, s)),
      cl_destroy = (\<lambda>_ _ s. s), cl_sequence = (\<lambda>_. 1), cl_owner = (\<lambda>_. 7),
      cl_add_listener = (\<lambda>_ s. (True, s)), cl_remove_listener = (\<lambda>_ s. s)\<rparr>"

definition small_images :: "u8 list Image_lib" where
  "small_images =
     \<lparr>il_bmp_encode = (\<lambda>i. replicate 14 0 @ i), il_bmp_load = (\<lambda>_. None), il_png_encode = Some,
      il_png_decode = Some, il_empty = []\<rparr>"

text \<open>The first atom from 0xC000 on that is not in use.\<close>

fun first_free :: "nat \<Rightarrow> u16 \<Rightarrow> u16 set \<Rightarrow> u16" where
  "first_free 0 i A = i"
| "first_free (Suc n) i A = (if i \<in> A then first_free n (i + 1) A else i)"

definition small_hotkeys :: Hotkey_answers where
  "small_hotkeys =
     \<lparr>ha_atom = (\<lambda>calls. first_free (atoms_added calls) 0xC000 (atoms_in_use calls)), ha_unregistered = (\<lambda>_ _. True)\<rparr>"

lemma first_free_taken: "first_free n i A \<in> A \<Longrightarrow> k \<le> n \<Longrightarrow> i + of_nat k \<in> A"
proof (induction n i A arbitrary: k rule: first_free.induct)
  case (2 n i A)
  show ?case
  proof (cases k)
    case (Suc m)
    from 2(2) have "i \<in> A" by (auto split: if_splits)
    with 2 Suc have "(i + 1) + of_nat m \<in> A" by (intro "2.IH") simp_all
    with Suc show ?thesis by (simp add: algebra_simps)
  qed (use 2(2) in \<open>auto split: if_splits\<close>)
qed simp

lemma card_atoms_in_use: "card (atoms_in_use calls) \<le> atoms_added calls"
proof (induction calls rule: rev_induct)
  case (snoc c calls)
  show ?case
  proof (cases c)
    case (Atom_added i)
    with snoc card_insert_le_m1 [of "atoms_added calls + 1" "atoms_in_use calls" i] show ?thesis by simp
  next
    case (Atom_deleted i)
    with snoc card_Diff1_le [of "atoms_in_use calls" i] show ?thesis by simp
  qed (use snoc in simp_all)
qed simp

lemma small_atoms_fresh: "atoms_fresh small_hotkeys"
  unfolding atoms_fresh_def
proof (intro allI impI notI)
  fix calls assume few: "atoms_added calls < atom_count"
    and taken: "ha_atom small_hotkeys calls \<in> atoms_in_use calls"
  let ?n = "atoms_added calls" and ?f = "\<lambda>k. 0xC000 + (of_nat k :: u16)"
  have "inj_on ?f {..?n}"
  proof (rule inj_onI)
    fix j k assume jk: "j \<in> {..?n}" "k \<in> {..?n}" "?f j = ?f k"
    then have "(of_nat j :: u16) = of_nat k" by simp
    moreover have "unat (of_nat k :: u16) = k" if "k \<le> ?n" for k
      using that few by (simp add: atom_count_def unsigned_of_nat take_bit_nat_eq_self)
    ultimately show "j = k" using jk(1,2) by (metis atMost_iff)
  qed
  moreover have "?f ` {..?n} \<subseteq> atoms_in_use calls"
    using first_free_taken [of ?n "0xC000" "atoms_in_use calls"] taken by (auto simp: small_hotkeys_def)
  ultimately have "card {..?n} \<le> card (atoms_in_use calls)" by (metis card_image card_mono finite)
  with card_atoms_in_use [of calls] show False by simp
qed

definition small_system :: "(u8 list, unit) Agent_system" where
  "small_system =
     \<lparr>as_win = small_windows, as_clip = small_clipboard, as_images = small_images,
      as_hotkeys = small_hotkeys, as_window = 7\<rparr>"

definition small_agent :: Agent_world where
  "small_agent =
     \<lparr>aw_connected = True, aw_loop_runs = True, aw_alloc_console = True, aw_console_output = True,
      aw_odd_address = False\<rparr>"

lemmas small_defs = small_system_def small_windows_def small_clipboard_def small_images_def
  small_agent_def

lemma small_world_ok: "world_ok small_agent"
  by (simp add: world_ok_def small_agent_def)

declare open_loop.simps [code] enum_from.simps [code]

definition grab_event :: "ClipboardType list \<Rightarrow> Agent_world \<times> unit Agent_event" where
  "grab_event ts =
     (small_agent, Ae_message (Ga_ClipboardOut (Some (GrabClipboard \<lparr>ct_types = map ClipboardType_as_i32 ts\<rparr>))))"

definition window_event :: "u32 \<Rightarrow> u64 \<Rightarrow> Agent_world \<times> unit Agent_event" where
  "window_event n x = (small_agent, Ae_window \<lparr>msg_hwnd = 7, msg_message = n, msg_wparam = x, msg_lparam = 0\<rparr>)"

definition small_start :: "unit Agent_state" where
  "small_start = agent_start small_system True () None"

definition task_event :: "nat \<Rightarrow> Agent_world \<times> unit Agent_event" where
  "task_event n = (small_agent, Ae_task n)"

definition contents_event :: "u8 list \<Rightarrow> Agent_world \<times> unit Agent_event" where
  "contents_event bs = (small_agent, Ae_message (Ga_ClipboardOut (Some (ClipboardContents bs))))"

lemma small_system_ok: "system_ok small_system"
  using small_atoms_fresh by (simp add: system_ok_def small_defs)

subsection \<open>The agent as a whole\<close>


definition small_offer :: ClipboardOffer where
  "small_offer = \<lparr>of_mime_types = {''image/png''}, of_string = None, of_bytes = (\<lambda>_. None)\<rparr>"


text \<open>
  C10: Functional: a hotkey that the agent has registered goes on to mean what the driver asked for. After
  whatever has happened since, a press of it, seen by the window once the hotkey listener is there, and
  the next turn of its forwarding task send the driver the number the driver gave it.
\<close>

theorem hotkey_press_reaches_driver:
  assumes "agent_exec sys es (agent_start sys b os offer) = Inr (d, s)"
    and "handle_register sys aw x (d, s) = Inr (d1, s1)"
    and "agent_exec sys es' (d1, s1) = Inr (d2, s2)"
    and "\<forall>we\<in>set es \<union> set es'. aw_connected (fst we)" and "aw_connected aw'"
    and "ag_rendering s2 = None" and "hotkey_listener (as_hotkeys sys) \<in> set (wd_listeners d2)"
  defines "press \<equiv> hotkey_message (as_window sys) (ha_atom (as_hotkeys sys) (hk_calls s))"
  shows "\<exists>d3 s3. agent_exec sys [(aw', Ae_window press), (aw', Ae_forward (length (ag_forwarders s)))] (d2, s2) = Inr (d3, s3) \<and>
    ag_sent s3 = ag_sent s2 @ [Ga_HotKey (rhk_id x)]"
proof -
  let ?i = "ha_atom (as_hotkeys sys) (hk_calls s)" and ?c = "length (hk_channels s)" and ?k = "length (ag_forwarders s)"
  have "agent_run sys es (d, s)" using assms(1) unfolding agent_run_def by blast
  from agent_run_ok [OF this] assms(4) have ok: "agent_ok sys (d, s)" by simp
  then have inv: "agent_inv s" by (simp add: agent_ok_def)
  note reg = handle_register_inv [OF inv assms(2)]
  with ok have ok1: "agent_ok sys (d1, s1)" by (auto simp: agent_ok_def agent_data_def register_in_callbacks)
  from agent_exec_extends [OF assms(3) this] assms(4)
  have ok2: "agent_ok sys (d2, s2)" and ext: "hotkey_extends s1 s2" by simp_all
  from ext reg have q: "hk_queues s2 ?i = Some ?c" by (auto simp: hotkey_extends_def map_le_def dom_def)
  from ext reg have f: "?k < length (ag_forwarders s2)" "ag_forwarders s2 ! ?k = (?c, rhk_id x)"
    by (auto simp: hotkey_extends_def nth_append)
  from press_message [OF ok2 q assms(7)] obtain d3 t u where
    t: "loop_message sys press (d2, s2) = Inr (d3, t\<lparr>ag_os := u\<rparr>)" "pressed ?c 1 s2 t" unfolding press_def by blast
  from ok2 q have "?c < length (hk_channels s2)" by (auto simp: agent_ok_def agent_inv_def forwarders_ok_def hotkeys_ok_def)
  with t(2) have p: "?c < length (hk_channels (t\<lparr>ag_os := u\<rparr>))" "0 < ch_waiting (hk_channels (t\<lparr>ag_os := u\<rparr>) ! ?c)"
    "hotkeys_ok (t\<lparr>ag_os := u\<rparr>)" "ag_forwarders t = ag_forwarders s2" "ag_sent t = ag_sent s2"
    by (auto simp: pressed_def hotkeys_ok_def)
  from forward_pressed [OF p(3,1,2) assms(5)] p(4,5) f t(1) assms(6) show ?thesis
    by (simp add: agent_exec_def agent_step_def)
qed

definition small_binding :: RegisterHotKey where
  "small_binding = \<lparr>rhk_id = 3, rhk_modifiers = 2, rhk_key = 0x41\<rparr>"

theorem hotkey_press_reaches_driver_witness:
  "\<exists>d1 s1 d2 s2 d3 s3.
     handle_register small_system small_agent small_binding small_start = Inr (d1, s1) \<and>
     agent_exec small_system [window_event WM_USER 0] (d1, s1) = Inr (d2, s2) \<and>
     agent_exec small_system [(small_agent, Ae_window (hotkey_message 7 0xC000)), (small_agent, Ae_forward 0)] (d2, s2) = Inr (d3, s3) \<and>
     ag_sent s3 = [Ga_ReportBoot, Ga_HotKey 3]"
proof -
  obtain d s where ds: "small_start = (d, s)" by fastforce
  have "\<exists>d1 s1. handle_register small_system small_agent small_binding (d, s) = Inr (d1, s1) \<and> wd_listeners d1 = [] \<and>
      wd_callbacks d1 = [clipboard_callback (agent_clip small_clipboard) small_images no_owners 7,
        hotkey_callback small_hotkeys, register_callback 0xC000 2 0x41] \<and> wd_connected d1 \<and>
      ag_rendering s1 = None \<and> ag_sent s1 = [Ga_ReportBoot] \<and> ag_forwarders s = [] \<and> hk_calls s = []"
    using ds
    by (auto simp: small_start_def agent_start_def handle_register_def register_hotkey_queue_def send_callback_queue_def
        callback_capacity_def wake_loop_def on_os_def agent_win_def Let_def small_defs small_hotkeys_def small_binding_def)
  then obtain d1 s1 where 1: "handle_register small_system small_agent small_binding (d, s) = Inr (d1, s1)"
    and d1: "wd_listeners d1 = []" "wd_connected d1"
      "wd_callbacks d1 = [clipboard_callback (agent_clip small_clipboard) small_images no_owners 7,
        hotkey_callback small_hotkeys, register_callback 0xC000 2 0x41]"
    and l: "ag_rendering s1 = None" "ag_sent s1 = [Ga_ReportBoot]" "ag_forwarders s = []" "hk_calls s = []" by auto
  have "\<exists>d2 s2. agent_exec small_system [window_event WM_USER 0] (d1, s1) = Inr (d2, s2) \<and>
      hotkey_listener small_hotkeys \<in> set (wd_listeners d2) \<and> ag_rendering s2 = None \<and> ag_sent s2 = [Ga_ReportBoot]"
    using l(1,2) d1
    by (simp add: agent_exec_def agent_step_def window_event_def loop_message_def WM_defs handle_wm_def wm_user_def
        clipboard_callback_def hotkey_callback_def register_callback_def on_os_def small_clipboard_def Let_def)
  then obtain d2 s2 where 2: "agent_exec small_system [window_event WM_USER 0] (d1, s1) = Inr (d2, s2)"
    "hotkey_listener small_hotkeys \<in> set (wd_listeners d2)" "ag_rendering s2 = None" "ag_sent s2 = [Ga_ReportBoot]" by auto
  note 1 2 l
  moreover have "hotkey_listener (as_hotkeys small_system) \<in> set (wd_listeners d2)"
    using 2(2) by (simp add: small_system_def)
  moreover have "agent_exec small_system [] (agent_start small_system True () None) = Inr (d, s)"
    using ds by (simp add: agent_exec_def small_start_def)
  moreover have "\<forall>we\<in>set [] \<union> set [window_event WM_USER 0]. aw_connected (fst we)" "aw_connected small_agent"
    by (simp_all add: window_event_def small_agent_def)
  moreover have "ha_atom (as_hotkeys small_system) (hk_calls s) = 0xC000"
    using l by (simp add: small_system_def small_hotkeys_def)
  ultimately show ?thesis
    using hotkey_press_reaches_driver [of small_system "[]" True "()" None d s small_agent small_binding d1 s1
      "[window_event WM_USER 0]" d2 s2 small_agent] ds
    by (fastforce simp: small_system_def small_binding_def)
qed

text \<open>
  C7: Functional: what the user pastes in Windows is the driver's answer to that paste. In every run in
  which contents come as answers only and no program leaves with promised data behind, the task that
  Windows waits for has, when it is done, what the latest contents held; the latest request sent was for
  its type, and each request has had one answer.
\<close>

theorem paste_gets_its_answer:
  assumes "agent_exec sys es (agent_start sys b os offer) = Inr (d, s)" and "\<forall>we\<in>set es. aw_connected (fst we)"
    and "\<forall>we\<in>set es. \<not> renders_all (snd we)" and "answers_follow sys es (agent_start sys b os offer)"
    and "ag_rendering s = Some rs" and "rendering_done s"
  shows "\<exists>r. rs = [r] \<and> dt_phase (ag_tasks s ! renderer_task r) = Ph_done (last (answers es)) \<and>
    last (requests s) = ClipboardType_as_i32 (dt_type (ag_tasks s ! renderer_task r)) \<and>
    length (requests s) = length (answers es)"
proof -
  from paste_run [OF assms(1-4)] have inv: "agent_inv s" and ok: "paste_ok (answers es) s"
    by (simp_all add: agent_ok_def)
  from ok assms(5) obtain r where r: "rs = [r]" "phase_fits (answers es) (requests s) (ag_tasks s ! renderer_task r)"
    by (auto simp: paste_ok_def)
  with assms(5,6) obtain bs where bs: "dt_phase (ag_tasks s ! renderer_task r) = Ph_done bs"
    by (auto simp: rendering_done_def task_done_def split: Task_phase.splits)
  have "ag_outstanding s = None"
  proof (rule ccontr)
    assume "ag_outstanding s \<noteq> None"
    then obtain k where "ag_outstanding s = Some k" by blast
    from agent_inv_outstanding [OF inv this] assms(5) r(1) bs show False by (auto simp: awaited_def)
  qed
  with ok r bs show ?thesis by (auto simp: paste_ok_def phase_fits_def)
qed

text \<open>The host's text is pasted.\<close>

definition small_paste :: "(Agent_world \<times> unit Agent_event) list" where
  "small_paste =
     [grab_event [CT_Text], window_event WM_RENDERFORMAT 13, task_event 0, task_event 0,
      contents_event [104, 105], task_event 0]"

theorem paste_gets_its_answer_witness:
  "\<exists>d s. agent_exec small_system small_paste small_start = Inr (d, s) \<and> ag_rendering s = Some [DR_Text 0] \<and>
     dt_phase (ag_tasks s ! 0) = Ph_done [104, 105]"
proof -
  have "case agent_exec small_system small_paste small_start of
      Inr (d, s) \<Rightarrow> ag_rendering s = Some [DR_Text 0] \<and> rendering_done s | _ \<Rightarrow> False" by code_simp
  then obtain d s where ds: "agent_exec small_system small_paste small_start = Inr (d, s)"
    "ag_rendering s = Some [DR_Text 0]" "rendering_done s" by (auto split: sum.splits)
  have "answers_follow small_system small_paste small_start" by code_simp
  moreover have "\<forall>we\<in>set small_paste. aw_connected (fst we)" "\<forall>we\<in>set small_paste. \<not> renders_all (snd we)"
    by code_simp+
  moreover have "last (answers small_paste) = [104, 105]" by code_simp
  ultimately show ?thesis
    using paste_gets_its_answer [of small_system small_paste True "()" None d s "[DR_Text 0]"] ds
    by (auto simp: small_start_def)
qed

lemma spawn_renderers_known: "CT_Invalid \<notin> set ts \<Longrightarrow> \<exists>rs u. spawn_renderers ts s = Inr (rs, u)"
proof (induction ts arbitrary: s)
  case (Cons t ts)
  then obtain r u where "spawn_renderer t s = Inr (r, u)" by (cases t) (auto simp: spawn_renderer_def Let_def)
  with Cons.IH [of u] Cons.prems show ?case by fastforce
qed simp



text \<open>
  Error: there is room for one outstanding request only. When a program leaves with two kinds of data
  promised, the second task's request replaces the first one's sender: the first is answered with no bytes,
  and the driver's answer to the first request goes to the second task.
\<close>

lemma render_all_mixes_up:
  assumes "i < length (ag_tasks s)" and "j < length (ag_tasks s)" and "i \<noteq> j"
    and "dt_phase (ag_tasks s ! i) = Ph_passed" and "dt_phase (ag_tasks s ! j) = Ph_passed"
    and "aw_connected aw" and "ag_outstanding s = None"
  shows "\<exists>t. agent_exec sys [(aw, Ae_task i), (aw, Ae_task j),
      (aw', Ae_message (Ga_ClipboardOut (Some (ClipboardContents bs))))] (d, s) = Inr (d, t) \<and>
    requests t = requests s @ [ClipboardType_as_i32 (dt_type (ag_tasks s ! i)), ClipboardType_as_i32 (dt_type (ag_tasks s ! j))] \<and>
    dt_phase (ag_tasks t ! i) = Ph_answered [] \<and> dt_phase (ag_tasks t ! j) = Ph_answered bs"
proof -
  let ?ask = "\<lambda>n. clipboard_to_in (RequestClipboardContents (ClipboardType_as_i32 (dt_type (ag_tasks s ! n))))"
  let ?u = "(set_phase i Ph_requested (s\<lparr>ag_outstanding := Some i\<rparr>))\<lparr>ag_sent := ag_sent s @ [?ask i]\<rparr>"
  have u: "task_turn aw i s = ?u"
    using assms by (simp add: task_turn_def drop_outstanding_def agent_send_def set_phase_def Let_def)
  let ?v = "(set_phase j Ph_requested ((set_phase i (Ph_answered []) ?u)\<lparr>ag_outstanding := Some j\<rparr>))
    \<lparr>ag_sent := ag_sent s @ [?ask i, ?ask j]\<rparr>"
  have v: "task_turn aw j ?u = ?v"
    using assms by (simp add: task_turn_def drop_outstanding_def agent_send_def set_phase_def Let_def)
  have w: "handle_contents bs ?v = Inr (set_phase j (Ph_answered bs) (?v\<lparr>ag_outstanding := None\<rparr>))"
    using assms by (simp add: handle_contents_def set_phase_def)
  show ?thesis
    using assms u v w
    by (simp add: agent_exec_def agent_step_def agent_ready_def agent_handle_def)
      (simp add: requests_def map_filter_def clipboard_to_in_def set_phase_def)
qed

text \<open>A program leaves while text and image of the host are promised.\<close>

lemma render_all_mixes_up_witness:
  "\<exists>d s t. agent_exec small_system
       [grab_event [CT_Text, CT_Image], window_event WM_RENDERALLFORMATS 0, task_event 0, task_event 1] small_start = Inr (d, s) \<and>
     agent_exec small_system [task_event 0, task_event 1, contents_event [104, 105]] (d, s) = Inr (d, t) \<and>
     dt_phase (ag_tasks t ! 0) = Ph_answered [] \<and> dt_phase (ag_tasks t ! 1) = Ph_answered [104, 105]"
proof -
  let ?es = "[grab_event [CT_Text, CT_Image], window_event WM_RENDERALLFORMATS 0, task_event 0, task_event 1]"
  have "case agent_exec small_system ?es small_start of
      Inr (d, s) \<Rightarrow> map dt_phase (ag_tasks s) = [Ph_passed, Ph_passed] \<and> ag_outstanding s = None | _ \<Rightarrow> False" by code_simp
  then obtain d s where ds: "agent_exec small_system ?es small_start = Inr (d, s)"
    "map dt_phase (ag_tasks s) = [Ph_passed, Ph_passed]" "ag_outstanding s = None" by (auto split: sum.splits)
  from ds(2) have "0 < length (ag_tasks s)" "1 < length (ag_tasks s)" "dt_phase (ag_tasks s ! 0) = Ph_passed"
    "dt_phase (ag_tasks s ! 1) = Ph_passed" by (auto simp: map_eq_Cons_conv)
  with render_all_mixes_up [of 0 s 1 small_agent small_system small_agent "[104, 105]" d] ds show ?thesis
    by (auto simp: task_event_def contents_event_def small_agent_def)
qed

end
