(* ===== verification/Host_Devices.thy ===== *)
theory Host_Devices
  imports Config Utf8
begin

text \<open>
  The devices of the host as the library \<^verbatim>\<open>common\<close> describes them to a user: \<^verbatim>\<open>hwid.rs\<close> looks the names of a
  USB device up in the file \<^verbatim>\<open>usb.ids\<close>, \<^verbatim>\<open>usb_device.rs\<close> and \<^verbatim>\<open>pci_device.rs\<close> read a device of udev. Strings
  are their UTF-8 bytes, as the code slices them at byte offsets. The lemmas show that the lookup finds
  exactly what the file lists, and where it does not.
\<close>

datatype device_panic = Slice_in_character | Missing_value

subsection \<open>Strings\<close>

definition utf8_ok :: "string \<Rightarrow> bool" where
  "utf8_ok s \<longleftrightarrow> from_utf8 (map of_char s) \<noteq> None"

definition char_boundary :: "string \<Rightarrow> nat \<Rightarrow> bool" where
  "char_boundary s i \<longleftrightarrow>
     i = 0 \<or> i = length s \<or>
     i < length s \<and> \<not> (0x80 \<le> (of_char (s ! i) :: nat) \<and> (of_char (s ! i) :: nat) < 0xC0)"

text \<open>\<^verbatim>\<open>&s[a..b]\<close>\<close>

definition str_slice :: "string \<Rightarrow> nat \<Rightarrow> nat \<Rightarrow> device_panic + string" where
  "str_slice s a b =
     (if a \<le> b \<and> b \<le> length s \<and> char_boundary s a \<and> char_boundary s b
      then Inr (take (b - a) (drop a s)) else Inl Slice_in_character)"

text \<open>\<^verbatim>\<open>trim\<close> strips all characters with the Unicode property White_Space, here by their bytes.\<close>

definition white_space :: "string list" where
  "white_space =
    [[CHR 0x09], [CHR 0x0A], [CHR 0x0B], [CHR 0x0C], [CHR 0x0D], [CHR 0x20], [CHR 0xC2, CHR 0x85],
     [CHR 0xC2, CHR 0xA0], [CHR 0xE1, CHR 0x9A, CHR 0x80], [CHR 0xE2, CHR 0x80, CHR 0x80],
     [CHR 0xE2, CHR 0x80, CHR 0x81], [CHR 0xE2, CHR 0x80, CHR 0x82],
     [CHR 0xE2, CHR 0x80, CHR 0x83], [CHR 0xE2, CHR 0x80, CHR 0x84],
     [CHR 0xE2, CHR 0x80, CHR 0x85], [CHR 0xE2, CHR 0x80, CHR 0x86],
     [CHR 0xE2, CHR 0x80, CHR 0x87], [CHR 0xE2, CHR 0x80, CHR 0x88],
     [CHR 0xE2, CHR 0x80, CHR 0x89], [CHR 0xE2, CHR 0x80, CHR 0x8A],
     [CHR 0xE2, CHR 0x80, CHR 0xA8], [CHR 0xE2, CHR 0x80, CHR 0xA9],
     [CHR 0xE2, CHR 0x80, CHR 0xAF], [CHR 0xE2, CHR 0x81, CHR 0x9F], [CHR 0xE3, CHR 0x80, CHR 0x80]]"

lemma white_space_nonempty: "w \<in> set white_space \<Longrightarrow> 0 < length w"
  by (auto simp: white_space_def)

lemma find_white_space:
  assumes "find P white_space = Some w"
  shows "P w" and "0 < length w"
proof -
  from assms have "P w \<and> w \<in> set white_space" by (auto simp: find_Some_iff)
  then show "P w" "0 < length w" using white_space_nonempty [of w] by blast+
qed

function trim_start :: "string \<Rightarrow> string" where
  "trim_start s =
     (case find (\<lambda>w. prefix w s) white_space of
        None \<Rightarrow> s
      | Some w \<Rightarrow> trim_start (drop (length w) s))"
  by pat_completeness auto
termination
proof (relation "measure length")
  fix s w
  assume "find (\<lambda>w. prefix w s) white_space = Some w"
  from find_white_space [OF this] have "length w \<le> length s" "0 < length w"
    by (simp_all add: prefix_length_le)
  then have "length s - length w < length s" by linarith
  then show "(drop (length w) s, s) \<in> measure length" by simp
qed simp

function trim_end :: "string \<Rightarrow> string" where
  "trim_end s =
     (case find (\<lambda>w. suffix w s) white_space of
        None \<Rightarrow> s
      | Some w \<Rightarrow> trim_end (take (length s - length w) s))"
  by pat_completeness auto
termination
proof (relation "measure length")
  fix s w
  assume "find (\<lambda>w. suffix w s) white_space = Some w"
  from find_white_space [OF this] have "length w \<le> length s" "0 < length w"
    by (simp_all add: suffix_length_le)
  then have "length s - length w < length s" by linarith
  then show "(take (length s - length w) s, s) \<in> measure length" by simp
qed simp

declare trim_start.simps [simp del] trim_end.simps [simp del]

definition trim_str :: "string \<Rightarrow> string" where
  "trim_str s = trim_end (trim_start s)"

lemma trim_space: "trim_str (CHR '' '' # s) = trim_str s"
proof -
  have "find (\<lambda>w. prefix w (CHR '' '' # s)) white_space = Some '' ''"
    by (simp add: white_space_def)
  then show ?thesis by (simp add: trim_str_def trim_start.simps [of "CHR '' '' # s"])
qed

text \<open>
  \<^verbatim>\<open>BufReader::lines\<close> on the bytes that can be read; \<open>failing\<close> says that reading on is an error. A line
  that is not UTF-8 is an error too.
\<close>

definition read_line :: "string \<Rightarrow> unit + string" where
  "read_line line = (if utf8_ok line then Inr line else Inl ())"

definition strip_cr :: "string \<Rightarrow> string" where
  "strip_cr line = (if suffix [CHR 0x0D] line then butlast line else line)"

fun buf_lines :: "bool \<Rightarrow> string \<Rightarrow> string \<Rightarrow> (unit + string) list" where
  "buf_lines failing line [] =
     (if failing then [Inl ()] else if line = [] then [] else [read_line line])"
| "buf_lines failing line (c # cs) =
     (if c = CHR 0x0A then map_sum id strip_cr (read_line line) # buf_lines failing [] cs
      else buf_lines failing (line @ [c]) cs)"

subsection \<open>hwid.rs\<close>

text \<open>The loop over the lines; \<open>vendor\<close> is the name of the vendor once its line has been read.\<close>

fun hwid_scan ::
    "u16 \<Rightarrow> u16 \<Rightarrow> string option \<Rightarrow> (unit + string) list \<Rightarrow>
     device_panic + (unit + (string \<times> string option) option)" where
  "hwid_scan vendor_id product_id vendor [] = Inr (Inr None)"
| "hwid_scan vendor_id product_id vendor (Inl e # lines) = Inr (Inl e)"
| "hwid_scan vendor_id product_id vendor (Inr line # lines) =
     (if prefix ''#'' line then hwid_scan vendor_id product_id vendor lines
      else case vendor of
        Some v \<Rightarrow>
          if prefix [CHR 0x09] line \<and> 5 < length line then
            and_then (str_slice line 1 5) (\<lambda>digits.
              if from_str_radix 16 digits = Some product_id then
                and_then (str_slice line 5 (length line)) (\<lambda>name. Inr (Inr (Some (v, Some (trim_str name)))))
              else hwid_scan vendor_id product_id vendor lines)
          else Inr (Inr (Some (v, None)))
      | None \<Rightarrow>
          if 4 < length line then
            and_then (str_slice line 0 4) (\<lambda>digits.
              if from_str_radix 16 digits = Some vendor_id then
                and_then (str_slice line 4 (length line)) (\<lambda>name.
                  hwid_scan vendor_id product_id (Some (trim_str name)) lines)
              else hwid_scan vendor_id product_id None lines)
          else hwid_scan vendor_id product_id None lines)"

text \<open>
  \<^verbatim>\<open>hwid_resolve_usb\<close>, where \<open>file\<close> is the outcome of opening \<^verbatim>\<open>/usr/share/hwdata/usb.ids\<close>: its bytes and
  whether reading fails after them.
\<close>

definition hwid_resolve_usb ::
    "unit + bool \<times> string \<Rightarrow> u16 \<Rightarrow> u16 \<Rightarrow> device_panic + (unit + (string \<times> string option) option)" where
  "hwid_resolve_usb file vendor_id product_id =
     (case file of
        Inl e \<Rightarrow> Inr (Inl e)
      | Inr (failing, bytes) \<Rightarrow> hwid_scan vendor_id product_id None (buf_lines failing [] bytes))"

subsection \<open>What the file lists\<close>

text \<open>
  A well-formed database: sections of vendors, each with its products, a product with the lines of its
  interfaces. \<open>rest\<close> are the other lists at the end of the file.
\<close>

record UsbProduct =
  up_id :: u16
  up_name :: string
  up_interfaces :: "string list"

record UsbVendor =
  uv_id :: u16
  uv_name :: string
  uv_products :: "UsbProduct list"

definition product_lines :: "UsbProduct \<Rightarrow> string list" where
  "product_lines p =
     (CHR 0x09 # hex04 (up_id p) @ ''  '' @ up_name p) # map (\<lambda>l. [CHR 0x09, CHR 0x09] @ l) (up_interfaces p)"

definition vendor_lines :: "UsbVendor \<Rightarrow> string list" where
  "vendor_lines v =
     (hex04 (uv_id v) @ ''  '' @ uv_name v) # concat (map product_lines (uv_products v))"

definition is_comment :: "string \<Rightarrow> bool" where
  "is_comment line \<longleftrightarrow> prefix ''#'' line"

text \<open>An interface line starts with four characters of one byte; a line of another list never reads as the vendor.\<close>

definition ascii_start :: "string \<Rightarrow> bool" where
  "ascii_start l \<longleftrightarrow> 4 \<le> length l \<and> (\<forall>c\<in>set (take 4 l). (of_char c :: nat) < 0x80)"

definition other_line :: "u16 \<Rightarrow> string \<Rightarrow> bool" where
  "other_line vendor_id l \<longleftrightarrow>
     (4 < length l \<longrightarrow> (\<exists>s. str_slice l 0 4 = Inr s \<and> from_str_radix 16 s \<noteq> Some vendor_id))"

definition listed_names :: "UsbVendor list \<Rightarrow> u16 \<Rightarrow> u16 \<Rightarrow> (string \<times> string option) option" where
  "listed_names vs vendor_id product_id =
     map_option (\<lambda>v. (trim_str (uv_name v),
         map_option (\<lambda>p. trim_str (up_name p)) (find (\<lambda>p. up_id p = product_id) (uv_products v))))
       (find (\<lambda>v. uv_id v = vendor_id) vs)"

lemma hwid_scan_comments:
  "hwid_scan vid pid vendor (map Inr (filter (\<lambda>l. \<not> is_comment l) lines)) =
   hwid_scan vid pid vendor (map Inr lines)"
proof (induction lines arbitrary: vendor)
  case (Cons l lines)
  then show ?case by (cases vendor) (simp_all add: is_comment_def cong: if_cong)
qed simp

lemma digits_ascii:
  assumes "c \<in> set (digits_in b n)" and "2 \<le> b" and "b \<le> 16"
  shows "48 \<le> (of_char c :: nat) \<and> (of_char c :: nat) < 0x80"
proof -
  obtain d where "d < b" "c = digit_char d" using assms(1) digits_in_set [OF assms(2)] by blast
  with assms(3) show ?thesis by (simp add: digit_char_def)
qed

lemma hex04_ascii: "c \<in> set (hex04 v) \<Longrightarrow> 48 \<le> (of_char c :: nat) \<and> (of_char c :: nat) < 0x80"
  using digits_ascii [of c 16 "unat v"] by (auto simp: hex04_def Let_def)

lemma boundary_ascii: "i < length s \<Longrightarrow> (of_char (s ! i) :: nat) < 0x80 \<Longrightarrow> char_boundary s i"
  by (simp add: char_boundary_def)

lemma boundary_ends [simp]: "char_boundary s 0" "char_boundary s (length s)"
  by (simp_all add: char_boundary_def)

lemma from_str_radix_tab: "(from_str_radix 16 (CHR 0x09 # s) :: u16 option) = None"
  by (simp add: from_str_radix_def to_digit_def)

lemma hex_line_slices:
  "str_slice (hex04 v @ CHR '' '' # r) 0 4 = Inr (hex04 v)"
  "str_slice (hex04 v @ CHR '' '' # r) 4 (length r + 5) = Inr (CHR '' '' # r)"
proof -
  have "char_boundary (hex04 v @ CHR '' '' # r) 4" by (rule boundary_ascii) (simp_all add: nth_append)
  moreover have "char_boundary (hex04 v @ CHR '' '' # r) (length r + 5)" by (simp add: char_boundary_def)
  ultimately show "str_slice (hex04 v @ CHR '' '' # r) 0 4 = Inr (hex04 v)"
    "str_slice (hex04 v @ CHR '' '' # r) 4 (length r + 5) = Inr (CHR '' '' # r)"
    by (simp_all add: str_slice_def)
qed

lemma tab_line_slices:
  "str_slice (CHR 0x09 # hex04 v @ CHR '' '' # r) 1 5 = Inr (hex04 v)"
  "str_slice (CHR 0x09 # hex04 v @ CHR '' '' # r) 5 (length r + 6) = Inr (CHR '' '' # r)"
  "str_slice (CHR 0x09 # hex04 v @ CHR '' '' # r) 0 4 = Inr (CHR 0x09 # take 3 (hex04 v))"
proof -
  let ?l = "CHR 0x09 # hex04 v @ CHR '' '' # r"
  have "char_boundary ?l (Suc i)" if "i < 4" for i
    by (rule boundary_ascii) (use that hex04_ascii [of "hex04 v ! i" v] in \<open>simp_all add: nth_append\<close>)
  from this [of 0] this [of 3] have 1: "char_boundary ?l 1" "char_boundary ?l 4" by simp_all
  have 5: "char_boundary ?l 5" by (rule boundary_ascii) (simp_all add: nth_append)
  have "char_boundary ?l (length r + 6)" by (simp add: char_boundary_def)
  with 1 5 show "str_slice ?l 1 5 = Inr (hex04 v)" "str_slice ?l 5 (length r + 6) = Inr (CHR '' '' # r)"
    "str_slice ?l 0 4 = Inr (CHR 0x09 # take 3 (hex04 v))"
    by (simp_all add: str_slice_def)
qed

lemma interface_slices:
  assumes "ascii_start l"
  shows "\<exists>s. str_slice ([CHR 0x09, CHR 0x09] @ l) 1 5 = Inr (CHR 0x09 # s)"
    and "\<exists>s. str_slice ([CHR 0x09, CHR 0x09] @ l) 0 4 = Inr (CHR 0x09 # s)"
proof -
  let ?l = "[CHR 0x09, CHR 0x09] @ l"
  have "char_boundary ?l (Suc (Suc i))" if "i < 4" for i
  proof (rule boundary_ascii)
    have "l ! i \<in> set (take 4 l)" using that assms by (auto simp: ascii_start_def in_set_conv_nth intro!: exI [of _ i])
    then show "(of_char (?l ! Suc (Suc i)) :: nat) < 0x80" using assms by (simp add: ascii_start_def)
  qed (use that assms in \<open>simp add: ascii_start_def\<close>)
  from this [of 2] this [of 3] have "char_boundary ?l 4" "char_boundary ?l 5" by simp_all
  moreover have "char_boundary ?l 1" by (rule boundary_ascii) simp_all
  moreover have "4 \<le> length l" using assms by (simp add: ascii_start_def)
  ultimately show "\<exists>s. str_slice ?l 1 5 = Inr (CHR 0x09 # s)" "\<exists>s. str_slice ?l 0 4 = Inr (CHR 0x09 # s)"
    by (simp_all add: str_slice_def)
qed

lemma first_not_hex04:
  assumes "(of_char c :: nat) < 48"
  shows "\<not> prefix [c] (hex04 v @ r)"
proof
  assume "prefix [c] (hex04 v @ r)"
  then have "c = hex04 v ! 0" by (auto simp: prefix_def nth_append dest: arg_cong [of _ _ "\<lambda>s. s ! 0"])
  then show False using hex04_ascii [of c v] nth_mem [of 0 "hex04 v"] assms by simp
qed

text \<open>One line each.\<close>

lemma scan_vendor_line:
  "hwid_scan vid pid None (Inr (hex04 v @ ''  '' @ name) # ls) =
     hwid_scan vid pid (if v = vid then Some (trim_str name) else None) ls"
  using hex_line_slices [of v "CHR '' '' # name"]
  by (cases "v = vid") (simp_all add: first_not_hex04 from_str_radix_hex04 trim_space)

lemma scan_next_vendor:
  "hwid_scan vid pid (Some n) (Inr (hex04 v @ r) # ls) = Inr (Inr (Some (n, None)))"
  by (simp add: first_not_hex04)

lemma scan_product_line:
  "hwid_scan vid pid None (Inr (CHR 0x09 # hex04 p @ ''  '' @ name) # ls) = hwid_scan vid pid None ls"
  "hwid_scan vid pid (Some n) (Inr (CHR 0x09 # hex04 p @ ''  '' @ name) # ls) =
     (if p = pid then Inr (Inr (Some (n, Some (trim_str name)))) else hwid_scan vid pid (Some n) ls)"
  using tab_line_slices [of p "CHR '' '' # name"]
  by (cases "p = pid"; simp add: from_str_radix_hex04 from_str_radix_tab trim_space)+

lemma scan_interfaces:
  assumes "\<forall>l\<in>set is. ascii_start l"
  shows "hwid_scan vid pid vendor (map Inr (map (\<lambda>l. [CHR 0x09, CHR 0x09] @ l) is) @ ls) =
    hwid_scan vid pid vendor ls"
  using assms
proof (induction "is")
  case (Cons l "is")
  then obtain s t where "str_slice (CHR 0x09 # CHR 0x09 # l) 1 5 = Inr (CHR 0x09 # s)"
      "str_slice (CHR 0x09 # CHR 0x09 # l) 0 4 = Inr (CHR 0x09 # t)" "4 \<le> length l"
    using interface_slices [of l] by (auto simp: ascii_start_def)
  with Cons show ?case by (cases vendor) (simp_all add: from_str_radix_tab)
qed simp


definition well_formed_vendor :: "UsbVendor \<Rightarrow> bool" where
  "well_formed_vendor v \<longleftrightarrow> (\<forall>p\<in>set (uv_products v). \<forall>l\<in>set (up_interfaces p). ascii_start l)"

lemma scan_product:
  assumes "\<forall>l\<in>set (up_interfaces p). ascii_start l"
  shows "hwid_scan vid pid None (map Inr (product_lines p) @ ls) = hwid_scan vid pid None ls"
    and "hwid_scan vid pid (Some n) (map Inr (product_lines p) @ ls) =
      (if up_id p = pid then Inr (Inr (Some (n, Some (trim_str (up_name p))))) else hwid_scan vid pid (Some n) ls)"
proof -
  have p: "map Inr (product_lines p) @ ls =
      Inr (CHR 0x09 # hex04 (up_id p) @ ''  '' @ up_name p) #
        (map Inr (map (\<lambda>l. [CHR 0x09, CHR 0x09] @ l) (up_interfaces p)) @ ls)"
    by (simp add: product_lines_def)
  show "hwid_scan vid pid None (map Inr (product_lines p) @ ls) = hwid_scan vid pid None ls"
    unfolding p scan_product_line scan_interfaces [OF assms] ..
  show "hwid_scan vid pid (Some n) (map Inr (product_lines p) @ ls) =
      (if up_id p = pid then Inr (Inr (Some (n, Some (trim_str (up_name p))))) else hwid_scan vid pid (Some n) ls)"
    unfolding p scan_product_line scan_interfaces [OF assms] ..
qed

lemma scan_products_unfound:
  assumes "\<forall>p\<in>set ps. \<forall>l\<in>set (up_interfaces p). ascii_start l"
  shows "hwid_scan vid pid None (map Inr (concat (map product_lines ps)) @ ls) = hwid_scan vid pid None ls"
  using assms by (induction ps) (simp_all add: scan_product)

lemma scan_products:
  assumes "\<forall>p\<in>set ps. \<forall>l\<in>set (up_interfaces p). ascii_start l"
  shows "hwid_scan vid pid (Some n) (map Inr (concat (map product_lines ps)) @ ls) =
    (case find (\<lambda>p. up_id p = pid) ps of
       Some p \<Rightarrow> Inr (Inr (Some (n, Some (trim_str (up_name p)))))
     | None \<Rightarrow> hwid_scan vid pid (Some n) ls)"
  using assms by (induction ps) (simp_all add: scan_product)

lemma scan_others:
  assumes "\<forall>l\<in>set rest. is_comment l \<or> other_line vid l"
  shows "hwid_scan vid pid None (map Inr rest) = Inr (Inr None)"
  using assms by (induction rest) (auto simp: other_line_def is_comment_def)

text \<open>\<open>ends\<close>: the line after a section ends it.\<close>

definition ends_section :: "string \<Rightarrow> bool" where
  "ends_section l \<longleftrightarrow> \<not> is_comment l \<and> \<not> prefix [CHR 0x09] l"

lemma scan_ended:
  "ends_section l \<Longrightarrow> hwid_scan vid pid (Some n) (Inr l # ls) = Inr (Inr (Some (n, None)))"
  by (simp add: ends_section_def is_comment_def)

lemma ends_section_vendor: "ends_section (hd (vendor_lines v))"
  using first_not_hex04 by (simp add: vendor_lines_def ends_section_def is_comment_def)

lemma scan_sections:
  assumes "\<forall>v\<in>set vs. well_formed_vendor v"
    and "\<forall>l\<in>set rest. is_comment l \<or> other_line vid l" and "rest \<noteq> []" and "ends_section (hd rest)"
  shows "hwid_scan vid pid None (map Inr (concat (map vendor_lines vs) @ rest)) =
    Inr (Inr (listed_names vs vid pid))"
  using assms(1)
proof (induction vs)
  case Nil
  with assms(2) show ?case by (simp add: scan_others listed_names_def)
next
  case (Cons v vs)
  let ?ls = "concat (map vendor_lines vs) @ rest"
  have ps: "\<forall>p\<in>set (uv_products v). \<forall>l\<in>set (up_interfaces p). ascii_start l"
    using Cons.prems by (simp add: well_formed_vendor_def)
  have line: "hwid_scan vid pid None (map Inr (concat (map vendor_lines (v # vs)) @ rest)) =
      hwid_scan vid pid (if uv_id v = vid then Some (trim_str (uv_name v)) else None)
        (map Inr (concat (map product_lines (uv_products v))) @ map Inr ?ls)"
    using scan_vendor_line [of vid pid "uv_id v" "uv_name v"] by (simp add: vendor_lines_def)
  have "ends_section (hd ?ls)" "?ls \<noteq> []"
    using assms(3,4) ends_section_vendor by (cases vs; simp add: vendor_lines_def)+
  then obtain l ls where ls: "?ls = l # ls" "ends_section l" by (cases ?ls) auto
  show ?case
  proof (cases "uv_id v = vid")
    case True
    then show ?thesis
      unfolding line using ls scan_ended
      by (simp add: scan_products [OF ps] listed_names_def split: option.split)
  next
    case False
    with Cons show ?thesis
      unfolding line by (simp add: scan_products_unfound [OF ps] listed_names_def)
  qed
qed

text \<open>From the bytes of the file.\<close>

definition text_line :: "string \<Rightarrow> bool" where
  "text_line l \<longleftrightarrow> CHR 0x0A \<notin> set l \<and> \<not> suffix [CHR 0x0D] l \<and> utf8_ok l"

lemma buf_lines_line:
  assumes "CHR 0x0A \<notin> set l"
  shows "buf_lines failing acc (l @ CHR 0x0A # cs) =
    map_sum id strip_cr (read_line (acc @ l)) # buf_lines failing [] cs"
  using assms by (induction l arbitrary: acc) auto

lemma buf_lines_text:
  assumes "\<forall>l\<in>set ls. text_line l"
  shows "buf_lines False [] (concat (map (\<lambda>l. l @ [CHR 0x0A]) ls)) = map Inr ls"
  using assms
proof (induction ls)
  case (Cons l ls)
  then have "text_line l" by simp
  then have "buf_lines False [] (l @ CHR 0x0A # cs) = Inr l # buf_lines False [] cs" for cs
    by (simp add: text_line_def buf_lines_line read_line_def strip_cr_def)
  with Cons show ?case by simp
qed simp

text \<open>
  C37: the names of a USB device are those the file lists, for every file of well-formed sections with
  comments anywhere and another list after the last section: the first section of the vendor decides, and
  in it the first entry of the product.
\<close>

theorem hwid_names_listed:
  assumes "\<forall>l\<in>set lines. text_line l"
    and "filter (\<lambda>l. \<not> is_comment l) lines = concat (map vendor_lines vs) @ rest"
    and "\<forall>v\<in>set vs. well_formed_vendor v"
    and "\<forall>l\<in>set rest. other_line vid l" and "rest \<noteq> []" and "ends_section (hd rest)"
  shows "hwid_resolve_usb (Inr (False, concat (map (\<lambda>l. l @ [CHR 0x0A]) lines))) vid pid =
    Inr (Inr (listed_names vs vid pid))"
proof -
  have "hwid_scan vid pid None (map Inr lines) =
      hwid_scan vid pid None (map Inr (concat (map vendor_lines vs) @ rest))"
    using hwid_scan_comments [of vid pid None lines] assms(2) by simp
  also have "\<dots> = Inr (Inr (listed_names vs vid pid))"
    using assms(3-6) by (intro scan_sections) auto
  finally show ?thesis by (simp add: hwid_resolve_usb_def buf_lines_text [OF assms(1)])
qed


lemma text_line_ascii:
  assumes "\<forall>c\<in>set l. (of_char c :: nat) < 0x80 \<and> c \<noteq> CHR 0x0A \<and> c \<noteq> CHR 0x0D"
  shows "text_line l"
proof -
  have "unat (of_char c :: u8) = of_char c" if "(of_char c :: nat) < 0x80" for c
  proof -
    have "(of_char c :: u8) = of_nat (of_char c)" by (simp add: of_nat_of_char)
    then show ?thesis using that by (simp only: unat_of_nat_small) (simp add: unat_of_nat_small)
  qed
  then have "\<forall>b\<in>set (map of_char l :: u8 list). unat b < 0x80" using assms by simp
  then have "from_utf8 (map of_char l) \<noteq> None" by (simp add: from_utf8_ascii)
  moreover have "\<not> suffix [CHR 0x0D] l"
  proof
    assume "suffix [CHR 0x0D] l"
    then have "CHR 0x0D \<in> set l" by (auto simp: suffix_def)
    with assms show False by blast
  qed
  moreover have "CHR 0x0A \<notin> set l" using assms by blast
  ultimately show ?thesis by (simp add: text_line_def utf8_ok_def)
qed

definition demo_usb_ids :: "string list" where
  "demo_usb_ids =
     [''# usb.ids'', ''046d  Logitech, Inc.'', CHR 0x09 # ''c52b  Unifying Receiver'',
      [CHR 0x09, CHR 0x09] @ ''01  Keyboard'', ''# more'', CHR 0x09 # ''c534  Nano Receiver'',
      ''1d6b  Linux Foundation'', [], ''C 00  (Defined at Interface level)'']"

definition demo_usb_vendors :: "UsbVendor list" where
  "demo_usb_vendors =
     [\<lparr>uv_id = 0x046d, uv_name = ''Logitech, Inc.'', uv_products =
        [\<lparr>up_id = 0xc52b, up_name = ''Unifying Receiver'', up_interfaces = [''01  Keyboard'']\<rparr>,
         \<lparr>up_id = 0xc534, up_name = ''Nano Receiver'', up_interfaces = []\<rparr>]\<rparr>,
      \<lparr>uv_id = 0x1d6b, uv_name = ''Linux Foundation'', uv_products = []\<rparr>]"

theorem hwid_names_listed_witness:
  "hwid_resolve_usb (Inr (False, concat (map (\<lambda>l. l @ [CHR 0x0A]) demo_usb_ids))) 0x046d 0xc534 =
     Inr (Inr (Some (''Logitech, Inc.'', Some ''Nano Receiver'')))"
proof -
  have ascii: "\<forall>l\<in>set demo_usb_ids. text_line l"
  proof -
    have "\<forall>l\<in>set demo_usb_ids. \<forall>c\<in>set l. (of_char c :: nat) < 0x80 \<and> c \<noteq> CHR 0x0A \<and> c \<noteq> CHR 0x0D"
      by code_simp
    then show ?thesis by (simp add: text_line_ascii)
  qed
  have sections: "filter (\<lambda>l. \<not> is_comment l) demo_usb_ids =
      concat (map vendor_lines demo_usb_vendors) @ [[], ''C 00  (Defined at Interface level)'']"
    by (simp add: demo_usb_ids_def demo_usb_vendors_def vendor_lines_def product_lines_def is_comment_def
      hex04_def Let_def digits_in.simps digit_char_def) code_simp
  have wf: "\<forall>v\<in>set demo_usb_vendors. well_formed_vendor v" by code_simp
  have rest: "\<forall>l\<in>set [[], ''C 00  (Defined at Interface level)'']. other_line 0x046d l"
    by (simp add: other_line_def str_slice_def char_boundary_def from_str_radix_def to_digit_def)
  have ends: "ends_section (hd [[], ''C 00  (Defined at Interface level)''])" by code_simp
  have "listed_names demo_usb_vendors 0x046d 0xc534 = Some (''Logitech, Inc.'', Some ''Nano Receiver'')"
    by code_simp
  then show ?thesis using hwid_names_listed [OF ascii sections wf rest _ ends] by simp
qed

text \<open>Nothing after the last section: a vendor whose product is not listed has no name either.\<close>

lemma hwid_last_section:
  assumes "\<forall>v\<in>set vs. well_formed_vendor v" and "well_formed_vendor v" and "uv_id v = vid"
    and "\<forall>u\<in>set vs. uv_id u \<noteq> vid" and "\<forall>p\<in>set (uv_products v). up_id p \<noteq> pid"
  shows "hwid_scan vid pid None (map Inr (concat (map vendor_lines (vs @ [v])))) = Inr (Inr None)"
proof -
  have pass: "hwid_scan vid pid None (map Inr (concat (map vendor_lines vs)) @ ls) = hwid_scan vid pid None ls"
    for ls
    using assms(1,4)
  proof (induction vs)
    case (Cons u vs)
    then show ?case
      using scan_vendor_line [of vid pid "uv_id u" "uv_name u"]
      by (simp add: vendor_lines_def well_formed_vendor_def scan_products_unfound)
  qed simp
  have "find (\<lambda>p. up_id p = pid) (uv_products v) = None" using assms(5) by (auto simp: find_None_iff)
  then have "hwid_scan vid pid (Some n) (map Inr (concat (map product_lines (uv_products v))) @ []) = Inr (Inr None)" for n
    using assms(2) by (subst scan_products) (auto simp: well_formed_vendor_def)
  then show ?thesis
    using scan_vendor_line [of vid pid "uv_id v" "uv_name v"] assms(3) by (simp add: pass vendor_lines_def)
qed


subsection \<open>usb_device.rs\<close>

text \<open>
  What libudev answers for a device: the attributes and properties it lists, those it finds by name, and
  whether the file \<^verbatim>\<open>reset\<close> is in its directory. Values are bytes, \<open>None\<close> is no value.
\<close>

record SysDevice =
  sd_attributes :: "(string \<times> string option) list"
  sd_properties :: "(string \<times> string) list"
  sd_attribute_value :: "string \<Rightarrow> string option"
  sd_property_value :: "string \<Rightarrow> string option"
  sd_reset_exists :: bool

text \<open>\<^verbatim>\<open>OsStr::to_str\<close> and \<^verbatim>\<open>to_string_lossy\<close>\<close>

definition to_str :: "string \<Rightarrow> string option" where
  "to_str s = (if utf8_ok s then Some s else None)"

definition to_string_lossy :: "string \<Rightarrow> string" where
  "to_string_lossy s = map (\<lambda>b. char_of (unat b)) (utf8_bytes (utf8_lossy (map of_char s)))"

datatype Binding =
    Binding_Id UsbId
  | Binding_Port UsbPort
  | Binding_IdAndPort UsbId UsbPort

record HostUsbDevice =
  ud_binding :: Binding
  ud_names :: "(string \<times> string option) option"

text \<open>\<^verbatim>\<open>from_id\<close>: an error of the lookup counts as no names.\<close>

definition from_id :: "unit + bool \<times> string \<Rightarrow> UsbId \<Rightarrow> device_panic + HostUsbDevice" where
  "from_id file i =
     and_then (hwid_resolve_usb file (usbid_vendor i) (usbid_product i)) (\<lambda>names.
       Inr \<lparr>ud_binding = Binding_Id i, ud_names = (case names of Inl _ \<Rightarrow> None | Inr n \<Rightarrow> n)\<rparr>)"

definition unwrap :: "'a option \<Rightarrow> device_panic + 'a" where
  "unwrap x = (case x of None \<Rightarrow> Inl Missing_value | Some v \<Rightarrow> Inr v)"

text \<open>A value that is there, read as a hexadecimal number.\<close>

definition hex_value :: "string option \<Rightarrow> u16 option" where
  "hex_value v = Option.bind v (\<lambda>s. parse_hex (to_str s))"

definition from_udev_device :: "SysDevice \<Rightarrow> device_panic + HostUsbDevice" where
  "from_udev_device dev =
     and_then (unwrap (hex_value (sd_property_value dev ''ID_VENDOR_ID''))) (\<lambda>vendor.
     and_then (unwrap (hex_value (sd_property_value dev ''ID_MODEL_ID''))) (\<lambda>product.
     let vendor_name = map_option to_string_lossy (sd_property_value dev ''ID_VENDOR_FROM_DATABASE'');
         product_name = map_option to_string_lossy (sd_property_value dev ''ID_MODEL_FROM_DATABASE'') in
     and_then (unwrap (Option.bind (Option.bind (sd_attribute_value dev ''busnum'') to_str) (from_str_radix 10))) (\<lambda>busnum.
     and_then (unwrap (Option.bind (sd_attribute_value dev ''devpath'') to_str)) (\<lambda>devpath.
       Inr \<lparr>ud_binding = Binding_IdAndPort \<lparr>usbid_vendor = vendor, usbid_product = product\<rparr>
                \<lparr>usbport_bus = busnum, usbport_port = devpath\<rparr>,
            ud_names = map_option (\<lambda>name. (name, product_name)) vendor_name\<rparr>))))"

definition HostUsbDevice_id :: "HostUsbDevice \<Rightarrow> UsbId option" where
  "HostUsbDevice_id d =
     (case ud_binding d of Binding_Id i \<Rightarrow> Some i | Binding_IdAndPort i _ \<Rightarrow> Some i | Binding_Port _ \<Rightarrow> None)"

definition HostUsbDevice_port :: "HostUsbDevice \<Rightarrow> UsbPort option" where
  "HostUsbDevice_port d =
     (case ud_binding d of Binding_Port p \<Rightarrow> Some p | Binding_IdAndPort _ p \<Rightarrow> Some p | Binding_Id _ \<Rightarrow> None)"

definition HostUsbDevice_display :: "HostUsbDevice \<Rightarrow> string" where
  "HostUsbDevice_display d =
     (case ud_names d of
        None \<Rightarrow> ''Unknown vendor Unknown product ''
      | Some (vendor, None) \<Rightarrow> vendor @ '' Unknown product ''
      | Some (vendor, Some product) \<Rightarrow> vendor @ '' '' @ product @ '' '') @
     (case ud_binding d of
        Binding_Id i \<Rightarrow> ''['' @ UsbId_display i @ '']''
      | Binding_Port p \<Rightarrow> ''[Bus '' @ UsbPort_display p @ '']''
      | Binding_IdAndPort i p \<Rightarrow> ''['' @ UsbId_display i @ ''] [Bus '' @ UsbPort_display p @ '']'')"

subsection \<open>pci_device.rs\<close>

text \<open>The device of udev that the struct keeps is left out.\<close>

record PciDevice =
  pd_id :: PciId
  pd_vendor :: "string option"
  pd_model :: "string option"
  pd_pci_slot :: string
  pd_pci_class :: string
  pd_resettable :: bool

text \<open>The first loop: the last readable values of the two attributes.\<close>

fun pci_ids :: "(string \<times> string option) list \<Rightarrow> u16 option \<times> u16 option \<Rightarrow> u16 option \<times> u16 option" where
  "pci_ids [] ids = ids"
| "pci_ids ((name, v) # attrs) (vendor_id, model_id) =
     pci_ids attrs
       (case hex_value v of
          Some val \<Rightarrow>
            if name = ''vendor'' then (Some val, model_id)
            else if name = ''device'' then (vendor_id, Some val)
            else (vendor_id, model_id)
        | None \<Rightarrow> (vendor_id, model_id))"

record PciNames =
  pn_vendor :: "string option"
  pn_model :: "string option"
  pn_slot :: "string option"
  pn_class :: "string option"

text \<open>The second loop and its body.\<close>

definition pci_name_step :: "string \<Rightarrow> string \<Rightarrow> PciNames \<Rightarrow> PciNames" where
  "pci_name_step name v n =
     (case to_str v of
        Some val \<Rightarrow>
          if name = ''ID_VENDOR_FROM_DATABASE'' then n\<lparr>pn_vendor := Some val\<rparr>
          else if name = ''ID_MODEL_FROM_DATABASE'' then n\<lparr>pn_model := Some val\<rparr>
          else if name = ''PCI_SLOT_NAME'' then n\<lparr>pn_slot := Some val\<rparr>
          else if name = ''PCI_CLASS'' then n\<lparr>pn_class := Some val\<rparr>
          else n
      | None \<Rightarrow> n)"

fun pci_names :: "(string \<times> string) list \<Rightarrow> PciNames \<Rightarrow> PciNames" where
  "pci_names [] n = n"
| "pci_names ((name, v) # props) n = pci_names props (pci_name_step name v n)"

definition PciDevice_new :: "SysDevice \<Rightarrow> device_panic + PciDevice" where
  "PciDevice_new dev =
     (let (vendor_id, model_id) = pci_ids (sd_attributes dev) (None, None);
          n = pci_names (sd_properties dev)
                \<lparr>pn_vendor = None, pn_model = None, pn_slot = None, pn_class = None\<rparr> in
      and_then (unwrap vendor_id) (\<lambda>vendor.
      and_then (unwrap model_id) (\<lambda>device.
      and_then (unwrap (pn_slot n)) (\<lambda>slot.
      and_then (unwrap (pn_class n)) (\<lambda>class.
        Inr \<lparr>pd_id = \<lparr>pci_vendor = vendor, pci_device_id = device\<rparr>, pd_vendor = pn_vendor n,
             pd_model = pn_model n, pd_pci_slot = slot, pd_pci_class = class,
             pd_resettable = sd_reset_exists dev\<rparr>)))))"

text \<open>Devices are compared by their ids, the vendor first.\<close>

definition PciDevice_eq :: "PciDevice \<Rightarrow> PciDevice \<Rightarrow> bool" where
  "PciDevice_eq a b \<longleftrightarrow> pd_id a = pd_id b"

definition PciDevice_le :: "PciDevice \<Rightarrow> PciDevice \<Rightarrow> bool" where
  "PciDevice_le a b \<longleftrightarrow>
     pci_vendor (pd_id a) < pci_vendor (pd_id b) \<or>
     pci_vendor (pd_id a) = pci_vendor (pd_id b) \<and> pci_device_id (pd_id a) \<le> pci_device_id (pd_id b)"

definition PciDevice_display :: "PciDevice \<Rightarrow> string" where
  "PciDevice_display d =
     (case pd_vendor d of None \<Rightarrow> ''Unknown vendor'' | Some v \<Rightarrow> v) @ '' '' @
     (case pd_model d of None \<Rightarrow> ''Unknown model'' | Some m \<Rightarrow> m) @ '' ['' @ PciId_display (pd_id d) @ '']''"

text \<open>\<^verbatim>\<open>pci_device\<close>: the slot up to its last dot.\<close>

definition rfind_dot :: "string \<Rightarrow> nat option" where
  "rfind_dot s = map_option (\<lambda>i. length s - Suc i) (position (\<lambda>c. c = CHR ''.'') (rev s))"

definition PciDevice_pci_device :: "PciDevice \<Rightarrow> device_panic + string" where
  "PciDevice_pci_device d =
     and_then (unwrap (rfind_dot (pd_pci_slot d))) (\<lambda>i. str_slice (pd_pci_slot d) 0 i)"


subsection \<open>What the devices are read as\<close>

lemma to_str_digits:
  assumes "\<forall>c\<in>set s. 48 \<le> (of_char c :: nat) \<and> (of_char c :: nat) < 0x80"
  shows "to_str s = Some s"
proof -
  have "text_line s"
  proof (rule text_line_ascii, rule ballI)
    fix c
    assume "c \<in> set s"
    with assms have "48 \<le> (of_char c :: nat)" "(of_char c :: nat) < 0x80" by blast+
    then show "(of_char c :: nat) < 0x80 \<and> c \<noteq> CHR 0x0A \<and> c \<noteq> CHR 0x0D" by auto
  qed
  then show ?thesis by (simp add: to_str_def text_line_def)
qed

lemma hex_value_hex04: "hex_value (Some (hex04 v)) = Some v"
  by (simp add: hex_value_def to_str_digits hex04_ascii parse_hex_hex04)

lemma hex_value_0x_hex04: "hex_value (Some (CHR ''0'' # CHR ''x'' # hex04 v)) = Some v"
proof -
  have "to_str (''0x'' @ hex04 v) = Some (''0x'' @ hex04 v)"
    by (rule to_str_digits) (auto simp: hex04_ascii)
  then show ?thesis using parse_hex_0x_hex04 [of v] by (simp add: hex_value_def)
qed

text \<open>Names in sysfs are distinct, so the loops find what a lookup finds.\<close>

definition or_else :: "'a option \<Rightarrow> 'a option \<Rightarrow> 'a option" where
  "or_else x y = (case x of None \<Rightarrow> y | Some v \<Rightarrow> Some v)"

lemma or_else_simps [simp]: "or_else x None = x" "or_else None y = y" "or_else (Some v) y = Some v"
  by (cases x) (simp_all add: or_else_def)

lemma pci_ids_lookup:
  assumes "distinct (map fst attrs)"
  shows "pci_ids attrs (v0, d0) =
    (or_else (Option.bind (map_of attrs ''vendor'') hex_value) v0,
     or_else (Option.bind (map_of attrs ''device'') hex_value) d0)"
  using assms
proof (induction attrs arbitrary: v0 d0)
  case (Cons a attrs)
  obtain name v where a: "a = (name, v)" by (cases a)
  with Cons.prems have none: "map_of attrs name = None" by (auto simp: map_of_eq_None_iff)
  have ih: "pci_ids attrs (v0, d0) =
    (or_else (Option.bind (map_of attrs ''vendor'') hex_value) v0,
     or_else (Option.bind (map_of attrs ''device'') hex_value) d0)" for v0 d0
    using Cons by simp
  consider "name = ''vendor''" | "name = ''device''" | "name \<noteq> ''vendor''" "name \<noteq> ''device''" by blast
  then show ?case
    by cases (use none in \<open>cases "hex_value v"; simp add: a ih\<close>)+
qed simp

lemma pci_name_step_fields:
  "pn_vendor (pci_name_step name v n) =
     (if name = ''ID_VENDOR_FROM_DATABASE'' then or_else (to_str v) (pn_vendor n) else pn_vendor n)"
  "pn_model (pci_name_step name v n) =
     (if name = ''ID_MODEL_FROM_DATABASE'' then or_else (to_str v) (pn_model n) else pn_model n)"
  "pn_slot (pci_name_step name v n) =
     (if name = ''PCI_SLOT_NAME'' then or_else (to_str v) (pn_slot n) else pn_slot n)"
  "pn_class (pci_name_step name v n) =
     (if name = ''PCI_CLASS'' then or_else (to_str v) (pn_class n) else pn_class n)"
  by (simp_all add: pci_name_step_def split: option.split)

lemma pci_names_lookup:
  assumes "distinct (map fst props)"
  shows "pn_vendor (pci_names props n) = or_else (Option.bind (map_of props ''ID_VENDOR_FROM_DATABASE'') to_str) (pn_vendor n)"
    and "pn_model (pci_names props n) = or_else (Option.bind (map_of props ''ID_MODEL_FROM_DATABASE'') to_str) (pn_model n)"
    and "pn_slot (pci_names props n) = or_else (Option.bind (map_of props ''PCI_SLOT_NAME'') to_str) (pn_slot n)"
    and "pn_class (pci_names props n) = or_else (Option.bind (map_of props ''PCI_CLASS'') to_str) (pn_class n)"
proof -
  have field: "f (pci_names props n) = or_else (Option.bind (map_of props k) to_str) (f n)"
    if "\<And>name v n. f (pci_name_step name v n) = (if name = k then or_else (to_str v) (f n) else f n)" for f k
    using assms
  proof (induction props arbitrary: n)
    case (Cons p props)
    obtain name v where p: "p = (name, v)" by (cases p)
    with Cons.prems have "map_of props name = None" by (auto simp: map_of_eq_None_iff)
    with Cons show ?case by (cases "name = k") (simp_all add: p that)
  qed simp
  show "pn_vendor (pci_names props n) = or_else (Option.bind (map_of props ''ID_VENDOR_FROM_DATABASE'') to_str) (pn_vendor n)"
    by (rule field) (rule pci_name_step_fields)
  show "pn_model (pci_names props n) = or_else (Option.bind (map_of props ''ID_MODEL_FROM_DATABASE'') to_str) (pn_model n)"
    by (rule field) (rule pci_name_step_fields)
  show "pn_slot (pci_names props n) = or_else (Option.bind (map_of props ''PCI_SLOT_NAME'') to_str) (pn_slot n)"
    by (rule field) (rule pci_name_step_fields)
  show "pn_class (pci_names props n) = or_else (Option.bind (map_of props ''PCI_CLASS'') to_str) (pn_class n)"
    by (rule field) (rule pci_name_step_fields)
qed

lemma rfind_dot_last:
  assumes "CHR ''.'' \<notin> set f"
  shows "rfind_dot (slot @ CHR ''.'' # f) = Some (length slot)"
proof -
  have "position (\<lambda>c. c = CHR ''.'') (rev f @ CHR ''.'' # rev slot) = Some (length f)"
    using assms by (induction f rule: rev_induct) auto
  then show ?thesis by (simp add: rfind_dot_def)
qed

text \<open>
  A PCI device of sysfs: its ids are those of the files \<^verbatim>\<open>vendor\<close> and \<^verbatim>\<open>device\<close>, and its functions share
  the slot that \<^verbatim>\<open>pci_device\<close> gives.
\<close>

lemma pci_device_read:
  assumes "distinct (map fst (sd_attributes dev))" and "distinct (map fst (sd_properties dev))"
    and "map_of (sd_attributes dev) ''vendor'' = Some (Some (''0x'' @ hex04 v))"
    and "map_of (sd_attributes dev) ''device'' = Some (Some (''0x'' @ hex04 d))"
    and "map_of (sd_properties dev) ''PCI_SLOT_NAME'' = Some (slot @ CHR ''.'' # f)" and "CHR ''.'' \<notin> set f"
    and "utf8_ok (slot @ CHR ''.'' # f)"
    and "map_of (sd_properties dev) ''PCI_CLASS'' = Some class" and "utf8_ok class"
  shows "\<exists>p. PciDevice_new dev = Inr p \<and> pd_id p = \<lparr>pci_vendor = v, pci_device_id = d\<rparr> \<and>
    PciDevice_pci_device p = Inr slot \<and> pd_pci_class p = class \<and> pd_resettable p = sd_reset_exists dev \<and>
    pd_vendor p = Option.bind (map_of (sd_properties dev) ''ID_VENDOR_FROM_DATABASE'') to_str"
proof -
  have dot: "char_boundary (slot @ CHR ''.'' # f) (length slot)"
    by (rule boundary_ascii) (simp_all add: nth_append)
  show ?thesis
    using assms dot
    by (simp add: PciDevice_new_def pci_ids_lookup pci_names_lookup hex_value_0x_hex04
      unwrap_def to_str_def PciDevice_pci_device_def rfind_dot_last str_slice_def)
qed

text \<open>A USB device of sysfs can be bound by its id and by its port.\<close>

lemma usb_device_read:
  assumes "sd_property_value dev ''ID_VENDOR_ID'' = Some (hex04 (usbid_vendor i))"
    and "sd_property_value dev ''ID_MODEL_ID'' = Some (hex04 (usbid_product i))"
    and "sd_attribute_value dev ''busnum'' = Some (decimal (unat (usbport_bus p)))"
    and "sd_attribute_value dev ''devpath'' = Some (usbport_port p)" and "utf8_ok (usbport_port p)"
  shows "\<exists>d. from_udev_device dev = Inr d \<and> HostUsbDevice_id d = Some i \<and> HostUsbDevice_port d = Some p"
proof -
  have "to_str (digits_in 10 n) = Some (digits_in 10 n)" for n
    using digits_ascii [of _ 10 n] by (intro to_str_digits) auto
  then show ?thesis
    using assms from_str_radix_digits_in [of 10 "usbport_bus p"]
    by (cases i; cases p) (simp add: from_udev_device_def hex_value_hex04 unwrap_def to_str_def decimal_def
      HostUsbDevice_id_def HostUsbDevice_port_def Let_def)
qed


end
