(* ===== verification/Wayland_Loop.thy ===== *)
theory Wayland_Loop
  imports Prelude
begin

text \<open>
  The event loop of the Wayland clipboard, \<^verbatim>\<open>zerocost-clipboard/src/wayland/eventloop.rs\<close> and \<^verbatim>\<open>cancel.rs\<close>:
  a task that writes what has been requested, a task that reads and dispatches events, and futures that can be
  cancelled. The connection and the reactor are parameters. The lemmas show that no request waits in the
  buffer while the writing task sleeps.
\<close>

subsection \<open>cancel.rs\<close>

text \<open>
  One poll of \<^verbatim>\<open>make_cancelable\<close>: \<open>fut\<close> is the result of the future if polling it now completes it. Where
  both branches of \<^verbatim>\<open>select!\<close> are ready, \<open>first\<close> tells whether the future was polled first. \<open>None\<close> is pending,
  \<open>Some None\<close> cancelled.
\<close>

definition make_cancelable :: "bool \<Rightarrow> 'a option \<Rightarrow> bool \<Rightarrow> 'a option option" where
  "make_cancelable first fut cancelled =
     (if cancelled \<and> \<not> first then Some None
      else case fut of
        Some res \<Rightarrow> Some (Some res)
      | None \<Rightarrow> if cancelled then Some None else None)"

subsection \<open>The two tasks\<close>

text \<open>\<^verbatim>\<open>write_task\<close> waits for the socket, or for a notification.\<close>

datatype Write_task = Wait_writable | Wait_notified

text \<open>
  \<open>wl_out\<close> is what the library has buffered, \<open>wl_sent\<close> what went over the socket, \<open>wl_permit\<close> the permit
  that \<^verbatim>\<open>Notify\<close> keeps when nobody waits, \<open>wl_pending\<close> the events read but not dispatched.
\<close>

record ('r, 'e) WaylandEventLoop =
  wl_out :: "'r list"
  wl_sent :: "'r list"
  wl_permit :: bool
  wl_write :: Write_task
  wl_pending :: "'e list"

definition WaylandEventLoop_new :: "('r, 'e) WaylandEventLoop" where
  "WaylandEventLoop_new = \<lparr>wl_out = [], wl_sent = [], wl_permit = False, wl_write = Wait_writable, wl_pending = []\<rparr>"

definition notify_one :: "('r, 'e) WaylandEventLoop \<Rightarrow> ('r, 'e) WaylandEventLoop" where
  "notify_one l =
     (case wl_write l of
        Wait_notified \<Rightarrow> l\<lparr>wl_write := Wait_writable\<rparr>
      | Wait_writable \<Rightarrow> l\<lparr>wl_permit := True\<rparr>)"

text \<open>\<^verbatim>\<open>notified().await\<close>: a kept permit lets the task go on at once.\<close>

definition notified :: "('r, 'e) WaylandEventLoop \<Rightarrow> ('r, 'e) WaylandEventLoop" where
  "notified l = (if wl_permit l then l\<lparr>wl_permit := False\<rparr> else l\<lparr>wl_write := Wait_notified\<rparr>)"

text \<open>A request is only buffered.\<close>

definition request :: "'r \<Rightarrow> ('r, 'e) WaylandEventLoop \<Rightarrow> ('r, 'e) WaylandEventLoop" where
  "request r l = l\<lparr>wl_out := wl_out l @ [r]\<rparr>"

text \<open>What \<^verbatim>\<open>flush\<close> does once the socket is reported writable: it may write only the first requests.\<close>

datatype Flush = Flushed | Flush_would_block nat | Flush_failed

text \<open>One turn of the loop of \<^verbatim>\<open>write_task\<close>. An error ends the loop.\<close>

definition write_turn :: "Flush \<Rightarrow> ('r, 'e) WaylandEventLoop \<Rightarrow> unit + ('r, 'e) WaylandEventLoop" where
  "write_turn f l =
     (case wl_write l of
        Wait_notified \<Rightarrow> Inr l
      | Wait_writable \<Rightarrow>
          (case f of
             Flushed \<Rightarrow> Inr (notified (l\<lparr>wl_sent := wl_sent l @ wl_out l, wl_out := []\<rparr>))
           | Flush_would_block n \<Rightarrow>
               Inr (l\<lparr>wl_sent := wl_sent l @ take n (wl_out l), wl_out := drop n (wl_out l)\<rparr>)
           | Flush_failed \<Rightarrow> Inl ()))"

text \<open>
  One turn of \<^verbatim>\<open>read_task\<close> once the socket is readable: what \<^verbatim>\<open>prepare_read\<close> and \<^verbatim>\<open>read_events\<close> give and the
  events to dispatch. \<^verbatim>\<open>prepare_read\<close> refuses while events are pending; then these are dispatched.
\<close>

datatype 'e Read = Read_events "'e list" | Read_would_block | Read_failed

definition read_turn ::
    "'e Read \<Rightarrow> ('r, 'e) WaylandEventLoop \<Rightarrow> unit + 'e list \<times> ('r, 'e) WaylandEventLoop" where
  "read_turn r l =
     (if wl_pending l \<noteq> [] then Inr (wl_pending l, l\<lparr>wl_pending := []\<rparr>)
      else case r of
        Read_events es \<Rightarrow> Inr (es, l)
      | Read_would_block \<Rightarrow> Inr ([], l)
      | Read_failed \<Rightarrow> Inl ())"

text \<open>
  \<^verbatim>\<open>run\<close> starts with fresh tasks. \<^verbatim>\<open>roundtrip\<close> buffers a \<^verbatim>\<open>sync\<close> request and runs the loop until the answer
  drops the guard; a cancelled run counts as success.
\<close>

definition run_start :: "('r, 'e) WaylandEventLoop \<Rightarrow> ('r, 'e) WaylandEventLoop" where
  "run_start l = l\<lparr>wl_write := Wait_writable\<rparr>"

definition roundtrip_start :: "'r \<Rightarrow> ('r, 'e) WaylandEventLoop \<Rightarrow> ('r, 'e) WaylandEventLoop" where
  "roundtrip_start sync l = run_start (request sync l)"

definition roundtrip_poll :: "bool \<Rightarrow> unit option \<Rightarrow> bool \<Rightarrow> (unit + unit) option" where
  "roundtrip_poll first failed answered =
     map_option (\<lambda>r. case r of None \<Rightarrow> Inr () | Some e \<Rightarrow> Inl e) (make_cancelable first failed answered)"

subsection \<open>No lost flush\<close>

text \<open>While the writing task waits for a notification nothing is buffered.\<close>

definition flush_pending :: "('r, 'e) WaylandEventLoop \<Rightarrow> bool" where
  "flush_pending l \<longleftrightarrow> (wl_write l = Wait_notified \<longrightarrow> wl_out l = [] \<and> \<not> wl_permit l)"

definition issued :: "('r, 'e) WaylandEventLoop \<Rightarrow> 'r list" where
  "issued l = wl_sent l @ wl_out l"

lemma issued_simps [simp]:
  "issued (request r l) = issued l @ [r]" "issued (notify_one l) = issued l"
  "issued (run_start l) = issued l" "issued (l\<lparr>wl_pending := p\<rparr>) = issued l" "issued WaylandEventLoop_new = []"
  by (simp_all add: issued_def request_def notify_one_def run_start_def WaylandEventLoop_new_def split: Write_task.split)

lemma issued_fold_request [simp]: "issued (fold request rs l) = issued l @ rs"
  by (induction rs arbitrary: l) simp_all

lemma write_turn_issued: "write_turn f l = Inr l' \<Longrightarrow> issued l' = issued l"
  by (auto simp: write_turn_def issued_def notified_def split: Write_task.splits Flush.splits if_splits)

lemma flush_pending_new [simp]: "flush_pending WaylandEventLoop_new" "flush_pending (run_start l)"
  by (simp_all add: flush_pending_def WaylandEventLoop_new_def run_start_def)

text \<open>Requests in a row, followed by a notification, keep the flush pending.\<close>

lemma flush_pending_notify: "flush_pending (notify_one l)"
  by (simp add: flush_pending_def notify_one_def split: Write_task.split)

lemma flush_pending_write: "flush_pending l \<Longrightarrow> write_turn f l = Inr l' \<Longrightarrow> flush_pending l'"
  by (auto simp: flush_pending_def write_turn_def notified_def split: Write_task.splits Flush.splits if_splits)

lemma flush_pending_read: "flush_pending l \<Longrightarrow> read_turn r l = Inr (es, l') \<Longrightarrow> flush_pending l'"
  by (auto simp: flush_pending_def read_turn_def split: Read.splits if_splits)

lemma read_turn_issued: "read_turn r l = Inr (es, l') \<Longrightarrow> issued l' = issued l"
  by (auto simp: issued_def read_turn_def split: Read.splits if_splits)

text \<open>So the next turn of the writing task on a socket that takes everything sends all that was issued.\<close>

lemma flush_sends_all:
  assumes "flush_pending l"
  shows "\<exists>l'. write_turn Flushed l = Inr l' \<and> wl_out l' = [] \<and> wl_sent l' = issued l"
  using assms by (auto simp: flush_pending_def write_turn_def issued_def notified_def split: Write_task.split)

end
