(* ===== verification/Wayland_Clipboard.thy ===== *)
theory Wayland_Clipboard
  imports Wayland_Loop Clipboard Utf8
begin

text \<open>
  The Wayland clipboard, \<^verbatim>\<open>zerocost-clipboard/src/wayland/clipboard_internal.rs\<close> and \<^verbatim>\<open>clipboard_nice.rs\<close>: the
  offers of other clients, our own claims with their requests, and the handle other tasks use. The compositor
  is a parameter: its events come in any order. The lemmas show that the requests for a claim are
  delivered in order, that every request to the compositor is flushed, who can clear the selection, and what a paste
  reads.
\<close>

subsection \<open>State\<close>

text \<open>What is asked of the compositor. Offers and data sources have numbers, pipes too.\<close>

datatype Wl_request =
    Rq_get_registry
  | Rq_sync
  | Rq_bind_seat nat
  | Rq_bind_manager
  | Rq_get_data_device
  | Rq_create_source nat
  | Rq_source_offer nat string
  | Rq_set_selection "nat option"
  | Rq_receive nat string nat

datatype Wl_event =
    Ev_DataOffer nat
  | Ev_Offer nat string
  | Ev_Selection "nat option"
  | Ev_Send nat string nat
  | Ev_Cancelled nat
  | Ev_other

text \<open>
  A claim: \<open>src_sender\<close> says that the handler of the data source still has its sender, \<open>src_undo\<close> that the
  undo task runs and has another one, \<open>src_receiver\<close> that the receiver lives; \<open>src_queue\<close> is the channel,
  \<open>src_cancelled\<close> the token. \<open>src_text\<close> is the text of \<^verbatim>\<open>claim_string\<close>, whose own task reads the requests.
\<close>

record Source =
  src_sender :: bool
  src_undo :: bool
  src_receiver :: bool
  src_queue :: "ClipboardRequest list"
  src_cancelled :: bool
  src_text :: "unicode option"

text \<open>
  \<open>wc_current\<close> and \<open>wc_version\<close> are the watched value; \<open>wc_running\<close> says that the job of the clipboard runs;
  \<open>wc_taken\<close> and \<open>wc_written\<close> record what readers took from the channels and what \<^verbatim>\<open>claim_string\<close> wrote to pipes.
\<close>

record WaylandClipboard =
  wc_loop :: "(Wl_request, Wl_event) WaylandEventLoop"
  wc_offers :: "nat \<Rightarrow> string set option"
  wc_current :: "nat option"
  wc_version :: nat
  wc_sources :: "Source list"
  wc_running :: bool
  wc_taken :: "(nat \<times> ClipboardRequest) list"
  wc_written :: "(nat \<times> u8 list) list"

abbreviation upd_loop ::
    "((Wl_request, Wl_event) WaylandEventLoop \<Rightarrow> (Wl_request, Wl_event) WaylandEventLoop) \<Rightarrow>
     WaylandClipboard \<Rightarrow> WaylandClipboard" where
  "upd_loop f s \<equiv> s\<lparr>wc_loop := f (wc_loop s)\<rparr>"

definition upd_source :: "nat \<Rightarrow> (Source \<Rightarrow> Source) \<Rightarrow> WaylandClipboard \<Rightarrow> WaylandClipboard" where
  "upd_source i f s =
     (if i < length (wc_sources s) then s\<lparr>wc_sources := (wc_sources s)[i := f (wc_sources s ! i)]\<rparr> else s)"

text \<open>An \<^verbatim>\<open>unwrap\<close> that fails.\<close>

datatype wl_panic = Job_gone | No_seat | No_user_data

subsection \<open>Events of the compositor\<close>

text \<open>The handlers of the data device and of an offer.\<close>

definition data_offer :: "nat \<Rightarrow> WaylandClipboard \<Rightarrow> WaylandClipboard" where
  "data_offer i s = s\<lparr>wc_offers := (wc_offers s)(i \<mapsto> {})\<rparr>"

definition offer_mime :: "nat \<Rightarrow> string \<Rightarrow> WaylandClipboard \<Rightarrow> WaylandClipboard" where
  "offer_mime i mime_type s =
     (case wc_offers s i of
        None \<Rightarrow> s
      | Some mime \<Rightarrow> s\<lparr>wc_offers := (wc_offers s)(i \<mapsto> insert mime_type mime)\<rparr>)"

definition selection :: "nat option \<Rightarrow> WaylandClipboard \<Rightarrow> WaylandClipboard" where
  "selection i s = s\<lparr>wc_current := i, wc_version := wc_version s + 1\<rparr>"

text \<open>The handler of a data source. A send to a channel whose receiver is gone is ignored.\<close>

definition source_send :: "string \<Rightarrow> nat \<Rightarrow> Source \<Rightarrow> Source" where
  "source_send mime_type fd src =
     (if src_sender src \<and> src_receiver src
      then src\<lparr>src_queue := src_queue src @ [\<lparr>cr_mime_type = mime_type, cr_target = fd\<rparr>]\<rparr> else src)"

definition source_cancelled :: "Source \<Rightarrow> Source" where
  "source_cancelled src = src\<lparr>src_cancelled := True, src_sender := False\<rparr>"

primrec handle_event :: "Wl_event \<Rightarrow> WaylandClipboard \<Rightarrow> WaylandClipboard" where
  "handle_event (Ev_DataOffer i) s = data_offer i s"
| "handle_event (Ev_Offer i mime_type) s = offer_mime i mime_type s"
| "handle_event (Ev_Selection i) s = selection i s"
| "handle_event (Ev_Send i mime_type fd) s = upd_source i (source_send mime_type fd) s"
| "handle_event (Ev_Cancelled i) s = upd_source i source_cancelled s"
| "handle_event Ev_other s = s"

subsection \<open>Claims\<close>

text \<open>\<^verbatim>\<open>claim\<close>: the number of the new data source and the state.\<close>

definition claim_source :: "string list \<Rightarrow> unicode option \<Rightarrow> WaylandClipboard \<Rightarrow> WaylandClipboard" where
  "claim_source mime_types txt s =
     (let i = length (wc_sources s);
          l = request (Rq_create_source i) (wc_loop s);
          l = fold (\<lambda>mime. request (Rq_source_offer i mime)) mime_types l;
          l = request (Rq_set_selection (Some i)) l
      in s\<lparr>wc_loop := notify_one l,
           wc_sources := wc_sources s @
             [\<lparr>src_sender = True, src_undo = True, src_receiver = True, src_queue = [],
               src_cancelled = False, src_text = txt\<rparr>]\<rparr>)"

text \<open>
  One turn of the undo task: \<^verbatim>\<open>tx2.closed()\<close> is done once the receiver is dropped. The task then clears the
  selection; when it has ended, either way, its sender is gone.
\<close>

definition undo_turn :: "nat \<Rightarrow> bool \<Rightarrow> WaylandClipboard \<Rightarrow> WaylandClipboard" where
  "undo_turn i first s =
     (if i < length (wc_sources s) \<and> src_undo (wc_sources s ! i) then
        let src = wc_sources s ! i in
        (case make_cancelable first (if src_receiver src then None else Some ()) (src_cancelled src) of
           None \<Rightarrow> s
         | Some None \<Rightarrow> upd_source i (\<lambda>src. src\<lparr>src_undo := False\<rparr>) s
         | Some (Some _) \<Rightarrow>
             upd_source i (\<lambda>src. src\<lparr>src_undo := False\<rparr>)
               (upd_loop (\<lambda>l. notify_one (request (Rq_set_selection None) l)) s))
      else s)"

text \<open>
  One turn of the task that reads a claim, as \<^verbatim>\<open>claim_string\<close> and the clipboard of the driver have it: it
  takes a request, or ends and drops the receiver when all senders are gone. \<^verbatim>\<open>claim_string\<close> writes its text
  to the pipe, whether or not that works.
\<close>

definition recv_turn :: "nat \<Rightarrow> WaylandClipboard \<Rightarrow> WaylandClipboard" where
  "recv_turn i s =
     (if i < length (wc_sources s) \<and> src_receiver (wc_sources s ! i) then
        let src = wc_sources s ! i in
        (case src_queue src of
           req # rest \<Rightarrow>
             let s = (upd_source i (\<lambda>src. src\<lparr>src_queue := rest\<rparr>) s)\<lparr>wc_taken := wc_taken s @ [(i, req)]\<rparr> in
             (case src_text src of
                None \<Rightarrow> s
              | Some txt \<Rightarrow> s\<lparr>wc_written := wc_written s @ [(cr_target req, utf8_bytes txt)]\<rparr>)
         | [] \<Rightarrow>
             if src_sender src \<or> src_undo src then s
             else upd_source i (\<lambda>src. src\<lparr>src_receiver := False\<rparr>) s)
      else s)"

text \<open>The owner of a receiver may drop it earlier.\<close>

definition drop_receiver :: "nat \<Rightarrow> WaylandClipboard \<Rightarrow> WaylandClipboard" where
  "drop_receiver i s = upd_source i (\<lambda>src. src\<lparr>src_receiver := False, src_queue := []\<rparr>) s"

subsection \<open>Reading an offer\<close>

definition mime_types :: "WaylandClipboard \<Rightarrow> nat \<Rightarrow> wl_panic + string set" where
  "mime_types s offer = (case wc_offers s offer of None \<Rightarrow> Inl No_user_data | Some mime \<Rightarrow> Inr mime)"

text \<open>\<open>pipe\<close> is the outcome of making a pipe. The left result inside is an error return.\<close>

definition offer_receive_reader ::
    "nat \<Rightarrow> string \<Rightarrow> nat option \<Rightarrow> WaylandClipboard \<Rightarrow> wl_panic + (unit + nat) \<times> WaylandClipboard" where
  "offer_receive_reader offer mime pipe s =
     and_then (mime_types s offer) (\<lambda>types.
       if mime \<notin> types then Inr (Inl (), s)
       else case pipe of
         None \<Rightarrow> Inr (Inl (), s)
       | Some r \<Rightarrow> Inr (Inr r, upd_loop (\<lambda>l. notify_one (request (Rq_receive offer mime r) l)) s))"

text \<open>\<open>contents r\<close> is what reading the pipe to its end gives.\<close>

definition offer_receive_bytes ::
    "nat \<Rightarrow> string \<Rightarrow> nat option \<Rightarrow> (nat \<Rightarrow> u8 list option) \<Rightarrow> WaylandClipboard \<Rightarrow>
     wl_panic + u8 list option \<times> WaylandClipboard" where
  "offer_receive_bytes offer mime pipe contents s =
     and_then (offer_receive_reader offer mime pipe s) (\<lambda>(r, s).
       Inr (case r of Inl _ \<Rightarrow> None | Inr r \<Rightarrow> contents r, s))"

definition offer_receive_string ::
    "nat \<Rightarrow> nat option \<Rightarrow> (nat \<Rightarrow> u8 list option) \<Rightarrow> WaylandClipboard \<Rightarrow>
     wl_panic + unicode option \<times> WaylandClipboard" where
  "offer_receive_string offer pipe contents s =
     and_then (offer_receive_bytes offer ''text/plain;charset=utf-8'' pipe contents s) (\<lambda>(v, s).
       Inr (Option.bind v from_utf8, s))"

subsection \<open>The handle and its job\<close>

datatype Command =
    Command_Get
  | Command_Subscribe
  | Command_Claim "string list"
  | Command_ClaimString unicode

text \<open>What a command answers; a subscription starts with the version the job's own receiver has seen, the first.\<close>

datatype Reply =
    Reply_offer "nat option"
  | Reply_watch nat
  | Reply_claim nat
  | Reply_none

text \<open>
  One command in the job. \<open>wanted\<close> says that the caller still waits for the answer: a receiver nobody takes
  is dropped.
\<close>

definition command_handler :: "bool \<Rightarrow> Command \<Rightarrow> WaylandClipboard \<Rightarrow> Reply \<times> WaylandClipboard" where
  "command_handler wanted cmd s =
     (case cmd of
        Command_Get \<Rightarrow> (Reply_offer (wc_current s), s)
      | Command_Subscribe \<Rightarrow> (Reply_watch 0, s)
      | Command_Claim mimes \<Rightarrow>
          let i = length (wc_sources s); s = claim_source mimes None s
          in (Reply_claim i, if wanted then s else drop_receiver i s)
      | Command_ClaimString txt \<Rightarrow> (Reply_none, claim_source PLAINTEXT_MIME_TYPES (Some txt) s))"

text \<open>A call of the handle: the sender's and the answer's \<^verbatim>\<open>unwrap\<close> fail once the job has ended.\<close>

definition clipboard_call :: "bool \<Rightarrow> Command \<Rightarrow> WaylandClipboard \<Rightarrow> wl_panic + Reply \<times> WaylandClipboard" where
  "clipboard_call wanted cmd s = (if wc_running s then Inr (command_handler wanted cmd s) else Inl Job_gone)"

text \<open>
  \<^verbatim>\<open>WaylandClipboardInternal::init\<close>: two roundtrips, between them the manager and the first seat. The first
  results in the seats that were bound on the way and whether a manager is announced, the second in the events
  dispatched meanwhile; an error ends the job. When a roundtrip is answered, all requests before it were sent.
\<close>

definition clipboard_started :: "(Wl_request, Wl_event) WaylandEventLoop \<Rightarrow> WaylandClipboard" where
  "clipboard_started l =
     \<lparr>wc_loop = l, wc_offers = Map.empty, wc_current = None, wc_version = 0, wc_sources = [],
      wc_running = True, wc_taken = [], wc_written = []\<rparr>"

definition roundtrip_done :: "(Wl_request, Wl_event) WaylandEventLoop \<Rightarrow> (Wl_request, Wl_event) WaylandEventLoop" where
  "roundtrip_done l = (let l = roundtrip_start Rq_sync l in l\<lparr>wl_sent := wl_sent l @ wl_out l, wl_out := []\<rparr>)"

definition clipboard_init_job ::
    "unit + nat list \<times> bool \<Rightarrow> unit + Wl_event list \<Rightarrow> wl_panic + unit + WaylandClipboard" where
  "clipboard_init_job globals events =
     (case globals of
        Inl e \<Rightarrow> Inr (Inl e)
      | Inr (seats, manager) \<Rightarrow>
          let l = roundtrip_done (request Rq_get_registry WaylandEventLoop_new);
              l = fold (\<lambda>seat. request (Rq_bind_seat seat)) seats l in
          if \<not> manager then Inr (Inl ())
          else if seats = [] then Inl No_seat
          else
            let l = request Rq_get_data_device (request Rq_bind_manager l) in
            (case events of
               Inl e \<Rightarrow> Inr (Inl e)
             | Inr es \<Rightarrow>
                 Inr (Inr (upd_loop run_start (fold handle_event es (clipboard_started (roundtrip_done l)))))))"

subsection \<open>Steps\<close>

text \<open>
  One step of one task: the two tasks of the event loop, a call of the handle, the undo task and the reader of a
  claim, an early drop of a receiver, reading an offer.
\<close>

datatype Wl_step =
    St_write Flush
  | St_read "Wl_event Read" bool
  | St_call bool Command
  | St_undo nat bool
  | St_recv nat
  | St_drop nat
  | St_receive nat string "nat option"

text \<open>An error of the loop, a failed dispatch included, ends the job.\<close>

definition loop_write :: "Flush \<Rightarrow> WaylandClipboard \<Rightarrow> WaylandClipboard" where
  "loop_write f s =
     (if \<not> wc_running s then s
      else case write_turn f (wc_loop s) of
        Inl _ \<Rightarrow> s\<lparr>wc_running := False\<rparr>
      | Inr l \<Rightarrow> s\<lparr>wc_loop := l\<rparr>)"

definition loop_read :: "Wl_event Read \<Rightarrow> bool \<Rightarrow> WaylandClipboard \<Rightarrow> WaylandClipboard" where
  "loop_read r dispatch_ok s =
     (if \<not> wc_running s then s
      else case read_turn r (wc_loop s) of
        Inl _ \<Rightarrow> s\<lparr>wc_running := False\<rparr>
      | Inr (es, l) \<Rightarrow>
          let s = fold handle_event es (s\<lparr>wc_loop := l\<rparr>) in
          if dispatch_ok then s else s\<lparr>wc_running := False\<rparr>)"

primrec wl_step :: "Wl_step \<Rightarrow> WaylandClipboard \<Rightarrow> wl_panic + WaylandClipboard" where
  "wl_step (St_write f) s = Inr (loop_write f s)"
| "wl_step (St_read r dispatch_ok) s = Inr (loop_read r dispatch_ok s)"
| "wl_step (St_call wanted cmd) s = and_then (clipboard_call wanted cmd s) (\<lambda>(_, s). Inr s)"
| "wl_step (St_undo i first) s = Inr (undo_turn i first s)"
| "wl_step (St_recv i) s = Inr (recv_turn i s)"
| "wl_step (St_drop i) s = Inr (drop_receiver i s)"
| "wl_step (St_receive i mime pipe) s = and_then (offer_receive_reader i mime pipe s) (\<lambda>(_, s). Inr s)"

abbreviation wl_exec :: "Wl_step list \<Rightarrow> WaylandClipboard \<Rightarrow> wl_panic + WaylandClipboard" where
  "wl_exec \<equiv> for_each_res wl_step"

subsection \<open>What the operations leave alone\<close>

lemma upd_source_simps [simp]:
  "wc_loop (upd_source i f s) = wc_loop s" "wc_offers (upd_source i f s) = wc_offers s"
  "wc_current (upd_source i f s) = wc_current s" "wc_running (upd_source i f s) = wc_running s"
  "wc_taken (upd_source i f s) = wc_taken s" "length (wc_sources (upd_source i f s)) = length (wc_sources s)"
  by (simp_all add: upd_source_def)

lemma upd_source_nth:
  "j < length (wc_sources s) \<Longrightarrow>
   wc_sources (upd_source i f s) ! j = (if i = j then f (wc_sources s ! j) else wc_sources s ! j)"
  by (auto simp: upd_source_def)

lemma handle_event_simps [simp]:
  "wc_loop (handle_event e s) = wc_loop s" "wc_running (handle_event e s) = wc_running s"
  "wc_taken (handle_event e s) = wc_taken s" "length (wc_sources (handle_event e s)) = length (wc_sources s)"
  by (cases e; simp add: data_offer_def offer_mime_def selection_def split: option.split)+

lemma handle_events_simps [simp]:
  "wc_loop (fold handle_event es s) = wc_loop s" "wc_running (fold handle_event es s) = wc_running s"
  "wc_taken (fold handle_event es s) = wc_taken s"
  "length (wc_sources (fold handle_event es s)) = length (wc_sources s)"
  by (induction es arbitrary: s) simp_all

lemma claim_source_simps [simp]:
  "wc_running (claim_source ms t s) = wc_running s" "wc_taken (claim_source ms t s) = wc_taken s"
  "length (wc_sources (claim_source ms t s)) = Suc (length (wc_sources s))"
  by (simp_all add: claim_source_def Let_def)

lemma claim_source_nth:
  "wc_sources (claim_source ms t s) =
     wc_sources s @ [\<lparr>src_sender = True, src_undo = True, src_receiver = True, src_queue = [],
        src_cancelled = False, src_text = t\<rparr>]"
  by (simp add: claim_source_def Let_def)

text \<open>What a claim asks of the compositor, in this order.\<close>

lemma issued_fold [simp]: "issued (fold (\<lambda>x. request (g x)) xs l) = issued l @ map g xs"
  by (induction xs arbitrary: l) simp_all

lemma issued_claim_source:
  "issued (wc_loop (claim_source ms t s)) = issued (wc_loop s) @
     Rq_create_source (length (wc_sources s)) # map (Rq_source_offer (length (wc_sources s))) ms @
     [Rq_set_selection (Some (length (wc_sources s)))]"
  by (simp add: claim_source_def Let_def)

lemma wl_pending_simps [simp]:
  "wl_pending (request r l) = wl_pending l" "wl_pending (notify_one l) = wl_pending l"
  "wl_pending (fold (\<lambda>m. request (g m)) ms l) = wl_pending l" "wl_pending (run_start l) = wl_pending l"
  by (simp_all add: request_def notify_one_def run_start_def split: Write_task.split)
    (induction ms arbitrary: l; simp add: request_def)

lemma write_turn_pending: "write_turn f l = Inr l' \<Longrightarrow> wl_pending l' = wl_pending l"
  by (auto simp: write_turn_def notified_def split: Write_task.splits Flush.splits if_splits)

subsection \<open>Every request is flushed\<close>

definition loop_ok :: "WaylandClipboard \<Rightarrow> bool" where
  "loop_ok s \<longleftrightarrow> flush_pending (wc_loop s) \<and> wl_pending (wc_loop s) = []"

lemma loop_ok_same: "loop_ok s \<Longrightarrow> wc_loop s' = wc_loop s \<Longrightarrow> loop_ok s'"
  by (simp add: loop_ok_def)

lemma loop_ok_write: "loop_ok s \<Longrightarrow> loop_ok (loop_write f s)"
  using flush_pending_write write_turn_pending
  by (fastforce simp: loop_ok_def loop_write_def split: sum.split)

lemma loop_ok_read: "loop_ok s \<Longrightarrow> loop_ok (loop_read r ok s)"
  by (auto simp: loop_ok_def loop_read_def read_turn_def Let_def split: sum.splits Read.splits)

lemma loop_ok_claim: "loop_ok s \<Longrightarrow> loop_ok (claim_source ms t s)"
  by (simp add: loop_ok_def claim_source_def Let_def flush_pending_notify)

text \<open>The three outcomes of a turn of the undo task.\<close>

lemma undo_turn_cases:
  obtains (wait) "undo_turn i first s = s"
  | (ended) "i < length (wc_sources s)" "src_undo (wc_sources s ! i)" "src_cancelled (wc_sources s ! i)"
      "undo_turn i first s = upd_source i (\<lambda>src. src\<lparr>src_undo := False\<rparr>) s"
  | (cleared) "i < length (wc_sources s)" "src_undo (wc_sources s ! i)" "\<not> src_receiver (wc_sources s ! i)"
      "undo_turn i first s = upd_source i (\<lambda>src. src\<lparr>src_undo := False\<rparr>)
         (upd_loop (\<lambda>l. notify_one (request (Rq_set_selection None) l)) s)"
proof (cases "i < length (wc_sources s) \<and> src_undo (wc_sources s ! i)")
  case True
  let ?src = "wc_sources s ! i"
  show ?thesis
  proof (cases "make_cancelable first (if src_receiver ?src then None else Some ()) (src_cancelled ?src)")
    case None
    with True show ?thesis by (intro wait) (simp add: undo_turn_def Let_def)
  next
    case (Some r)
    show ?thesis
    proof (cases r)
      case None
      with Some have "src_cancelled ?src" by (auto simp: make_cancelable_def split: if_splits)
      with True Some None show ?thesis by (intro ended) (simp_all add: undo_turn_def Let_def)
    next
      case (Some u)
      with \<open>make_cancelable _ _ _ = Some r\<close> have "\<not> src_receiver ?src"
        by (auto simp: make_cancelable_def split: if_splits)
      with True Some \<open>make_cancelable _ _ _ = Some r\<close> show ?thesis
        by (intro cleared) (simp_all add: undo_turn_def Let_def)
    qed
  qed
qed (auto simp: undo_turn_def intro: wait)

lemma loop_ok_undo: "loop_ok s \<Longrightarrow> loop_ok (undo_turn i first s)"
  by (cases rule: undo_turn_cases [of i first s]) (simp_all add: loop_ok_def flush_pending_notify)

lemma recv_turn_loop [simp]: "wc_loop (recv_turn i s) = wc_loop s"
  by (simp add: recv_turn_def Let_def split: list.split option.split)

lemma drop_receiver_loop [simp]: "wc_loop (drop_receiver i s) = wc_loop s"
  by (simp add: drop_receiver_def)

lemma loop_ok_step:
  assumes "wl_step st s = Inr s'" and "loop_ok s"
  shows "loop_ok s'"
proof (cases st)
  case (St_call wanted cmd)
  with assms show ?thesis
    by (cases cmd)
      (auto simp: clipboard_call_def command_handler_def Let_def loop_ok_claim
        intro: loop_ok_same [OF loop_ok_claim] split: if_splits)
next
  case (St_receive i mime pipe)
  with assms show ?thesis
    by (auto simp: offer_receive_reader_def res_simps loop_ok_def flush_pending_notify split: if_splits option.splits)
qed (use assms in \<open>auto simp: loop_ok_write loop_ok_read loop_ok_undo intro: loop_ok_same\<close>)

lemma loop_ok_init:
  assumes "clipboard_init_job globals events = Inr (Inr s)"
  shows "loop_ok s"
  using assms
  by (auto simp: clipboard_init_job_def clipboard_started_def loop_ok_def roundtrip_done_def roundtrip_start_def
      WaylandEventLoop_new_def Let_def split: sum.splits if_splits)

text \<open>The compositor introduces an offer, lists its types and makes it the selection.\<close>

definition announce :: "nat \<Rightarrow> string list \<Rightarrow> Wl_event list" where
  "announce i ms = Ev_DataOffer i # map (Ev_Offer i) ms @ [Ev_Selection (Some i)]"

text \<open>A compositor with one seat and a selection of text.\<close>

definition demo_clipboard :: WaylandClipboard where
  "demo_clipboard =
     (case clipboard_init_job (Inr ([5], True)) (Inr (announce 7 [''text/plain;charset=utf-8''])) of
        Inr (Inr s) \<Rightarrow> s | _ \<Rightarrow> clipboard_started WaylandEventLoop_new)"

lemma demo_clipboard_init:
  "clipboard_init_job (Inr ([5], True)) (Inr (announce 7 [''text/plain;charset=utf-8''])) = Inr (Inr demo_clipboard)"
  by (simp add: demo_clipboard_def clipboard_init_job_def Let_def)

text \<open>A program of the host asks twice for the claimed data and then takes the selection itself.\<close>

definition demo_session :: "Wl_step list" where
  "demo_session =
     [St_read (Read_events [Ev_Send 0 ''image/png'' 21, Ev_Send 0 ''STRING'' 22, Ev_Cancelled 0]) True,
      St_undo 0 True, St_recv 0]"

lemmas demo_defs = demo_clipboard_def clipboard_init_job_def clipboard_started_def roundtrip_done_def
  roundtrip_start_def announce_def data_offer_def offer_mime_def selection_def run_start_def request_def
  WaylandEventLoop_new_def Let_def loop_read_def read_turn_def clipboard_call_def command_handler_def
  claim_source_def notify_one_def upd_source_def source_send_def source_cancelled_def recv_turn_def
  undo_turn_def make_cancelable_def demo_session_def

lemma demo_session_exec:
  "\<exists>s. wl_exec (St_call True (Command_Claim [''image/png'']) # demo_session) demo_clipboard = Inr s \<and> wc_running s"
  by (simp add: demo_defs)

lemma demo_session_runs:
  "\<exists>s1 s2. clipboard_call True (Command_Claim [''image/png'']) demo_clipboard = Inr (Reply_claim 0, s1) \<and>
     wl_exec demo_session s1 = Inr s2 \<and> wc_running s2"
proof -
  obtain s2 where s2: "wl_exec (St_call True (Command_Claim [''image/png'']) # demo_session) demo_clipboard = Inr s2"
      "wc_running s2"
    using demo_session_exec by blast
  moreover have "\<exists>s1. clipboard_call True (Command_Claim [''image/png'']) demo_clipboard = Inr (Reply_claim 0, s1)"
    by (simp add: demo_defs)
  ultimately show ?thesis by auto
qed

text \<open>
  C14: no request to the compositor is lost or stuck. In every state of every run, whatever the order of the
  tasks and however often the socket took only a part, the next time the socket takes data the loop sends all
  requests issued so far in the order they were issued.
\<close>

theorem wl_requests_flushed:
  assumes "clipboard_init_job globals events = Inr (Inr s0)" and "wl_exec steps s0 = Inr s" and "wc_running s"
  shows "wl_out (wc_loop (loop_write Flushed s)) = [] \<and>
    wl_sent (wc_loop (loop_write Flushed s)) = wl_sent (wc_loop s) @ wl_out (wc_loop s)"
proof -
  have "loop_ok s"
    using assms(2) loop_ok_init [OF assms(1)] by (rule for_each_res_inv) (rule loop_ok_step)
  then obtain l where "write_turn Flushed (wc_loop s) = Inr l" "wl_out l = []" "wl_sent l = issued (wc_loop s)"
    using flush_sends_all by (auto simp: loop_ok_def)
  then show ?thesis using assms(3) by (simp add: loop_write_def issued_def)
qed


theorem wl_requests_flushed_witness:
  "\<exists>s. wl_exec [St_write Flushed, St_call True (Command_Claim [''a''])] demo_clipboard = Inr s \<and>
     wl_out (wc_loop s) = [Rq_create_source 0, Rq_source_offer 0 ''a'', Rq_set_selection (Some 0)] \<and>
     wl_out (wc_loop (loop_write Flushed s)) = []"
proof -
  let ?steps = "[St_write Flushed, St_call True (Command_Claim [''a''])]"
  have "case wl_exec ?steps demo_clipboard of
      Inl _ \<Rightarrow> False
    | Inr s \<Rightarrow> wc_running s \<and>
        wl_out (wc_loop s) = [Rq_create_source 0, Rq_source_offer 0 ''a'', Rq_set_selection (Some 0)]"
    by code_simp
  then obtain s where s: "wl_exec ?steps demo_clipboard = Inr s" "wc_running s"
      "wl_out (wc_loop s) = [Rq_create_source 0, Rq_source_offer 0 ''a'', Rq_set_selection (Some 0)]"
    by (auto split: sum.splits)
  with wl_requests_flushed [OF demo_clipboard_init s(1,2)] show ?thesis by blast
qed

subsection \<open>Requests for a claim\<close>

text \<open>What the compositor asks of a data source before it cancels it.\<close>

fun asked :: "nat \<Rightarrow> Wl_event list \<Rightarrow> ClipboardRequest list" where
  "asked i [] = []"
| "asked i (Ev_Send j mime_type fd # es) =
     (if j = i then [\<lparr>cr_mime_type = mime_type, cr_target = fd\<rparr>] else []) @ asked i es"
| "asked i (Ev_Cancelled j # es) = (if j = i then [] else asked i es)"
| "asked i (_ # es) = asked i es"

lemma asked_append:
  "asked i (es @ fs) = asked i es @ (if Ev_Cancelled i \<in> set es then [] else asked i fs)"
  by (induction i es rule: asked.induct) auto

text \<open>The events that a sequence of steps dispatches.\<close>

fun dispatched :: "Wl_step list \<Rightarrow> Wl_event list" where
  "dispatched [] = []"
| "dispatched (St_read (Read_events es) ok # steps) = es @ dispatched steps"
| "dispatched (_ # steps) = dispatched steps"

definition taken_by :: "nat \<Rightarrow> WaylandClipboard \<Rightarrow> ClipboardRequest list" where
  "taken_by i s = map snd (filter (\<lambda>t. fst t = i) (wc_taken s))"

text \<open>All requests for a claim so far, taken or waiting, and a claim in order.\<close>

definition history :: "nat \<Rightarrow> WaylandClipboard \<Rightarrow> ClipboardRequest list" where
  "history i s = taken_by i s @ src_queue (wc_sources s ! i)"

definition claim_ok :: "nat \<Rightarrow> WaylandClipboard \<Rightarrow> bool" where
  "claim_ok i s \<longleftrightarrow> i < length (wc_sources s) \<and> wl_pending (wc_loop s) = [] \<and>
     (src_receiver (wc_sources s ! i) \<or> \<not> src_sender (wc_sources s ! i) \<and> src_queue (wc_sources s ! i) = [])"

lemma handle_event_claim:
  assumes "claim_ok i s"
  shows "claim_ok i (handle_event e s) \<and>
    history i (handle_event e s) = history i s @ (if src_sender (wc_sources s ! i) then asked i [e] else []) \<and>
    src_sender (wc_sources (handle_event e s) ! i) =
      (src_sender (wc_sources s ! i) \<and> e \<noteq> Ev_Cancelled i)"
  using assms
  by (cases e)
    (auto simp: claim_ok_def history_def taken_by_def upd_source_nth source_send_def source_cancelled_def
      data_offer_def offer_mime_def selection_def split: option.split)

lemma handle_events_claim:
  assumes "claim_ok i s"
  shows "claim_ok i (fold handle_event es s) \<and>
    history i (fold handle_event es s) = history i s @ (if src_sender (wc_sources s ! i) then asked i es else []) \<and>
    src_sender (wc_sources (fold handle_event es s) ! i) =
      (src_sender (wc_sources s ! i) \<and> Ev_Cancelled i \<notin> set es)"
  using assms
proof (induction es arbitrary: s)
  case (Cons e es)
  note e = handle_event_claim [OF Cons.prems, of e]
  note IH = Cons.IH [OF conjunct1 [OF e]]
  have "asked i (e # es) = asked i [e] @ (if e = Ev_Cancelled i then [] else asked i es)"
    using asked_append [of i "[e]" es] by (auto split: if_splits)
  with IH e show ?case by auto
qed simp

text \<open>The steps of other kinds keep the history and the sender.\<close>

definition same_claim :: "nat \<Rightarrow> WaylandClipboard \<Rightarrow> WaylandClipboard \<Rightarrow> bool" where
  "same_claim i s s' \<longleftrightarrow> claim_ok i s' \<and> history i s' = history i s \<and>
     src_sender (wc_sources s' ! i) = src_sender (wc_sources s ! i)"

lemma claim_ok_pending: "claim_ok i s \<Longrightarrow> wl_pending (wc_loop s) = []"
  by (simp add: claim_ok_def)

lemma same_claim_write: "claim_ok i s \<Longrightarrow> same_claim i s (loop_write f s)"
  using write_turn_pending
  by (fastforce simp: loop_write_def same_claim_def claim_ok_def history_def taken_by_def split: sum.split)

lemma same_claim_undo: "claim_ok i s \<Longrightarrow> same_claim i s (undo_turn j first s)"
  by (cases rule: undo_turn_cases [of j first s])
    (auto simp: same_claim_def claim_ok_def history_def taken_by_def upd_source_nth)

lemma same_claim_recv:
  assumes "claim_ok i s"
  shows "same_claim i s (recv_turn j s)"
proof (cases "src_queue (wc_sources s ! j)")
  case Nil
  with assms show ?thesis
    by (auto simp: recv_turn_def Let_def same_claim_def claim_ok_def history_def taken_by_def upd_source_nth)
next
  case (Cons req rest)
  with assms show ?thesis
    by (cases "src_text (wc_sources s ! j)")
      (auto simp: recv_turn_def Let_def same_claim_def claim_ok_def history_def taken_by_def upd_source_nth)
qed

lemma same_claim_new: "claim_ok i s \<Longrightarrow> same_claim i s (claim_source ms t s)"
  by (auto simp: same_claim_def claim_ok_def history_def taken_by_def claim_source_nth nth_append
      claim_source_def Let_def)

lemma same_claim_drop: "claim_ok i s \<Longrightarrow> j \<noteq> i \<Longrightarrow> same_claim i s (drop_receiver j s)"
  by (auto simp: same_claim_def claim_ok_def history_def taken_by_def upd_source_nth drop_receiver_def)

lemma same_claim_loop: "claim_ok i s \<Longrightarrow> same_claim i s (upd_loop (\<lambda>l. notify_one (request r l)) s)"
  by (simp add: same_claim_def claim_ok_def history_def taken_by_def)

lemma same_claim_refl: "claim_ok i s \<Longrightarrow> same_claim i s s"
  by (simp add: same_claim_def)

lemma same_claim_trans: "same_claim i s t \<Longrightarrow> same_claim i t u \<Longrightarrow> same_claim i s u"
  by (simp add: same_claim_def)

lemma same_claim_call:
  assumes "claim_ok i s" and "clipboard_call wanted cmd s = Inr (r, s')"
  shows "same_claim i s s'"
proof -
  have i: "i \<noteq> length (wc_sources s)" using assms(1) by (simp add: claim_ok_def)
  have "same_claim i s (drop_receiver (length (wc_sources s)) (claim_source ms None s))" for ms
    using same_claim_new [OF assms(1)] i same_claim_drop same_claim_trans same_claim_def by metis
  with assms show ?thesis
    by (cases cmd) (auto simp: clipboard_call_def command_handler_def Let_def same_claim_new same_claim_refl
        split: if_splits)
qed

lemma same_claim_receive:
  assumes "claim_ok i s" and "offer_receive_reader o' mime pipe s = Inr (r, s')"
  shows "same_claim i s s'"
  using assms by (auto simp: offer_receive_reader_def res_simps same_claim_refl same_claim_loop split: if_splits option.splits)

lemma dispatched_Cons: "dispatched (st # steps) = dispatched [st] @ dispatched steps"
proof (cases st)
  case (St_read r ok)
  then show ?thesis by (cases r) simp_all
qed simp_all

definition heard :: "nat \<Rightarrow> WaylandClipboard \<Rightarrow> Wl_event list \<Rightarrow> WaylandClipboard \<Rightarrow> bool" where
  "heard i s es s' \<longleftrightarrow> claim_ok i s' \<and> wc_running s \<and>
     history i s' = history i s @ (if src_sender (wc_sources s ! i) then asked i es else []) \<and>
     src_sender (wc_sources s' ! i) = (src_sender (wc_sources s ! i) \<and> Ev_Cancelled i \<notin> set es)"

lemma heard_same: "same_claim i s s' \<Longrightarrow> wc_running s \<Longrightarrow> heard i s [] s'"
  by (simp add: heard_def same_claim_def)

lemma recv_turn_running [simp]: "wc_running (recv_turn i s) = wc_running s"
  by (simp add: recv_turn_def Let_def split: list.split option.split)

lemma undo_turn_running [simp]: "wc_running (undo_turn i first s) = wc_running s"
  by (cases rule: undo_turn_cases [of i first s]) simp_all

lemma heard_read:
  assumes "claim_ok i s" and "wc_running (loop_read r ok s)"
  shows "heard i s (dispatched [St_read r ok]) (loop_read r ok s)"
proof -
  have run: "wc_running s" using assms(2) by (auto simp: loop_read_def split: if_splits)
  have pending: "wl_pending (wc_loop s) = []" using assms(1) by (simp add: claim_ok_def)
  show ?thesis
  proof (cases r)
    case (Read_events es)
    with run pending assms(2) have "loop_read r ok s = fold handle_event es s"
      by (auto simp: loop_read_def read_turn_def Let_def split: if_splits)
    with handle_events_claim [OF assms(1), of es] run Read_events show ?thesis by (simp add: heard_def)
  qed (use run pending assms in \<open>auto simp: loop_read_def read_turn_def Let_def heard_def split: if_splits\<close>)
qed

lemma heard_step:
  assumes "claim_ok i s" and "wl_step st s = Inr s'" and "wc_running s'" and "st \<noteq> St_drop i"
  shows "heard i s (dispatched [st]) s'"
proof (cases st)
  case (St_write f)
  with assms have s': "s' = loop_write f s" by simp
  with assms(3) have "wc_running s" by (auto simp: loop_write_def split: if_splits)
  with St_write s' same_claim_write [OF assms(1)] show ?thesis by (simp add: heard_same)
next
  case (St_read r ok)
  with assms heard_read show ?thesis by auto
next
  case (St_call wanted cmd)
  with assms obtain r where r: "clipboard_call wanted cmd s = Inr (r, s')" by (auto simp: res_simps)
  then have "wc_running s" by (auto simp: clipboard_call_def split: if_splits)
  with St_call same_claim_call [OF assms(1) r] show ?thesis by (simp add: heard_same)
next
  case (St_receive o' mime pipe)
  with assms obtain r where r: "offer_receive_reader o' mime pipe s = Inr (r, s')" by (auto simp: res_simps)
  with assms(3) have "wc_running s"
    by (auto simp: offer_receive_reader_def res_simps split: if_splits option.splits)
  with St_receive same_claim_receive [OF assms(1) r] show ?thesis by (simp add: heard_same)
next
  case (St_undo j first)
  with assms same_claim_undo show ?thesis by (auto intro!: heard_same)
next
  case (St_recv j)
  with assms same_claim_recv show ?thesis by (auto intro!: heard_same)
next
  case (St_drop j)
  then have "j \<noteq> i" using assms(4) by blast
  with same_claim_drop [OF assms(1)] have "same_claim i s (drop_receiver j s)" by blast
  with St_drop assms show ?thesis by (auto simp: drop_receiver_def intro!: heard_same)
qed

lemma heard_exec:
  assumes "claim_ok i s" and "wl_exec steps s = Inr s'" and "wc_running s'" and "St_drop i \<notin> set steps"
  shows "heard i s (dispatched steps) s'"
  using assms
proof (induction steps arbitrary: s)
  case Nil
  then show ?case by (simp add: heard_def)
next
  case (Cons st steps)
  then obtain t where t: "wl_step st s = Inr t" "wl_exec steps t = Inr s'" by (auto simp: res_simps)
  have running: "wc_running t"
    using t(2) Cons.prems(3)
  proof (induction steps arbitrary: t)
    case (Cons st steps)
    then obtain u where u: "wl_step st t = Inr u" "wc_running u" by (auto simp: res_simps)
    then show ?case
      by (cases st) (auto simp: loop_write_def loop_read_def clipboard_call_def offer_receive_reader_def drop_receiver_def res_simps
          split: if_splits sum.splits option.splits)
  qed simp
  have 1: "heard i s (dispatched [st]) t"
    using Cons.prems t(1) running by (intro heard_step) auto
  then have "heard i t (dispatched steps) s'"
    using Cons.prems t(2) by (intro Cons.IH) (auto simp: heard_def)
  with 1 show ?case
    unfolding dispatched_Cons [of st steps] by (auto simp: heard_def asked_append)
qed


text \<open>Readers only know claims that exist.\<close>

definition readers_known :: "WaylandClipboard \<Rightarrow> bool" where
  "readers_known s \<longleftrightarrow> list_all (\<lambda>t. fst t < length (wc_sources s)) (wc_taken s)"

lemma list_all_less_Suc: "list_all (\<lambda>t. f t < n) xs \<Longrightarrow> list_all (\<lambda>t. f t < Suc n) xs"
  by (auto simp: list_all_iff)

lemma readers_known_step:
  assumes "wl_step st s = Inr s'" and "readers_known s"
  shows "readers_known s'"
proof (cases st)
  case (St_call wanted cmd)
  with assms show ?thesis
    by (cases cmd) (auto simp: readers_known_def clipboard_call_def command_handler_def drop_receiver_def Let_def res_simps
        intro: list_all_less_Suc split: if_splits)
next
  case (St_receive o' mime pipe)
  with assms show ?thesis
    by (auto simp: readers_known_def offer_receive_reader_def res_simps split: if_splits option.splits)
next
  case (St_undo i first)
  with assms show ?thesis
    by (cases rule: undo_turn_cases [of i first s]) (auto simp: readers_known_def)
next
  case (St_recv i)
  with assms show ?thesis
    by (cases "src_queue (wc_sources s ! i)"; cases "src_text (wc_sources s ! i)")
      (auto simp: readers_known_def recv_turn_def Let_def)
qed (use assms in \<open>auto simp: readers_known_def loop_write_def loop_read_def drop_receiver_def Let_def split: if_splits sum.splits\<close>)

lemma readers_known_init:
  "clipboard_init_job globals events = Inr (Inr s) \<Longrightarrow> readers_known s"
  by (auto simp: readers_known_def clipboard_init_job_def clipboard_started_def Let_def split: sum.splits if_splits)

text \<open>
  C12: the requests for a claim reach its reader, in order and none twice: at any time of any run, what the
  reader took and what waits for it are exactly the requests the compositor sent before it cancelled the claim. A
  reader only ends when the claim was cancelled and it has taken everything.
\<close>

theorem wl_claim_served:
  assumes "clipboard_init_job globals events = Inr (Inr s0)" and "wl_exec before s0 = Inr s"
    and "clipboard_call True (Command_Claim mimes) s = Inr (Reply_claim i, s1)"
    and "wl_exec steps s1 = Inr s2" and "wc_running s2" and "St_drop i \<notin> set steps"
  shows "taken_by i s2 @ src_queue (wc_sources s2 ! i) = asked i (dispatched steps) \<and>
    (\<not> src_receiver (wc_sources s2 ! i) \<longrightarrow>
       src_queue (wc_sources s2 ! i) = [] \<and> Ev_Cancelled i \<in> set (dispatched steps))"
proof -
  have "loop_ok s"
    using assms(2) loop_ok_init [OF assms(1)] by (rule for_each_res_inv) (rule loop_ok_step)
  have "readers_known s"
    using assms(2) readers_known_init [OF assms(1)] by (rule for_each_res_inv) (rule readers_known_step)
  have i: "i = length (wc_sources s)" "s1 = claim_source mimes None s"
    using assms(3) by (auto simp: clipboard_call_def command_handler_def Let_def split: if_splits)
  have ok: "claim_ok i s1"
    using \<open>loop_ok s\<close> loop_ok_claim [OF \<open>loop_ok s\<close>, of mimes None]
    by (simp add: claim_ok_def i claim_source_nth loop_ok_def)
  have h: "history i s1 = []" "src_sender (wc_sources s1 ! i)"
    using \<open>readers_known s\<close> by (auto simp: history_def taken_by_def i claim_source_nth readers_known_def list_all_iff filter_empty_conv)
  have "heard i s1 (dispatched steps) s2" by (rule heard_exec [OF ok assms(4-6)])
  with h show ?thesis by (auto simp: heard_def claim_ok_def history_def)
qed

theorem wl_claim_served_witness:
  "\<exists>s1 s2. clipboard_call True (Command_Claim [''image/png'']) demo_clipboard = Inr (Reply_claim 0, s1) \<and>
     wl_exec demo_session s1 = Inr s2 \<and>
     taken_by 0 s2 @ src_queue (wc_sources s2 ! 0) =
       [\<lparr>cr_mime_type = ''image/png'', cr_target = 21\<rparr>, \<lparr>cr_mime_type = ''STRING'', cr_target = 22\<rparr>]"
proof -
  obtain s1 s2 where 1: "clipboard_call True (Command_Claim [''image/png'']) demo_clipboard = Inr (Reply_claim 0, s1)"
      and 2: "wl_exec demo_session s1 = Inr s2" "wc_running s2"
    using demo_session_runs by blast
  have "wl_exec [] demo_clipboard = Inr demo_clipboard" by simp
  from wl_claim_served [OF demo_clipboard_init this 1(1) 2]
  have "taken_by 0 s2 @ src_queue (wc_sources s2 ! 0) = asked 0 (dispatched demo_session)"
    by (simp add: demo_session_def)
  with 1 2 show ?thesis by (simp add: demo_session_def)
qed

subsection \<open>Who clears the selection\<close>

text \<open>As long as the tasks that read claims run to their end, as those of the driver do.\<close>

fun patient :: "Wl_step \<Rightarrow> bool" where
  "patient (St_drop i) \<longleftrightarrow> False"
| "patient (St_call wanted cmd) \<longleftrightarrow> wanted"
| "patient _ \<longleftrightarrow> True"

definition undo_watches :: "WaylandClipboard \<Rightarrow> bool" where
  "undo_watches s \<longleftrightarrow> (\<forall>src\<in>set (wc_sources s). src_undo src \<longrightarrow> src_receiver src) \<and>
     Rq_set_selection None \<notin> set (issued (wc_loop s))"

lemma undo_watches_upd:
  assumes "undo_watches s" and "\<And>src. src_undo (f src) \<Longrightarrow> src_undo src \<and> (src_receiver src \<longrightarrow> src_receiver (f src))"
  shows "undo_watches (upd_source i f s)"
proof -
  have "src_receiver src" if "src \<in> set (wc_sources (upd_source i f s))" "src_undo src" for src
  proof -
    from that(1) obtain j where j: "j < length (wc_sources s)" "src = wc_sources (upd_source i f s) ! j"
      by (auto simp: in_set_conv_nth)
    then have "wc_sources s ! j \<in> set (wc_sources s)" by simp
    with assms that(2) j show ?thesis
      by (auto simp: undo_watches_def upd_source_nth split: if_splits)
  qed
  with assms(1) show ?thesis by (auto simp: undo_watches_def)
qed

lemma undo_watches_event: "undo_watches s \<Longrightarrow> undo_watches (handle_event e s)"
proof (cases e)
  case (Ev_Send i m fd)
  then show "undo_watches s \<Longrightarrow> ?thesis" by (auto intro!: undo_watches_upd simp: source_send_def split: if_splits)
next
  case (Ev_Cancelled i)
  then show "undo_watches s \<Longrightarrow> ?thesis" by (auto intro!: undo_watches_upd simp: source_cancelled_def)
qed (auto simp: undo_watches_def data_offer_def offer_mime_def selection_def split: option.split)

lemma undo_watches_events: "undo_watches s \<Longrightarrow> undo_watches (fold handle_event es s)"
  by (induction es arbitrary: s) (simp_all add: undo_watches_event)

lemma undo_watches_loop:
  assumes "undo_watches s" and "set (issued l) \<subseteq> insert r (set (issued (wc_loop s)))" and "r \<noteq> Rq_set_selection None"
  shows "undo_watches (s\<lparr>wc_loop := l\<rparr>)"
  using assms by (auto simp: undo_watches_def)

lemma undo_watches_claim: "undo_watches s \<Longrightarrow> undo_watches (claim_source ms t s)"
  by (auto simp: undo_watches_def claim_source_nth issued_claim_source)

lemma undo_watches_recv:
  assumes "undo_watches s"
  shows "undo_watches (recv_turn i s)"
proof (cases "i < length (wc_sources s) \<and> src_receiver (wc_sources s ! i)")
  case True
  show ?thesis
  proof (cases "src_queue (wc_sources s ! i)")
    case Nil
    have "undo_watches (upd_source i (\<lambda>src. src\<lparr>src_receiver := False\<rparr>) s)"
      if "\<not> src_undo (wc_sources s ! i)"
      using assms True that
      by (auto simp: undo_watches_def upd_source_def set_conv_nth nth_list_update split: if_splits)
    with Nil True assms show ?thesis by (auto simp: recv_turn_def Let_def)
  next
    case (Cons req rest)
    have "undo_watches (upd_source i (\<lambda>src. src\<lparr>src_queue := rest\<rparr>) s)"
      by (rule undo_watches_upd [OF assms]) simp
    with Cons True show ?thesis
      by (cases "src_text (wc_sources s ! i)") (simp_all add: recv_turn_def Let_def undo_watches_def)
  qed
qed (use assms in \<open>auto simp: recv_turn_def\<close>)

lemma undo_watches_undo:
  assumes "undo_watches s"
  shows "undo_watches (undo_turn i first s)"
proof (cases rule: undo_turn_cases [of i first s])
  case ended
  then show ?thesis using undo_watches_upd [OF assms, of "\<lambda>src. src\<lparr>src_undo := False\<rparr>" i] by simp
next
  case cleared
  then have "wc_sources s ! i \<in> set (wc_sources s)" by simp
  with cleared assms show ?thesis by (auto simp: undo_watches_def)
qed (use assms in simp)

lemma undo_watches_step:
  assumes "wl_step st s = Inr s'" and "patient st" and "undo_watches s"
  shows "undo_watches s'"
proof (cases st)
  case (St_write f)
  with assms show ?thesis
    by (auto simp: loop_write_def undo_watches_def dest: write_turn_issued split: if_splits sum.splits)
next
  case (St_read r ok)
  have "undo_watches (s\<lparr>wc_loop := l\<rparr>)" if "read_turn r (wc_loop s) = Inr (es, l)" for es l
    using read_turn_issued [OF that] assms(3) by (simp add: undo_watches_def)
  from undo_watches_events [OF this] St_read assms show ?thesis
    by (auto simp: loop_read_def Let_def undo_watches_def split: if_splits sum.splits)
next
  case (St_call wanted cmd)
  with assms show ?thesis
    by (cases cmd) (auto simp: clipboard_call_def command_handler_def Let_def undo_watches_claim split: if_splits)
next
  case (St_receive o' mime pipe)
  with assms show ?thesis
    by (auto simp: offer_receive_reader_def res_simps undo_watches_def split: if_splits option.splits)
qed (use assms undo_watches_undo undo_watches_recv in auto)

lemma undo_watches_init:
  assumes "clipboard_init_job globals events = Inr (Inr s)"
  shows "undo_watches s"
proof -
  have "issued (roundtrip_done l) = issued l @ [Rq_sync]" for l
    by (simp add: roundtrip_done_def roundtrip_start_def Let_def issued_def run_start_def request_def)
  moreover have "Rq_set_selection None \<notin> set (map Rq_bind_seat seats)" for seats by auto
  ultimately have started: "undo_watches (clipboard_started (roundtrip_done (request Rq_get_data_device (request Rq_bind_manager
      (fold (\<lambda>seat. request (Rq_bind_seat seat)) seats (roundtrip_done (request Rq_get_registry WaylandEventLoop_new)))))))" for seats
    by (simp add: undo_watches_def clipboard_started_def del: set_map)
  obtain seats es where "s = upd_loop run_start (fold handle_event es (clipboard_started (roundtrip_done
      (request Rq_get_data_device (request Rq_bind_manager
      (fold (\<lambda>seat. request (Rq_bind_seat seat)) seats (roundtrip_done (request Rq_get_registry WaylandEventLoop_new))))))))"
    using assms by (auto simp: clipboard_init_job_def Let_def split: sum.splits if_splits)
  with undo_watches_events [OF started] show ?thesis by (simp add: undo_watches_def)
qed

text \<open>
  C13: nobody's selection is cleared. As long as the readers of the claims run to their end, no run ever asks
  the compositor to clear the selection, however the end of a claim and its undo task race.
\<close>

theorem wl_selection_kept:
  assumes "clipboard_init_job globals events = Inr (Inr s0)" and "wl_exec steps s0 = Inr s"
    and "\<forall>st\<in>set steps. patient st"
  shows "Rq_set_selection None \<notin> set (wl_sent (wc_loop s) @ wl_out (wc_loop s))"
proof -
  have "undo_watches s"
    using assms(2) undo_watches_init [OF assms(1)] by (rule for_each_res_inv) (use assms(3) undo_watches_step in blast)
  then show ?thesis by (simp add: undo_watches_def issued_def)
qed


theorem wl_selection_kept_witness:
  "\<exists>s. wl_exec (St_call True (Command_Claim [''image/png'']) # demo_session) demo_clipboard = Inr s \<and>
     Rq_set_selection None \<notin> set (wl_sent (wc_loop s) @ wl_out (wc_loop s))"
proof -
  let ?steps = "St_call True (Command_Claim [''image/png'']) # demo_session"
  obtain s where s: "wl_exec ?steps demo_clipboard = Inr s" using demo_session_exec by blast
  have "\<forall>st\<in>set ?steps. patient st" by (simp add: demo_session_def)
  from wl_selection_kept [OF demo_clipboard_init s this] s show ?thesis by blast
qed

text \<open>
  The code says that dropping the receiver clears the selection \<open>BUT only if we haven't been cancelled yet (or
  else we would yoink someone else from the clipboard)\<close>. When the receiver is dropped and the claim cancelled
  before the undo task runs again, its \<^verbatim>\<open>select!\<close> may still poll the future first.
\<close>

lemma wl_undo_race:
  assumes "i < length (wc_sources s)" and "src_undo (wc_sources s ! i)"
    and "wc_running s" and "wl_pending (wc_loop s) = []"
  shows "\<exists>s'. wl_exec [St_read (Read_events [Ev_Cancelled i]) True, St_drop i, St_undo i first] s = Inr s' \<and>
    issued (wc_loop s') = issued (wc_loop s) @ (if first then [Rq_set_selection None] else [])"
  using assms
  by (simp add: loop_read_def read_turn_def drop_receiver_def undo_turn_def upd_source_nth
      make_cancelable_def source_cancelled_def)

subsection \<open>What a paste reads\<close>

text \<open>
  An offer as the clipboard of the driver sees it, where \<open>pipe\<close> is the pipe made for the transfer and
  \<open>contents\<close> what the owner of the selection writes.
\<close>

definition wayland_offer ::
    "WaylandClipboard \<Rightarrow> nat option \<Rightarrow> (nat \<Rightarrow> u8 list option) \<Rightarrow> nat \<Rightarrow> ClipboardOffer" where
  "wayland_offer s pipe contents offer =
     \<lparr>of_mime_types = (case mime_types s offer of Inl _ \<Rightarrow> {} | Inr mime \<Rightarrow> mime),
      of_string = (case offer_receive_string offer pipe contents s of
         Inl _ \<Rightarrow> None | Inr (txt, _) \<Rightarrow> map_option utf8_bytes txt),
      of_bytes = (\<lambda>mime. case offer_receive_bytes offer mime pipe contents s of Inl _ \<Rightarrow> None | Inr (v, _) \<Rightarrow> v)\<rparr>"

lemma offered_mimes:
  "wc_offers (fold handle_event (map (Ev_Offer i) ms) s) i = map_option (\<lambda>mime. mime \<union> set ms) (wc_offers s i)"
proof (induction ms arbitrary: s)
  case (Cons m ms)
  then show ?case by (cases "wc_offers s i") (auto simp: offer_mime_def)
qed (simp add: option.map_ident)

lemma announce_offers:
  "wc_current (fold handle_event (announce i ms) s) = Some i"
  "mime_types (fold handle_event (announce i ms) s) i = Inr (set ms)"
  using offered_mimes [of i ms "data_offer i s"]
  by (simp_all add: announce_def selection_def mime_types_def data_offer_def)


text \<open>
  The selection that Windows grabbed comes back from the compositor as an offer of the types that were claimed,
  and the listener leaves it alone.
\<close>

lemma own_selection_ignored:
  "let s' = fold handle_event (announce i (claim_mime_types types)) s in
    clipboard_listener w (map_option (wayland_offer s' pipe contents) (wc_current s')) c = Inr c"
  using announce_offers [of i "claim_mime_types types" s]
  by (simp add: Let_def clipboard_listener_def wayland_offer_def claim_mime_types_def)

subsection \<open>When the connection breaks\<close>

text \<open>
  An error of the event loop ends the job for good; the driver ignores its result, and the next time it uses the
  handle its \<^verbatim>\<open>unwrap\<close> panics.
\<close>

lemma wl_loop_failure_panics:
  assumes "wc_running s" and "wl_write (wc_loop s) = Wait_writable"
  shows "wl_exec [St_write Flush_failed, St_call wanted cmd] s = Inl Job_gone"
  using assms by (simp add: loop_write_def write_turn_def clipboard_call_def)


end
