(* ===== verification/Config_File.thy ===== *)
theory Config_File
  imports Config
begin

text \<open>
  Reading and writing the configuration: \<^verbatim>\<open>Config::load\<close> and \<^verbatim>\<open>Config::save\<close> of \<^verbatim>\<open>common/src/config.rs\<close>, with the
  upgrade of an old TOML file. The parsers of serde are parameters. The lemmas show that loading twice gives
  the same configuration and what an upgrade that fails half way leaves behind.
\<close>

subsection \<open>Paths and files\<close>

text \<open>A path with the part up to its file name, and the file name if it has one.\<close>

datatype Path = Path string "string option"

text \<open>The stem of a name ends before its last dot, unless that is the first character.\<close>

definition file_stem :: "string \<Rightarrow> string" where
  "file_stem name =
     (case position (\<lambda>c. c = CHR ''.'') (rev name) of
        None \<Rightarrow> name
      | Some i \<Rightarrow> if i + 1 = length name then name else take (length name - (i + 1)) name)"

fun with_extension :: "string \<Rightarrow> Path \<Rightarrow> Path" where
  "with_extension ext (Path dir (Some name)) = Path dir (Some (file_stem name @ ''.'' @ ext))"
| "with_extension ext (Path dir None) = Path dir None"

type_synonym Files = "Path \<Rightarrow> string option"

datatype config_panic = Open_failed | Read_failed | Write_failed | Encode_failed | Decode_failed

text \<open>
  What the system and the parsers answer: whether a file can be opened and read, opened for writing, how many
  characters are written before an error (\<open>None\<close> is all), and the four functions of serde.
\<close>

record Config_env =
  ce_open :: "Path \<Rightarrow> bool"
  ce_read :: "Path \<Rightarrow> bool"
  ce_create :: "Path \<Rightarrow> bool"
  ce_written :: "Path \<Rightarrow> nat option"
  ce_yaml_to_string :: "Config \<Rightarrow> string option"
  ce_yaml :: "string \<Rightarrow> Config option"
  ce_toml :: "string \<Rightarrow> Config option"

subsection \<open>Save and load\<close>

text \<open>\<^verbatim>\<open>save\<close>: the file is truncated before it is written. A panic leaves the files as they are then.\<close>

definition save :: "Config_env \<Rightarrow> Config \<Rightarrow> Path \<Rightarrow> Files \<Rightarrow> (config_panic + unit) \<times> Files" where
  "save env cfg path files =
     (let yaml_path = with_extension ''yml'' path in
      case ce_yaml_to_string env cfg of
        None \<Rightarrow> (Inl Encode_failed, files)
      | Some contents \<Rightarrow>
          if \<not> ce_create env yaml_path then (Inl Open_failed, files)
          else case ce_written env yaml_path of
            None \<Rightarrow> (Inr (), files(yaml_path \<mapsto> contents @ [CHR 0x0A]))
          | Some n \<Rightarrow> (Inl Write_failed, files(yaml_path \<mapsto> take n (contents @ [CHR 0x0A]))))"

definition load :: "Config_env \<Rightarrow> Path \<Rightarrow> Files \<Rightarrow> (config_panic + Config option) \<times> Files" where
  "load env path files =
     (let yaml_path = with_extension ''yml'' path;
          needs_upgrade = (files yaml_path = None);
          file_path = (if needs_upgrade then with_extension ''toml'' yaml_path else yaml_path) in
      case files file_path of
        None \<Rightarrow> (Inr None, files)
      | Some config \<Rightarrow>
          if \<not> ce_open env file_path then (Inl Open_failed, files)
          else if \<not> ce_read env file_path then (Inl Read_failed, files)
          else if needs_upgrade then
            (case ce_toml env config of
               None \<Rightarrow> (Inl Decode_failed, files)
             | Some cfg \<Rightarrow>
                 (case save env cfg yaml_path files of
                    (Inl e, files) \<Rightarrow> (Inl e, files)
                  | (Inr _, files) \<Rightarrow> (Inr (Some cfg), files)))
          else
            (case ce_yaml env config of
               None \<Rightarrow> (Inl Decode_failed, files)
             | Some cfg \<Rightarrow> (Inr (Some cfg), files)))"

subsection \<open>Facts\<close>

lemma position_rev_append:
  "CHR ''.'' \<notin> set ext \<Longrightarrow> position (\<lambda>c. c = CHR ''.'') (rev (stem @ CHR ''.'' # ext)) = Some (length ext)"
  by (induction ext rule: rev_induct) auto

lemma file_stem_extension:
  assumes "CHR ''.'' \<notin> set ext" and "stem \<noteq> []"
  shows "file_stem (stem @ CHR ''.'' # ext) = stem"
  using position_rev_append [OF assms(1), of stem] assms(2) by (simp add: file_stem_def)

lemma file_stem_nonempty: "name \<noteq> [] \<Longrightarrow> file_stem name \<noteq> []"
  by (auto simp: file_stem_def dest: position_Some split: option.split)

lemma with_extension_twice:
  assumes "CHR ''.'' \<notin> set ext" and "\<And>dir name. p = Path dir (Some name) \<Longrightarrow> name \<noteq> []"
  shows "with_extension ext' (with_extension ext p) = with_extension ext' p"
proof (cases p)
  case (Path dir name)
  show ?thesis
  proof (cases name)
    case (Some n)
    with Path assms(2) have "file_stem n \<noteq> []" by (intro file_stem_nonempty) auto
    with Path Some assms(1) show ?thesis by (simp add: file_stem_extension)
  qed (use Path in simp)
qed

text \<open>
  Loading is stable: when it gave a configuration, from YAML or by upgrading TOML, loading again gives the same
  one and changes nothing, if YAML reads back what it wrote and the new file can be read.
\<close>

lemma load_stable:
  assumes "load env path files = (Inr (Some cfg), files')"
    and "\<And>dir name. path = Path dir (Some name) \<Longrightarrow> name \<noteq> []"
    and "\<And>c t. ce_yaml_to_string env c = Some t \<Longrightarrow> ce_yaml env (t @ [CHR 0x0A]) = Some c"
    and "ce_open env (with_extension ''yml'' path)" and "ce_read env (with_extension ''yml'' path)"
  shows "load env path files' = (Inr (Some cfg), files')"
proof (cases "files (with_extension ''yml'' path)")
  case None
  let ?yaml = "with_extension ''yml'' path"
  have yaml: "with_extension ''yml'' ?yaml = ?yaml"
    using assms(2) by (intro with_extension_twice) auto
  from None assms(1) have "save env cfg ?yaml files = (Inr (), files')"
    by (auto simp: load_def Let_def split: option.splits if_splits sum.splits prod.splits)
  then obtain t where "ce_yaml_to_string env cfg = Some t" "files' = files(?yaml \<mapsto> t @ [CHR 0x0A])"
    by (auto simp: save_def Let_def yaml split: option.splits if_splits)
  then show ?thesis using assms(3-5) by (simp add: load_def Let_def)
next
  case (Some t)
  with assms(1) have "files' = files"
    by (auto simp: load_def Let_def split: option.splits if_splits)
  with assms(1) show ?thesis by simp
qed

text \<open>
  An upgrade that cannot write the whole YAML file leaves a part of it, and from then on that part is loaded
  instead of the TOML file, which is still there.
\<close>

lemma interrupted_upgrade:
  assumes "files (with_extension ''yml'' path) = None" and "\<And>dir name. path = Path dir (Some name) \<Longrightarrow> name \<noteq> []"
    and "load env path files = (Inl Write_failed, files')"
    and "\<And>n c t. ce_yaml_to_string env c = Some t \<Longrightarrow> n < length t \<Longrightarrow> ce_yaml env (take n t) = None"
    and "ce_written env (with_extension ''yml'' path) = Some 0"
    and "\<And>c. ce_yaml_to_string env c \<noteq> Some []"
    and "ce_open env (with_extension ''yml'' path)" and "ce_read env (with_extension ''yml'' path)"
  shows "load env path files' = (Inl Decode_failed, files')"
proof -
  let ?yaml = "with_extension ''yml'' path"
  have yaml: "with_extension ''yml'' ?yaml = ?yaml"
    using assms(2) by (intro with_extension_twice) auto
  obtain cfg where "save env cfg ?yaml files = (Inl Write_failed, files')"
    using assms(1,3) by (auto simp: load_def Let_def split: option.splits if_splits sum.splits prod.splits)
  then obtain t where t: "ce_yaml_to_string env cfg = Some t" "files' = files(?yaml \<mapsto> [])"
    using assms(5) by (auto simp: save_def Let_def yaml split: option.splits if_splits)
  then have "0 < length t" using assms(6) [of cfg] by auto
  then have "ce_yaml env [] = None" using assms(4) [OF t(1), of 0] by simp
  with t assms(7,8) show ?thesis by (simp add: load_def Let_def)
qed

end
