(* ===== verification/Input_Listener.thy ===== *)
theory Input_Listener
  imports Prelude
begin

text \<open>
  \<^verbatim>\<open>InputListener\<close> of \<^verbatim>\<open>driver/src/libinput.rs\<close>: the future that lets libinput read its descriptor and sends its
  events on. The kernel, libinput and the reactor are parameters. The lemmas show that no event is lost or
  reordered and that the future never sleeps on events it could read.
\<close>

text \<open>
  \<open>il_fd\<close> is what waits in the descriptor, \<open>il_queue\<close> what libinput has read, \<open>il_ready\<close> the reactor's flag for
  the descriptor, \<open>il_sent\<close> what went into the channel.
\<close>

record 'e InputListener =
  il_fd :: "'e list"
  il_queue :: "'e list"
  il_ready :: bool
  il_sent :: "'e list"

text \<open>Events arrive: the reactor sets the flag again.\<close>

definition arrive :: "'e list \<Rightarrow> 'e InputListener \<Rightarrow> 'e InputListener" where
  "arrive es l = l\<lparr>il_fd := il_fd l @ es, il_ready := (il_ready l \<or> es \<noteq> [])\<rparr>"

text \<open>What happens around one pass of the loop: events that arrive before the second \<^verbatim>\<open>poll\<close>, and between it and \<^verbatim>\<open>clear_ready\<close>; the errors.\<close>

record 'e Turn =
  tu_guard_ok :: bool
  tu_dispatch_ok :: bool
  tu_before :: "'e list"
  tu_late :: "'e list"

text \<open>\<^verbatim>\<open>unbounded_send(..).unwrap()\<close> panics when the handler is gone.\<close>

datatype listener_end = Listener_error | Listener_panic

text \<open>
  \<^verbatim>\<open>guard.clear_ready()\<close> does nothing if the descriptor became ready again since the guard was made.
\<close>

definition listener_pass :: "bool \<Rightarrow> 'e Turn \<Rightarrow> 'e InputListener \<Rightarrow> listener_end + 'e InputListener" where
  "listener_pass channel_open t l =
     (if \<not> tu_guard_ok t \<or> \<not> tu_dispatch_ok t then Inl Listener_error
      else
        let l = l\<lparr>il_queue := il_queue l @ il_fd l, il_fd := []\<rparr>;
            l = arrive (tu_before t) l;
            is_really_finished = (il_fd l = []);
            l = (if is_really_finished then l\<lparr>il_ready := False\<rparr> else l);
            l = arrive (tu_late t) l in
        if il_queue l \<noteq> [] \<and> \<not> channel_open then Inl Listener_panic
        else Inr (l\<lparr>il_sent := il_sent l @ il_queue l, il_queue := []\<rparr>))"

text \<open>One \<^verbatim>\<open>poll\<close> of the future, with what happens in its passes; it is pending when the flag is clear.\<close>

fun listener_poll :: "bool \<Rightarrow> 'e Turn list \<Rightarrow> 'e InputListener \<Rightarrow> (listener_end + 'e InputListener) \<times> 'e Turn list" where
  "listener_poll channel_open ts l =
     (if \<not> il_ready l then (Inr l, ts)
      else case ts of
        [] \<Rightarrow> (Inr l, [])
      | t # ts \<Rightarrow>
          (case listener_pass channel_open t l of
             Inl e \<Rightarrow> (Inl e, ts)
           | Inr l \<Rightarrow> listener_poll channel_open ts l))"

declare listener_poll.simps [simp del]

definition listener_ok :: "'e InputListener \<Rightarrow> bool" where
  "listener_ok l \<longleftrightarrow> il_queue l = [] \<and> (il_fd l \<noteq> [] \<longrightarrow> il_ready l)"

definition all_events :: "'e InputListener \<Rightarrow> 'e list" where
  "all_events l = il_sent l @ il_queue l @ il_fd l"

lemma arrive_ok: "listener_ok l \<Longrightarrow> listener_ok (arrive es l) \<and> all_events (arrive es l) = all_events l @ es"
  by (auto simp: listener_ok_def all_events_def arrive_def)

lemma listener_pass_ok:
  assumes "listener_ok l" and "listener_pass channel_open t l = Inr l'"
  shows "listener_ok l' \<and> all_events l' = all_events l @ tu_before t @ tu_late t"
  using assms by (auto simp: listener_pass_def Let_def listener_ok_def all_events_def arrive_def split: if_splits)

text \<open>
  No event is lost, repeated or reordered, and when the future is pending with its passes done, the channel
  has everything that arrived before the flag was cleared for the last time.
\<close>

lemma listener_poll_ok:
  assumes "listener_ok l" and "listener_poll channel_open ts l = (Inr l', ts')"
  shows "\<exists>ds. ts = ds @ ts' \<and> listener_ok l' \<and>
    all_events l' = all_events l @ concat (map (\<lambda>t. tu_before t @ tu_late t) ds) \<and>
    (\<not> il_ready l' \<longrightarrow> il_sent l' = all_events l')"
  using assms
proof (induction channel_open ts l rule: listener_poll.induct)
  case (1 channel_open ts l)
  show ?case
  proof (cases "\<not> il_ready l \<or> ts = []")
    case True
    with 1(2,3) have "l' = l" "ts' = ts"
      by (auto simp: listener_poll.simps [of channel_open ts l] split: if_splits)
    with 1(2) show ?thesis by (auto simp: listener_ok_def all_events_def)
  next
    case False
    then obtain t us where ts: "ts = t # us" "il_ready l" by (cases ts) auto
    with 1(3) obtain u where u: "listener_pass channel_open t l = Inr u" "listener_poll channel_open us u = (Inr l', ts')"
      by (auto simp: listener_poll.simps [of channel_open "t # us" l] split: sum.splits)
    note pass = listener_pass_ok [OF 1(2) u(1)]
    obtain ds where "us = ds @ ts'" "listener_ok l'" "\<not> il_ready l' \<longrightarrow> il_sent l' = all_events l'"
        "all_events l' = all_events u @ concat (map (\<lambda>t. tu_before t @ tu_late t) ds)"
      using 1(1) ts u pass by blast
    with ts pass show ?thesis by (intro exI [of _ "t # ds"]) simp
  qed
qed

end
