(* ===== verification/Monitor_Start.thy ===== *)
theory Monitor_Start
  imports Monitor
begin

text \<open>
  The start of the monitor, \<^verbatim>\<open>Monitor::new\<close>, \<^verbatim>\<open>take_send\<close> and \<^verbatim>\<open>take_handler\<close> of \<^verbatim>\<open>driver/src/monitor/mod.rs\<close>: the QMP handshake,
  pinning the virtual CPUs, and handing out the channel's ends.
\<close>

datatype start_panic = Qmp_failed | Cpu_out_of_range | Taken_twice

text \<open>
  A CPU as QEMU reports it: its index and its thread, both \<^verbatim>\<open>i64\<close>. A CPU set of the C library has 1024
  bits; the index of its word is checked.
\<close>

record CpuInfoFast =
  cpu_index :: i64
  cpu_thread_id :: i64

definition CPU_SETSIZE :: nat where
  "CPU_SETSIZE = 1024"

text \<open>One turn of the loop: thread \<open>tid as i32\<close> may run on host CPU \<open>cpu as usize\<close> only. The call's result is ignored.\<close>

definition pin_cpu :: "CpuInfoFast \<Rightarrow> (i32 \<times> nat set) list \<Rightarrow> start_panic + (i32 \<times> nat set) list" where
  "pin_cpu c pinned =
     (let cpu = unat (cpu_index c); tid = ucast (cpu_thread_id c) in
      if cpu < CPU_SETSIZE then Inr (pinned @ [(tid, {cpu})]) else Inl Cpu_out_of_range)"

text \<open>The ends of the channel and the connection that have not been taken yet.\<close>

record Monitor_parts =
  mp_send :: bool
  mp_send2 :: bool
  mp_recv :: bool
  mp_qapi :: bool

text \<open>\<open>handshake\<close> says that the stream opened and QMP was negotiated; \<open>cpus\<close> is the answer to \<^verbatim>\<open>query-cpus-fast\<close>.\<close>

definition Monitor_connect ::
    "bool \<Rightarrow> CpuInfoFast list option \<Rightarrow> start_panic + Monitor_parts \<times> (i32 \<times> nat set) list" where
  "Monitor_connect handshake cpus =
     (if \<not> handshake then Inl Qmp_failed
      else case cpus of
        None \<Rightarrow> Inl Qmp_failed
      | Some resp \<Rightarrow>
          and_then (for_each_res pin_cpu resp []) (\<lambda>pinned.
            Inr (\<lparr>mp_send = True, mp_send2 = True, mp_recv = True, mp_qapi = True\<rparr>, pinned)))"

definition take_send :: "Monitor_parts \<Rightarrow> start_panic + Monitor_parts" where
  "take_send p = (if mp_send p then Inr (p\<lparr>mp_send := False\<rparr>) else Inl Taken_twice)"

definition take_handler :: "Monitor_parts \<Rightarrow> start_panic + Monitor_parts" where
  "take_handler p =
     (if mp_send2 p \<and> mp_qapi p \<and> mp_recv p
      then Inr (p\<lparr>mp_send2 := False, mp_qapi := False, mp_recv := False\<rparr>) else Inl Taken_twice)"

text \<open>Virtual CPU \<open>i\<close> runs on host CPU \<open>i\<close>, for every CPU QEMU reports.\<close>

lemma pin_cpus_all:
  assumes "\<forall>c\<in>set cpus. unat (cpu_index c) < CPU_SETSIZE"
  shows "for_each_res pin_cpu cpus pinned =
    Inr (pinned @ map (\<lambda>c. (ucast (cpu_thread_id c), {unat (cpu_index c)})) cpus)"
  using assms by (induction cpus arbitrary: pinned) (simp_all add: pin_cpu_def Let_def)

lemma monitor_connects:
  assumes "\<forall>c\<in>set cpus. unat (cpu_index c) < CPU_SETSIZE"
  shows "\<exists>p. Monitor_connect True (Some cpus) =
      Inr (p, map (\<lambda>c. (ucast (cpu_thread_id c), {unat (cpu_index c)})) cpus) \<and>
    (\<exists>q r. take_send p = Inr q \<and> take_handler q = Inr r \<and> take_send r = Inl Taken_twice \<and>
      take_handler r = Inl Taken_twice)"
  using assms by (simp add: Monitor_connect_def pin_cpus_all take_send_def take_handler_def)

end
