(* ===== verification/Win_Format.thy ===== *)
theory Win_Format
  imports Win_Clipboard
begin

text \<open>
  \<^verbatim>\<open>zerocost-clipboard/src/windows/format.rs\<close>: the checked constructors of clipboard formats and the names of formats
  in debug output. The standard formats are constants of the Windows API.
\<close>

datatype format_panic = Assertion_failed

definition CF_PRIVATEFIRST :: u32 where "CF_PRIVATEFIRST = 0x200"
definition CF_PRIVATELAST :: u32 where "CF_PRIVATELAST = 0x2FF"
definition CF_GDIOBJFIRST :: u32 where "CF_GDIOBJFIRST = 0x300"
definition CF_GDIOBJLAST :: u32 where "CF_GDIOBJLAST = 0x3FF"

definition private_format :: "u32 \<Rightarrow> format_panic + u32" where
  "private_format format = (if CF_PRIVATEFIRST \<le> format \<and> format \<le> CF_PRIVATELAST then Inr format else Inl Assertion_failed)"

definition gdi_format :: "u32 \<Rightarrow> format_panic + u32" where
  "gdi_format format = (if CF_GDIOBJFIRST \<le> format \<and> format \<le> CF_GDIOBJLAST then Inr format else Inl Assertion_failed)"

text \<open>\<^verbatim>\<open>registered\<close>: the name goes to \<^verbatim>\<open>RegisterClipboardFormatW\<close> as UTF-16 with a zero at the end.\<close>

definition registered :: "(u16 list \<Rightarrow> u32) \<Rightarrow> unicode \<Rightarrow> u32" where
  "registered register_format name = register_format (encode_wide name @ [0])"

datatype DebugFormat =
    DF_CF string
  | DF_Registered unicode
  | DF_Private u32

definition cf_arms :: "(u32 \<times> string) list" where
  "cf_arms =
     [(2, ''CF_BITMAP''), (8, ''CF_DIB''), (17, ''CF_DIBV5''), (5, ''CF_DIF''), (0x82, ''CF_DSPBITMAP''),
      (0x8E, ''CF_DSPENHMETAFILE''), (0x83, ''CF_DSPMETAFILEPICT''), (0x81, ''CF_DSPTEXT''),
      (14, ''CF_ENHMETAFILE''), (15, ''CF_HDROP''), (16, ''CF_LOCALE''), (3, ''CF_METAFILEPICT''),
      (7, ''CF_OEMTEXT''), (0x80, ''CF_OWNERDISPLAY''), (9, ''CF_PALETTE''), (10, ''CF_PENDATA''),
      (11, ''CF_RIFF''), (4, ''CF_SYLK''), (1, ''CF_TEXT''), (6, ''CF_TIFF''), (13, ''CF_UNICODETEXT''),
      (12, ''CF_WAVE'')]"

text \<open>
  \<^verbatim>\<open>DebugFormat::from\<close>: \<open>format_name\<close> is \<^verbatim>\<open>GetClipboardFormatNameW\<close> with a buffer of 128 units; an empty name is none.
\<close>

definition DebugFormat_from :: "(u32 \<Rightarrow> u16 list) \<Rightarrow> u32 \<Rightarrow> DebugFormat" where
  "DebugFormat_from format_name format =
     (case map_of cf_arms format of
        Some name \<Rightarrow> DF_CF name
      | None \<Rightarrow>
          let buf = take 127 (format_name format) in
          if buf = [] then DF_Private format else DF_Registered (from_wide_lossy buf))"

definition DebugFormats :: "(u32 \<Rightarrow> u16 list) \<Rightarrow> u32 list \<Rightarrow> DebugFormat list" where
  "DebugFormats format_name formats = map (DebugFormat_from format_name) formats"

text \<open>Formats of the two checked ranges are never taken for standard ones; a registered name is shown as it was given.\<close>

lemma cf_arms_standard: "map_of cf_arms format = Some name \<Longrightarrow> format < 0x200"
proof -
  have "list_all (\<lambda>(f, _). f < 0x200) cf_arms" by code_simp
  then show "map_of cf_arms format = Some name \<Longrightarrow> format < 0x200"
    by (auto simp: list_all_iff dest!: map_of_SomeD)
qed

lemma private_not_standard:
  assumes "private_format format = Inr f \<or> gdi_format format = Inr f"
  shows "map_of cf_arms f = None"
proof -
  have "0x200 \<le> f" if "0x300 \<le> f" using order_trans [OF _ that, of "0x200"] by simp
  with assms have "0x200 \<le> f"
    by (auto simp: private_format_def gdi_format_def CF_PRIVATEFIRST_def CF_GDIOBJFIRST_def split: if_splits)
  then have "\<not> f < 0x200" by simp
  then show ?thesis using cf_arms_standard [of f] by (cases "map_of cf_arms f") auto
qed

lemma registered_shown:
  assumes "\<forall>c\<in>set name. scalar c" and "name \<noteq> []" and "length (encode_wide name) < 128"
    and "\<forall>us. format_name (register_format (us @ [0])) = us"
    and "0xC000 \<le> registered register_format name"
  shows "DebugFormat_from format_name (registered register_format name) = DF_Registered name"
proof -
  let ?f = "registered register_format name"
  have "map_of cf_arms ?f = None"
  proof (cases "map_of cf_arms ?f")
    case (Some n)
    from le_less_trans [OF assms(5) cf_arms_standard [OF this]] show ?thesis by simp
  qed
  moreover have "encode_wide name \<noteq> []" using assms(2) by (cases name) (auto simp: encode_wide_def encode_char_def)
  moreover have "format_name ?f = encode_wide name" using assms(4) by (simp add: registered_def)
  ultimately show ?thesis
    using assms(3) from_wide_encode_wide [OF assms(1), of "[]"] by (simp add: DebugFormat_from_def Let_def)
qed

lemma cf_names_distinct: "distinct (map fst cf_arms) \<and> distinct (map snd cf_arms)"
  by code_simp

end
