(* ===== verification/Qemu_Args.thy ===== *)
theory Qemu_Args
  imports Usb_Topology Udev
begin

text \<open>
  \<^verbatim>\<open>qemu::run\<close> of \<^verbatim>\<open>driver/src/qemu.rs\<close> with \<^verbatim>\<open>driver/src/samba.rs\<close>: the command line of QEMU, and
  what is done on the host before QEMU starts. Every part appends to the command; the host is a
  parameter. The lemmas show how the passed-through PCI functions are spread over root ports.
\<close>

subsection \<open>The host and the command\<close>

text \<open>
  A file's device numbers are \<^verbatim>\<open>st_rdev\<close> and \<^verbatim>\<open>st_dev\<close> of its metadata (\<open>None\<close> when it cannot be
  opened). A program has an exit status, or cannot be started (\<open>None\<close>).
\<close>

record QemuHost =
  qh_exists :: "string \<Rightarrow> bool"
  qh_is_file :: "string \<Rightarrow> bool"
  qh_copy_ok :: "string \<Rightarrow> string \<Rightarrow> bool"
  qh_program :: "string \<Rightarrow> string list \<Rightarrow> bool option"
  qh_device_numbers :: "string \<Rightarrow> (u64 \<times> u64) option"
  qh_read :: "string \<Rightarrow> string option"
  qh_resolve :: "UsbBinding \<Rightarrow> panic + (u64 \<times> u64) option"

datatype qemu_panic =
    Copy_failed
  | Samba_missing
  | Ga_iso_missing
  | Program_failed string
  | Malformed_slot
  | Usb_panic panic

datatype Host_action =
    Copy_file string string
  | Start_program string "string list"

record QemuCommand =
  qc_args :: "string list"
  qc_actions :: "Host_action list"

type_synonym qemu_step = "QemuCommand \<Rightarrow> qemu_panic + QemuCommand"

definition args :: "string list \<Rightarrow> qemu_step" where
  "args xs c = Inr (c\<lparr>qc_args := qc_args c @ xs\<rparr>)"

definition action :: "Host_action \<Rightarrow> QemuCommand \<Rightarrow> QemuCommand" where
  "action a c = c\<lparr>qc_actions := qc_actions c @ [a]\<rparr>"

text \<open>\<^verbatim>\<open>Path::join\<close> with a relative path.\<close>

definition path_join :: "string \<Rightarrow> string \<Rightarrow> string" where
  "path_join base f =
     (if base = [] then f else if last base = CHR ''/'' then base @ f else base @ ''/'' @ f)"

text \<open>\<^verbatim>\<open>str::split(c)\<close>, \<^verbatim>\<open>str::split_once(c)\<close> and \<^verbatim>\<open>str::trim\<close> (of ASCII text).\<close>

fun split_on :: "char \<Rightarrow> string \<Rightarrow> string list" where
  "split_on c [] = [[]]"
| "split_on c (x # xs) =
     (if x = c then [] # split_on c xs
      else case split_on c xs of [] \<Rightarrow> [[x]] | w # ws \<Rightarrow> (x # w) # ws)"

fun split_once :: "char \<Rightarrow> string \<Rightarrow> (string \<times> string) option" where
  "split_once c [] = None"
| "split_once c (x # xs) =
     (if x = c then Some ([], xs) else map_option (\<lambda>(a, b). (x # a, b)) (split_once c xs))"

definition ascii_white :: "char \<Rightarrow> bool" where
  "ascii_white c \<longleftrightarrow> of_char c = (32 :: nat) \<or> (9 \<le> (of_char c :: nat) \<and> of_char c \<le> (13 :: nat))"

definition trim :: "string \<Rightarrow> string" where
  "trim s = rev (dropWhile ascii_white (rev (dropWhile ascii_white s)))"

subsection \<open>Firmware variables and the base arguments\<close>

definition OVMF_VARS :: string where
  "OVMF_VARS = ''/usr/share/edk2-ovmf/x64/OVMF_VARS.4m.fd''"

definition efivars_file :: "Config \<Rightarrow> string \<Rightarrow> string" where
  "efivars_file cfg tmp =
     path_join (case cfg_tpm_state_folder cfg of None \<Rightarrow> tmp | Some tpm_folder \<Rightarrow> tpm_folder) ''efivars.fd''"

definition copy_efivars :: "QemuHost \<Rightarrow> Config \<Rightarrow> string \<Rightarrow> qemu_step" where
  "copy_efivars h cfg tmp c =
     (let f = efivars_file cfg tmp in
      if cfg_tpm_state_folder cfg \<noteq> None \<and> qh_exists h f then Inr c
      else if qh_copy_ok h OVMF_VARS f then Inr (action (Copy_file OVMF_VARS f) c)
      else Inl Copy_failed)"

definition usernet :: "QemuHost \<Rightarrow> Config \<Rightarrow> string \<Rightarrow> qemu_panic + string" where
  "usernet h cfg clientpipe_path =
     (let net = ''user,id=unet,restrict=on,guestfwd=tcp:10.0.2.1:31337-unix:'' @ clientpipe_path in
      case cfg_samba cfg of
        None \<Rightarrow> Inr net
      | Some samba \<Rightarrow>
          if qh_is_file h ''/usr/sbin/smbd'' then Inr (net @ '',smb='' @ samba_path samba)
          else Inl Samba_missing)"

definition base_args :: "Config \<Rightarrow> string \<Rightarrow> string \<Rightarrow> string \<Rightarrow> string list" where
  "base_args cfg monitor_path efivars ga_iso =
     [''-enable-kvm'', ''-machine'', ''pc-q35-7.1,smm=on'', ''-cpu'',
      (case mc_cpu (cfg_machine cfg) of None \<Rightarrow> ''host'' | Some cpu \<Rightarrow> cpu)
        @ '',,hv_time,hv_relaxed,hv_vapic,''
        @ ''hv_vpindex,hv_runtime,hv_synic,hv_stimer,''
        @ ''hv_frequencies,hv_apicv,hv_xmm_input,''
        @ ''hv_tlbflush,hv-tlbflush-ext,hv_ipi,hv_stimer_direct'',
      ''-overcommit'', ''mem-lock=on'', ''-rtc'', ''base=localtime'', ''-nodefaults'',
      ''-net'', ''none'', ''-display'', ''none'', ''-vga'', ''none'',
      ''-qmp'', ''unix:'' @ monitor_path,
      ''-drive'', ''if=pflash,format=raw,unit=0,readonly=on,file=''
        @ ''/usr/share/edk2-ovmf/x64/OVMF_CODE.secboot.4m.fd'',
      ''-drive'', ''if=pflash,format=raw,unit=1,file='' @ efivars,
      ''-device'', ''virtio-scsi-pci,id=scsi'',
      ''-drive'', ''if=none,id=iso,media=cdrom,file='' @ ga_iso,
      ''-device'', ''scsi-cd,id=cdrom,drive=iso'']"

text \<open>The software TPM is started, not waited for.\<close>

definition tpm_args :: "QemuHost \<Rightarrow> Config \<Rightarrow> string \<Rightarrow> qemu_step" where
  "tpm_args h cfg tmp c =
     (case cfg_tpm_state_folder cfg of
        None \<Rightarrow> Inr c
      | Some tpm_folder \<Rightarrow>
          (let socket = path_join tmp ''tpm.socket'';
               swtpm = [''socket'', ''--tpmstate'', ''dir='' @ tpm_folder, ''--ctrl'',
                 ''type=unixio,path='' @ socket, ''--tpm2''] in
           and_then (args [''-chardev'', ''socket,id=chrtpm,path='' @ socket, ''-tpmdev'',
               ''emulator,id=tpm0,chardev=chrtpm'', ''-device'', ''tpm-tis,tpmdev=tpm0''] c) (\<lambda>c.
             if qh_program h ''swtpm'' swtpm = None then Inl (Program_failed ''swtpm'')
             else Inr (action (Start_program ''swtpm'' swtpm) c))))"

definition display_args :: "Config \<Rightarrow> bool \<Rightarrow> string list" where
  "display_args cfg enable_gui =
     (if enable_gui then [''-display'', ''gtk'', ''-vga'', ''qxl''] else []) @
     (case cfg_setup cfg of
        None \<Rightarrow> []
      | Some setup \<Rightarrow>
          (case setup_cdrom setup of None \<Rightarrow> [] | Some cdrom \<Rightarrow> [''-cdrom'', cdrom]) @
          (case setup_floppy setup of
             None \<Rightarrow> []
           | Some floppy \<Rightarrow> [''-drive'', ''file='' @ floppy @ '',index=0,if=floppy,readonly'']))"

definition memory_args :: "MachineConfig \<Rightarrow> string list" where
  "memory_args machine =
     (if mc_hugepages machine = Some True then [''-mem-path'', ''/dev/hugepages_vfio_1G/'', ''-mem-prealloc'']
      else []) @
     [''-m'', mc_memory machine,
      ''-smp'', ''cores='' @ decimal (mc_cores machine) @ '',threads=''
        @ decimal (case mc_threads machine of None \<Rightarrow> 1 | Some t \<Rightarrow> unat t)]"

definition network_args :: "MachineConfig \<Rightarrow> string \<Rightarrow> string list" where
  "network_args machine net =
     concat (map (\<lambda>(idx, bridge).
         [''-netdev'', ''bridge,id=bridge'' @ decimal idx @ '',br='' @ bridge,
          ''-device'', ''virtio-net,netdev=bridge'' @ decimal idx])
       (enumerate 0 (case mc_network machine of None \<Rightarrow> [] | Some x \<Rightarrow> net_bridges x))) @
     [''-netdev'', net, ''-device'', ''e1000,netdev=unet'']"

subsection \<open>Passed-through PCI devices\<close>

text \<open>
  \<^verbatim>\<open>root_ports\<close>: the part of the slot before the first dot, and the number of its root port. The
  next number is the size of the map.
\<close>

definition root_port_arg :: "usize \<Rightarrow> string list" where
  "root_port_arg i = [''-device'', ''pcie-root-port,id=root_port_'' @ decimal i @ '',bus=pcie.0'']"

definition vfio_arg :: "string \<Rightarrow> usize \<Rightarrow> string \<Rightarrow> string list" where
  "vfio_arg slot i only_fn =
     [''-device'', ''vfio-pci,host='' @ slot @ '',multifunction=on,bus=root_port_'' @ decimal i
       @ '',addr=0x00.'' @ only_fn]"

definition unbind_device :: "QemuHost \<Rightarrow> string \<Rightarrow> VfioDevice \<Rightarrow> qemu_step" where
  "unbind_device h data device c =
     (if vfio_resettable device then
        let p = path_join data ''vfio-ubind'' in
        if qh_program h p [vfio_slot device] = Some True then
          Inr (action (Start_program p [vfio_slot device]) c)
        else Inl (Program_failed p)
      else Inr c)"

definition pci_device ::
    "QemuHost \<Rightarrow> string \<Rightarrow> VfioDevice \<Rightarrow> (string \<times> usize) list \<times> QemuCommand \<Rightarrow>
      qemu_panic + (string \<times> usize) list \<times> QemuCommand" where
  "pci_device h data device s =
     (let (root_ports, c) = s in
      and_then (unbind_device h data device c) (\<lambda>c.
        case split_once (CHR ''.'') (vfio_slot device) of
          None \<Rightarrow> Inl Malformed_slot
        | Some (slot_no_fn, only_fn) \<Rightarrow>
            (case map_of root_ports slot_no_fn of
               Some i \<Rightarrow>
                 and_then (args (vfio_arg (vfio_slot device) i only_fn) c) (\<lambda>c. Inr (root_ports, c))
             | None \<Rightarrow>
                 (let i = length root_ports in
                  and_then (args (root_port_arg i @ vfio_arg (vfio_slot device) i only_fn) c) (\<lambda>c.
                    Inr (root_ports @ [(slot_no_fn, i)], c))))))"

definition pci_args :: "QemuHost \<Rightarrow> string \<Rightarrow> VfioDevice list \<Rightarrow> qemu_step" where
  "pci_args h data devices c =
     and_then (for_each_res (pci_device h data) devices ([], c)) (\<lambda>(_, c). Inr c)"

subsection \<open>Disks\<close>

definition host_device_number :: "u64 \<times> u64 \<Rightarrow> u64" where
  "host_device_number n = (if fst n = 0 then snd n else fst n)"

definition queue_dir :: "u64 \<Rightarrow> string" where
  "queue_dir devnum =
     ''/sys/dev/block/'' @ decimal (unat (drop_bit 8 devnum)) @ '':'' @ decimal (unat (devnum AND 0xFF))
       @ ''/queue/''"

definition queue_params :: "QemuHost \<Rightarrow> u64 \<Rightarrow> string" where
  "queue_params h devnum =
     concat (map (\<lambda>(linux_name, qemu_name).
         case qh_read h (path_join (queue_dir devnum) linux_name) of
           None \<Rightarrow> []
         | Some s \<Rightarrow> qemu_name @ ''='' @ trim s @ '','')
       [(''logical_block_size'', ''logical_block_size''), (''physical_block_size'', ''physical_block_size''),
        (''minimum_io_size'', ''min_io_size''), (''optimal_io_size'', ''opt_io_size'')])"

text \<open>The driver of the file and the parameters of the disk.\<close>

definition disk_params :: "QemuHost \<Rightarrow> StorageDevice \<Rightarrow> string \<times> string" where
  "disk_params h drive =
     (if sto_format drive = ''raw'' then
        (case qh_device_numbers h (sto_path drive) of
           None \<Rightarrow> (''file'', [])
         | Some n \<Rightarrow>
             (if fst n = 0 then ''file'' else ''host_device'', queue_params h (host_device_number n)))
      else (''file'', []))"

definition disk_node :: "usize \<Rightarrow> string" where
  "disk_node idx = ''disk'' @ decimal idx"

definition disk_args :: "QemuHost \<Rightarrow> usize \<Rightarrow> StorageDevice \<Rightarrow> string list" where
  "disk_args h idx drive =
     (let (file_driver, hd_params) = disk_params h drive;
          snap = (case sto_snapshot_file drive of
                    Some snap \<Rightarrow> if qh_exists h snap then Some snap else None
                  | None \<Rightarrow> None);
          blockdev_name = (if snap = None then disk_node idx else disk_node idx @ ''_snap'')
      in
        [''-blockdev'', ''file.filename='' @ sto_path drive @ '',file.driver='' @ file_driver
           @ '',node-name='' @ disk_node idx @ '',driver='' @ sto_format drive
           @ '',discard=unmap,file.aio=native,cache.direct=on''] @
        (case snap of
           None \<Rightarrow> []
         | Some snap \<Rightarrow> [''-blockdev'', ''file.filename='' @ snap
             @ '',file.driver=file,driver=qcow2,node-name='' @ disk_node idx @ ''_snap,backing='' @ disk_node idx
             @ '',discard=unmap,file.aio=io_uring,cache.direct=on'']) @
        [''-device'', ''scsi-hd,'' @ hd_params @ ''drive='' @ blockdev_name @ '',id=myscsi'' @ decimal idx
           @ '',rotation_rate=1,discard_granularity=0''])"

definition storage_args :: "QemuHost \<Rightarrow> StorageDevice list \<Rightarrow> string list" where
  "storage_args h disks = concat (map (\<lambda>(idx, drive). disk_args h idx drive) (enumerate 0 disks))"

subsection \<open>The whole command\<close>

definition extra_args :: "Config \<Rightarrow> string list" where
  "extra_args cfg =
     (case cfg_additional_qemu_cmdline cfg of None \<Rightarrow> [] | Some cmd \<Rightarrow> split_on (CHR '' '') cmd)"

definition usb_args :: "QemuHost \<Rightarrow> UsbDevice list \<Rightarrow> qemu_step" where
  "usb_args h devs c =
     (case usb_device_args (qh_resolve h) devs of
        Inl e \<Rightarrow> Inl (Usb_panic e)
      | Inr xs \<Rightarrow> args (usb_bus_args devs @ xs) c)"

definition qemu_run ::
    "QemuHost \<Rightarrow> Config \<Rightarrow> string \<Rightarrow> string \<Rightarrow> string \<Rightarrow> string \<Rightarrow> bool \<Rightarrow> qemu_panic + QemuCommand" where
  "qemu_run h cfg tmp data clientpipe_path monitor_path enable_gui =
     (let machine = cfg_machine cfg; ga_iso = path_join data ''windows-gaming-ga.iso'' in
      and_then (copy_efivars h cfg tmp \<lparr>qc_args = [], qc_actions = []\<rparr>) (\<lambda>c.
      and_then (usernet h cfg clientpipe_path) (\<lambda>net.
      if \<not> qh_exists h ga_iso then Inl Ga_iso_missing
      else
        and_then (args (base_args cfg monitor_path (efivars_file cfg tmp) ga_iso) c) (\<lambda>c.
        and_then (tpm_args h cfg tmp c) (\<lambda>c.
        and_then (args (display_args cfg enable_gui @ memory_args machine @ network_args machine net) c) (\<lambda>c.
        and_then (pci_args h data (mc_pci_devices machine) c) (\<lambda>c.
        and_then (usb_args h (mc_usb_devices machine) c) (\<lambda>c.
        args (storage_args h (mc_storage machine) @ extra_args cfg) c))))))))"

subsection \<open>Root ports\<close>

definition slot_parts :: "VfioDevice \<Rightarrow> string \<times> string" where
  "slot_parts d = the (split_once (CHR ''.'') (vfio_slot d))"

text \<open>\<open>block\<close> is somewhere in the arguments.\<close>

definition has_args :: "string list \<Rightarrow> string list \<Rightarrow> bool" where
  "has_args block xs \<longleftrightarrow> (\<exists>us vs. xs = us @ block @ vs)"

lemma has_args_append: "has_args b xs \<Longrightarrow> has_args b (xs @ ys)"
  unfolding has_args_def by (metis append.assoc)

text \<open>
  After the devices \<open>ds\<close>: the root ports are numbered from 0, one for each slot, and each is
  created before the functions behind it.
\<close>

definition root_ports_ok :: "VfioDevice list \<Rightarrow> (string \<times> usize) list \<times> QemuCommand \<Rightarrow> bool" where
  "root_ports_ok ds s \<longleftrightarrow>
     (let (ports, c) = s in
      map snd ports = [0..<length ports] \<and> distinct (map fst ports) \<and>
      (\<forall>(p, i)\<in>set ports. has_args (root_port_arg i) (qc_args c)) \<and>
      (\<forall>d\<in>set ds. \<exists>i before after. (fst (slot_parts d), i) \<in> set ports \<and>
         qc_args c = before @ vfio_arg (vfio_slot d) i (snd (slot_parts d)) @ after \<and>
         has_args (root_port_arg i) before))"

lemma unbind_device_args:
  "unbind_device h data d c = Inr c' \<Longrightarrow> qc_args c' = qc_args c"
  by (auto simp: unbind_device_def action_def Let_def split: if_splits)

lemma root_ports_ok_append:
  assumes "root_ports_ok ds (ports, c)" and "qc_args c' = qc_args c @ xs"
  shows "root_ports_ok ds (ports, c')"
proof -
  have "\<exists>i before after. (fst (slot_parts e), i) \<in> set ports \<and>
      qc_args c' = before @ vfio_arg (vfio_slot e) i (snd (slot_parts e)) @ after \<and>
      has_args (root_port_arg i) before" if "e \<in> set ds" for e
  proof -
    from assms(1) that obtain j before after where "(fst (slot_parts e), j) \<in> set ports"
        "qc_args c = before @ vfio_arg (vfio_slot e) j (snd (slot_parts e)) @ after"
        "has_args (root_port_arg j) before"
      by (auto simp: root_ports_ok_def)
    then show ?thesis
      by (intro exI [of _ j] exI [of _ before] exI [of _ "after @ xs"]) (simp add: assms(2))
  qed
  with assms show ?thesis by (auto simp: root_ports_ok_def intro: has_args_append)
qed

lemma root_ports_ok_device:
  assumes "root_ports_ok ds (ports, c)" and "(fst (slot_parts d), i) \<in> set ports"
    and "qc_args c' = qc_args c @ vfio_arg (vfio_slot d) i (snd (slot_parts d))"
  shows "root_ports_ok (ds @ [d]) (ports, c')"
proof -
  have "has_args (root_port_arg i) (qc_args c)"
    using assms(1,2) by (auto simp: root_ports_ok_def)
  then have "\<exists>i before after. (fst (slot_parts d), i) \<in> set ports \<and>
      qc_args c' = before @ vfio_arg (vfio_slot d) i (snd (slot_parts d)) @ after \<and>
      has_args (root_port_arg i) before"
    using assms(2,3) by (intro exI [of _ i] exI [of _ "qc_args c"] exI [of _ "[]"]) simp
  with root_ports_ok_append [OF assms(1,3)] show ?thesis by (simp add: root_ports_ok_def)
qed

lemma root_ports_ok_port:
  assumes "root_ports_ok ds (ports, c)" and "p \<notin> fst ` set ports"
    and "qc_args c' = qc_args c @ root_port_arg (length ports)"
  shows "root_ports_ok ds (ports @ [(p, length ports)], c')"
proof -
  have "has_args (root_port_arg (length ports)) (qc_args c')"
    unfolding has_args_def assms(3) by (intro exI [of _ "qc_args c"] exI [of _ "[]"]) simp
  with root_ports_ok_append [OF assms(1,3)] assms(2) show ?thesis
    unfolding root_ports_ok_def by (simp add: image_iff) (meson UnI1 list.set_intros)
qed

lemma pci_device_ok:
  assumes "pci_device h data d (ports, c) = Inr (ports', c')" and "root_ports_ok ds (ports, c)"
  shows "root_ports_ok (ds @ [d]) (ports', c')"
    and "fst ` set ports' = insert (fst (slot_parts d)) (fst ` set ports)"
    and "split_once (CHR ''.'') (vfio_slot d) = Some (slot_parts d)"
proof -
  from assms(1) obtain c1 where c1: "unbind_device h data d c = Inr c1"
    by (auto simp: pci_device_def res_simps)
  with assms(1) obtain p f where pf: "split_once (CHR ''.'') (vfio_slot d) = Some (p, f)"
    by (auto simp: pci_device_def split: option.splits)
  then have parts: "slot_parts d = (p, f)" by (simp add: slot_parts_def)
  with pf show "split_once (CHR ''.'') (vfio_slot d) = Some (slot_parts d)" by simp
  from root_ports_ok_append [OF assms(2), of c1 "[]"] unbind_device_args [OF c1]
  have ok1: "root_ports_ok ds (ports, c1)" by simp
  have "root_ports_ok (ds @ [d]) (ports', c') \<and>
      fst ` set ports' = insert (fst (slot_parts d)) (fst ` set ports)"
  proof (cases "map_of ports p")
    case (Some i)
    with assms(1) c1 pf have eq: "ports' = ports" "qc_args c' = qc_args c1 @ vfio_arg (vfio_slot d) i f"
      by (auto simp: pci_device_def args_def)
    from Some have "(p, i) \<in> set ports" by (rule map_of_SomeD)
    with root_ports_ok_device [OF ok1, of d i c'] eq parts show ?thesis by force
  next
    case None
    let ?ports = "ports @ [(p, length ports)]"
    let ?c2 = "c1\<lparr>qc_args := qc_args c1 @ root_port_arg (length ports)\<rparr>"
    from None assms(1) c1 pf have eq: "ports' = ?ports"
        "qc_args c' = qc_args ?c2 @ vfio_arg (vfio_slot d) (length ports) f"
      by (auto simp: pci_device_def args_def Let_def)
    from None have "p \<notin> fst ` set ports" by (simp add: map_of_eq_None_iff)
    with ok1 have "root_ports_ok ds (?ports, ?c2)" by (rule root_ports_ok_port) simp
    from root_ports_ok_device [OF this, of d "length ports" c'] eq parts show ?thesis by simp
  qed
  then show "root_ports_ok (ds @ [d]) (ports', c')"
    "fst ` set ports' = insert (fst (slot_parts d)) (fst ` set ports)" by blast+
qed

lemma pci_devices_ok:
  assumes "for_each_res (pci_device h data) ds ([], c0) = Inr (ports, c)"
  shows "root_ports_ok ds (ports, c) \<and> fst ` set ports = fst ` slot_parts ` set ds"
  using assms
proof (induction ds arbitrary: ports c rule: rev_induct)
  case Nil
  then show ?case by (simp add: root_ports_ok_def)
next
  case (snoc d ds)
  then obtain ports1 c1 where 1: "for_each_res (pci_device h data) ds ([], c0) = Inr (ports1, c1)"
      "pci_device h data d (ports1, c1) = Inr (ports, c)"
    by (auto simp: for_each_res_append res_simps)
  from snoc.IH [OF 1(1)] have ih: "root_ports_ok ds (ports1, c1)" "fst ` set ports1 = fst ` slot_parts ` set ds"
    by simp_all
  from pci_device_ok(1,2) [OF 1(2) ih(1)] ih(2) show ?case by simp
qed

text \<open>
  C36: Functional: the functions of one PCI slot share a root port and different slots never do; the
  root ports are numbered without gaps, and each is on the command line before every function
  behind it.
\<close>

theorem pci_root_ports:
  assumes "for_each_res (pci_device h data) devices ([], c0) = Inr (ports, c)"
  shows "map snd ports = [0..<length ports] \<and> distinct (map fst ports) \<and>
    fst ` set ports = fst ` slot_parts ` set devices \<and>
    (\<forall>d\<in>set devices. \<exists>i before after. (fst (slot_parts d), i) \<in> set ports \<and>
       qc_args c = before @ vfio_arg (vfio_slot d) i (snd (slot_parts d)) @ after \<and>
       has_args (root_port_arg i) before)"
  using pci_devices_ok [OF assms] by (auto simp: root_ports_ok_def)

definition demo_host :: QemuHost where
  "demo_host =
     \<lparr>qh_exists = (\<lambda>_. True), qh_is_file = (\<lambda>_. True), qh_copy_ok = (\<lambda>_ _. True),
      qh_program = (\<lambda>_ _. Some True), qh_device_numbers = (\<lambda>_. None), qh_read = (\<lambda>_. None),
      qh_resolve = (\<lambda>_. Inr None)\<rparr>"

definition demo_pci :: "string \<Rightarrow> VfioDevice" where
  "demo_pci slot = \<lparr>vfio_resettable = True, vfio_slot = slot, vfio_id = \<lparr>pci_vendor = 0, pci_device_id = 0\<rparr>\<rparr>"

theorem pci_root_ports_witness:
  "\<exists>ports c. for_each_res (pci_device demo_host ''/data'')
       [demo_pci ''01:00.0'', demo_pci ''02:00.0'', demo_pci ''01:00.1''] ([], \<lparr>qc_args = [], qc_actions = []\<rparr>) =
       Inr (ports, c) \<and>
     map snd ports = [0..<length ports] \<and> fst ` set ports = {''01:00'', ''02:00''}"
proof -
  let ?ds = "[demo_pci ''01:00.0'', demo_pci ''02:00.0'', demo_pci ''01:00.1'']"
  have "\<exists>ports c. for_each_res (pci_device demo_host ''/data'') ?ds ([], \<lparr>qc_args = [], qc_actions = []\<rparr>) = Inr (ports, c)"
    by (simp add: pci_device_def unbind_device_def demo_host_def demo_pci_def args_def action_def Let_def)
  then obtain ports c where run: "for_each_res (pci_device demo_host ''/data'') ?ds
      ([], \<lparr>qc_args = [], qc_actions = []\<rparr>) = Inr (ports, c)" by blast
  have "fst ` slot_parts ` set ?ds = {''01:00'', ''02:00''}"
    by (simp add: slot_parts_def demo_pci_def insert_commute)
  with pci_root_ports [OF run] run show ?thesis by auto
qed

end
