(* ===== verification/Driver_Main.thy ===== *)
theory Driver_Main
  imports Qemu_Args
begin

text \<open>
  \<^verbatim>\<open>run\<close> of \<^verbatim>\<open>driver/src/lib.rs\<close> around its main loop: the check for a running instance, the sockets,
  QEMU, the end of the main loop and the devices given back to the host. What the system answers
  is a parameter; the main loop itself is the driver's own theory. The lemmas show that a second
  instance touches nothing, that QEMU finds its sockets, and what ends in a panic.
\<close>

subsection \<open>Environment\<close>

datatype Connect_result = Connected | Connection_refused | Not_found | Connect_other_error

text \<open>
  What ends first, QEMU or the joined futures, and whether it ends without an error; where the
  futures end first, also how QEMU ends after them.
\<close>

datatype Main_end =
    Qemu_first bool
  | Joined_first bool bool

record Run_env =
  re_connect :: Connect_result
  re_create_dir_ok :: bool
  re_bind_ok :: "string \<Rightarrow> bool"
  re_chmod_ok :: bool
  re_host :: QemuHost
  re_accept_ok :: "string \<Rightarrow> bool"
  re_clipboard_ok :: bool
  re_spawn_ok :: "string \<Rightarrow> bool"

datatype run_panic =
    Create_dir_failed
  | Bind_failed string
  | Chmod_failed
  | Qemu_panicked qemu_panic
  | Accept_failed string
  | Clipboard_failed
  | Clean_end_reached
  | Qemu_wait_failed
  | Unbind_spawn_failed string

datatype Run_action =
    Remove_dir_all string
  | Create_dir string
  | Bind_socket string
  | Set_mode string nat
  | Spawn_qemu QemuCommand
  | Accept_socket string
  | Notify bool string
  | Main_loop
  | Unbind_vfio string string

subsection \<open>The steps of run\<close>

type_synonym run_step = "Run_action list \<Rightarrow> run_panic + Run_action list"

definition run_action :: "bool \<Rightarrow> run_panic \<Rightarrow> Run_action \<Rightarrow> run_step" where
  "run_action ok e a as = (if ok then Inr (as @ [a]) else Inl e)"

definition mode_777 :: nat where
  "mode_777 = 7 * 64 + 7 * 8 + 7"

text \<open>Three sockets; everybody may connect to the control socket.\<close>

definition bind_sockets :: "Run_env \<Rightarrow> string \<Rightarrow> run_step" where
  "bind_sockets e tmp as =
     (let monitor = path_join tmp ''monitor.sock''; clientpipe = path_join tmp ''clientpipe.sock'';
          control = path_join tmp ''control.sock'' in
      and_then (run_action (re_bind_ok e monitor) (Bind_failed monitor) (Bind_socket monitor) as) (\<lambda>as.
      and_then (run_action (re_bind_ok e clientpipe) (Bind_failed clientpipe) (Bind_socket clientpipe) as) (\<lambda>as.
      and_then (run_action (re_bind_ok e control) (Bind_failed control) (Bind_socket control) as) (\<lambda>as.
      run_action (re_chmod_ok e) Chmod_failed (Set_mode control mode_777) as))))"

definition boot ::
    "Run_env \<Rightarrow> Config \<Rightarrow> string \<Rightarrow> string \<Rightarrow> bool \<Rightarrow> run_step" where
  "boot e cfg tmp data enable_gui as =
     (let monitor = path_join tmp ''monitor.sock''; clientpipe = path_join tmp ''clientpipe.sock'' in
      and_then (run_action (re_create_dir_ok e) Create_dir_failed (Create_dir tmp) (as @ [Remove_dir_all tmp])) (\<lambda>as.
      and_then (bind_sockets e tmp as) (\<lambda>as.
      and_then (case qemu_run (re_host e) cfg tmp data clientpipe monitor enable_gui of
                  Inl p \<Rightarrow> Inl (Qemu_panicked p)
                | Inr c \<Rightarrow> Inr (as @ [Spawn_qemu c])) (\<lambda>as.
      and_then (run_action (re_accept_ok e monitor) (Accept_failed monitor) (Accept_socket monitor) as) (\<lambda>as.
      and_then (run_action (re_accept_ok e clientpipe) (Accept_failed clientpipe) (Accept_socket clientpipe) as) (\<lambda>as.
      run_action (re_clipboard_ok e) Clipboard_failed Main_loop (as @ [Notify False ''Booting ...''])))))))"

text \<open>\<^verbatim>\<open>select2\<close>: the joined futures never end cleanly; after an error QEMU is waited for.\<close>

fun main_loop :: "Main_end \<Rightarrow> run_panic + unit" where
  "main_loop (Qemu_first True) = Inr ()"
| "main_loop (Qemu_first False) = Inl Qemu_wait_failed"
| "main_loop (Joined_first True qemu) = Inl Clean_end_reached"
| "main_loop (Joined_first False True) = Inr ()"
| "main_loop (Joined_first False False) = Inl Qemu_wait_failed"

text \<open>
  \<^verbatim>\<open>join_all\<close>: an error of one future is the error of all; it ends without one when all have.
  \<open>None\<close> is a future that still runs.
\<close>

definition join_all :: "bool option list \<Rightarrow> bool option" where
  "join_all fs =
     (if Some False \<in> set fs then Some False
      else if list_all (\<lambda>f. f = Some True) fs then Some True
      else None)"

definition unbind_vfio :: "Run_env \<Rightarrow> string \<Rightarrow> VfioDevice \<Rightarrow> run_step" where
  "unbind_vfio e data dev =
     run_action (re_spawn_ok e (path_join data ''vfio-ubind'')) (Unbind_spawn_failed (vfio_slot dev))
       (Unbind_vfio (path_join data ''vfio-ubind'') (vfio_slot dev))"

definition run ::
    "Run_env \<Rightarrow> Config \<Rightarrow> string \<Rightarrow> string \<Rightarrow> bool \<Rightarrow> Main_end \<Rightarrow> run_panic + Run_action list" where
  "run e cfg tmp data enable_gui ending =
     (if re_connect e = Connected then Inr []
      else
        and_then (boot e cfg tmp data enable_gui []) (\<lambda>as.
        and_then (main_loop ending) (\<lambda>_.
        for_each_res (unbind_vfio e data)
          (filter vfio_resettable (mc_pci_devices (cfg_machine cfg))) as)))"

subsection \<open>What run does\<close>

lemma second_instance_idle: "re_connect e = Connected \<Longrightarrow> run e cfg tmp data gui ending = Inr []"
  by (simp add: run_def)

text \<open>The control socket's listener never ends, so the joined futures end with an error only.\<close>

lemma join_all_not_clean: "None \<in> set fs \<Longrightarrow> join_all fs \<noteq> Some True"
  by (auto simp: join_all_def list_all_iff)

lemma main_loop_ends:
  "None \<in> set fs \<Longrightarrow> join_all fs = Some ok \<Longrightarrow> main_loop (Joined_first ok True) = Inr ()"
  by (cases ok) (auto dest: join_all_not_clean)

lemma run_action_Inr: "run_action ok e a as = Inr bs \<longleftrightarrow> ok \<and> bs = as @ [a]"
  by (auto simp: run_action_def)

lemma unbind_all:
  "for_each_res (unbind_vfio e data) ds as = Inr bs \<Longrightarrow>
     bs = as @ map (\<lambda>d. Unbind_vfio (path_join data ''vfio-ubind'') (vfio_slot d)) ds"
  by (induction ds arbitrary: as) (fastforce simp: unbind_vfio_def run_action_Inr res_simps)+

text \<open>
  QEMU is started when its two sockets are bound and before the driver waits for it to connect, and
  exactly the resettable devices are given back when the main loop has ended, in their order.
\<close>

lemma run_order:
  assumes "run e cfg tmp data gui ending = Inr as" and "re_connect e \<noteq> Connected"
  shows "\<exists>c. qemu_run (re_host e) cfg tmp data (path_join tmp ''clientpipe.sock'') (path_join tmp ''monitor.sock'') gui = Inr c \<and>
    as = [Remove_dir_all tmp, Create_dir tmp, Bind_socket (path_join tmp ''monitor.sock''),
      Bind_socket (path_join tmp ''clientpipe.sock''), Bind_socket (path_join tmp ''control.sock''),
      Set_mode (path_join tmp ''control.sock'') mode_777, Spawn_qemu c,
      Accept_socket (path_join tmp ''monitor.sock''), Accept_socket (path_join tmp ''clientpipe.sock''),
      Notify False ''Booting ...'', Main_loop] @
      map (\<lambda>d. Unbind_vfio (path_join data ''vfio-ubind'') (vfio_slot d))
        (filter vfio_resettable (mc_pci_devices (cfg_machine cfg)))"
proof -
  from assms obtain bs where b: "boot e cfg tmp data gui [] = Inr bs" and
    as: "as = bs @ map (\<lambda>d. Unbind_vfio (path_join data ''vfio-ubind'') (vfio_slot d))
        (filter vfio_resettable (mc_pci_devices (cfg_machine cfg)))"
    by (auto simp: run_def res_simps dest: unbind_all)
  from b obtain c where
    "qemu_run (re_host e) cfg tmp data (path_join tmp ''clientpipe.sock'') (path_join tmp ''monitor.sock'') gui = Inr c"
    "bs = [Remove_dir_all tmp, Create_dir tmp, Bind_socket (path_join tmp ''monitor.sock''),
      Bind_socket (path_join tmp ''clientpipe.sock''), Bind_socket (path_join tmp ''control.sock''),
      Set_mode (path_join tmp ''control.sock'') mode_777, Spawn_qemu c,
      Accept_socket (path_join tmp ''monitor.sock''), Accept_socket (path_join tmp ''clientpipe.sock''),
      Notify False ''Booting ...'', Main_loop]"
    by (auto simp: boot_def bind_sockets_def Let_def res_simps run_action_Inr split: sum.split_asm)
  with as show ?thesis by simp
qed

end
