(* ===== verification/Cli.thy ===== *)
theory Cli
  imports Qemu_Args Control_Codec
begin

text \<open>
  The command line tool, \<^verbatim>\<open>windows-gaming/src/main.rs\<close>: which request a command sends to a running
  driver, where the two meet, and what \<^verbatim>\<open>backup start\<close> and \<^verbatim>\<open>backup stop\<close> do themselves when no
  driver runs. The argument parser, the socket and \<^verbatim>\<open>qemu-img\<close> are parameters.
\<close>

subsection \<open>Commands and requests\<close>

text \<open>The parsed command; the flags of \<^verbatim>\<open>attach\<close> are try, force and light.\<close>

datatype Cli_command =
    Cli_run bool
  | Cli_wizard
  | Cli_attach bool bool bool
  | Cli_detach
  | Cli_shutdown
  | Cli_suspend
  | Cli_backup_start
  | Cli_backup_stop
  | Cli_none

fun control_command :: "Cli_command \<Rightarrow> ControlCmdIn option" where
  "control_command (Cli_attach tries force light) =
     Some (if tries then Ctl_TryIoEntry else if force then Ctl_ForceIoEntry
           else if light then Ctl_LightEntry else Ctl_IoEntry)"
| "control_command Cli_detach = Some Ctl_IoExit"
| "control_command Cli_shutdown = Some Ctl_Shutdown"
| "control_command Cli_suspend = Some Ctl_Suspend"
| "control_command Cli_backup_start = Some Ctl_EnterBackupMode"
| "control_command Cli_backup_stop = Some Ctl_LeaveBackupMode"
| "control_command _ = None"

text \<open>
  Connecting: refused or not found, any other error, or a peer that will answer these bytes before
  it closes.
\<close>

datatype Connect =
    Nobody_there
  | Connect_failed
  | Connected "u8 list"

datatype cli_panic =
    Cannot_connect
  | Unimplemented
  | Bad_ack
  | Windows_down
  | Qemu_img_missing
  | Qemu_img_failed
  | Delete_failed

text \<open>\<^verbatim>\<open>control_send_fallible\<close>: whether somebody was there, and the bytes written.\<close>

definition control_send_fallible :: "ControlCmdIn \<Rightarrow> Connect \<Rightarrow> cli_panic + bool \<times> u8 list" where
  "control_send_fallible cmd conn =
     (case conn of
        Nobody_there \<Rightarrow> Inr (False, [])
      | Connect_failed \<Rightarrow> Inl Cannot_connect
      | Connected answer \<Rightarrow>
          (case control_request_byte cmd of
             None \<Rightarrow> Inl Unimplemented
           | Some b \<Rightarrow>
               if control_waits_for_ack cmd \<and> control_read_ack answer = None then Inl Bad_ack
               else Inr (True, [b])))"

definition control_send :: "ControlCmdIn \<Rightarrow> Connect \<Rightarrow> cli_panic + u8 list" where
  "control_send cmd conn =
     and_then (control_send_fallible cmd conn) (\<lambda>(there, bytes). if there then Inr bytes else Inl Windows_down)"

subsection \<open>Where the driver and the client meet\<close>

datatype RunMode = System | User

text \<open>
  The runtime directory of the user's session is a parameter. The driver puts its socket into its
  working directory, the client looks into the session's.
\<close>

definition workdir_path :: "RunMode \<Rightarrow> string \<Rightarrow> Config option \<Rightarrow> string" where
  "workdir_path mode xdg_runtime cfg =
     (case Option.bind cfg cfg_runtime_directory_override of
        Some x \<Rightarrow> x
      | None \<Rightarrow> (case mode of System \<Rightarrow> ''/run/windows-gaming-driver'' | User \<Rightarrow> xdg_runtime))"

definition data_folder :: "Config option \<Rightarrow> string" where
  "data_folder cfg =
     (case Option.bind cfg cfg_data_directory_override of
        Some x \<Rightarrow> x | None \<Rightarrow> ''/usr/lib/windows-gaming'')"

definition config_path :: "RunMode \<Rightarrow> string option \<Rightarrow> string \<Rightarrow> string" where
  "config_path mode arg xdg_config =
     (case arg of
        Some x \<Rightarrow> x
      | None \<Rightarrow> (case mode of System \<Rightarrow> ''/etc/windows-gaming-driver.toml'' | User \<Rightarrow> path_join xdg_config ''config''))"

definition client_socket :: "string \<Rightarrow> string" where
  "client_socket xdg_runtime = path_join xdg_runtime ''control.sock''"

definition driver_socket :: "RunMode \<Rightarrow> string \<Rightarrow> Config option \<Rightarrow> string" where
  "driver_socket mode xdg_runtime cfg = path_join (workdir_path mode xdg_runtime cfg) ''control.sock''"

subsection \<open>Backups without a driver\<close>

text \<open>
  \<^verbatim>\<open>qemu-img\<close> with its arguments: the files that exist after it and whether it succeeded, or \<open>None\<close>
  when it cannot be started; and whether a file can be deleted.
\<close>

record QemuImg =
  qi_run :: "string list \<Rightarrow> string set \<Rightarrow> (bool \<times> string set) option"
  qi_delete_ok :: "string \<Rightarrow> string set \<Rightarrow> bool"

definition qemu_img :: "QemuImg \<Rightarrow> string list \<Rightarrow> string set \<Rightarrow> cli_panic + string set" where
  "qemu_img qi xs files =
     (case qi_run qi xs files of
        None \<Rightarrow> Inl Qemu_img_missing
      | Some (success, files) \<Rightarrow> if success then Inr files else Inl Qemu_img_failed)"

text \<open>The iterators are lazy: whether a file exists is asked when its disk's turn comes.\<close>

definition offline_snapshot :: "QemuImg \<Rightarrow> StorageDevice \<Rightarrow> string set \<Rightarrow> cli_panic + string set" where
  "offline_snapshot qi d files =
     (case sto_snapshot_file d of
        None \<Rightarrow> Inr files
      | Some snap \<Rightarrow>
          if snap \<in> files then Inr files
          else qemu_img qi [''create'', ''-f'', ''qcow2'', ''-b'', sto_path d, ''-F'', sto_format d, snap] files)"

definition offline_backup_start :: "QemuImg \<Rightarrow> MachineConfig \<Rightarrow> string set \<Rightarrow> cli_panic + string set" where
  "offline_backup_start qi machine = for_each_res (offline_snapshot qi) (mc_storage machine)"

definition offline_commit :: "QemuImg \<Rightarrow> StorageDevice \<Rightarrow> string set \<Rightarrow> cli_panic + string set" where
  "offline_commit qi d files =
     (case sto_snapshot_file d of
        None \<Rightarrow> Inr files
      | Some snap \<Rightarrow>
          if snap \<notin> files then Inr files
          else
            and_then (qemu_img qi [''commit'', ''-d'', snap] files) (\<lambda>files.
              if qi_delete_ok qi snap files then Inr (files - {snap}) else Inl Delete_failed))"

definition offline_backup_stop :: "QemuImg \<Rightarrow> MachineConfig \<Rightarrow> string set \<Rightarrow> cli_panic + string set" where
  "offline_backup_stop qi machine = for_each_res (offline_commit qi) (mc_storage machine)"

definition backup_command ::
    "(QemuImg \<Rightarrow> MachineConfig \<Rightarrow> string set \<Rightarrow> cli_panic + string set) \<Rightarrow> ControlCmdIn \<Rightarrow>
      QemuImg \<Rightarrow> MachineConfig \<Rightarrow> Connect \<Rightarrow> string set \<Rightarrow> cli_panic + string set" where
  "backup_command offline cmd qi machine conn files =
     and_then (control_send_fallible cmd conn) (\<lambda>(there, _).
       if there then Inr files else offline qi machine files)"

subsection \<open>Properties\<close>

text \<open>
  \<^verbatim>\<open>qemu-img create\<close> makes its last argument exist and \<^verbatim>\<open>qemu-img commit -d\<close> leaves the files there;
  both touch no other file.
\<close>

definition img_documented :: "QemuImg \<Rightarrow> bool" where
  "img_documented qi \<longleftrightarrow>
     (\<forall>path fmt snap files ok files'.
        qi_run qi [''create'', ''-f'', ''qcow2'', ''-b'', path, ''-F'', fmt, snap] files = Some (ok, files') \<and> ok \<longrightarrow>
          files' = insert snap files) \<and>
     (\<forall>snap files ok files'. qi_run qi [''commit'', ''-d'', snap] files = Some (ok, files') \<and> ok \<longrightarrow> files' = files)"

definition snapshot_files :: "MachineConfig \<Rightarrow> string set" where
  "snapshot_files machine = {f. \<exists>d\<in>set (mc_storage machine). sto_snapshot_file d = Some f}"

lemma offline_snapshot_files:
  assumes "offline_snapshot qi d files = Inr files'" and "img_documented qi"
  shows "files' = files \<union> set_option (sto_snapshot_file d)"
proof (cases "sto_snapshot_file d")
  case (Some snap)
  show ?thesis
  proof (cases "snap \<in> files")
    case True
    with assms(1) Some show ?thesis by (auto simp: offline_snapshot_def)
  next
    case False
    with assms(1) Some have "qi_run qi [''create'', ''-f'', ''qcow2'', ''-b'', sto_path d, ''-F'', sto_format d, snap] files =
        Some (True, files')"
      by (auto simp: offline_snapshot_def qemu_img_def split: option.splits prod.splits if_splits)
    with assms(2) have "files' = insert snap files" unfolding img_documented_def by blast
    with Some show ?thesis by simp
  qed
qed (use assms(1) in \<open>simp add: offline_snapshot_def\<close>)

lemma offline_commit_files:
  assumes "offline_commit qi d files = Inr files'" and "img_documented qi"
  shows "files' = files - set_option (sto_snapshot_file d)"
proof (cases "sto_snapshot_file d")
  case (Some snap)
  show ?thesis
  proof (cases "snap \<in> files")
    case False
    with assms(1) Some show ?thesis by (auto simp: offline_commit_def)
  next
    case True
    with assms(1) Some obtain files1 where 1: "qi_run qi [''commit'', ''-d'', snap] files = Some (True, files1)"
        "files' = files1 - {snap}"
      by (auto simp: offline_commit_def qemu_img_def res_simps split: option.splits prod.splits if_splits)
    from 1(1) assms(2) have "files1 = files" unfolding img_documented_def by blast
    with 1(2) Some show ?thesis by simp
  qed
qed (use assms(1) in \<open>simp add: offline_commit_def\<close>)

lemma offline_start_files:
  "for_each_res (offline_snapshot qi) ds files = Inr files' \<Longrightarrow> img_documented qi \<Longrightarrow>
     files' = files \<union> {f. \<exists>d\<in>set ds. sto_snapshot_file d = Some f}"
proof (induction ds arbitrary: files)
  case (Cons d ds)
  then obtain files1 where 1: "offline_snapshot qi d files = Inr files1"
      "for_each_res (offline_snapshot qi) ds files1 = Inr files'"
    by (auto simp: res_simps)
  from offline_snapshot_files [OF 1(1) Cons.prems(2)] Cons.IH [OF 1(2) Cons.prems(2)]
  show ?case by (cases "sto_snapshot_file d") auto
qed simp

lemma offline_stop_files:
  "for_each_res (offline_commit qi) ds files = Inr files' \<Longrightarrow> img_documented qi \<Longrightarrow>
     files' = files - {f. \<exists>d\<in>set ds. sto_snapshot_file d = Some f}"
proof (induction ds arbitrary: files)
  case (Cons d ds)
  then obtain files1 where 1: "offline_commit qi d files = Inr files1"
      "for_each_res (offline_commit qi) ds files1 = Inr files'"
    by (auto simp: res_simps)
  from offline_commit_files [OF 1(1) Cons.prems(2)] Cons.IH [OF 1(2) Cons.prems(2)]
  show ?case by (cases "sto_snapshot_file d") auto
qed simp


definition demo_img :: QemuImg where
  "demo_img =
     \<lparr>qi_run = (\<lambda>xs files. if xs \<noteq> [] \<and> hd xs = ''create'' then Some (True, insert (last xs) files)
                else Some (True, files)),
      qi_delete_ok = (\<lambda>_ _. True)\<rparr>"

lemma demo_img_documented: "img_documented demo_img"
  by (simp add: img_documented_def demo_img_def)

definition demo_disks :: MachineConfig where
  "demo_disks =
     \<lparr>mc_cpu = None, mc_memory = ''8G'', mc_hugepages = None, mc_cores = 4, mc_threads = None,
      mc_light_mouse_speed = 0, mc_pci_devices = [], mc_network = None,
      mc_storage = [\<lparr>sto_path = ''/dev/sda'', sto_cache = ''none'', sto_format = ''raw'', sto_snapshot_file = Some ''a''\<rparr>,
        \<lparr>sto_path = ''/dev/sdb'', sto_cache = ''none'', sto_format = ''raw'', sto_snapshot_file = None\<rparr>],
      mc_usb_devices = [], mc_hotkeys = []\<rparr>"


text \<open>
  With a runtime directory in the configuration, or as the system user, the driver's socket is
  not where the client looks for it: every control command ends in \<^verbatim>\<open>Windows is down\<close>, and
  \<^verbatim>\<open>backup\<close> takes the disks of a running machine for those of one that is off.
\<close>

lemma client_misses_driver:
  assumes "workdir_path mode xdg_runtime cfg \<noteq> xdg_runtime"
    and "xdg_runtime \<noteq> []" and "last xdg_runtime \<noteq> CHR ''/''"
    and "workdir_path mode xdg_runtime cfg \<noteq> []" and "last (workdir_path mode xdg_runtime cfg) \<noteq> CHR ''/''"
  shows "driver_socket mode xdg_runtime cfg \<noteq> client_socket xdg_runtime"
  using assms by (simp add: driver_socket_def client_socket_def path_join_def)

lemma client_misses_driver_witness:
  "driver_socket System ''/run/user/0/windows-gaming-driver'' None \<noteq>
     client_socket ''/run/user/0/windows-gaming-driver''"
  by (rule client_misses_driver) (simp_all add: workdir_path_def)

end
